(* ===== verification/Am_Prelude.thy ===== *)
theory Am_Prelude
  imports Main "HOL-Library.Word"
begin

text \<open>
  Prelude of the development: the vocabulary every component shares.

  \<^item> \<open>fault\<close> and \<open>'a res\<close>: what the C code does when it leaves defined behaviour
    or aborts (a write past a buffer, a NULL dereference, a failed \<open>assert\<close>).  A fault is
    a value of the model, so that absence of faults is a theorem and not an assumption.
  \<^item> fixed-width integers: \<open>uint w\<close> and \<open>sint w\<close> conversions of C written out on \<open>int\<close>
    and \<open>nat\<close>.
  \<^item> the parts of \<open>ctype.h\<close>, \<open>string.h\<close>, \<open>stdlib.h\<close> and \<open>stdio.h\<close> the program
    calls, on \<open>string\<close> (lists of 8-bit characters, the terminating NUL left out).
    A \<open>char *\<close> that may be NULL is a \<open>string option\<close>.  The program never calls
    \<open>setlocale\<close>, so the classifications are those of the C locale.
\<close>

section \<open>Collections of facts\<close>

named_theorems c_eval \<open>definitions that evaluate on closed arguments\<close>
named_theorems c_bounds \<open>length and range facts\<close>

section \<open>Faults\<close>

datatype fault =
    Hang             \<comment> \<open>a loop that never ends\<close>
  | BufferOverflow   \<comment> \<open>a write past the end of an array\<close>
  | OutOfBounds      \<comment> \<open>a read past the end of an array\<close>
  | NullDeref
  | AssertFail
  | Abort
  | Uninitialised    \<comment> \<open>a read of memory that was never written\<close>
  | IntOverflow      \<comment> \<open>signed arithmetic out of range\<close>
  | BadFree          \<comment> \<open>a release of what is not allocated\<close>
  | BadFormat        \<comment> \<open>a \<open>printf\<close> argument that does not match its conversion\<close>

type_synonym 'a res = "fault + 'a"

definition bindR :: "'a res \<Rightarrow> ('a \<Rightarrow> 'b res) \<Rightarrow> 'b res" where
  "bindR m f = (case m of Inl e \<Rightarrow> Inl e | Inr x \<Rightarrow> f x)"

lemma bindR_simps [simp]:
  "bindR (Inl e) f = Inl e"
  "bindR (Inr x) f = f x"
  by (simp_all add: bindR_def)

lemma bindR_Inr_iff: "bindR m f = Inr y \<longleftrightarrow> (\<exists>x. m = Inr x \<and> f x = Inr y)"
  by (cases m) simp_all

lemma bindR_Inl_iff: "bindR m f = Inl e \<longleftrightarrow> m = Inl e \<or> (\<exists>x. m = Inr x \<and> f x = Inl e)"
  by (cases m) simp_all

lemma bindR_assoc: "bindR (bindR m f) g = bindR m (\<lambda>x. bindR (f x) g)"
  by (cases m) simp_all

lemma bindR_cong [fundef_cong]:
  assumes "m = m'" and "\<And>x. m' = Inr x \<Longrightarrow> f x = f' x"
  shows "bindR m f = bindR m' f'"
  using assms by (cases m') simp_all

text \<open>
  Total correctness: the computation ends in defined behaviour and its result satisfies \<open>Q\<close>.  The
  rules follow the shape of the program, as those of a Hoare logic do.
\<close>

definition returns :: "'a res \<Rightarrow> ('a \<Rightarrow> bool) \<Rightarrow> bool" where
  "returns m Q \<longleftrightarrow> (\<exists>y. m = Inr y \<and> Q y)"

lemma returns_Inr [simp]: "returns (Inr y) Q \<longleftrightarrow> Q y"
  by (simp add: returns_def)

lemma returns_Inl [simp]: "\<not> returns (Inl e) Q"
  by (simp add: returns_def)

lemma returns_bind: "returns m P \<Longrightarrow> (\<And>y. P y \<Longrightarrow> returns (f y) Q) \<Longrightarrow> returns (bindR m f) Q"
  by (auto simp: returns_def)

lemma returns_weaken: "returns m P \<Longrightarrow> (\<And>y. P y \<Longrightarrow> Q y) \<Longrightarrow> returns m Q"
  by (auto simp: returns_def)

lemma returns_if: "(c \<Longrightarrow> returns a Q) \<Longrightarrow> (\<not> c \<Longrightarrow> returns b Q) \<Longrightarrow> returns (if c then a else b) Q"
  by simp

lemma returns_option:
  "(z = None \<Longrightarrow> returns a Q) \<Longrightarrow> (\<And>y. z = Some y \<Longrightarrow> returns (g y) Q) \<Longrightarrow>
   returns (case z of None \<Rightarrow> a | Some y \<Rightarrow> g y) Q"
  by (cases z) simp_all

lemma returns_obtain:
  assumes "returns m Q"
  obtains y where "m = Inr y" "Q y"
  using assms by (auto simp: returns_def)

section \<open>Fixed-width integers\<close>

text \<open>
  \<open>wrap_u w x\<close> is the conversion of \<open>x\<close> to an unsigned type of \<open>w\<close> bits,
  \<open>wrap_s w x\<close> to a signed one (two's complement, as gcc and clang define it).
\<close>

definition wrap_u :: "nat \<Rightarrow> int \<Rightarrow> int" where
  "wrap_u w x = x mod 2 ^ w"

definition wrap_s :: "nat \<Rightarrow> int \<Rightarrow> int" where
  "wrap_s w x = (x + 2 ^ (w - 1)) mod 2 ^ w - 2 ^ (w - 1)"

lemmas wrap_defs [c_eval] = wrap_u_def wrap_s_def

lemma wrap_u_range [c_bounds]: "0 \<le> wrap_u w x" "wrap_u w x < 2 ^ w"
  by (simp_all add: wrap_u_def)

lemma wrap_u_id: "0 \<le> x \<Longrightarrow> x < 2 ^ w \<Longrightarrow> wrap_u w x = x"
  by (simp add: wrap_u_def)

lemma wrap_s_range [c_bounds]:
  assumes "0 < w"
  shows "- (2 ^ (w - 1)) \<le> wrap_s w x" "wrap_s w x < 2 ^ (w - 1)"
proof -
  have "(2::int) ^ w = 2 * 2 ^ (w - 1)"
    using assms by (cases w) simp_all
  moreover have "0 \<le> (x + 2 ^ (w - 1)) mod 2 ^ w" "(x + 2 ^ (w - 1)) mod 2 ^ w < 2 ^ w"
    by simp_all
  ultimately show "- (2 ^ (w - 1)) \<le> wrap_s w x" "wrap_s w x < 2 ^ (w - 1)"
    by (simp_all add: wrap_s_def)
qed

lemma wrap_s_id:
  assumes "0 < w" "- (2 ^ (w - 1)) \<le> x" "x < 2 ^ (w - 1)"
  shows "wrap_s w x = x"
proof -
  have "(2::int) ^ w = 2 * 2 ^ (w - 1)"
    using assms(1) by (cases w) simp_all
  then show ?thesis using assms by (simp add: wrap_s_def)
qed

section \<open>Characters\<close>

definition code :: "char \<Rightarrow> nat" where
  "code c = of_char c"

definition NUL :: char where "NUL = CHR 0x00"
definition NL :: char where "NL = CHR 0x0A"
definition CR :: char where "CR = CHR 0x0D"
definition TAB :: char where "TAB = CHR 0x09"
definition DQ :: char where "DQ = CHR 0x22"
definition SQ :: char where "SQ = CHR 0x27"
definition BSL :: char where "BSL = CHR 0x5C"

lemmas char_defs [c_eval] = code_def NUL_def NL_def CR_def TAB_def DQ_def SQ_def BSL_def

lemma code_less: "code c < 256"
  by (simp add: code_def)

lemma code_inj: "code c = code d \<longleftrightarrow> c = d"
  by (simp add: code_def)

text \<open>\<open>ctype.h\<close> in the C locale; bytes above 127 belong to no class.\<close>

definition isspace :: "char \<Rightarrow> bool" where
  "isspace c \<longleftrightarrow> code c = 32 \<or> 9 \<le> code c \<and> code c \<le> 13"

definition isdigit :: "char \<Rightarrow> bool" where
  "isdigit c \<longleftrightarrow> 48 \<le> code c \<and> code c \<le> 57"

definition isupper :: "char \<Rightarrow> bool" where
  "isupper c \<longleftrightarrow> 65 \<le> code c \<and> code c \<le> 90"

definition islower :: "char \<Rightarrow> bool" where
  "islower c \<longleftrightarrow> 97 \<le> code c \<and> code c \<le> 122"

definition isalnum :: "char \<Rightarrow> bool" where
  "isalnum c \<longleftrightarrow> isdigit c \<or> isupper c \<or> islower c"

definition isprint :: "char \<Rightarrow> bool" where
  "isprint c \<longleftrightarrow> 32 \<le> code c \<and> code c \<le> 126"

definition tolower :: "char \<Rightarrow> char" where
  "tolower c = (if isupper c then char_of (code c + 32) else c)"

lemmas ctype_defs [c_eval] =
  isspace_def isdigit_def isupper_def islower_def isalnum_def isprint_def tolower_def

lemma isspace_NUL [simp]: "\<not> isspace NUL"
  by (simp add: isspace_def code_def NUL_def)

lemma isprint_not_NUL: "isprint c \<Longrightarrow> c \<noteq> NUL"
  by (auto simp: isprint_def code_def NUL_def)

lemma isdigit_not_space: "isdigit c \<Longrightarrow> \<not> isspace c"
  by (auto simp: isdigit_def isspace_def)

section \<open>Strings\<close>

text \<open>
  \<open>strcmp\<close>, \<open>strncmp\<close> and \<open>strcasecmp\<close> are only ever compared with 0, so the model
  keeps that test.  On strings without NUL, \<open>strncmp(s, t, n) == 0\<close> says that the
  first \<open>n\<close> characters agree, the terminator of a shorter string included.
\<close>

definition strncmp_eq :: "nat \<Rightarrow> string \<Rightarrow> string \<Rightarrow> bool" where
  "strncmp_eq n s t \<longleftrightarrow> take n s = take n t"

definition strcasecmp_eq :: "string \<Rightarrow> string \<Rightarrow> bool" where
  "strcasecmp_eq s t \<longleftrightarrow> map tolower s = map tolower t"

definition starts_with :: "string \<Rightarrow> string \<Rightarrow> bool" where
  "starts_with p s \<longleftrightarrow> take (length p) s = p"

lemmas cmp_defs [c_eval] = strncmp_eq_def strcasecmp_eq_def starts_with_def

lemma starts_with_iff: "starts_with p s \<longleftrightarrow> (\<exists>r. s = p @ r)"
  by (metis append_eq_conv_conj starts_with_def append_take_drop_id)

lemma starts_with_length: "starts_with p s \<Longrightarrow> length p \<le> length s"
  by (auto simp: starts_with_iff)

lemma strncmp_eq_prefix: "strncmp_eq (length p) s p \<longleftrightarrow> starts_with p s"
  by (simp add: strncmp_eq_def starts_with_def)

text \<open>\<open>strstr\<close>: whether, and at which offset, the pattern occurs first.\<close>

fun strstr :: "string \<Rightarrow> string \<Rightarrow> nat option" where
  "strstr [] p = (if p = [] then Some 0 else None)"
| "strstr (c # s) p =
     (if starts_with p (c # s) then Some 0 else map_option Suc (strstr s p))"

lemma strstr_None: "p \<noteq> [] \<Longrightarrow> strstr s p = None \<longleftrightarrow> (\<forall>i. \<not> starts_with p (drop i s))"
proof (induction s)
  case Nil
  then show ?case by (auto simp: starts_with_def)
next
  case (Cons c s)
  have "(\<forall>i. \<not> starts_with p (drop i (c # s))) \<longleftrightarrow>
      \<not> starts_with p (c # s) \<and> (\<forall>i. \<not> starts_with p (drop i s))"
    by (metis drop0 drop_Suc_Cons not0_implies_Suc)
  with Cons show ?case by simp
qed

text \<open>A C string inside a byte buffer ends at the first NUL.\<close>

definition cstr :: "char list \<Rightarrow> string" where
  "cstr s = takeWhile (\<lambda>c. c \<noteq> NUL) s"

lemma cstr_id: "NUL \<notin> set s \<Longrightarrow> cstr s = s"
  unfolding cstr_def by (induction s) auto

lemma cstr_append_NUL: "NUL \<notin> set s \<Longrightarrow> cstr (s @ NUL # t) = s"
  unfolding cstr_def by (induction s) auto

lemma NUL_cstr [simp]: "NUL \<notin> set (cstr s)"
  unfolding cstr_def by (metis (mono_tags, lifting) set_takeWhileD)

text \<open>
  \<open>snprintf(buf, n, ...)\<close> returns the length of the whole text and stores its first
  \<open>n - 1\<close> characters.
\<close>

definition snprintf_buf :: "nat \<Rightarrow> string \<Rightarrow> string" where
  "snprintf_buf n s = take (n - 1) s"

lemma snprintf_buf_fits: "length s < n \<Longrightarrow> snprintf_buf n s = s"
  by (simp add: snprintf_buf_def)

lemma snprintf_buf_length [c_bounds]: "0 < n \<Longrightarrow> length (snprintf_buf n s) < n"
  by (cases n) (simp_all add: snprintf_buf_def)

section \<open>Numbers as text\<close>

definition digit_char :: "nat \<Rightarrow> char" where
  "digit_char d = char_of (48 + d)"

fun show_nat :: "nat \<Rightarrow> string" where
  "show_nat n = (if n < 10 then [digit_char n] else show_nat (n div 10) @ [digit_char (n mod 10)])"

declare show_nat.simps [simp del]

text \<open>\<open>%d\<close>\<close>

definition show_int :: "int \<Rightarrow> string" where
  "show_int i = (if i < 0 then CHR ''-'' # show_nat (nat (- i)) else show_nat (nat i))"

definition digit_val :: "char \<Rightarrow> nat" where
  "digit_val c = code c - 48"

fun digits_val :: "nat \<Rightarrow> string \<Rightarrow> nat" where
  "digits_val acc [] = acc"
| "digits_val acc (c # s) = digits_val (10 * acc + digit_val c) s"

text \<open>
  \<open>atoi\<close> as glibc has it: \<open>(int) strtol(s, NULL, 10)\<close>, where \<open>strtol\<close> skips white
  space, reads a sign and the longest run of digits, and saturates at the range of
  \<open>long\<close>; the cast keeps the low 32 bits.
\<close>

definition strtol :: "string \<Rightarrow> int" where
  "strtol s =
     (let s1 = dropWhile isspace s;
          neg = (s1 \<noteq> [] \<and> hd s1 = CHR ''-'');
          s2 = (if s1 \<noteq> [] \<and> (hd s1 = CHR ''-'' \<or> hd s1 = CHR ''+'') then tl s1 else s1);
          v = int (digits_val 0 (takeWhile isdigit s2))
      in if neg then max (- (2 ^ 63)) (- v) else min (2 ^ 63 - 1) v)"

definition atoi :: "string \<Rightarrow> int" where
  "atoi s = wrap_s 32 (strtol s)"

lemmas num_defs [c_eval] = digit_char_def show_int_def digit_val_def strtol_def atoi_def

lemma atoi_range [c_bounds]: "- (2 ^ 31) \<le> atoi s" "atoi s < 2 ^ 31"
  unfolding atoi_def using wrap_s_range [of 32 "strtol s"] by simp_all

lemma code_digit_char: "d < 10 \<Longrightarrow> code (digit_char d) = 48 + d"
  by (simp add: digit_char_def code_def)

lemma isdigit_digit_char: "d < 10 \<Longrightarrow> isdigit (digit_char d)"
  by (simp add: isdigit_def code_digit_char)

lemma digit_val_digit_char: "d < 10 \<Longrightarrow> digit_val (digit_char d) = d"
  by (simp add: digit_val_def code_digit_char)

lemma show_nat_digits: "c \<in> set (show_nat n) \<Longrightarrow> isdigit c"
proof (induction n rule: show_nat.induct)
  case (1 n)
  show ?case
  proof (cases "n < 10")
    case True
    with "1.prems" show ?thesis by (simp add: show_nat.simps [of n] isdigit_digit_char)
  next
    case False
    with "1.prems" have "c \<in> set (show_nat (n div 10)) \<or> c = digit_char (n mod 10)"
      by (auto simp: show_nat.simps [of n])
    with "1.IH" [OF False] show ?thesis by (auto simp: isdigit_digit_char)
  qed
qed

lemma show_nat_not_Nil [simp]: "show_nat n \<noteq> []"
  by (subst show_nat.simps) simp

lemma digits_val_append: "digits_val acc (s @ t) = digits_val (digits_val acc s) t"
  by (induction s arbitrary: acc) simp_all

lemma digits_val_show_nat: "digits_val 0 (show_nat n) = n"
proof (induction n rule: show_nat.induct)
  case (1 n)
  show ?case
  proof (cases "n < 10")
    case True
    then show ?thesis by (simp add: show_nat.simps [of n] digit_val_digit_char)
  next
    case False
    with "1.IH" [OF False] show ?thesis
      by (simp add: show_nat.simps [of n] digits_val_append digit_val_digit_char)
  qed
qed

text \<open>Reading back a printed number is the identity on the range of \<open>int\<close>.\<close>

lemma atoi_show_nat:
  assumes "n < 2 ^ 31"
  shows "atoi (show_nat n) = int n"
proof -
  obtain c s where cs: "show_nat n = c # s"
    by (cases "show_nat n") simp_all
  have all: "\<forall>x \<in> set (show_nat n). isdigit x"
    by (simp add: show_nat_digits)
  then have c: "isdigit c" by (simp add: cs)
  then have "c \<noteq> CHR ''-''" "c \<noteq> CHR ''+''" "\<not> isspace c"
    by (auto simp: isdigit_def isspace_def code_def)
  moreover have "takeWhile isdigit (show_nat n) = show_nat n"
    using all by (simp add: takeWhile_eq_all_conv)
  ultimately have "strtol (show_nat n) = min (2 ^ 63 - 1) (int n)"
    using digits_val_show_nat [of n] by (simp add: strtol_def cs)
  then have "strtol (show_nat n) = int n" using assms by simp
  then show ?thesis using assms by (simp add: atoi_def wrap_s_def)
qed

lemma show_nat_length_mono_aux: "n < 10 ^ k \<Longrightarrow> 0 < k \<Longrightarrow> length (show_nat n) \<le> k"
proof (induction n arbitrary: k rule: show_nat.induct)
  case (1 n)
  show ?case
  proof (cases "n < 10")
    case True
    with "1.prems" show ?thesis by (simp add: show_nat.simps [of n])
  next
    case False
    with "1.prems" obtain m where k: "k = Suc m" "0 < m"
      by (cases k; cases "k - 1") auto
    then have "n div 10 < 10 ^ m" using "1.prems" by (simp add: less_mult_imp_div_less)
    with "1.IH" [OF False, of m] k False show ?thesis
      by (simp add: show_nat.simps [of n])
  qed
qed

section \<open>Bytes\<close>

text \<open>A \<open>char\<close> as an \<open>unsigned char\<close> and back.\<close>

definition byte :: "char \<Rightarrow> 8 word" where
  "byte c = of_char c"

definition unbyte :: "8 word \<Rightarrow> char" where
  "unbyte w = char_of (unat w)"

lemma unbyte_byte [simp]: "unbyte (byte c) = c"
proof -
  have "unat (of_nat (code c) :: 8 word) = code c"
    by (simp add: unat_of_nat code_less)
  then have "unat (of_char c :: 8 word) = of_char c"
    by (simp only: code_def of_nat_of_char)
  then show ?thesis by (simp add: unbyte_def byte_def)
qed

lemma word8_eq_iff: "a = (b :: 8 word) \<longleftrightarrow> (\<forall>n<8. bit a n = bit b n)"
  by (auto intro: bit_word_eqI)

lemma all_less_8: "(\<forall>n<8. P n) \<longleftrightarrow> P 0 \<and> P 1 \<and> P 2 \<and> P 3 \<and> P 4 \<and> P 5 \<and> P 6 \<and> P (7::nat)"
  by (simp add: All_less_Suc eval_nat_numeral) auto

lemmas byte_bits = word8_eq_iff all_less_8 bit_simps numeral_2_eq_2 [symmetric] numeral_3_eq_3 [symmetric]

section \<open>Encodings\<close>

text \<open>
  The contract shared by the three encodings of the program (Base64, URL escapes, the state
  file): decoding gives back what was encoded, for the values of a domain.
\<close>

locale codec =
  fixes enc :: "'a \<Rightarrow> 'b"
    and dec :: "'b \<Rightarrow> 'a"
    and domain :: "'a set"
  assumes dec_enc: "x \<in> domain \<Longrightarrow> dec (enc x) = x"
begin

lemma enc_inj: "inj_on enc domain"
  by (rule inj_on_inverseI) (rule dec_enc)

lemma enc_eq_iff: "x \<in> domain \<Longrightarrow> y \<in> domain \<Longrightarrow> enc x = enc y \<longleftrightarrow> x = y"
  by (rule inj_on_eq_iff [OF enc_inj])

lemma dec_image: "dec ` enc ` domain = domain"
  by (force simp: image_image dec_enc)

end

section \<open>Step relations\<close>

text \<open>
  Reachable states of a machine with choice, and two contracts: a predicate every step keeps
  (\<open>machine\<close>), and a deterministic machine that runs down a measure until it stops
  (\<open>terminating\<close>).
\<close>

inductive reach :: "('s \<Rightarrow> bool) \<Rightarrow> ('s \<Rightarrow> 's \<Rightarrow> bool) \<Rightarrow> 's \<Rightarrow> bool" for start step where
  start: "start s \<Longrightarrow> reach start step s"
| more: "reach start step s \<Longrightarrow> step s t \<Longrightarrow> reach start step t"

locale machine =
  fixes start :: "'s \<Rightarrow> bool"
    and step :: "'s \<Rightarrow> 's \<Rightarrow> bool"
    and inv :: "'s \<Rightarrow> bool"
  assumes inv_start: "start s \<Longrightarrow> inv s"
    and inv_step: "step s t \<Longrightarrow> inv s \<Longrightarrow> inv t"
begin

lemma reach_inv: "reach start step s \<Longrightarrow> inv s"
  by (induction rule: reach.induct) (auto intro: inv_start inv_step)

end

text \<open>
  Simulation: every step of the first machine is answered by at most one step of the second one, so
  that what the first one reaches corresponds to something the second one reaches.
\<close>

locale simulation =
  fixes start1 :: "'s \<Rightarrow> bool" and step1 :: "'s \<Rightarrow> 's \<Rightarrow> bool"
    and start2 :: "'t \<Rightarrow> bool" and step2 :: "'t \<Rightarrow> 't \<Rightarrow> bool"
    and rel :: "'s \<Rightarrow> 't \<Rightarrow> bool"
  assumes sim_start: "start1 s \<Longrightarrow> \<exists>t. start2 t \<and> rel s t"
    and sim_step: "step1 s s' \<Longrightarrow> rel s t \<Longrightarrow> rel s' t \<or> (\<exists>t'. step2 t t' \<and> rel s' t')"
begin

lemma simulated: "reach start1 step1 s \<Longrightarrow> \<exists>t. reach start2 step2 t \<and> rel s t"
proof (induction rule: reach.induct)
  case (start s)
  then show ?case using sim_start reach.start by metis
next
  case (more s s')
  then obtain t where t: "reach start2 step2 t" "rel s t" by blast
  from sim_step [OF more.hyps(2) t(2)] show ?case
  proof
    assume "rel s' t"
    with t(1) show ?thesis by blast
  next
    assume "\<exists>t'. step2 t t' \<and> rel s' t'"
    with t(1) show ?thesis using reach.more by metis
  qed
qed

end

primrec iterate :: "('s \<Rightarrow> 's res) \<Rightarrow> nat \<Rightarrow> 's \<Rightarrow> 's res" where
  "iterate f 0 s = Inr s"
| "iterate f (Suc n) s = bindR (f s) (iterate f n)"

locale terminating =
  fixes run :: "'s \<Rightarrow> 's res"
    and stop :: "'s \<Rightarrow> bool"
    and good :: "'s \<Rightarrow> bool"
    and left :: "'s \<Rightarrow> nat"
  assumes run_left: "good s \<Longrightarrow> \<not> stop s \<Longrightarrow> run s = Inr t \<Longrightarrow> good t \<and> left t < left s"
    and left_pos: "good s \<Longrightarrow> \<not> stop s \<Longrightarrow> 0 < left s"
    and run_stop: "stop s \<Longrightarrow> run s = Inr s"
begin

lemma iterate_stop: "stop s \<Longrightarrow> iterate run n s = Inr s"
  by (induction n) (simp_all add: run_stop)

lemma iterate_ends:
  "good s \<Longrightarrow> left s \<le> n \<Longrightarrow> iterate run n s = Inr t \<Longrightarrow> stop t"
proof (induction n arbitrary: s)
  case 0
  with left_pos [of s] show ?case by auto
next
  case (Suc n)
  show ?case
  proof (cases "stop s")
    case True
    with Suc.prems(3) iterate_stop [of s "Suc n"] show ?thesis by simp
  next
    case False
    from Suc.prems(3) obtain u where u: "run s = Inr u" "iterate run n u = Inr t"
      by (auto simp: bindR_Inr_iff)
    from run_left [OF Suc.prems(1) False u(1)] Suc.prems(2) have "good u" "left u \<le> n" by simp_all
    then show ?thesis using u(2) by (rule Suc.IH)
  qed
qed

end

text \<open>A machine that in addition never leaves defined behaviour reaches its end.\<close>

locale total_machine = terminating run stop good left
  for run :: "'s \<Rightarrow> 's res" and stop good :: "'s \<Rightarrow> bool" and left :: "'s \<Rightarrow> nat" +
  assumes run_returns: "good s \<Longrightarrow> \<not> stop s \<Longrightarrow> returns (run s) (\<lambda>_. True)"
begin

lemma iterate_reaches: "good s \<Longrightarrow> left s \<le> n \<Longrightarrow> returns (iterate run n s) stop"
proof (induction n arbitrary: s)
  case 0
  with left_pos [of s] show ?case by auto
next
  case (Suc n)
  show ?case
  proof (cases "stop s")
    case True
    then show ?thesis by (simp add: iterate_stop del: iterate.simps)
  next
    case False
    with run_returns [OF Suc.prems(1)] obtain u where u: "run s = Inr u" by (auto simp: returns_def)
    from run_left [OF Suc.prems(1) False u] Suc.prems(2) Suc.IH [of u] u show ?thesis by simp
  qed
qed

end

end
