(* ===== verification/Am_List.thy ===== *)
theory Am_List
  imports Am_Prelude "HOL-Library.Monad_Syntax"
begin

text \<open>
  \<^verbatim>\<open>src/list.c\<close>: the singly linked lists every other component stores its data in.

  The C functions mutate nodes in place, so they are modelled on an explicit store:
  \<open>cells\<close> maps the addresses of live nodes to nodes, \<open>brk\<close> is the next address
  \<open>am_malloc\<close> hands out, and \<open>released\<close> records the data elements given to
  \<open>freeFunc\<close> (or to \<open>am_free\<close>), in order.  A result \<open>None\<close> of an operation means
  that the C code does not return normally: it dereferences a NULL or freed pointer, or it
  walks around a cycle for ever.  That it returns is therefore a theorem for each operation.

  \<open>chain h p ns\<close> says that following \<open>next\<close> from the pointer \<open>p\<close> visits exactly
  the nodes \<open>ns\<close> (addresses and data) and ends in NULL.  Each operation is shown to
  implement the plain list operation on the data, and to leave disjoint lists alone.
\<close>

section \<open>Nodes and the store\<close>

record 'd node =
  nxt :: "nat option"
  dat :: 'd

record 'd heap =
  cells :: "nat \<Rightarrow> 'd node option"
  brk :: nat
  released :: "'d list"

definition empty_heap :: "'d heap" where
  "empty_heap = \<lparr>cells = (\<lambda>_. None), brk = 0, released = []\<rparr>"

text \<open>\<open>newnode->next = v\<close> and \<open>am_free(p)\<close>; freeing NULL does nothing.\<close>

definition set_next :: "nat \<Rightarrow> nat option \<Rightarrow> 'd heap \<Rightarrow> 'd heap option" where
  "set_next a v h =
     (case cells h a of
        None \<Rightarrow> None
      | Some n \<Rightarrow> Some (h\<lparr>cells := (cells h)(a := Some (n\<lparr>nxt := v\<rparr>))\<rparr>))"

definition free_node :: "nat option \<Rightarrow> 'd heap \<Rightarrow> 'd heap option" where
  "free_node p h =
     (case p of
        None \<Rightarrow> Some h
      | Some a \<Rightarrow>
          (case cells h a of
             None \<Rightarrow> None
           | Some _ \<Rightarrow> Some (h\<lparr>cells := (cells h)(a := None)\<rparr>)))"

definition release :: "'d \<Rightarrow> 'd heap \<Rightarrow> 'd heap" where
  "release d h = h\<lparr>released := released h @ [d]\<rparr>"

definition new_node :: "'d \<Rightarrow> 'd heap \<Rightarrow> nat \<times> 'd heap" where
  "new_node d h =
     (brk h, h\<lparr>cells := (cells h)(brk h := Some \<lparr>nxt = None, dat = d\<rparr>), brk := Suc (brk h)\<rparr>)"

section \<open>The operations\<close>

definition addNodeFirst :: "nat option \<Rightarrow> nat \<Rightarrow> 'd heap \<Rightarrow> (nat option \<times> 'd heap) option" where
  "addNodeFirst head new h =
     (if head = None
      then do { h1 \<leftarrow> set_next new None h; Some (Some new, h1) }
      else do { h1 \<leftarrow> set_next new head h; Some (Some new, h1) })"

text \<open>
  The walk shared by \<open>addNodeLast\<close> and \<open>getLastNode\<close>:
  \<^verbatim>\<open>while(current != NULL && current->next != NULL) current = current->next;\<close>
\<close>

partial_function (option) getLastNode :: "'d heap \<Rightarrow> nat option \<Rightarrow> nat option option" where
  "getLastNode h current =
     (case current of
        None \<Rightarrow> Some None
      | Some a \<Rightarrow>
          (case cells h a of
             None \<Rightarrow> None
           | Some n \<Rightarrow> if nxt n = None then Some current else getLastNode h (nxt n)))"

definition addNodeLast :: "nat option \<Rightarrow> nat \<Rightarrow> 'd heap \<Rightarrow> (nat option \<times> 'd heap) option" where
  "addNodeLast head new h =
     (if head = None
      then do { h1 \<leftarrow> set_next new None h; Some (Some new, h1) }
      else do {
        current \<leftarrow> getLastNode h head;
        case current of
          None \<Rightarrow> None
        | Some a \<Rightarrow> do {
            h1 \<leftarrow> set_next a (Some new) h;
            h2 \<leftarrow> set_next new None h1;
            Some (head, h2) } })"

definition deleteFirst :: "nat option \<Rightarrow> 'd heap \<Rightarrow> (nat option \<times> 'd heap) option" where
  "deleteFirst head h =
     (case head of
        None \<Rightarrow> Some (head, h)
      | Some p \<Rightarrow>
          (case cells h p of
             None \<Rightarrow> None
           | Some n \<Rightarrow> do { h1 \<leftarrow> free_node (Some p) h; Some (nxt n, h1) }))"

text \<open>The loop of \<open>deleteLast\<close> keeps the node before \<open>p\<close> in \<open>prev\<close>.\<close>

partial_function (option) deleteLast_loop ::
  "'d heap \<Rightarrow> nat option \<Rightarrow> nat option \<Rightarrow> (nat option \<times> nat option) option" where
  "deleteLast_loop h prev p =
     (case p of
        None \<Rightarrow> Some (prev, p)
      | Some a \<Rightarrow>
          (case cells h a of
             None \<Rightarrow> None
           | Some n \<Rightarrow> if nxt n = None then Some (prev, p) else deleteLast_loop h p (nxt n)))"

definition deleteLast :: "nat option \<Rightarrow> 'd heap \<Rightarrow> 'd heap option" where
  "deleteLast head h = do {
     (prev, p) \<leftarrow> deleteLast_loop h None head;
     h1 \<leftarrow> (case prev of None \<Rightarrow> Some h | Some a \<Rightarrow> set_next a None h);
     free_node p h1 }"

partial_function (option) reverse_loop ::
  "nat option \<Rightarrow> nat option \<Rightarrow> 'd heap \<Rightarrow> (nat option \<times> 'd heap) option" where
  "reverse_loop result current h =
     (case current of
        None \<Rightarrow> Some (result, h)
      | Some a \<Rightarrow>
          (case cells h a of
             None \<Rightarrow> None
           | Some n \<Rightarrow>
               (case set_next a result h of
                  None \<Rightarrow> None
                | Some h1 \<Rightarrow> reverse_loop (Some a) (nxt n) h1)))"

definition reverseList :: "nat option \<Rightarrow> 'd heap \<Rightarrow> (nat option \<times> 'd heap) option" where
  "reverseList list h = reverse_loop None list h"

text \<open>The counter is a 32-bit integer.\<close>

partial_function (option) listCount_loop :: "'d heap \<Rightarrow> nat option \<Rightarrow> nat \<Rightarrow> nat option" where
  "listCount_loop h current c =
     (case current of
        None \<Rightarrow> Some (c mod 2 ^ 32)
      | Some a \<Rightarrow>
          (case cells h a of
             None \<Rightarrow> None
           | Some n \<Rightarrow> listCount_loop h (nxt n) (Suc c)))"

definition listCount :: "'d heap \<Rightarrow> nat option \<Rightarrow> nat option" where
  "listCount h head = listCount_loop h head 0"

text \<open>
  \<open>addToHead(elem, head)\<close>: both arguments may be NULL.  \<open>head\<close> is a pointer to the
  list variable: \<open>None\<close> is NULL, \<open>Some p\<close> a variable that holds \<open>p\<close>.  The result
  is the return code, the list variable and the store.
\<close>

type_synonym 'd add_result = "int \<times> nat option option \<times> 'd heap"

definition addToHead :: "'d option \<Rightarrow> nat option option \<Rightarrow> 'd heap \<Rightarrow> 'd add_result option" where
  "addToHead elem head h =
     (case (head, elem) of
        (Some p, Some d) \<Rightarrow>
          (let (new, h1) = new_node d h
           in do { (p', h2) \<leftarrow> addNodeFirst p new h1; Some (0, Some p', h2) })
      | _ \<Rightarrow> Some (- 1, head, h))"

definition addItem :: "'d option \<Rightarrow> nat option option \<Rightarrow> 'd heap \<Rightarrow> 'd add_result option" where
  "addItem elem head h = addToHead elem head h"

definition addToTail :: "'d option \<Rightarrow> nat option option \<Rightarrow> 'd heap \<Rightarrow> 'd add_result option" where
  "addToTail elem head h =
     (case (head, elem) of
        (Some p, Some d) \<Rightarrow>
          (let (new, h1) = new_node d h
           in do { (p', h2) \<leftarrow> addNodeLast p new h1; Some (0, Some p', h2) })
      | _ \<Rightarrow> Some (- 1, head, h))"

partial_function (option) freeList :: "nat option \<Rightarrow> 'd heap \<Rightarrow> (nat option \<times> 'd heap) option" where
  "freeList head h =
     (case head of
        None \<Rightarrow> Some (None, h)
      | Some a \<Rightarrow>
          (case cells h a of
             None \<Rightarrow> None
           | Some n \<Rightarrow>
               (case free_node (Some a) (release (dat n) h) of
                  None \<Rightarrow> None
                | Some h1 \<Rightarrow> freeList (nxt n) h1)))"

text \<open>
  \<open>removeLast\<close> gets the head pointer by value: it cannot clear the caller's variable.
\<close>

definition removeLast :: "nat option \<Rightarrow> 'd heap \<Rightarrow> 'd heap option" where
  "removeLast head h = do {
     lastNode \<leftarrow> getLastNode h head;
     h1 \<leftarrow> (case lastNode of
             None \<Rightarrow> Some h
           | Some a \<Rightarrow> (case cells h a of None \<Rightarrow> None | Some n \<Rightarrow> Some (release (dat n) h)));
     deleteLast head h1 }"

definition removeFirst :: "nat option \<Rightarrow> 'd heap \<Rightarrow> (nat option \<times> 'd heap) option" where
  "removeFirst head h =
     (case head of
        None \<Rightarrow> Some (head, h)
      | Some a \<Rightarrow>
          (case cells h a of
             None \<Rightarrow> None
           | Some n \<Rightarrow> deleteFirst head (release (dat n) h)))"

section \<open>Well-formed lists\<close>

fun lseg :: "'d heap \<Rightarrow> nat option \<Rightarrow> (nat \<times> 'd) list \<Rightarrow> nat option \<Rightarrow> bool" where
  "lseg h p [] q \<longleftrightarrow> p = q"
| "lseg h p ((a, d) # ns) q \<longleftrightarrow>
     p = Some a \<and> (\<exists>n. cells h a = Some n \<and> dat n = d \<and> lseg h (nxt n) ns q)"

abbreviation chain :: "'d heap \<Rightarrow> nat option \<Rightarrow> (nat \<times> 'd) list \<Rightarrow> bool" where
  "chain h p ns \<equiv> lseg h p ns None"

definition heap_ok :: "'d heap \<Rightarrow> bool" where
  "heap_ok h \<longleftrightarrow> (\<forall>a. brk h \<le> a \<longrightarrow> cells h a = None)"

definition addrs :: "(nat \<times> 'd) list \<Rightarrow> nat set" where
  "addrs ns = fst ` set ns"

lemma addrs_simps [simp]:
  "addrs [] = {}"
  "addrs ((a, d) # ns) = insert a (addrs ns)"
  "addrs (ns @ ms) = addrs ns \<union> addrs ms"
  "addrs (rev ns) = addrs ns"
  by (auto simp: addrs_def)

lemma lseg_append: "lseg h p (ns @ ms) q \<longleftrightarrow> (\<exists>r. lseg h p ns r \<and> lseg h r ms q)"
  by (induction h p ns q rule: lseg.induct) auto

lemma lseg_cells: "lseg h p ns q \<Longrightarrow> a \<in> addrs ns \<Longrightarrow> cells h a \<noteq> None"
  by (induction h p ns q rule: lseg.induct) auto

lemma lseg_frame:
  assumes "lseg h p ns q" and "\<And>a. a \<in> addrs ns \<Longrightarrow> cells h' a = cells h a"
  shows "lseg h' p ns q"
  using assms by (induction h p ns q rule: lseg.induct) auto

lemma lseg_unique: "chain h p ns \<Longrightarrow> chain h p ms \<Longrightarrow> ns = ms"
proof (induction ns arbitrary: p ms)
  case Nil
  then show ?case by (cases ms) auto
next
  case (Cons n ns)
  then show ?case by (cases n; cases ms) auto
qed

lemma chain_head_fresh: "chain h (Some a) ((a, d) # ns) \<Longrightarrow> a \<notin> addrs ns"
proof
  assume c: "chain h (Some a) ((a, d) # ns)" and "a \<in> addrs ns"
  then obtain us e vs where ns: "ns = us @ (a, e) # vs"
    by (auto simp: addrs_def dest: split_list)
  from c have "chain h (Some a) ((a, e) # vs)"
    by (auto simp: ns lseg_append)
  with c have "(a, d) # ns = (a, e) # vs" by (rule lseg_unique)
  then show False by (simp add: ns)
qed

text \<open>The nodes of a NULL-terminated list are pairwise different.\<close>

lemma chain_distinct: "chain h p ns \<Longrightarrow> distinct (map fst ns)"
proof (induction ns arbitrary: p)
  case Nil
  then show ?case by simp
next
  case (Cons n ns)
  obtain a d where n: "n = (a, d)" by force
  with Cons.prems have "chain h (Some a) ((a, d) # ns)" by auto
  then have "a \<notin> addrs ns" by (rule chain_head_fresh)
  with Cons n show ?case by (auto simp: addrs_def)
qed

lemma heap_ok_fresh: "heap_ok h \<Longrightarrow> lseg h p ns q \<Longrightarrow> brk h \<notin> addrs ns"
  using lseg_cells by (fastforce simp: heap_ok_def)

lemma chain_NoneD: "chain h None ns \<Longrightarrow> ns = []"
  by (cases ns) auto

lemma chain_SomeD:
  "chain h (Some a) ns \<Longrightarrow>
   \<exists>d ms n. ns = (a, d) # ms \<and> cells h a = Some n \<and> dat n = d \<and> chain h (nxt n) ms"
  by (cases ns) auto

lemma heap_ok_empty [simp]: "heap_ok empty_heap"
  by (simp add: heap_ok_def empty_heap_def)

section \<open>Each operation implements the list operation\<close>

text \<open>\<open>off A h h'\<close>: the store changed at most at the addresses \<open>A\<close>.\<close>

definition off :: "nat set \<Rightarrow> 'd heap \<Rightarrow> 'd heap \<Rightarrow> bool" where
  "off A h h' \<longleftrightarrow> (\<forall>b. b \<notin> A \<longrightarrow> cells h' b = cells h b)"

lemma off_lseg: "off A h h' \<Longrightarrow> lseg h p ns q \<Longrightarrow> addrs ns \<inter> A = {} \<Longrightarrow> lseg h' p ns q"
  by (rule lseg_frame [where h = h]) (auto simp: off_def)

lemma lseg_release [simp]: "lseg (release d h) p ns q = lseg h p ns q"
proof -
  have "cells (release d h) = cells h" by (simp add: release_def)
  then show ?thesis by (metis lseg_frame)
qed

lemma cells_release [simp]:
  "cells (release d h) = cells h" "brk (release d h) = brk h"
  "released (release d h) = released h @ [d]"
  by (simp_all add: release_def)

lemma heap_ok_upd: "heap_ok h \<Longrightarrow> cells h a \<noteq> None \<Longrightarrow> heap_ok (h\<lparr>cells := (cells h)(a := v)\<rparr>)"
  by (fastforce simp: heap_ok_def)

lemma new_node_facts:
  assumes "new_node d h = (a, h1)" "heap_ok h"
  shows "a = brk h" "cells h1 a = Some \<lparr>nxt = None, dat = d\<rparr>" "off {a} h h1" "heap_ok h1"
    "released h1 = released h" "cells h a = None"
  using assms by (auto simp: new_node_def off_def heap_ok_def)

lemma set_next_Some:
  "cells h a = Some n \<Longrightarrow>
   set_next a v h = Some (h\<lparr>cells := (cells h)(a := Some (n\<lparr>nxt := v\<rparr>))\<rparr>)"
  by (simp add: set_next_def)

lemma free_node_Some:
  "cells h a = Some n \<Longrightarrow> free_node (Some a) h = Some (h\<lparr>cells := (cells h)(a := None)\<rparr>)"
  by (simp add: free_node_def)

lemma lseg_upd_notin:
  "a \<notin> addrs ns \<Longrightarrow> lseg (h\<lparr>cells := (cells h)(a := v)\<rparr>) p ns q = lseg h p ns q"
proof
  assume a: "a \<notin> addrs ns"
  then have "\<And>b. b \<in> addrs ns \<Longrightarrow> cells (h\<lparr>cells := (cells h)(a := v)\<rparr>) b = cells h b"
    by auto
  then show "lseg (h\<lparr>cells := (cells h)(a := v)\<rparr>) p ns q \<Longrightarrow> lseg h p ns q"
    and "lseg h p ns q \<Longrightarrow> lseg (h\<lparr>cells := (cells h)(a := v)\<rparr>) p ns q"
    by (metis lseg_frame)+
qed

lemma addToHead_NULL:
  "addToHead elem None h = Some (- 1, None, h)"
  "addToHead None head h = Some (- 1, head, h)"
  by (cases head; simp add: addToHead_def)+

lemma addToHead_spec:
  assumes c: "chain h p ns" and ok: "heap_ok h"
  obtains h' where
    "addToHead (Some d) (Some p) h = Some (0, Some (Some (brk h)), h')"
    "chain h' (Some (brk h)) ((brk h, d) # ns)" "heap_ok h'" "released h' = released h"
    "off {brk h} h h'"
proof -
  obtain a h1 where nn: "new_node d h = (a, h1)" by force
  note f = new_node_facts [OF nn ok]
  let ?h = "h1\<lparr>cells := (cells h1)(a := Some \<lparr>nxt = p, dat = d\<rparr>)\<rparr>"
  have fresh: "a \<notin> addrs ns" using heap_ok_fresh [OF ok c] f(1) by simp
  have "addToHead (Some d) (Some p) h = Some (0, Some (Some a), ?h)"
    by (simp add: addToHead_def nn addNodeFirst_def set_next_Some [OF f(2)] split: if_splits)
  moreover have "chain h1 p ns"
    by (rule off_lseg [OF f(3) c]) (simp add: fresh)
  then have "chain ?h (Some a) ((a, d) # ns)"
    by (simp add: lseg_upd_notin fresh)
  moreover have "heap_ok ?h" by (rule heap_ok_upd [OF f(4)]) (simp add: f(2))
  moreover have "off {brk h} h ?h" using f(1,3) by (auto simp: off_def)
  ultimately show thesis using that [of ?h] f(1,5) by simp
qed

lemma getLastNode_Nil: "getLastNode h None = Some None"
  by (simp add: getLastNode.simps)

lemma getLastNode_snoc:
  "chain h p (ns @ [(a, d)]) \<Longrightarrow> getLastNode h p = Some (Some a)"
proof (induction ns arbitrary: p)
  case Nil
  then show ?case by (auto simp: getLastNode.simps)
next
  case (Cons n ns)
  obtain b e where "n = (b, e)" by force
  with Cons.prems obtain m where m: "p = Some b" "cells h b = Some m" "chain h (nxt m) (ns @ [(a, d)])"
    by auto
  then obtain y where "nxt m = Some y" by (cases ns) auto
  with m Cons.IH show ?case by (simp add: getLastNode.simps [of h "Some b"])
qed

lemma addToTail_NULL:
  "addToTail elem None h = Some (- 1, None, h)"
  "addToTail None head h = Some (- 1, head, h)"
  by (cases head; simp add: addToTail_def)+

lemma lseg_snoc_upd:
  assumes c: "chain h p (ms @ [(b, e)])" and n: "cells h b = Some n"
  shows "lseg (h\<lparr>cells := (cells h)(b := Some (n\<lparr>nxt := q\<rparr>))\<rparr>) p (ms @ [(b, e)]) q"
proof -
  have "b \<notin> addrs ms" using chain_distinct [OF c] by (auto simp: addrs_def)
  moreover from c obtain r where "lseg h p ms r" "chain h r [(b, e)]"
    by (auto simp: lseg_append)
  ultimately show ?thesis using n by (auto simp: lseg_append lseg_upd_notin)
qed

lemma addToTail_spec:
  assumes c: "chain h p ns" and ok: "heap_ok h"
  obtains h' p' where
    "addToTail (Some d) (Some p) h = Some (0, Some p', h')"
    "chain h' p' (ns @ [(brk h, d)])" "heap_ok h'" "released h' = released h"
    "off (insert (brk h) (addrs ns)) h h'"
proof -
  obtain a h1 where nn: "new_node d h = (a, h1)" by force
  note f = new_node_facts [OF nn ok]
  have fresh: "a \<notin> addrs ns" using heap_ok_fresh [OF ok c] f(1) by simp
  have c1: "chain h1 p ns" by (rule off_lseg [OF f(3) c]) (simp add: fresh)
  show thesis
  proof (cases ns rule: rev_cases)
    case Nil
    with c have p: "p = None" by simp
    let ?h = "h1\<lparr>cells := (cells h1)(a := Some \<lparr>nxt = None, dat = d\<rparr>)\<rparr>"
    have "addToTail (Some d) (Some p) h = Some (0, Some (Some a), ?h)"
      by (simp add: addToTail_def nn addNodeLast_def p set_next_Some [OF f(2)])
    moreover have "chain ?h (Some a) (ns @ [(a, d)])" by (simp add: Nil)
    moreover have "heap_ok ?h" by (rule heap_ok_upd [OF f(4)]) (simp add: f(2))
    ultimately show thesis using that [of "Some a" ?h] f by (simp add: off_def)
  next
    case (snoc ms m)
    obtain b e where m: "m = (b, e)" by force
    obtain y where p: "p = Some y" using c snoc m by (cases ms) auto
    have c2: "chain h1 p (ms @ [(b, e)])" using c1 snoc m by simp
    then obtain n where n: "cells h1 b = Some n" by (auto simp: lseg_append)
    have ab: "a \<noteq> b" using fresh snoc m by auto
    let ?g = "h1\<lparr>cells := (cells h1)(b := Some (n\<lparr>nxt := Some a\<rparr>))\<rparr>"
    let ?h = "?g\<lparr>cells := (cells ?g)(a := Some \<lparr>nxt = None, dat = d\<rparr>)\<rparr>"
    have ga: "cells ?g a = Some \<lparr>nxt = None, dat = d\<rparr>" using ab f(2) by simp
    have "addNodeLast p a h1 = Some (p, ?h)"
      using p getLastNode_snoc [OF c2] ga
      by (simp add: addNodeLast_def set_next_Some [OF n] set_next_Some [OF ga])
    then have "addToTail (Some d) (Some p) h = Some (0, Some p, ?h)"
      by (simp add: addToTail_def nn)
    moreover have "lseg ?g p ns (Some a)"
      using lseg_snoc_upd [OF c2 n] snoc m by simp
    then have "lseg ?h p ns (Some a)" using lseg_upd_notin [OF fresh, of ?g] by simp
    then have "chain ?h p (ns @ [(a, d)])" by (simp add: lseg_append)
    moreover have "heap_ok ?g" by (rule heap_ok_upd [OF f(4)]) (simp add: n)
    then have "heap_ok ?h" by (rule heap_ok_upd) (use ga in simp)
    ultimately show thesis using that [of p ?h] f snoc m by (auto simp: off_def)
  qed
qed

lemma listCount_loop_chain:
  "chain h p ns \<Longrightarrow> listCount_loop h p c = Some ((c + length ns) mod 2 ^ 32)"
proof (induction ns arbitrary: p c)
  case Nil
  then show ?case by (simp add: listCount_loop.simps)
next
  case (Cons n ns)
  then obtain a m where "p = Some a" "cells h a = Some m" "chain h (nxt m) ns"
    by (cases n) auto
  with Cons.IH show ?case by (simp add: listCount_loop.simps [of h "Some a"])
qed

lemma listCount_spec: "chain h p ns \<Longrightarrow> listCount h p = Some (length ns mod 2 ^ 32)"
  by (simp add: listCount_def listCount_loop_chain)

lemma reverse_loop_spec:
  assumes "chain h p ns" "chain h r ms" "addrs ns \<inter> addrs ms = {}" "heap_ok h"
  shows "\<exists>q h'. reverse_loop r p h = Some (q, h') \<and> chain h' q (rev ns @ ms) \<and> heap_ok h' \<and>
    released h' = released h \<and> off (addrs ns) h h'"
  using assms
proof (induction ns arbitrary: p r h ms)
  case Nil
  then show ?case by (simp add: reverse_loop.simps off_def)
next
  case (Cons m ns)
  obtain a d where m: "m = (a, d)" by force
  with Cons.prems(1) obtain n where p: "p = Some a" and n: "cells h a = Some n" "dat n = d"
    and tl: "chain h (nxt n) ns" by auto
  let ?h = "h\<lparr>cells := (cells h)(a := Some (n\<lparr>nxt := r\<rparr>))\<rparr>"
  have "a \<notin> addrs ns" using chain_distinct [OF Cons.prems(1)] m by (auto simp: addrs_def)
  moreover have a: "a \<notin> addrs ms" using Cons.prems(3) m by auto
  moreover have "addrs ns \<inter> addrs ((a, d) # ms) = {}"
    using Cons.prems(3) m \<open>a \<notin> addrs ns\<close> by auto
  moreover have "chain ?h (nxt n) ns" using tl \<open>a \<notin> addrs ns\<close> by (simp add: lseg_upd_notin)
  moreover have "chain ?h (Some a) ((a, d) # ms)"
    using Cons.prems(2) a n by (simp add: lseg_upd_notin)
  moreover have "heap_ok ?h" using Cons.prems(4) n by (simp add: heap_ok_upd)
  ultimately obtain q h' where "reverse_loop (Some a) (nxt n) ?h = Some (q, h')"
    "chain h' q (rev ns @ (a, d) # ms)" "heap_ok h'" "released h' = released ?h" "off (addrs ns) ?h h'"
    using Cons.IH [of ?h "nxt n" "Some a" "(a, d) # ms"] by blast
  then show ?case
    using n by (auto simp: reverse_loop.simps [of r "Some a"] p set_next_Some [OF n(1)] m off_def)
qed

lemma reverseList_spec:
  assumes "chain h p ns" "heap_ok h"
  obtains q h' where "reverseList p h = Some (q, h')" "chain h' q (rev ns)" "heap_ok h'"
    "released h' = released h" "off (addrs ns) h h'"
  using reverse_loop_spec [OF assms(1), of None "[]"] assms(2) that
  by (auto simp: reverseList_def)

lemma removeFirst_Nil: "removeFirst None h = Some (None, h)"
  by (simp add: removeFirst_def)

lemma removeFirst_spec:
  assumes c: "chain h p ((a, d) # ns)" and ok: "heap_ok h"
  obtains q h' where "removeFirst p h = Some (q, h')" "chain h' q ns" "heap_ok h'"
    "released h' = released h @ [d]" "off {a} h h'" "cells h' a = None"
proof -
  from c obtain n where n: "p = Some a" "cells h a = Some n" "dat n = d" "chain h (nxt n) ns" by auto
  let ?h = "(release d h)\<lparr>cells := (cells h)(a := None)\<rparr>"
  have "a \<notin> addrs ns" using c n(1) chain_head_fresh [of h a d ns] by simp
  then have "chain ?h (nxt n) ns"
    using n(4) lseg_upd_notin [of a ns "release d h" None "nxt n" None] by simp
  moreover have "removeFirst p h = Some (nxt n, ?h)"
    using n free_node_Some [of "release d h" a n] by (simp add: removeFirst_def deleteFirst_def)
  moreover have "heap_ok ?h" using ok by (simp add: heap_ok_def)
  ultimately show thesis using that [of "nxt n" ?h] by (simp add: off_def)
qed

lemma deleteLast_loop_snoc:
  "chain h p ((b, e) # ns @ [(a, d)]) \<Longrightarrow>
   deleteLast_loop h prev p = Some (Some (fst (last ((b, e) # ns))), Some a)"
proof (induction ns arbitrary: p b e prev)
  case Nil
  then obtain m k where "p = Some b" "cells h b = Some m" "nxt m = Some a" "cells h a = Some k"
    "nxt k = None" by auto
  then show ?case
    by (simp add: deleteLast_loop.simps [of h prev "Some b"]
        deleteLast_loop.simps [of h "Some b" "Some a"])
next
  case (Cons n ns)
  obtain c f where n: "n = (c, f)" by force
  with Cons.prems obtain m where m: "p = Some b" "cells h b = Some m" "nxt m = Some c"
    "chain h (nxt m) ((c, f) # ns @ [(a, d)])" by auto
  have "deleteLast_loop h (Some b) (nxt m) = Some (Some (fst (last ((c, f) # ns))), Some a)"
    using m(4) by (rule Cons.IH)
  with m n show ?case by (simp add: deleteLast_loop.simps [of h prev "Some b"])
qed

lemma removeLast_Nil: "removeLast None h = Some h"
  by (simp add: removeLast_def deleteLast_def getLastNode_Nil deleteLast_loop.simps free_node_def)

text \<open>On a list of at least two nodes the last one is unlinked and freed.\<close>

lemma removeLast_spec:
  assumes c: "chain h p (ns @ [(a, d)])" and ne: "ns \<noteq> []" and ok: "heap_ok h"
  obtains h' where "removeLast p h = Some h'" "chain h' p ns" "heap_ok h'"
    "released h' = released h @ [d]" "off (insert a (addrs ns)) h h'" "cells h' a = None"
proof -
  obtain ms b e where ns: "ns = ms @ [(b, e)]" using ne by (metis rev_exhaust surj_pair)
  let ?r = "release d h"
  from c obtain n where n: "cells h a = Some n" "dat n = d" by (auto simp: lseg_append)
  from c obtain m where m: "cells h b = Some m" by (auto simp: ns lseg_append)
  have dist: "distinct (map fst (ns @ [(a, d)]))" by (rule chain_distinct [OF c])
  then have ab: "a \<noteq> b" "a \<notin> addrs ns" "b \<notin> addrs ms" by (auto simp: ns addrs_def)
  have loop: "deleteLast_loop ?r None p = Some (Some b, Some a)"
  proof (cases ms)
    case Nil
    with c ns have "chain ?r p ((b, e) # [] @ [(a, d)])" by simp
    from deleteLast_loop_snoc [OF this, of None] show ?thesis by simp
  next
    case (Cons k ks)
    with c ns have "chain ?r p ((fst k, snd k) # (ks @ [(b, e)]) @ [(a, d)])" by simp
    from deleteLast_loop_snoc [OF this, of None] show ?thesis by simp
  qed
  let ?g = "?r\<lparr>cells := (cells h)(b := Some (m\<lparr>nxt := None\<rparr>))\<rparr>"
  let ?h = "?g\<lparr>cells := (cells ?g)(a := None)\<rparr>"
  have "set_next b None ?r = Some ?g" using set_next_Some [of ?r b m] m by simp
  moreover have "free_node (Some a) ?g = Some ?h" by (rule free_node_Some) (use ab n in simp)
  ultimately have "removeLast p h = Some ?h"
    using getLastNode_snoc [OF c] n loop by (simp add: removeLast_def deleteLast_def)
  moreover have "chain ?h p ns"
  proof -
    have "\<exists>x. lseg ?r p ms x \<and> lseg ?r x [(b, e)] (Some a)"
      using c by (auto simp: ns lseg_append)
    then have "lseg ?r p ms (Some b)" "dat m = e" using m by auto
    moreover have "a \<notin> addrs ms" using ab ns by auto
    ultimately have "lseg ?h p ms (Some b)"
      using ab(3) lseg_upd_notin [of b ms ?r] lseg_upd_notin [of a ms ?g] by simp
    with ab(1) \<open>dat m = e\<close> show ?thesis by (auto simp: ns lseg_append)
  qed
  moreover have "heap_ok ?h" using ok m by (fastforce simp: heap_ok_def)
  ultimately show thesis using that [of ?h] ns by (simp add: off_def)
qed

text \<open>
  On a list of one node the node is freed too, but the caller still holds its address.
\<close>

lemma removeLast_single:
  assumes c: "chain h p [(a, d)]"
  obtains h' where "removeLast p h = Some h'" "p = Some a" "cells h' a = None"
    "released h' = released h @ [d]" "listCount h' p = None"
proof -
  from c obtain n where n: "p = Some a" "cells h a = Some n" "dat n = d" "nxt n = None" by auto
  let ?h = "(release d h)\<lparr>cells := (cells h)(a := None)\<rparr>"
  have "free_node (Some a) (release d h) = Some ?h"
    using free_node_Some [of "release d h" a n] n by simp
  then have "removeLast p h = Some ?h"
    using n by (simp add: removeLast_def deleteLast_def getLastNode.simps deleteLast_loop.simps)
  moreover have "listCount ?h p = None" by (simp add: n listCount_def listCount_loop.simps)
  ultimately show thesis using that [of ?h] n by simp
qed

lemma freeList_spec:
  "chain h p ns \<Longrightarrow>
   \<exists>h'. freeList p h = Some (None, h') \<and> released h' = released h @ map snd ns \<and>
     (\<forall>a \<in> addrs ns. cells h' a = None) \<and> off (addrs ns) h h' \<and> brk h' = brk h"
proof (induction ns arbitrary: p h)
  case Nil
  then show ?case by (simp add: freeList.simps off_def)
next
  case (Cons m ns)
  obtain a d where m: "m = (a, d)" by force
  with Cons.prems obtain n where n: "p = Some a" "cells h a = Some n" "dat n = d" "chain h (nxt n) ns"
    by auto
  let ?h = "(release d h)\<lparr>cells := (cells h)(a := None)\<rparr>"
  have "a \<notin> addrs ns" using Cons.prems n(1) m chain_head_fresh [of h a d ns] by simp
  then have "chain ?h (nxt n) ns"
    using n(4) lseg_upd_notin [of a ns "release d h" None "nxt n" None] by simp
  from Cons.IH [OF this] obtain h' where h': "freeList (nxt n) ?h = Some (None, h')"
    "released h' = released ?h @ map snd ns" "\<forall>b \<in> addrs ns. cells h' b = None"
    "off (addrs ns) ?h h'" "brk h' = brk ?h" by blast
  have "freeList p h = Some (None, h')"
    using n h'(1) free_node_Some [of "release d h" a n]
    by (simp add: freeList.simps [of "Some a"])
  moreover have "cells h' a = None" using h'(4) \<open>a \<notin> addrs ns\<close> by (simp add: off_def)
  ultimately show ?case using h' m by (auto simp: off_def)
qed

section \<open>The interface clients rely on\<close>

text \<open>
  \<open>list_store\<close> is the contract of a bounded history kept newest first: \<open>push\<close> adds at
  the front, \<open>count\<close> is the length, \<open>drop_last\<close> removes the oldest element of a list of
  at least two.  \<open>repr s xs\<close> says that the concrete list \<open>s\<close> stands for \<open>xs\<close>.
  The client lemma is the step \<open>downloads.c\<close> makes with these operations.
\<close>

locale list_store =
  fixes push :: "'d \<Rightarrow> 's \<Rightarrow> 's option"
    and count :: "'s \<Rightarrow> nat option"
    and drop_last :: "'s \<Rightarrow> 's option"
    and repr :: "'s \<Rightarrow> 'd list \<Rightarrow> bool"
  assumes push_repr: "repr s xs \<Longrightarrow> \<exists>s'. push d s = Some s' \<and> repr s' (d # xs)"
    and count_repr: "repr s xs \<Longrightarrow> count s = Some (length xs mod 2 ^ 32)"
    and drop_last_repr:
      "repr s xs \<Longrightarrow> 2 \<le> length xs \<Longrightarrow> \<exists>s'. drop_last s = Some s' \<and> repr s' (butlast xs)"
begin

lemma push_bounded:
  assumes r: "repr s xs" and len: "Suc (length xs) < 2 ^ 32" and m: "0 < (m::nat)"
  obtains s1 s2 where "push d s = Some s1" "count s1 = Some (Suc (length xs))"
    "(if m < Suc (length xs) then drop_last s1 else Some s1) = Some s2"
    "repr s2 (if m < Suc (length xs) then butlast (d # xs) else d # xs)"
proof -
  from push_repr [OF r] obtain s1 where s1: "push d s = Some s1" "repr s1 (d # xs)" by blast
  have "count s1 = Some (Suc (length xs))" using count_repr [OF s1(2)] len by simp
  moreover have "\<exists>s2. (if m < Suc (length xs) then drop_last s1 else Some s1) = Some s2 \<and>
      repr s2 (if m < Suc (length xs) then butlast (d # xs) else d # xs)"
    using drop_last_repr [OF s1(2)] s1(2) m by (cases "m < Suc (length xs)") auto
  ultimately show thesis using s1(1) that by blast
qed

end

text \<open>\<open>list.c\<close> provides it: a list is the pair of the head pointer and the store.\<close>

definition push_ref :: "'d \<Rightarrow> nat option \<times> 'd heap \<Rightarrow> (nat option \<times> 'd heap) option" where
  "push_ref d s =
     (case addToHead (Some d) (Some (fst s)) (snd s) of
        Some (r, Some p, h) \<Rightarrow> Some (p, h)
      | _ \<Rightarrow> None)"

definition count_ref :: "nat option \<times> 'd heap \<Rightarrow> nat option" where
  "count_ref s = listCount (snd s) (fst s)"

definition drop_last_ref :: "nat option \<times> 'd heap \<Rightarrow> (nat option \<times> 'd heap) option" where
  "drop_last_ref s = map_option (\<lambda>h. (fst s, h)) (removeLast (fst s) (snd s))"

definition repr_ref :: "nat option \<times> 'd heap \<Rightarrow> 'd list \<Rightarrow> bool" where
  "repr_ref s xs \<longleftrightarrow> heap_ok (snd s) \<and> (\<exists>ns. chain (snd s) (fst s) ns \<and> map snd ns = xs)"

interpretation heap_list: list_store push_ref count_ref drop_last_ref repr_ref
proof
  fix s :: "nat option \<times> 'd heap" and xs d
  assume "repr_ref s xs"
  then obtain ns where ns: "heap_ok (snd s)" "chain (snd s) (fst s) ns" "map snd ns = xs"
    by (auto simp: repr_ref_def)
  show "\<exists>s'. push_ref d s = Some s' \<and> repr_ref s' (d # xs)"
  proof -
    obtain h' where "addToHead (Some d) (Some (fst s)) (snd s) = Some (0, Some (Some (brk (snd s))), h')"
      "chain h' (Some (brk (snd s))) ((brk (snd s), d) # ns)" "heap_ok h'"
      by (rule addToHead_spec [OF ns(2,1)])
    then show ?thesis using ns(3)
      by (intro exI [of _ "(Some (brk (snd s)), h')"])
        (auto simp: push_ref_def repr_ref_def intro!: exI [of _ "(brk (snd s), d) # ns"])
  qed
  show "count_ref s = Some (length xs mod 2 ^ 32)"
    using listCount_spec [OF ns(2)] ns(3) by (auto simp: count_ref_def)
  assume l: "2 \<le> length xs"
  then obtain ms a e where "ns = ms @ [(a, e)]"
    using ns(3) by (cases ns rule: rev_cases) auto
  with l ns(3) have "ms \<noteq> []" by auto
  from ns(2) \<open>ns = ms @ [(a, e)]\<close> have c: "chain (snd s) (fst s) (ms @ [(a, e)])" by simp
  obtain h' where "removeLast (fst s) (snd s) = Some h'" "chain h' (fst s) ms" "heap_ok h'"
    by (rule removeLast_spec [OF c \<open>ms \<noteq> []\<close> ns(1)])
  with ns(3) \<open>ns = ms @ [(a, e)]\<close> show "\<exists>s'. drop_last_ref s = Some s' \<and> repr_ref s' (butlast xs)"
    by (auto simp: drop_last_ref_def repr_ref_def butlast_append intro!: exI [of _ ms])
qed

section \<open>Properties\<close>

lemma chain_kept:
  assumes "chain h q ms" "heap_ok h" "addrs ms \<inter> A = {}" "off (insert (brk h) A) h h'"
  shows "chain h' q ms"
  by (rule off_lseg [OF assms(4,1)]) (use heap_ok_fresh [OF assms(2,1)] assms(3) in auto)

text \<open>Two lists in one store, for the witnesses: 1 after 0, and 2 alone.\<close>

definition heap3 :: "string heap" where
  "heap3 =
     \<lparr>cells = [0 \<mapsto> \<lparr>nxt = Some 1, dat = ''x''\<rparr>, 1 \<mapsto> \<lparr>nxt = None, dat = ''y''\<rparr>,
               2 \<mapsto> \<lparr>nxt = None, dat = ''z''\<rparr>],
      brk = 3, released = []\<rparr>"

lemma heap3_facts:
  "heap_ok heap3" "chain heap3 (Some 0) [(0, ''x''), (1, ''y'')]" "chain heap3 (Some 2) [(2, ''z'')]"
  by (auto simp: heap3_def heap_ok_def)

text \<open>C34: \<open>addToHead\<close> and \<open>addToTail\<close> always return on a well-formed list, put the new element first
  (last), keep every old node in its place and leave every other list untouched.\<close>

theorem addToList_correct:
  assumes "chain h p ns" "heap_ok h" "chain h q ms" "addrs ms \<inter> addrs ns = {}"
  shows "\<exists>h1 h2 p2.
     addToHead (Some d) (Some p) h = Some (0, Some (Some (brk h)), h1) \<and>
     chain h1 (Some (brk h)) ((brk h, d) # ns) \<and> chain h1 q ms \<and> heap_ok h1 \<and>
     addToTail (Some d) (Some p) h = Some (0, Some p2, h2) \<and>
     chain h2 p2 (ns @ [(brk h, d)]) \<and> chain h2 q ms \<and> heap_ok h2"
proof -
  obtain h1 where 1: "addToHead (Some d) (Some p) h = Some (0, Some (Some (brk h)), h1)"
    "chain h1 (Some (brk h)) ((brk h, d) # ns)" "heap_ok h1" "off {brk h} h h1"
    by (rule addToHead_spec [OF assms(1,2)])
  obtain h2 p2 where 2: "addToTail (Some d) (Some p) h = Some (0, Some p2, h2)"
    "chain h2 p2 (ns @ [(brk h, d)])" "heap_ok h2" "off (insert (brk h) (addrs ns)) h h2"
    by (rule addToTail_spec [OF assms(1,2)])
  have "chain h1 q ms" by (rule chain_kept [OF assms(3,2) _ 1(4)]) simp
  moreover have "chain h2 q ms" by (rule chain_kept [OF assms(3,2,4) 2(4)])
  ultimately show ?thesis using 1 2 by blast
qed

theorem addToList_correct_witness:
  "\<exists>h1 h2 p2.
     addToHead (Some ''n'') (Some (Some 0)) heap3 = Some (0, Some (Some (brk heap3)), h1) \<and>
     chain h1 (Some (brk heap3)) ((brk heap3, ''n'') # [(0, ''x''), (1, ''y'')]) \<and>
     chain h1 (Some 2) [(2, ''z'')] \<and> heap_ok h1 \<and>
     addToTail (Some ''n'') (Some (Some 0)) heap3 = Some (0, Some p2, h2) \<and>
     chain h2 p2 ([(0, ''x''), (1, ''y'')] @ [(brk heap3, ''n'')]) \<and>
     chain h2 (Some 2) [(2, ''z'')] \<and> heap_ok h2"
  by (rule addToList_correct) (use heap3_facts in simp_all)

text \<open>\<open>reverseList\<close> terminates on every well-formed list, relinks the same nodes in the opposite
  order without allocating or freeing, and leaves every other list untouched.\<close>

theorem reverseList_correct:
  assumes "chain h p ns" "heap_ok h" "chain h q ms" "addrs ms \<inter> addrs ns = {}"
  shows "\<exists>r h'. reverseList p h = Some (r, h') \<and> chain h' r (rev ns) \<and> chain h' q ms \<and>
     heap_ok h' \<and> released h' = released h"
proof -
  obtain r h' where r: "reverseList p h = Some (r, h')" "chain h' r (rev ns)" "heap_ok h'"
    "released h' = released h" "off (addrs ns) h h'"
    by (rule reverseList_spec [OF assms(1,2)])
  have "chain h' q ms" by (rule off_lseg [OF r(5) assms(3,4)])
  with r show ?thesis by blast
qed

theorem reverseList_correct_witness:
  "\<exists>r h'. reverseList (Some 0) heap3 = Some (r, h') \<and>
     chain h' r (rev [(0, ''x''), (1, ''y'')]) \<and> chain h' (Some 2) [(2, ''z'')] \<and>
     heap_ok h' \<and> released h' = released heap3"
  by (rule reverseList_correct) (use heap3_facts in simp_all)

text \<open>\<open>removeLast\<close> frees exactly the last element.  On two or more nodes the list without it
  remains; on a single node the caller's head pointer is left pointing to freed memory, and the
  next walk over that list is undefined.\<close>

theorem removeLast_correct:
  assumes "chain h p (ns @ [(a, d)])" "heap_ok h"
  shows "\<exists>h'. removeLast p h = Some h' \<and> released h' = released h @ [d] \<and> cells h' a = None \<and>
     (if ns \<noteq> [] then chain h' p ns \<and> heap_ok h' else p = Some a \<and> listCount h' p = None)"
proof (cases "ns = []")
  case True
  with assms(1) have "chain h p [(a, d)]" by simp
  then obtain h' where "removeLast p h = Some h'" "p = Some a" "cells h' a = None"
    "released h' = released h @ [d]" "listCount h' p = None" by (rule removeLast_single)
  with True show ?thesis by auto
next
  case False
  obtain h' where "removeLast p h = Some h'" "chain h' p ns" "heap_ok h'"
    "released h' = released h @ [d]" "cells h' a = None"
    by (rule removeLast_spec [OF assms(1) False assms(2)])
  with False show ?thesis by auto
qed

theorem removeLast_correct_witness:
  "\<exists>h'. removeLast (Some 2) heap3 = Some h' \<and> released h' = released heap3 @ [''z''] \<and>
     cells h' 2 = None \<and>
     (if ([] :: (nat \<times> string) list) \<noteq> [] then chain h' (Some 2) [] \<and> heap_ok h'
      else Some 2 = Some (2::nat) \<and> listCount h' (Some 2) = None)"
  by (rule removeLast_correct [of heap3 "Some 2" "[]" 2 "''z''"]) (use heap3_facts in simp_all)

text \<open>C33: \<open>freeList\<close> terminates, hands every element to the release function exactly once and in
  order, frees every node, sets the head to NULL and leaves every other list untouched.\<close>

theorem freeList_correct:
  assumes "chain h p ns" "chain h q ms" "addrs ms \<inter> addrs ns = {}"
  shows "\<exists>h'. freeList p h = Some (None, h') \<and> released h' = released h @ map snd ns \<and>
     (\<forall>n \<in> set ns. cells h' (fst n) = None) \<and> chain h' q ms"
proof -
  obtain h' where f: "freeList p h = Some (None, h')" "released h' = released h @ map snd ns"
    "\<forall>a \<in> addrs ns. cells h' a = None" "off (addrs ns) h h'"
    using freeList_spec [OF assms(1)] by blast
  have "chain h' q ms" by (rule off_lseg [OF f(4) assms(2,3)])
  with f show ?thesis by (auto simp: addrs_def)
qed

theorem freeList_correct_witness:
  "\<exists>h'. freeList (Some 0) heap3 = Some (None, h') \<and>
     released h' = released heap3 @ map snd [(0::nat, ''x''), (1, ''y'')] \<and>
     (\<forall>n \<in> set [(0, ''x''), (1, ''y'')]. cells h' (fst n) = None) \<and> chain h' (Some 2) [(2, ''z'')]"
  by (rule freeList_correct) (use heap3_facts in simp_all)

end
