(* ===== verification/Am_Utils.thy ===== *)
theory Am_Utils
  imports Am_Prelude
begin

text \<open>
  \<^verbatim>\<open>src/utils.c\<close>: string helpers and the folders taken from the environment.

  A \<open>char *\<close> is a \<open>string option\<close>.  Memory allocation is taken to succeed; freeing has no
  effect on the values and is left out.  The environment of the process (\<open>getenv\<close>, the
  password database) is the record \<open>env\<close>.
\<close>

section \<open>Copying\<close>

text \<open>
  \<open>am_strndup(str, len)\<close> copies \<open>len\<close> bytes with \<open>memcpy\<close>, but only of a string that does
  not start with the terminator; the callers pass a \<open>len\<close> within the array.
\<close>

definition am_strndup :: "char list option \<Rightarrow> nat \<Rightarrow> char list option" where
  "am_strndup str len =
     (case str of
        Some (c # cs) \<Rightarrow> if c \<noteq> NUL then Some (take len (c # cs)) else None
      | _ \<Rightarrow> None)"

definition am_strdup :: "string option \<Rightarrow> string option" where
  "am_strdup str =
     (case str of
        Some s \<Rightarrow> if s \<noteq> [] \<and> hd s \<noteq> NUL then am_strndup (Some s) (length s) else None
      | None \<Rightarrow> None)"

lemma am_strdup_None [simp]: "am_strdup None = None" "am_strdup (Some []) = None"
  by (simp_all add: am_strdup_def)

lemma am_strdup_Some: "NUL \<notin> set s \<Longrightarrow> s \<noteq> [] \<Longrightarrow> am_strdup (Some s) = Some s"
  by (cases s) (auto simp: am_strdup_def am_strndup_def)

lemma am_strdup_eq_Some: "am_strdup p = Some s \<Longrightarrow> p = Some s \<and> s \<noteq> []"
  by (auto simp: am_strdup_def am_strndup_def split: option.splits list.splits if_splits)

lemma am_strdup_not_Nil: "am_strdup p \<noteq> Some []"
  using am_strdup_eq_Some by blast

section \<open>Folders\<close>

definition MAXPATHLEN :: nat where "MAXPATHLEN = 4096"

record env =
  getenv :: "string \<Rightarrow> string option"
  pw_dir :: "string option"   \<comment> \<open>\<open>getpwuid(getuid())->pw_dir\<close>, \<open>None\<close> when there is no entry\<close>

definition get_home_folder :: "env \<Rightarrow> string option" where
  "get_home_folder e =
     (case getenv e ''HOME'' of
        Some h \<Rightarrow> am_strdup (Some h)
      | None \<Rightarrow>
          (case pw_dir e of
             Some d \<Rightarrow> am_strdup (Some d)
           | None \<Rightarrow> am_strdup (Some '''')))"

definition resolve_path :: "env \<Rightarrow> string option \<Rightarrow> string option res" where
  "resolve_path e path =
     (case path of
        None \<Rightarrow> Inr None
      | Some p \<Rightarrow>
          (if 2 < length p then
             (if p ! 0 = CHR ''~'' \<and> p ! 1 = CHR ''/'' then
                (case get_home_folder e of
                   Some homedir \<Rightarrow>
                     (if length homedir + length p < MAXPATHLEN
                      then Inr (am_strdup (Some (homedir @ tl p)))
                      else Inl AssertFail)
                 | None \<Rightarrow> Inr (am_strdup (Some p)))
              else Inr (am_strdup (Some p)))
           else Inr None))"

text \<open>
  \<open>get_tr_folder\<close> copies the home folder and \<^verbatim>\<open>"/.config/transmission"\<close> (21 characters) into a
  buffer of \<open>MAXPATHLEN\<close> bytes, guarded by an \<open>assert\<close> that reserves 20.
\<close>

definition get_tr_folder :: "env \<Rightarrow> string option res" where
  "get_tr_folder e =
     (case get_home_folder e of
        None \<Rightarrow> Inl AssertFail
      | Some home \<Rightarrow>
          (if \<not> (home \<noteq> [] \<and> length home + 20 < MAXPATHLEN) then Inl AssertFail
           else
             (let buf = home @ ''/.config/transmission''
              in if length buf + 1 > MAXPATHLEN then Inl BufferOverflow
                 else Inr (am_strdup (Some buf)))))"

definition get_temp_folder :: "env \<Rightarrow> string option" where
  "get_temp_folder e =
     (case getenv e ''TEMPDIR'' of
        Some d \<Rightarrow> am_strdup (Some d)
      | None \<Rightarrow>
          (case getenv e ''TMPDIR'' of
             Some d \<Rightarrow> am_strdup (Some d)
           | None \<Rightarrow> am_strdup (Some ''/tmp'')))"

section \<open>Stripping white space in place\<close>

text \<open>\<^verbatim>\<open>while( len && isspace( str[len - 1] ) ) --len;\<close>\<close>

fun strip_end :: "string \<Rightarrow> nat \<Rightarrow> nat" where
  "strip_end s 0 = 0"
| "strip_end s (Suc n) = (if isspace (s ! n) then strip_end s n else Suc n)"

text \<open>\<^verbatim>\<open>for( pos = 0; pos < len && isspace( str[pos] ); ) ++pos;\<close>\<close>

function strip_begin :: "string \<Rightarrow> nat \<Rightarrow> nat \<Rightarrow> nat" where
  "strip_begin s len pos =
     (if pos < len \<and> isspace (s ! pos) then strip_begin s len (Suc pos) else pos)"
  by pat_completeness auto
termination by (relation "measure (\<lambda>(s, len, pos). len - pos)") auto

declare strip_begin.simps [simp del]

definition am_strstrip :: "string option \<Rightarrow> string option" where
  "am_strstrip str =
     (case str of
        None \<Rightarrow> None
      | Some s \<Rightarrow>
          (if s = [] then Some s
           else let len = strip_end s (length s);
                    pos = strip_begin s len 0
                in Some (take (len - pos) (drop pos s))))"

definition am_stringToLower :: "string \<Rightarrow> string" where
  "am_stringToLower s = map (\<lambda>c. if isupper c then char_of (code c + 32) else c) s"

section \<open>Replacing a substring\<close>

text \<open>The first pass counts the occurrences, left to right and without overlap.\<close>

function count_loop :: "string \<Rightarrow> string \<Rightarrow> nat" where
  "count_loop pattern [] = 0"
| "count_loop pattern (c # s) =
     (if pattern \<noteq> [] \<and> starts_with pattern (c # s)
      then Suc (count_loop pattern (drop (length pattern) (c # s)))
      else count_loop pattern s)"
  by pat_completeness auto
termination by (relation "measure (\<lambda>(p, s). length s)") (auto split: list.splits)

text \<open>The second pass copies.\<close>

function replace_loop :: "string \<Rightarrow> string \<Rightarrow> string \<Rightarrow> string" where
  "replace_loop pattern subst [] = []"
| "replace_loop pattern subst (c # s) =
     (if pattern \<noteq> [] \<and> starts_with pattern (c # s)
      then subst @ replace_loop pattern subst (drop (length pattern) (c # s))
      else c # replace_loop pattern subst s)"
  by pat_completeness auto
termination by (relation "measure (\<lambda>(p, t, s). length s)") auto

text \<open>
  The target has \<open>i + 1 + count * (substlen - patternlen)\<close> bytes; \<open>size_t\<close> arithmetic wraps, so
  the subtraction may be negative on the way.
\<close>

definition replace_alloc :: "string \<Rightarrow> string \<Rightarrow> string \<Rightarrow> int" where
  "replace_alloc pattern subst s =
     wrap_u 64 (int (length s) + 1 +
       int (count_loop pattern s) * (int (length subst) - int (length pattern)))"

definition am_replace_str :: "string option \<Rightarrow> string option \<Rightarrow> string option \<Rightarrow> string option res" where
  "am_replace_str s pattern subst =
     (case (s, pattern, subst) of
        (Some s, Some pattern, Some subst) \<Rightarrow>
          (if s = [] \<or> pattern = [] then Inr None
           else if length pattern > length s then Inr (am_strdup (Some s))
           else if strstr s pattern = None then Inr (am_strdup (Some s))
           else let ret = replace_loop pattern subst s
                in if int (length ret) + 1 > replace_alloc pattern subst s
                   then Inl BufferOverflow
                   else Inr (Some ret))
      | _ \<Rightarrow> Inr None)"

lemma replace_loop_length:
  "int (length (replace_loop p t s)) =
   int (length s) + int (count_loop p s) * (int (length t) - int (length p))"
proof (induction p t s rule: replace_loop.induct)
  case (1 p t)
  then show ?case by simp
next
  case (2 p t c s)
  show ?case
  proof (cases "p \<noteq> [] \<and> starts_with p (c # s)")
    case True
    then have "length p \<le> length (c # s)" by (blast dest: starts_with_length)
    then have "int (length (drop (length p) (c # s))) = int (length (c # s)) - int (length p)"
      by (simp add: of_nat_diff)
    with 2 True show ?thesis by (simp add: algebra_simps)
  next
    case False
    with 2 show ?thesis by auto
  qed
qed

lemma replace_fits:
  assumes "length (replace_loop p t s) < 2 ^ 64 - 1"
  shows "replace_alloc p t s = int (length (replace_loop p t s)) + 1"
proof -
  have "int (length s) + 1 + int (count_loop p s) * (int (length t) - int (length p)) =
      int (length (replace_loop p t s)) + 1"
    by (simp add: replace_loop_length)
  then show ?thesis using assms by (simp only: replace_alloc_def) (simp add: wrap_u_id)
qed

lemma replace_loop_absent:
  "(\<forall>i. \<not> starts_with p (drop i s)) \<Longrightarrow> replace_loop p t s = s"
proof (induction s)
  case Nil
  then show ?case by simp
next
  case (Cons c s)
  from Cons.prems have "\<not> starts_with p (c # s)" by (metis drop0)
  moreover have "\<forall>i. \<not> starts_with p (drop i s)" using Cons.prems by (metis drop_Suc_Cons)
  ultimately show ?case using Cons.IH by auto
qed

lemma replace_loop_same: "t = p \<Longrightarrow> replace_loop p t s = s"
proof (induction p t s rule: replace_loop.induct)
  case (2 p t c s)
  show ?case
  proof (cases "p \<noteq> [] \<and> starts_with p (c # s)")
    case True
    then have "p @ drop (length p) (c # s) = c # s"
      by (metis append_take_drop_id starts_with_def)
    moreover have "replace_loop p t (c # s) = p @ replace_loop p t (drop (length p) (c # s))"
      using True "2.prems" by simp
    ultimately show ?thesis using "2.IH"(1) [OF True "2.prems"] by simp
  next
    case False
    then have "replace_loop p t (c # s) = c # replace_loop p t s" by auto
    with "2.IH"(2) [OF False "2.prems"] show ?thesis by simp
  qed
qed simp

text \<open>What is replaced and what is kept, occurrence by occurrence.\<close>

lemma replace_loop_match: "p \<noteq> [] \<Longrightarrow> replace_loop p t (p @ s) = t @ replace_loop p t s"
  by (cases p) (simp_all add: starts_with_def)

lemma replace_loop_skip:
  "\<not> starts_with p (c # s) \<Longrightarrow> replace_loop p t (c # s) = c # replace_loop p t s"
  by simp

text \<open>The copy never runs past the target: the counted size is the size written.\<close>

lemma am_replace_str_total:
  assumes "length (replace_loop p t s) < 2 ^ 64 - 1"
  shows "am_replace_str (Some s) (Some p) (Some t) =
    Inr (if s = [] \<or> p = [] then None
         else if length p > length s \<or> strstr s p = None then am_strdup (Some s)
         else Some (replace_loop p t s))"
  using replace_fits [OF assms] by (simp add: am_replace_str_def Let_def)

section \<open>Stripping is what it says\<close>

definition strip_ref :: "string \<Rightarrow> string" where
  "strip_ref s = dropWhile isspace (rev (dropWhile isspace (rev s)))"

lemma strip_end_snoc:
  "strip_end (s @ t) (length s) = length (rev (dropWhile isspace (rev s)))"
proof (induction s arbitrary: t rule: rev_induct)
  case (snoc c s)
  show ?case using snoc [of "c # t"] by (simp add: nth_append)
qed simp

lemma strip_end_length: "strip_end s (length s) = length (rev (dropWhile isspace (rev s)))"
  using strip_end_snoc [of s "[]"] by simp

lemma take_strip_end: "take (strip_end s (length s)) s = rev (dropWhile isspace (rev s))"
proof -
  have "rev (dropWhile isspace (rev s)) @ rev (takeWhile isspace (rev s)) = s"
    by (metis rev_append rev_rev_ident takeWhile_dropWhile_id)
  then show ?thesis by (metis append_eq_conv_conj strip_end_length)
qed

lemma strip_begin_take:
  "pos \<le> len \<Longrightarrow> len \<le> length s \<Longrightarrow>
   strip_begin s len pos \<le> len \<and>
   drop (strip_begin s len pos) (take len s) = dropWhile isspace (drop pos (take len s))"
proof (induction s len pos rule: strip_begin.induct)
  case (1 s len pos)
  show ?case
  proof (cases "pos < len \<and> isspace (s ! pos)")
    case True
    then have "drop pos (take len s) = s ! pos # drop (Suc pos) (take len s)"
      using "1.prems" by (metis Cons_nth_drop_Suc length_take min.absorb2 nth_take)
    with True "1.IH" "1.prems" show ?thesis by (simp add: strip_begin.simps [of s len pos])
  next
    case False
    then have "dropWhile isspace (drop pos (take len s)) = drop pos (take len s)"
    proof (cases "pos < len")
      case True
      then have "drop pos (take len s) = s ! pos # drop (Suc pos) (take len s)"
        using "1.prems" by (metis Cons_nth_drop_Suc length_take min.absorb2 nth_take)
      with True False show ?thesis by simp
    qed (use "1.prems" in simp)
    moreover have "strip_begin s len pos = pos"
      by (subst strip_begin.simps) (rule if_not_P [OF False])
    ultimately show ?thesis using "1.prems" by simp
  qed
qed

lemma am_strstrip_eq: "am_strstrip (Some s) = Some (strip_ref s)"
proof -
  let ?len = "strip_end s (length s)"
  have le: "?len \<le> length s"
    using length_dropWhile_le [of isspace "rev s"] by (simp add: strip_end_length)
  from strip_begin_take [of 0 ?len s, OF _ le]
  have "strip_begin s ?len 0 \<le> ?len"
    "drop (strip_begin s ?len 0) (take ?len s) = dropWhile isspace (take ?len s)" by auto
  then have "take (?len - strip_begin s ?len 0) (drop (strip_begin s ?len 0) s) = strip_ref s"
    by (simp add: drop_take [symmetric] take_strip_end strip_ref_def)
  then show ?thesis by (auto simp: am_strstrip_def Let_def strip_ref_def)
qed

lemma am_strstrip_None [simp]: "am_strstrip None = None"
  by (simp add: am_strstrip_def)

lemma am_strstrip_None_iff [simp]: "am_strstrip p = None \<longleftrightarrow> p = None"
  by (cases p) (simp_all add: am_strstrip_eq)

section \<open>Properties\<close>

text \<open>\<open>am_replace_str\<close> never writes past the buffer it allocates: whenever the result fits into
  memory at all, the size computed by the counting pass is the size the copying pass writes
  plus the terminator, and the function returns the replaced text.\<close>

theorem am_replace_str_correct:
  assumes "s \<noteq> []" "p \<noteq> []" "length p \<le> length s" "strstr s p \<noteq> None"
    and "length (replace_loop p t s) < 2 ^ 64 - 1"
  shows "am_replace_str (Some s) (Some p) (Some t) = Inr (Some (replace_loop p t s)) \<and>
    replace_alloc p t s = int (length (replace_loop p t s)) + 1 \<and>
    int (length (replace_loop p t s)) =
      int (length s) + int (count_loop p s) * (int (length t) - int (length p))"
proof -
  have "am_replace_str (Some s) (Some p) (Some t) = Inr (Some (replace_loop p t s))"
    using am_replace_str_total [OF assms(5)] assms(1-4) by auto
  then show ?thesis using replace_fits [OF assms(5)] replace_loop_length by blast
qed

theorem am_replace_str_correct_witness:
  "am_replace_str (Some ''a&amp;b'') (Some ''&amp;'') (Some ''&'') =
     Inr (Some (replace_loop ''&amp;'' ''&'' ''a&amp;b'')) \<and>
   replace_alloc ''&amp;'' ''&'' ''a&amp;b'' =
     int (length (replace_loop ''&amp;'' ''&'' ''a&amp;b'')) + 1 \<and>
   int (length (replace_loop ''&amp;'' ''&'' ''a&amp;b'')) =
     int (length ''a&amp;b'') + int (count_loop ''&amp;'' ''a&amp;b'') *
       (int (length ''&'') - int (length ''&amp;''))"
  by (rule am_replace_str_correct) (simp_all add: starts_with_def)

text \<open>C39: \<open>am_strstrip\<close>, which shifts the string in place with two index loops, computes the
  string without its leading and trailing white space, and nothing else is removed.\<close>

theorem am_strstrip_correct:
  "am_strstrip (Some s) = Some (strip_ref s) \<and>
   (\<exists>a b. s = a @ strip_ref s @ b \<and> list_all isspace a \<and> list_all isspace b) \<and>
   (strip_ref s = [] \<or> \<not> isspace (hd (strip_ref s)) \<and> \<not> isspace (last (strip_ref s)))"
proof -
  let ?m = "rev (dropWhile isspace (rev s))"
  have "s = ?m @ rev (takeWhile isspace (rev s))"
    by (metis rev_append rev_rev_ident takeWhile_dropWhile_id)
  moreover have "?m = takeWhile isspace ?m @ strip_ref s" by (simp add: strip_ref_def)
  ultimately have "s = takeWhile isspace ?m @ strip_ref s @ rev (takeWhile isspace (rev s))"
    by (metis append_assoc)
  moreover have "list_all isspace (takeWhile isspace ?m)"
    "list_all isspace (rev (takeWhile isspace (rev s)))"
    by (auto simp: list_all_iff dest: set_takeWhileD)
  moreover have "\<not> isspace (hd (strip_ref s)) \<and> \<not> isspace (last (strip_ref s))"
    if ne: "strip_ref s \<noteq> []"
  proof -
    have "?m \<noteq> []" using ne unfolding strip_ref_def by (metis dropWhile.simps(1))
    then have "dropWhile isspace (rev s) \<noteq> []" by simp
    then have "\<not> isspace (last ?m)" using hd_dropWhile last_rev by metis
    moreover have "last (strip_ref s) = last ?m"
      using ne \<open>?m = takeWhile isspace ?m @ strip_ref s\<close> by (metis last_appendR)
    ultimately show ?thesis using ne by (simp add: strip_ref_def hd_dropWhile)
  qed
  ultimately show ?thesis unfolding am_strstrip_eq by blast
qed

text \<open>\<open>get_tr_folder\<close> overruns its buffer of \<open>MAXPATHLEN\<close> bytes for exactly one length of the
  home folder, 4075 characters, which its assertion still lets pass; shorter ones are fine and
  longer ones stop at the assertion.\<close>

theorem get_tr_folder_cases:
  assumes "get_home_folder e = Some home" "home \<noteq> []" "NUL \<notin> set home"
  shows "get_tr_folder e =
    (if length home < 4075 then Inr (Some (home @ ''/.config/transmission''))
     else if length home = 4075 then Inl BufferOverflow else Inl AssertFail)"
proof -
  have "am_strdup (Some (home @ ''/.config/transmission'')) = Some (home @ ''/.config/transmission'')"
    using assms(2,3) by (intro am_strdup_Some) (auto simp: NUL_def)
  then show ?thesis using assms by (auto simp: get_tr_folder_def MAXPATHLEN_def)
qed

theorem get_tr_folder_cases_witness:
  "get_tr_folder \<lparr>getenv = (\<lambda>v. if v = ''HOME'' then Some (replicate 4075 CHR ''h'') else None),
       pw_dir = None\<rparr> =
    (if length (replicate 4075 CHR ''h'') < 4075
     then Inr (Some (replicate 4075 CHR ''h'' @ ''/.config/transmission''))
     else if length (replicate 4075 CHR ''h'') = 4075 then Inl BufferOverflow else Inl AssertFail)"
proof (rule get_tr_folder_cases)
  have "replicate 4075 CHR ''h'' \<noteq> []" "NUL \<notin> set (replicate 4075 CHR ''h'')"
    by (simp_all add: NUL_def)
  then show "get_home_folder \<lparr>getenv = (\<lambda>v. if v = ''HOME'' then Some (replicate 4075 CHR ''h'') else None),
       pw_dir = None\<rparr> = Some (replicate 4075 CHR ''h'')"
    "replicate 4075 CHR ''h'' \<noteq> []" "NUL \<notin> set (replicate 4075 CHR ''h'')"
    by (simp_all add: get_home_folder_def am_strdup_Some)
qed

end
