(* ===== verification/Am_Base64.thy ===== *)
theory Am_Base64
  imports Am_Prelude
begin

unbundle bit_operations_syntax

text \<open>
  \<^verbatim>\<open>src/base64.c\<close>: Base64 encoding of torrent files for the JSON-RPC packets, and decoding.

  The arrays \<open>char_3\<close> and \<open>char_4\<close> of \<open>unsigned char\<close> are lists of \<open>8 word\<close>; the index
  \<open>i\<close> of the C loops is the length of the bytes collected so far (\<open>pend\<close>).  Both functions
  write into a buffer whose size they compute first; a write past it is \<open>BufferOverflow\<close>.
\<close>

section \<open>Definitions\<close>

definition alphabet :: string where
  "alphabet = ''ABCDEFGHIJKLMNOPQRSTUVWXYZabcdefghijklmnopqrstuvwxyz0123456789+/''"

text \<open>Three bytes to four 6-bit values.\<close>

definition to_char_4 :: "8 word \<Rightarrow> 8 word \<Rightarrow> 8 word \<Rightarrow> 8 word list" where
  "to_char_4 b0 b1 b2 =
     [drop_bit 2 (b0 AND 0xfc),
      push_bit 4 (b0 AND 0x03) + drop_bit 4 (b1 AND 0xf0),
      push_bit 2 (b1 AND 0x0f) + drop_bit 6 (b2 AND 0xc0),
      b2 AND 0x3f]"

definition alpha :: "8 word \<Rightarrow> char" where
  "alpha v = alphabet ! unat v"

text \<open>The last, incomplete group: \<open>i\<close> bytes left, padded with zero bytes.\<close>

definition encode_tail :: "8 word list \<Rightarrow> string" where
  "encode_tail pend =
     (let i = length pend; c3 = pend @ replicate (3 - i) 0
      in if i = 0 then []
         else map alpha (take (i + 1) (to_char_4 (c3 ! 0) (c3 ! 1) (c3 ! 2))) @
              replicate (3 - i) (CHR ''=''))"

fun encode_loop :: "8 word list \<Rightarrow> char list \<Rightarrow> string" where
  "encode_loop pend [] = encode_tail pend"
| "encode_loop pend (c # cs) =
     (let p = pend @ [byte c]
      in if length p = 3
         then map alpha (to_char_4 (p ! 0) (p ! 1) (p ! 2)) @ encode_loop [] cs
         else encode_loop p cs)"

definition enc_size :: "nat \<Rightarrow> nat" where
  "enc_size len = (((len + 13) mod 2 ^ 32) div 3 * 4) mod 2 ^ 32"

text \<open>
  \<open>base64_encode(input, len, setme_len)\<close>: \<open>has_setme\<close> tells whether \<open>setme_len\<close> is given.
  The result is the returned pointer and the value stored in \<open>*setme_len\<close>.
\<close>

definition base64_encode ::
  "char list option \<Rightarrow> nat \<Rightarrow> bool \<Rightarrow> (string option \<times> nat option) res" where
  "base64_encode input len has_setme =
     (case input of
        None \<Rightarrow> Inr (None, if has_setme then Some 0 else None)
      | Some inp \<Rightarrow>
          (if \<not> has_setme \<or> len = 0 then Inr (None, if has_setme then Some 0 else None)
           else if length inp < len then Inl OutOfBounds
           else let out = encode_loop [] (take len inp)
                in if length out + 1 > enc_size len then Inl BufferOverflow
                   else Inr (Some out, Some (length out))))"

definition is_base64 :: "char \<Rightarrow> bool" where
  "is_base64 c \<longleftrightarrow> isalnum c \<or> c = CHR ''+'' \<or> c = CHR ''/''"

text \<open>\<open>find\<close> returns \<open>-1\<close> for a character outside the alphabet, stored as 255.\<close>

fun find_loop :: "char \<Rightarrow> nat \<Rightarrow> string \<Rightarrow> 8 word" where
  "find_loop c i [] = 255"
| "find_loop c i (a # as) = (if a = c then of_nat i else find_loop c (Suc i) as)"

definition find_char :: "char \<Rightarrow> 8 word" where
  "find_char c = find_loop c 0 alphabet"

text \<open>Four 6-bit values to three bytes.\<close>

definition to_char_3 :: "8 word \<Rightarrow> 8 word \<Rightarrow> 8 word \<Rightarrow> 8 word \<Rightarrow> 8 word list" where
  "to_char_3 v0 v1 v2 v3 =
     [push_bit 2 v0 + drop_bit 4 (v1 AND 0x30),
      push_bit 4 (v1 AND 0xf) + drop_bit 2 (v2 AND 0x3c),
      push_bit 6 (v2 AND 0x3) + v3]"

definition decode_group :: "char list \<Rightarrow> 8 word list" where
  "decode_group p =
     to_char_3 (find_char (p ! 0)) (find_char (p ! 1)) (find_char (p ! 2)) (find_char (p ! 3))"

definition decode_tail :: "char list \<Rightarrow> 8 word list" where
  "decode_tail pend =
     (let i = length pend
      in if i = 0 then [] else take (i - 1) (decode_group (pend @ replicate (4 - i) NUL)))"

fun decode_loop :: "char list \<Rightarrow> char list \<Rightarrow> 8 word list" where
  "decode_loop pend [] = decode_tail pend"
| "decode_loop pend (c # cs) =
     (if c \<noteq> CHR ''='' \<and> is_base64 c then
        (let p = pend @ [c]
         in if length p = 4 then decode_group p @ decode_loop [] cs else decode_loop p cs)
      else decode_tail pend)"

definition dec_size :: "nat \<Rightarrow> nat" where
  "dec_size in_len = (3 * (in_len div 4) + 2) mod 2 ^ 32"

definition base64_decode ::
  "char list option \<Rightarrow> nat \<Rightarrow> bool \<Rightarrow> (char list option \<times> nat option) res" where
  "base64_decode encoded in_len has_setme =
     (case encoded of
        None \<Rightarrow> Inr (None, None)
      | Some s \<Rightarrow>
          (if \<not> has_setme then Inr (None, None)
           else if length s < in_len then Inl OutOfBounds
           else let out = map unbyte (decode_loop [] (take in_len s))
                in if length out + 1 > dec_size in_len then Inl BufferOverflow
                   else Inr (Some out, Some (length out))))"

section \<open>Bits\<close>

text \<open>The sums of the C code add disjoint bits.\<close>

lemma enc_or:
  "push_bit 4 ((b0::8 word) AND 0x03) + drop_bit 4 (b1 AND 0xf0) =
     push_bit 4 (b0 AND 0x03) OR drop_bit 4 (b1 AND 0xf0)"
  "push_bit 2 ((b1::8 word) AND 0x0f) + drop_bit 6 (b2 AND 0xc0) =
     push_bit 2 (b1 AND 0x0f) OR drop_bit 6 (b2 AND 0xc0)"
  by (rule disjunctive_add_eq_or; simp add: byte_bits)+

lemma dec_or:
  "push_bit 2 v0 + drop_bit 4 ((v1::8 word) AND 0x30) = push_bit 2 v0 OR drop_bit 4 (v1 AND 0x30)"
  "push_bit 4 ((v1::8 word) AND 0xf) + drop_bit 2 (v2 AND 0x3c) =
     push_bit 4 (v1 AND 0xf) OR drop_bit 2 (v2 AND 0x3c)"
  by (rule disjunctive_add_eq_or; simp add: byte_bits)+

lemma dec_or3:
  "push_bit 6 ((v2::8 word) AND 0x3) + (b AND 0x3f) = push_bit 6 (v2 AND 0x3) OR (b AND 0x3f)"
  by (rule disjunctive_add_eq_or; simp add: byte_bits)

lemma nth_four: "[a, b, c, d] ! 0 = a" "[a, b, c, d] ! 1 = b" "[a, b, c, d] ! 2 = c" "[a, b, c, d] ! 3 = d"
  by simp_all

lemma to_char_3_4:
  fixes b0 b1 b2 :: "8 word"
  shows "to_char_3 (to_char_4 b0 b1 b2 ! 0) (to_char_4 b0 b1 b2 ! 1)
    (to_char_4 b0 b1 b2 ! 2) (to_char_4 b0 b1 b2 ! 3) = [b0, b1, b2]"
proof -
  have "push_bit 2 (drop_bit 2 (b0 AND 0xfc)) OR
      drop_bit 4 ((push_bit 4 (b0 AND 0x03) OR drop_bit 4 (b1 AND 0xf0)) AND 0x30) = b0"
    by (simp add: byte_bits)
  moreover have "push_bit 4 ((push_bit 4 (b0 AND 0x03) OR drop_bit 4 (b1 AND 0xf0)) AND 0xf) OR
      drop_bit 2 ((push_bit 2 (b1 AND 0x0f) OR drop_bit 6 (b2 AND 0xc0)) AND 0x3c) = b1"
    by (simp add: byte_bits)
  moreover have "push_bit 6 ((push_bit 2 (b1 AND 0x0f) OR drop_bit 6 (b2 AND 0xc0)) AND 0x3) OR
      (b2 AND 0x3f) = b2"
    by (simp add: byte_bits)
  ultimately show ?thesis
    by (simp only: to_char_3_def to_char_4_def nth_four enc_or dec_or dec_or3)
qed

section \<open>The alphabet\<close>

lemma alphabet_length [simp]: "length alphabet = 64"
  by (simp add: alphabet_def)

lemma alphabet_distinct: "distinct alphabet"
  by (simp add: alphabet_def)

definition b64_char :: "char \<Rightarrow> bool" where
  "b64_char c \<longleftrightarrow> c \<noteq> CHR ''='' \<and> is_base64 c"

lemma alphabet_b64: "list_all b64_char alphabet"
  by (simp add: alphabet_def b64_char_def is_base64_def isalnum_def isdigit_def isupper_def
      islower_def code_def)

lemma find_loop_nth:
  "distinct as \<Longrightarrow> v < length as \<Longrightarrow> find_loop (as ! v) i as = of_nat (i + v)"
proof (induction as arbitrary: i v)
  case (Cons a as)
  then show ?case by (cases v) auto
qed simp

lemma find_alpha:
  assumes "unat v < 64"
  shows "find_char (alpha v) = v"
proof -
  have "find_char (alpha v) = of_nat (0 + unat v)"
    unfolding find_char_def alpha_def
    by (rule find_loop_nth) (simp_all add: alphabet_distinct assms)
  then show ?thesis by simp
qed

lemma alpha_b64: "unat v < 64 \<Longrightarrow> b64_char (alpha v)"
  using alphabet_b64 by (simp add: alpha_def list_all_length)

lemma mask_less_64:
  assumes "v AND 0x3f = (v :: 8 word)"
  shows "unat v < 64"
proof -
  have "v \<le> 0x3f" using assms word_and_le1 [of v "0x3f"] by simp
  then show ?thesis by (simp add: word_le_nat_alt)
qed

lemma to_char_4_masked: "list_all (\<lambda>v. v AND 0x3f = v) (to_char_4 b0 b1 b2)"
  by (simp only: to_char_4_def enc_or list.pred_inject) (simp add: byte_bits)

lemma to_char_4_less: "v \<in> set (to_char_4 b0 b1 b2) \<Longrightarrow> unat v < 64"
  using to_char_4_masked [of b0 b1 b2] by (auto simp only: list_all_iff intro: mask_less_64)

section \<open>Decoding inverts encoding\<close>

lemma decode_group_alpha:
  "decode_group (map alpha (to_char_4 b0 b1 b2)) = [b0, b1, b2]"
proof -
  obtain v0 v1 v2 v3 where v: "to_char_4 b0 b1 b2 = [v0, v1, v2, v3]"
    by (simp add: to_char_4_def)
  have "find_char (alpha x) = x" if "x \<in> set [v0, v1, v2, v3]" for x
    using that to_char_4_less [of x b0 b1 b2] v by (simp add: find_alpha)
  then show ?thesis
    using to_char_3_4 [of b0 b1 b2] by (simp add: decode_group_def v nth_four numeral_3_eq_3)
qed

lemma decode_loop_four:
  assumes "b64_char c0" "b64_char c1" "b64_char c2" "b64_char c3"
  shows "decode_loop [] (c0 # c1 # c2 # c3 # cs) = decode_group [c0, c1, c2, c3] @ decode_loop [] cs"
  using assms by (simp add: b64_char_def Let_def)

lemma decode_tail_take:
  assumes "length p = i" "0 < i" "i < 4" "length q = 4 - i"
  shows "decode_tail p = take (i - 1) (decode_group (p @ q))"
proof -
  consider "i = 1" | a b where "p = [a, b]" "i = 2" | a b c where "p = [a, b, c]" "i = 3"
    using assms by (cases p; cases "tl p"; cases "tl (tl p)") auto
  then show ?thesis
    by cases (use assms in \<open>auto simp: decode_tail_def decode_group_def to_char_3_def Let_def\<close>)
qed

lemma encode_group_b64: "v \<in> set (to_char_4 b0 b1 b2) \<Longrightarrow> b64_char (alpha v)"
  by (rule alpha_b64) (rule to_char_4_less)

lemma decode_encode_tail:
  assumes "length pend < 3"
  shows "decode_loop [] (encode_tail pend) = pend"
proof -
  consider "pend = []" | b0 where "pend = [b0]" | b0 b1 where "pend = [b0, b1]"
    using assms by (cases pend; cases "tl pend"; cases "tl (tl pend)") auto
  then show ?thesis
  proof cases
    case 1
    then show ?thesis by (simp add: encode_tail_def decode_tail_def)
  next
    case (2 b0)
    obtain v0 v1 v2 v3 where v: "to_char_4 b0 0 0 = [v0, v1, v2, v3]"
      by (simp add: to_char_4_def)
    have "b64_char (alpha v0)" "b64_char (alpha v1)"
      using encode_group_b64 [of _ b0 0 0] v by auto
    then have "decode_loop [] (encode_tail pend) = decode_tail [alpha v0, alpha v1]"
      by (simp add: encode_tail_def 2 v numeral_2_eq_2 b64_char_def Let_def)
    also have "\<dots> = take 1 (decode_group ([alpha v0, alpha v1] @ [alpha v2, alpha v3]))"
      using decode_tail_take [of "[alpha v0, alpha v1]" 2 "[alpha v2, alpha v3]"] by simp
    also have "\<dots> = pend"
      using decode_group_alpha [of b0 0 0] by (simp add: v 2)
    finally show ?thesis .
  next
    case (3 b0 b1)
    obtain v0 v1 v2 v3 where v: "to_char_4 b0 b1 0 = [v0, v1, v2, v3]"
      by (simp add: to_char_4_def)
    have "b64_char (alpha v0)" "b64_char (alpha v1)" "b64_char (alpha v2)"
      using encode_group_b64 [of _ b0 b1 0] v by auto
    then have "decode_loop [] (encode_tail pend) = decode_tail [alpha v0, alpha v1, alpha v2]"
      by (simp add: encode_tail_def 3 v numeral_2_eq_2 b64_char_def Let_def)
    also have "\<dots> = take 2 (decode_group ([alpha v0, alpha v1, alpha v2] @ [alpha v3]))"
      using decode_tail_take [of "[alpha v0, alpha v1, alpha v2]" 3 "[alpha v3]"] by simp
    also have "\<dots> = pend"
      using decode_group_alpha [of b0 b1 0] by (simp add: v 3)
    finally show ?thesis .
  qed
qed

lemma decode_encode_loop:
  "length pend < 3 \<Longrightarrow> decode_loop [] (encode_loop pend cs) = pend @ map byte cs"
proof (induction pend cs rule: encode_loop.induct)
  case (1 pend)
  then show ?case by (simp add: decode_encode_tail)
next
  case (2 pend c cs)
  let ?p = "pend @ [byte c]"
  show ?case
  proof (cases "length ?p = 3")
    case True
    then obtain b0 b1 where p: "pend = [b0, b1]"
      by (cases pend; cases "tl pend") auto
    obtain v0 v1 v2 v3 where v: "to_char_4 b0 b1 (byte c) = [v0, v1, v2, v3]"
      by (simp add: to_char_4_def)
    have "decode_loop [] (encode_loop [] cs) = map byte cs"
      using "2.IH"(1) [OF refl True] by simp
    moreover have "decode_group [alpha v0, alpha v1, alpha v2, alpha v3] = [b0, b1, byte c]"
      using decode_group_alpha [of b0 b1 "byte c"] by (simp add: v)
    moreover have "b64_char (alpha v0)" "b64_char (alpha v1)" "b64_char (alpha v2)" "b64_char (alpha v3)"
      using encode_group_b64 [of _ b0 b1 "byte c"] v by auto
    moreover have "encode_loop pend (c # cs) =
        alpha v0 # alpha v1 # alpha v2 # alpha v3 # encode_loop [] cs"
      using v by (simp add: p numeral_2_eq_2)
    ultimately show ?thesis by (simp add: decode_loop_four p del: decode_loop.simps)
  next
    case False
    then have "length ?p < 3" using "2.prems" by simp
    moreover have "encode_loop pend (c # cs) = encode_loop ?p cs"
      using False by (simp add: Let_def)
    ultimately show ?thesis using "2.IH"(2) [OF refl False] by simp
  qed
qed

lemma encode_tail_length: "length pend < 3 \<Longrightarrow> length (encode_tail pend) = (if pend = [] then 0 else 4)"
  by (cases pend; cases "tl pend"; cases "tl (tl pend)")
    (auto simp: encode_tail_def to_char_4_def)

lemma encode_loop_length [c_bounds]:
  "length pend < 3 \<Longrightarrow> length (encode_loop pend cs) = 4 * ((length pend + length cs + 2) div 3)"
proof (induction pend cs rule: encode_loop.induct)
  case (1 pend)
  then have "pend \<noteq> [] \<Longrightarrow> (length pend + 2) div 3 = 1" by (cases pend) auto
  with 1 show ?case by (auto simp: encode_tail_length)
next
  case (2 pend c cs)
  let ?p = "pend @ [byte c]"
  show ?case
  proof (cases "length ?p = 3")
    case True
    then have "length (encode_loop pend (c # cs)) = 4 + length (encode_loop [] cs)"
      by (simp add: Let_def to_char_4_def)
    moreover have "(length pend + length (c # cs) + 2) div 3 = Suc ((length cs + 2) div 3)"
      using True by simp
    ultimately show ?thesis using "2.IH"(1) [OF refl True] by simp
  next
    case False
    then have "length ?p < 3" using "2.prems" by simp
    moreover have "encode_loop pend (c # cs) = encode_loop ?p cs"
      using False by (simp add: Let_def)
    ultimately show ?thesis using "2.IH"(2) [OF refl False] by simp
  qed
qed

interpretation b64: codec "encode_loop []" "\<lambda>s. map unbyte (decode_loop [] s)" UNIV
  by unfold_locales (simp add: decode_encode_loop o_def)

lemma enc_size_enough:
  assumes "n < 2 ^ 31"
  shows "4 * ((n + 2) div 3) + 1 \<le> enc_size n"
proof -
  have "(n + 13) div 3 \<ge> (n + 2) div 3 + 3" by simp
  moreover have "(n + 13) div 3 * 4 < 2 ^ 32" using assms by simp
  ultimately show ?thesis using assms by (simp add: enc_size_def)
qed

lemma base64_encode_ok:
  assumes "0 < length s" "length s < 2 ^ 31"
  shows "base64_encode (Some s) (length s) True =
    Inr (Some (encode_loop [] s), Some (4 * ((length s + 2) div 3)))"
  using enc_size_enough [OF assms(2)] assms
  by (simp add: base64_encode_def encode_loop_length Let_def)

section \<open>The size of the decoder's buffer\<close>

lemma decode_loop_prefix:
  "decode_loop pend s = decode_loop pend (takeWhile b64_char s)"
  by (induction pend s rule: decode_loop.induct) (auto simp: b64_char_def Let_def)

lemma decode_loop_length:
  "list_all b64_char s \<Longrightarrow> length pend < 4 \<Longrightarrow>
   length (decode_loop pend s) =
     3 * ((length pend + length s) div 4) + ((length pend + length s) mod 4 - 1)"
proof (induction pend s rule: decode_loop.induct)
  case (1 pend)
  then show ?case
    by (cases pend) (auto simp: decode_tail_def decode_group_def to_char_3_def Let_def)
next
  case (2 pend c cs)
  then have "b64_char c" and cs: "list_all b64_char cs" by simp_all
  then have c: "c \<noteq> CHR ''=''" "is_base64 c" "list_all b64_char cs" by (simp_all add: b64_char_def)
  show ?case
  proof (cases "length (pend @ [c]) = 4")
    case True
    have "length (decode_loop [] cs) = 3 * (length cs div 4) + (length cs mod 4 - 1)"
      using "2.IH"(1) [OF _ refl True] c by simp
    moreover have "length pend + length (c # cs) = 4 + length cs" using True by simp
    moreover have "(4 + length cs) div 4 = Suc (length cs div 4)" by simp
    ultimately show ?thesis
      using True c by (simp add: Let_def decode_group_def to_char_3_def)
  next
    case False
    then have "length (pend @ [c]) < 4" using "2.prems" by simp
    then show ?thesis
      using "2.IH"(2) [OF _ refl False] c False by (simp add: Let_def)
  qed
qed

lemma decode_overflow_arith:
  fixes k n :: nat
  assumes "k \<le> n"
  shows "3 * (k div 4) + (k mod 4 - 1) + 1 > 3 * (n div 4) + 2 \<longleftrightarrow> k = n \<and> n mod 4 = 3"
proof
  assume l: "3 * (k div 4) + (k mod 4 - 1) + 1 > 3 * (n div 4) + 2"
  have m: "k mod 4 \<le> 3" "n mod 4 \<le> 3" by simp_all
  have "k div 4 \<le> n div 4" using assms by (rule div_le_mono)
  with l m have "k div 4 = n div 4" "k mod 4 = 3" by linarith+
  moreover have "k = 4 * (k div 4) + k mod 4" "n = 4 * (n div 4) + n mod 4" by simp_all
  ultimately show "k = n \<and> n mod 4 = 3" using assms m by linarith
qed auto

lemma base64_decode_overflow_iff:
  assumes "length s < 2 ^ 31"
  shows "base64_decode (Some s) (length s) True = Inl BufferOverflow \<longleftrightarrow>
    list_all b64_char s \<and> length s mod 4 = 3"
proof -
  let ?t = "takeWhile b64_char s"
  have all: "list_all b64_char ?t" by (auto simp: list_all_iff dest: set_takeWhileD)
  have len: "length (decode_loop [] s) = 3 * (length ?t div 4) + (length ?t mod 4 - 1)"
    using decode_loop_length [OF all, of "[]"] by (simp add: decode_loop_prefix [of "[]" s])
  have "dec_size (length s) = 3 * (length s div 4) + 2"
    using assms by (simp add: dec_size_def)
  then have "base64_decode (Some s) (length s) True = Inl BufferOverflow \<longleftrightarrow>
      length ?t = length s \<and> length s mod 4 = 3"
    using len decode_overflow_arith [OF length_takeWhile_le [where P = b64_char and xs = s]]
    by (simp add: base64_decode_def Let_def)
  also have "length ?t = length s \<longleftrightarrow> list_all b64_char s"
    by (metis length_takeWhile_le list_all_iff takeWhile_eq_all_conv takeWhile_eq_take take_all_iff)
  finally show ?thesis .
qed

text \<open>Output of the encoder is never of that kind, so decoding it stays within the buffer.\<close>

lemma base64_decode_encoded:
  assumes "0 < length s" "length s < 2 ^ 30"
  shows "base64_decode (Some (encode_loop [] s)) (length (encode_loop [] s)) True =
    Inr (Some s, Some (length s))"
proof -
  let ?n = "length s"
  have len: "length (encode_loop [] s) = 4 * ((?n + 2) div 3)"
    by (simp add: encode_loop_length)
  have "?n \<le> 3 * ((?n + 2) div 3)" by presburger
  moreover have "3 * ((?n + 2) div 3) + 2 < 2 ^ 32" using assms(2) by simp
  ultimately have "\<not> dec_size (4 * ((?n + 2) div 3)) < ?n + 1"
    by (simp add: dec_size_def)
  then show ?thesis
    using b64.dec_enc [of s] by (simp add: base64_decode_def Let_def len)
qed

section \<open>Properties\<close>

text \<open>C35: encoding and decoding a torrent file of any content is the identity, the encoder's
  output has the length it reports (four characters for every three bytes started), and
  neither function writes past the buffer it allocated.\<close>

theorem base64_roundtrip:
  assumes "0 < length s" and "length s < 2 ^ 30"
  shows "\<exists>e. base64_encode (Some s) (length s) True = Inr (Some e, Some (length e)) \<and>
    length e = 4 * ((length s + 2) div 3) \<and>
    base64_decode (Some e) (length e) True = Inr (Some s, Some (length s))"
proof -
  have "length s < 2 ^ 31" using assms(2) by simp
  then show ?thesis
    using base64_encode_ok [OF assms(1)] base64_decode_encoded [OF assms]
    by (intro exI [of _ "encode_loop [] s"]) (simp add: encode_loop_length)
qed

theorem base64_roundtrip_witness:
  "\<exists>e. base64_encode (Some ''fox.'') (length ''fox.'') True = Inr (Some e, Some (length e)) \<and>
    length e = 4 * ((length ''fox.'' + 2) div 3) \<and>
    base64_decode (Some e) (length e) True = Inr (Some ''fox.'', Some (length ''fox.''))"
  by (rule base64_roundtrip) simp_all

text \<open>C36: the decoder writes one byte past its buffer exactly for input without padding that is
  made of alphabet characters only and whose length leaves the remainder 3 modulo 4.\<close>

theorem base64_decode_overflow:
  assumes "length s < 2 ^ 31"
  shows "base64_decode (Some s) (length s) True = Inl BufferOverflow \<longleftrightarrow>
    list_all (\<lambda>c. c \<noteq> CHR ''='' \<and> is_base64 c) s \<and> length s mod 4 = 3"
  using base64_decode_overflow_iff [OF assms] by (simp add: b64_char_def [abs_def])

theorem base64_decode_overflow_witness:
  "base64_decode (Some ''Zm8'') (length ''Zm8'') True = Inl BufferOverflow"
  by (rule base64_decode_overflow [THEN iffD2])
    (simp_all add: is_base64_def isalnum_def isdigit_def isupper_def islower_def code_def)

end
