(* ===== verification/Am_Urlcode.thy ===== *)
theory Am_Urlcode
  imports Am_Prelude
begin

unbundle bit_operations_syntax

text \<open>
  \<^verbatim>\<open>src/urlcode.c\<close>: URL escapes.  \<open>char\<close> arithmetic is done on \<open>8 word\<close>: every result is
  stored in a \<open>char\<close> or masked with 15, so the low eight bits decide.  Each encoder writes
  into a buffer of \<open>strlen(str) * 3 + 1\<close> bytes, the decoder into one of \<open>strlen(str) + 1\<close>;
  the length lemmas show that these suffice.
\<close>

section \<open>Definitions\<close>

definition from_hex :: "char \<Rightarrow> 8 word" where
  "from_hex ch = (if isdigit ch then byte ch - byte (CHR ''0'')
                  else byte (tolower ch) - byte (CHR ''a'') + 10)"

definition hex :: string where
  "hex = ''0123456789abcdef''"

definition to_hex :: "8 word \<Rightarrow> char" where
  "to_hex w = hex ! unat (w AND 15)"

text \<open>\<open>*pstr >> 4\<close> shifts a signed \<open>char\<close>.\<close>

definition escape :: "char \<Rightarrow> string" where
  "escape c = [CHR ''%'', to_hex (signed_drop_bit 4 (byte c)), to_hex (byte c AND 15)]"

definition unreserved :: "char \<Rightarrow> bool" where
  "unreserved c \<longleftrightarrow> isalnum c \<or> c = CHR ''-'' \<or> c = CHR ''_'' \<or> c = CHR ''.'' \<or> c = CHR ''~''"

fun url_encode :: "string \<Rightarrow> string" where
  "url_encode [] = []"
| "url_encode (c # s) =
     (if unreserved c then [c]
      else if c = CHR '' '' then ''+''
      else escape c) @ url_encode s"

fun url_encode_whitespace :: "string \<Rightarrow> string" where
  "url_encode_whitespace [] = []"
| "url_encode_whitespace (c # s) =
     (if c = CHR '' '' then escape c else [c]) @ url_encode_whitespace s"

text \<open>An incomplete escape at the end of the string loses its \<^verbatim>\<open>%\<close>.\<close>

fun url_decode :: "string \<Rightarrow> char list" where
  "url_decode [] = []"
| "url_decode (c # s) =
     (if c = CHR ''%'' then
        (case s of
           a # b # r \<Rightarrow> unbyte (push_bit 4 (from_hex a) OR from_hex b) # url_decode r
         | _ \<Rightarrow> url_decode s)
      else if c = CHR ''+'' then CHR '' '' # url_decode s
      else c # url_decode s)"

section \<open>Lemmas\<close>

lemma hex_length [simp]: "length hex = 16"
  by (simp add: hex_def)

lemma list_all_upto_16:
  "(\<forall>k<16. P k) \<longleftrightarrow> P 0 \<and> P 1 \<and> P 2 \<and> P 3 \<and> P 4 \<and> P 5 \<and> P 6 \<and> P 7 \<and>
    P 8 \<and> P 9 \<and> P 10 \<and> P 11 \<and> P 12 \<and> P 13 \<and> P 14 \<and> P (15::nat)"
  by (simp add: All_less_Suc eval_nat_numeral) auto

lemma from_hex_nth: "k < 16 \<Longrightarrow> from_hex (hex ! k) = of_nat k"
proof -
  have "\<forall>k<16. from_hex (hex ! k) = of_nat k"
    unfolding list_all_upto_16
    by (simp add: from_hex_def hex_def isdigit_def tolower_def isupper_def code_def byte_def)
  then show "k < 16 \<Longrightarrow> from_hex (hex ! k) = of_nat k" by blast
qed

lemma nibble_less: "unat ((w :: 8 word) AND 15) < 16"
proof -
  have "w AND 15 \<le> 15" using word_and_le1 [of w 15] by simp
  then show ?thesis by (simp add: word_le_nat_alt)
qed

lemma from_hex_to_hex: "from_hex (to_hex w) = w AND 15"
  by (simp add: to_hex_def from_hex_nth nibble_less)

lemma nibbles: "push_bit 4 (signed_drop_bit 4 (b :: 8 word) AND 15) OR (b AND 15) = b"
  by (simp add: byte_bits)

lemma escape_decodes: "url_decode (escape c @ s) = c # url_decode s"
  using nibbles [of "byte c"] by (simp add: escape_def from_hex_to_hex and.assoc)

lemma unreserved_plain: "unreserved c \<Longrightarrow> c \<noteq> CHR ''%'' \<and> c \<noteq> CHR ''+''"
proof -
  have "\<not> unreserved (CHR ''%'')" "\<not> unreserved (CHR ''+'')"
    by (simp_all add: unreserved_def isalnum_def isdigit_def isupper_def islower_def code_def)
  then show "unreserved c \<Longrightarrow> c \<noteq> CHR ''%'' \<and> c \<noteq> CHR ''+''" by blast
qed

lemma url_decode_encode: "url_decode (url_encode s) = s"
proof (induction s)
  case (Cons c s)
  then show ?case
    using unreserved_plain [of c] by (auto simp: escape_decodes)
qed simp

lemma url_encode_length [c_bounds]: "length (url_encode s) \<le> length s * 3"
  by (induction s) (auto simp: escape_def)

lemma url_encode_whitespace_length [c_bounds]: "length (url_encode_whitespace s) \<le> length s * 3"
  by (induction s) (auto simp: escape_def)

lemma url_decode_length [c_bounds]: "length (url_decode s) \<le> length s"
proof (induction s rule: length_induct)
  case (1 s)
  show ?case
  proof (cases s)
    case (Cons c t)
    show ?thesis
    proof (cases "c = CHR ''%''")
      case False
      then show ?thesis using 1 Cons by auto
    next
      case True
      show ?thesis
      proof (cases "\<exists>a b r. t = a # b # r")
        case True
        then obtain a b r where "t = a # b # r" by blast
        then show ?thesis using 1 Cons \<open>c = CHR ''%''\<close> by (simp add: le_SucI)
      next
        case False
        then have "url_decode s = url_decode t"
          using Cons \<open>c = CHR ''%''\<close> by (auto split: list.split)
        then show ?thesis using 1 Cons by (simp add: le_SucI)
      qed
    qed
  qed simp
qed

lemma hex_alnum: "k < 16 \<Longrightarrow> isalnum (hex ! k)"
proof -
  have "\<forall>k<16. isalnum (hex ! k)"
    unfolding list_all_upto_16
    by (simp add: hex_def isalnum_def isdigit_def islower_def isupper_def code_def)
  then show "k < 16 \<Longrightarrow> isalnum (hex ! k)" by blast
qed

lemma to_hex_alnum: "isalnum (to_hex w)"
  by (simp add: to_hex_def hex_alnum nibble_less)

lemma alnum_not_special: "isalnum c \<Longrightarrow> c \<noteq> CHR '' '' \<and> c \<noteq> NUL"
  by (auto simp: isalnum_def isdigit_def isupper_def islower_def code_def NUL_def)

lemma url_encode_chars:
  "c \<in> set (url_encode s) \<Longrightarrow> unreserved c \<or> c = CHR ''+'' \<or> c = CHR ''%''"
  by (induction s) (auto simp: escape_def unreserved_def to_hex_alnum split: if_splits)

lemma escape_no_space: "CHR '' '' \<notin> set (escape c)"
  using to_hex_alnum alnum_not_special by (fastforce simp: escape_def)

lemma url_encode_whitespace_no_space: "CHR '' '' \<notin> set (url_encode_whitespace s)"
  by (induction s) (auto simp: escape_no_space)

lemma url_encode_whitespace_id: "CHR '' '' \<notin> set s \<Longrightarrow> url_encode_whitespace s = s"
  by (induction s) auto

lemma escape_space: "escape (CHR '' '') = ''%20''"
proof -
  have "signed_drop_bit 4 (32 :: 8 word) AND 15 = 2" by (simp add: byte_bits)
  moreover have "(32 :: 8 word) AND 15 AND 15 = 0" by simp
  ultimately show ?thesis by (simp add: escape_def to_hex_def byte_def hex_def)
qed

interpretation url: codec url_encode url_decode UNIV
  by unfold_locales (simp add: url_decode_encode)

section \<open>Properties\<close>

text \<open>C37: decoding inverts URL encoding on every byte string, encoding is injective, its output
  consists of characters that need no escape and the escapes themselves, and neither direction
  outgrows its buffer.\<close>

theorem url_roundtrip:
  "url_decode (url_encode s) = s \<and>
   (url_encode s = url_encode t \<longleftrightarrow> s = t) \<and>
   set (url_encode s) \<subseteq> {c. unreserved c} \<union> {CHR ''+'', CHR ''%''} \<and>
   length (url_encode s) + 1 \<le> length s * 3 + 1 \<and>
   length (url_decode s) + 1 \<le> length s + 1"
  using url.enc_eq_iff [of s t] url_encode_chars [of _ s]
  by (auto simp: url_decode_encode url_encode_length url_decode_length)

end
