(* ===== verification/Am_Regex.thy ===== *)
theory Am_Regex
  imports Am_Utils
begin

text \<open>
  \<^verbatim>\<open>src/regex.c\<close>: matching, extraction of a capture group, and the template substitution behind
  URL rewriting.

  PCRE is not part of the repository, so it is the record \<open>pcre\<close> of the calls the code makes;
  every definition that uses it takes the record as an argument.  A compiled expression is
  identified with its pattern (the options are the same everywhere).
\<close>

section \<open>PCRE\<close>

record pcre =
  pcre_compile :: "string \<Rightarrow> bool"
    \<comment> \<open>\<open>pcre_compile\<close> with UTF8, CASELESS and EXTENDED returns an expression\<close>
  pcre_fullinfo :: "string \<Rightarrow> int \<times> int"
    \<comment> \<open>return code and capture count of \<open>PCRE_INFO_CAPTURECOUNT\<close>\<close>
  pcre_exec :: "string \<Rightarrow> string \<Rightarrow> nat \<Rightarrow> int"
    \<comment> \<open>pattern, subject, size of the offset vector; the return code\<close>
  pcre_substrings :: "string \<Rightarrow> string \<Rightarrow> int \<Rightarrow> string list option"
    \<comment> \<open>\<open>pcre_get_substring_list\<close> after that match, \<open>None\<close> when it fails\<close>

definition getPCRECaptureCount :: "pcre \<Rightarrow> string option \<Rightarrow> int" where
  "getPCRECaptureCount re preg =
     (case preg of
        None \<Rightarrow> 0
      | Some p \<Rightarrow> (let (result, count) = pcre_fullinfo re p
                   in if result \<noteq> 0 then result else count))"

definition init_regex :: "pcre \<Rightarrow> string option \<Rightarrow> string option" where
  "init_regex re pattern =
     (case pattern of
        None \<Rightarrow> None
      | Some p \<Rightarrow> if pcre_compile re p then Some p else None)"

definition isRegExMatch :: "pcre \<Rightarrow> string option \<Rightarrow> string option \<Rightarrow> nat" where
  "isRegExMatch re pattern str =
     (case str of
        None \<Rightarrow> 0
      | Some s \<Rightarrow>
          (if s = [] then 0
           else case init_regex re pattern of
                  None \<Rightarrow> 0
                | Some p \<Rightarrow> if pcre_exec re p s 0 = 0 then 1 else 0))"

text \<open>
  \<open>getRegExCaptureGroups\<close> returns the count and what \<open>*stringlist\<close>, NULL before the call,
  points to afterwards.
\<close>

definition getRegExCaptureGroups ::
  "pcre \<Rightarrow> string option \<Rightarrow> string option \<Rightarrow> int \<times> string list option" where
  "getRegExCaptureGroups re pattern str =
     (case str of
        None \<Rightarrow> (0, None)
      | Some s \<Rightarrow>
          (if s = [] then (0, None)
           else case init_regex re pattern of
                  None \<Rightarrow> (- 1, None)
                | Some p \<Rightarrow>
                    (let n = getPCRECaptureCount re (Some p);
                         groups = (if n < 0 then 9 else n);
                         ovecSize = (if groups > 0 then nat ((groups + 1) * 3) else 0);
                         count = pcre_exec re p s ovecSize
                     in if count > 1 then (count, pcre_substrings re p s count)
                        else (count, None))))"

definition getRegExMatch ::
  "pcre \<Rightarrow> string option \<Rightarrow> string option \<Rightarrow> nat \<Rightarrow> string option res" where
  "getRegExMatch re pattern str which =
     (if str = None \<or> str = Some [] then Inr None
      else
        let (count, stringlist) = getRegExCaptureGroups re pattern str
        in if count > 0 \<and> count > int which then
             (case stringlist of
                None \<Rightarrow> Inl NullDeref
              | Some l \<Rightarrow>
                  if which < length l then Inr (am_strstrip (am_strdup (Some (l ! which))))
                  else Inl OutOfBounds)
           else Inr (am_strstrip None))"

section \<open>Template substitution\<close>

definition MAX_SUBST_LEN :: nat where "MAX_SUBST_LEN = 1024"
definition MAX_IDX_LEN :: nat where "MAX_IDX_LEN = 5"

text \<open>Writing \<open>xs\<close> at \<open>substitute[si]\<close>, where \<open>si\<close> is the length of what was written.\<close>

definition put :: "char list \<Rightarrow> char list \<Rightarrow> char list res" where
  "put acc xs = (if length acc + length xs \<le> MAX_SUBST_LEN then Inr (acc @ xs) else Inl BufferOverflow)"

text \<open>
  The digits of a placeholder are collected in \<open>index\<close>, at most \<open>MAX_IDX_LEN - 1\<close> of them; a
  further digit sets \<open>fail\<close> and ends the collection.
\<close>

definition read_index :: "string \<Rightarrow> string \<times> bool \<times> string" where
  "read_index r =
     (let ds = takeWhile isdigit r; idx = take (MAX_IDX_LEN - 1) ds
      in (idx, length ds > MAX_IDX_LEN - 1, drop (length idx) r))"

lemma read_index_length: "read_index r = (idx, toolong, rest) \<Longrightarrow> length rest \<le> length r"
  by (auto simp: read_index_def Let_def)

text \<open>
  The loop over the template, on what is left of it from \<open>pos\<close> on.  After a placeholder the
  next character is copied as it is, the terminator at the end of the template included.
  The result is the text written and \<open>fail\<close>.
\<close>

function replace_template ::
  "int \<Rightarrow> string list option \<Rightarrow> string \<Rightarrow> char list \<Rightarrow> bool \<Rightarrow> (char list \<times> bool) res" where
  "replace_template match_count groups [] acc fail = Inr (acc, fail)"
| "replace_template match_count groups (c # r) acc fail =
     (if c = BSL then
        (case r of
           [] \<Rightarrow> bindR (put acc [BSL, NUL]) (\<lambda>acc. Inr (acc, fail))
         | d # r' \<Rightarrow>
             (if \<not> isdigit d then
                bindR (put acc [BSL, d]) (\<lambda>acc. replace_template match_count groups r' acc fail)
              else
                (case read_index r of (idx, toolong, rest) \<Rightarrow>
                   (let num = atoi idx; fail = (fail \<or> toolong)
                    in if num < 1 \<or> num > 99 then Inr (acc, True)
                       else if num < match_count then
                         (case groups of
                            None \<Rightarrow> Inl NullDeref
                          | Some l \<Rightarrow>
                              (if nat num < length l then
                                 bindR (put acc (l ! nat num)) (\<lambda>acc.
                                   (case rest of
                                      [] \<Rightarrow> bindR (put acc [NUL]) (\<lambda>acc. Inr (acc, fail))
                                    | x # rest' \<Rightarrow>
                                        bindR (put acc [x])
                                          (\<lambda>acc. replace_template match_count groups rest' acc fail)))
                               else Inl OutOfBounds))
                       else Inr (acc, True)))))
      else bindR (put acc [c]) (\<lambda>acc. replace_template match_count groups r acc fail))"
  by pat_completeness auto
termination
  by (relation "measure (\<lambda>(mc, g, r, acc, f). length r)")
    (simp_all, auto dest!: read_index_length [OF sym])

definition performRegexReplace ::
  "pcre \<Rightarrow> string option \<Rightarrow> string option \<Rightarrow> string option \<Rightarrow> string option res" where
  "performRegexReplace re str pattern replace =
     (if str = None \<or> str = Some [] then Inr None
      else if pattern = None \<or> pattern = Some [] then Inr None
      else case replace of
        None \<Rightarrow> Inr None
      | Some r \<Rightarrow>
          (if r = [] then Inr None
           else let (match_count, stringlist) = getRegExCaptureGroups re pattern str
                in if match_count > 1 then
                     bindR (replace_template match_count stringlist r [] False) (\<lambda>(acc, fail).
                       if length acc < MAX_SUBST_LEN then
                         Inr (if fail then None else am_strdup (Some (cstr acc)))
                       else Inl BufferOverflow)
                   else Inr None))"

declare replace_template.simps [simp del]

lemmas replace_template_Nil [simp] = replace_template.simps(1)

lemma replace_template_Lit:
  "c \<noteq> BSL \<Longrightarrow> replace_template mc g (c # r) acc f =
     bindR (put acc [c]) (\<lambda>acc. replace_template mc g r acc f)"
  by (simp add: replace_template.simps)

section \<open>Matching and extraction\<close>

lemma isRegExMatch_01: "isRegExMatch re p s = 0 \<or> isRegExMatch re p s = 1"
  by (auto simp: isRegExMatch_def split: option.splits)

lemma isRegExMatch_NULL [simp]:
  "isRegExMatch re None s = 0" "isRegExMatch re p None = 0" "isRegExMatch re p (Some []) = 0"
  by (simp_all add: isRegExMatch_def init_regex_def split: option.splits)

lemma isRegExMatch_Some:
  "s \<noteq> [] \<Longrightarrow> isRegExMatch re (Some p) (Some s) = 1 \<longleftrightarrow> pcre_compile re p \<and> pcre_exec re p s 0 = 0"
  by (simp add: isRegExMatch_def init_regex_def)

text \<open>
  What PCRE documents of the two calls: the substring list of a match with \<open>count\<close> groups has
  \<open>count\<close> entries, and the allocation it needs succeeds.
\<close>

definition pcre_lists :: "pcre \<Rightarrow> bool" where
  "pcre_lists re \<longleftrightarrow> (\<forall>p s count. 1 < count \<longrightarrow>
     (\<exists>l. pcre_substrings re p s count = Some l \<and> length l = nat count))"

lemma getRegExCaptureGroups_list:
  assumes "pcre_lists re" "getRegExCaptureGroups re p s = (count, l)" "1 < count"
  obtains xs where "l = Some xs" "length xs = nat count"
proof -
  from assms(2,3) obtain p' s' where "l = pcre_substrings re p' s' count"
    by (auto simp: getRegExCaptureGroups_def Let_def split: option.splits if_splits)
  with assms(1,3) that show thesis by (metis pcre_lists_def)
qed

lemma getRegExMatch_safe:
  assumes "pcre_lists re" "1 \<le> which"
  shows "\<exists>r. getRegExMatch re p s which = Inr r"
proof -
  obtain count l where g: "getRegExCaptureGroups re p s = (count, l)" by force
  show ?thesis
  proof (cases "count > 0 \<and> count > int which")
    case True
    with assms(2) have "1 < count" by simp
    then obtain xs where "l = Some xs" "length xs = nat count"
      using getRegExCaptureGroups_list [OF assms(1) g] by blast
    with True g show ?thesis by (auto simp: getRegExMatch_def)
  next
    case False
    with g show ?thesis by (auto simp: getRegExMatch_def)
  qed
qed

section \<open>What a template means\<close>

text \<open>
  A template is a sequence of literal characters and references to groups; \<open>render\<close> writes it
  down, \<open>expand\<close> is the text it stands for.
\<close>

datatype seg = Lit char | Ref nat

fun render :: "seg list \<Rightarrow> string" where
  "render [] = []"
| "render (Lit c # r) = c # render r"
| "render (Ref n # r) = BSL # show_nat n @ render r"

fun expand :: "string list \<Rightarrow> seg list \<Rightarrow> string" where
  "expand l [] = []"
| "expand l (Lit c # r) = c # expand l r"
| "expand l (Ref n # r) = l ! n @ expand l r"

text \<open>
  The templates the code expands: plain literals, references between 1 and 99, and between any
  two references at least one literal that is not a digit.
\<close>

definition plain :: "char \<Rightarrow> bool" where
  "plain c \<longleftrightarrow> c \<noteq> BSL \<and> c \<noteq> NUL"

fun separated :: "seg list \<Rightarrow> bool" where
  "separated [] = True"
| "separated (Lit c # r) = (plain c \<and> separated r)"
| "separated [Ref n] = (1 \<le> n \<and> n \<le> 99)"
| "separated (Ref n # Lit c # r) = (1 \<le> n \<and> n \<le> 99 \<and> plain c \<and> \<not> isdigit c \<and> separated r)"
| "separated (Ref n # Ref m # r) = False"

definition refs_below :: "nat \<Rightarrow> seg list \<Rightarrow> bool" where
  "refs_below k segs \<longleftrightarrow> (\<forall>n. Ref n \<in> set segs \<longrightarrow> n < k)"

lemma refs_below_simps [simp]:
  "refs_below k []" "refs_below k (Lit c # r) = refs_below k r"
  "refs_below k (Ref n # r) \<longleftrightarrow> n < k \<and> refs_below k r"
  by (auto simp: refs_below_def)

lemma read_index_show:
  assumes "n \<le> 99" "r = [] \<or> \<not> isdigit (hd r)"
  shows "read_index (show_nat n @ r) = (show_nat n, False, r)"
proof -
  have all: "\<forall>c \<in> set (show_nat n). isdigit c" by (simp add: show_nat_digits)
  have "takeWhile isdigit r = []" using assms(2) by (cases r) auto
  with all have tw: "takeWhile isdigit (show_nat n @ r) = show_nat n" by simp
  have "length (show_nat n) \<le> 2" using show_nat_length_mono_aux [of n 2] assms(1) by simp
  with tw show ?thesis by (simp add: read_index_def MAX_IDX_LEN_def Let_def)
qed

lemma replace_template_Ref:
  assumes n: "1 \<le> n" "n \<le> 99" "int n < mc" "n < length l"
    and r: "r = [] \<or> \<not> isdigit (hd r)"
  shows "replace_template mc (Some l) (BSL # show_nat n @ r) acc False =
    bindR (put acc (l ! n)) (\<lambda>acc.
      case r of [] \<Rightarrow> bindR (put acc [NUL]) (\<lambda>acc. Inr (acc, False))
      | x # r' \<Rightarrow> bindR (put acc [x]) (\<lambda>acc. replace_template mc (Some l) r' acc False))"
proof -
  obtain d ds where d: "show_nat n = d # ds" by (cases "show_nat n") simp_all
  then have "isdigit d" using show_nat_digits [of d n] by simp
  moreover have "atoi (show_nat n) = int n" using n(2) by (simp add: atoi_show_nat)
  moreover have "read_index (d # ds @ r) = (d # ds, False, r)"
    using read_index_show [OF n(2) r] d by simp
  ultimately show ?thesis
    unfolding d append_Cons replace_template.simps(2) using n by simp
qed

lemma put_ok: "length acc + length xs \<le> MAX_SUBST_LEN \<Longrightarrow> put acc xs = Inr (acc @ xs)"
  by (simp add: put_def)

lemma replace_template_render:
  assumes "separated segs" "refs_below (length l) segs" "mc = int (length l)"
    and "length acc + length (expand l segs) < MAX_SUBST_LEN"
  shows "\<exists>tail \<in> {[], [NUL]}.
    replace_template mc (Some l) (render segs) acc False = Inr (acc @ expand l segs @ tail, False)"
  using assms
proof (induction segs arbitrary: acc rule: separated.induct)
  case 1
  then show ?case by simp
next
  case (2 c r)
  have "replace_template mc (Some l) (render (Lit c # r)) acc False =
      replace_template mc (Some l) (render r) (acc @ [c]) False"
    using "2.prems" by (simp add: replace_template_Lit plain_def put_ok)
  moreover have "\<exists>tail \<in> {[], [NUL]}. replace_template mc (Some l) (render r) (acc @ [c]) False =
      Inr ((acc @ [c]) @ expand l r @ tail, False)"
    by (rule "2.IH") (use "2.prems" in simp_all)
  ultimately show ?case by simp
next
  case (3 n)
  then show ?case
    using replace_template_Ref [of n mc l "[]" acc] by (simp add: put_ok)
next
  case (4 n c r)
  have "replace_template mc (Some l) (render (Ref n # Lit c # r)) acc False =
      replace_template mc (Some l) (render r) (acc @ l ! n @ [c]) False"
    using replace_template_Ref [of n mc l "c # render r" acc] "4.prems" by (simp add: put_ok)
  moreover have "\<exists>tail \<in> {[], [NUL]}.
      replace_template mc (Some l) (render r) (acc @ l ! n @ [c]) False =
      Inr ((acc @ l ! n @ [c]) @ expand l r @ tail, False)"
    by (rule "4.IH") (use "4.prems" in simp_all)
  ultimately show ?case by simp
next
  case (5 n m r)
  then show ?case by simp
qed

lemma NUL_expand:
  "separated segs \<Longrightarrow> refs_below (length l) segs \<Longrightarrow> \<forall>g \<in> set l. NUL \<notin> set g \<Longrightarrow>
   NUL \<notin> set (expand l segs)"
  by (induction segs rule: separated.induct) (auto simp: plain_def dest: nth_mem)

text \<open>Two adjacent references: the second one is copied, not expanded.\<close>

lemma replace_template_adjacent:
  assumes n: "1 \<le> n" "n \<le> 99" "n < length l" and mc: "mc = int (length l)"
    and len: "length (l ! n) + length (show_nat m) + 1 \<le> MAX_SUBST_LEN"
  shows "replace_template mc (Some l) (render [Ref n, Ref m]) [] False =
    Inr (l ! n @ BSL # show_nat m, False)"
proof -
  have copy: "length acc + length ds \<le> MAX_SUBST_LEN \<Longrightarrow> \<forall>d \<in> set ds. isdigit d \<Longrightarrow>
      replace_template mc (Some l) ds acc False = Inr (acc @ ds, False)" for ds acc
  proof (induction ds arbitrary: acc)
    case (Cons d ds)
    then have "d \<noteq> BSL" by (auto simp: isdigit_def code_def BSL_def)
    with Cons show ?case by (simp add: replace_template_Lit put_ok)
  qed simp
  have "\<not> isdigit BSL" by (simp add: isdigit_def code_def BSL_def)
  then have "replace_template mc (Some l) (render [Ref n, Ref m]) [] False =
      replace_template mc (Some l) (show_nat m) (l ! n @ [BSL]) False"
    using n mc len replace_template_Ref [of n mc l "BSL # show_nat m" "[]"]
    by (simp add: put_ok)
  also have "\<dots> = Inr (l ! n @ BSL # show_nat m, False)"
    using copy [of "l ! n @ [BSL]" "show_nat m"] len by (simp add: show_nat_digits)
  finally show ?thesis .
qed

section \<open>Properties\<close>

text \<open>C38: a template whose references are separated by ordinary characters is replaced by the
  text it stands for: every literal kept, every reference replaced by the capture group it names.\<close>

theorem performRegexReplace_expand:
  assumes "getRegExCaptureGroups re (Some p) (Some s) = (int (length l), Some l)"
    and "p \<noteq> []" "s \<noteq> []" "segs \<noteq> []" "1 < length l"
    and "separated segs" "refs_below (length l) segs"
    and "\<forall>g \<in> set l. NUL \<notin> set g" "length (expand l segs) + 1 < 1024"
  shows "performRegexReplace re (Some s) (Some p) (Some (render segs)) =
    Inr (am_strdup (Some (expand l segs)))"
proof -
  have "render segs \<noteq> []" using assms(4) by (cases segs rule: render.cases) simp_all
  moreover from replace_template_render [of segs l "int (length l)" "[]"] assms(6,7,9)
  obtain tail where tail: "tail \<in> {[], [NUL]}"
    and r: "replace_template (int (length l)) (Some l) (render segs) [] False =
      Inr (expand l segs @ tail, False)"
    by (auto simp: MAX_SUBST_LEN_def)
  moreover have "cstr (expand l segs @ tail) = expand l segs"
    using tail NUL_expand [OF assms(6-8)] by (auto simp: cstr_id cstr_append_NUL)
  ultimately show ?thesis
    using assms(1-5,9) tail by (auto simp: performRegexReplace_def MAX_SUBST_LEN_def)
qed

definition demo_pcre :: pcre where
  "demo_pcre = \<lparr>pcre_compile = (\<lambda>p. True), pcre_fullinfo = (\<lambda>p. (0, 2)),
     pcre_exec = (\<lambda>p s n. if n = 0 then 0 else 3),
     pcre_substrings = (\<lambda>p s n. Some [s, ''ab'', ''cd''])\<rparr>"

theorem performRegexReplace_expand_witness:
  "performRegexReplace demo_pcre (Some ''abcd'') (Some ''(..)(..)'')
     (Some (render [Ref 2, Lit CHR ''/'', Ref 1])) =
   Inr (am_strdup (Some (expand [''abcd'', ''ab'', ''cd''] [Ref 2, Lit CHR ''/'', Ref 1])))"
  by (rule performRegexReplace_expand)
    (simp_all add: getRegExCaptureGroups_def init_regex_def getPCRECaptureCount_def demo_pcre_def
      plain_def BSL_def NUL_def isdigit_def code_def)

text \<open>Of two references without a character between them only the first is replaced; the
  second one appears in the result as it was written, backslash included.\<close>

theorem performRegexReplace_adjacent:
  assumes "getRegExCaptureGroups re (Some p) (Some s) = (int (length l), Some l)"
    and "p \<noteq> []" "s \<noteq> []" "1 \<le> n" "n \<le> 99" "n < length l" "1 < length l"
    and "NUL \<notin> set (l ! n)" "length (l ! n) + length (show_nat m) + 1 < 1024"
  shows "performRegexReplace re (Some s) (Some p) (Some (render [Ref n, Ref m])) =
    Inr (Some (l ! n @ BSL # show_nat m))"
proof -
  have "NUL \<notin> set (show_nat m)"
    using show_nat_digits by (fastforce simp: isdigit_def code_def NUL_def)
  then have nul: "NUL \<notin> set (l ! n @ BSL # show_nat m)"
    using assms(8) by (simp add: BSL_def NUL_def)
  have "replace_template (int (length l)) (Some l) (render [Ref n, Ref m]) [] False =
      Inr (l ! n @ BSL # show_nat m, False)"
    using assms by (intro replace_template_adjacent) (simp_all add: MAX_SUBST_LEN_def)
  then show ?thesis
    using assms nul
    by (simp add: performRegexReplace_def MAX_SUBST_LEN_def cstr_id am_strdup_Some del: set_append)
qed

theorem performRegexReplace_adjacent_witness:
  "performRegexReplace demo_pcre (Some ''abcd'') (Some ''(..)(..)'') (Some (render [Ref 1, Ref 2])) =
   Inr (Some ([''abcd'', ''ab'', ''cd''] ! 1 @ BSL # show_nat 2))"
  by (rule performRegexReplace_adjacent)
    (simp_all add: getRegExCaptureGroups_def init_regex_def getPCRECaptureCount_def demo_pcre_def
      NUL_def show_nat.simps)

end
