(* ===== verification/Am_File.thy ===== *)
theory Am_File
  imports Am_Utils
begin

text \<open>
  \<^verbatim>\<open>src/file.c\<close> and the file system it works on.

  The record \<open>world\<close> is what the process sees of its machine: the contents of the files, which
  of them it may open, the bytes left on the disk, the disposition of SIGCHLD, the static
  variables of the logger, and in \<open>net\<close> the rest (servers, other programs), of a type the
  definitions leave open.  The standard library's file operations are written out on it:
  \<open>fopen\<close> with \<^verbatim>\<open>"w"\<close> truncates, a write fails when the disk is full.
\<close>

section \<open>The file system\<close>

record 'w world =
  files :: "string \<Rightarrow> char list option"
  may_read :: "string \<Rightarrow> bool"
  may_write :: "string \<Rightarrow> bool"
  room :: nat
  sigchld_ignored :: bool
  gMsglevel :: int              \<comment> \<open>the verbosity\<close>
  gLogFP :: "string option"     \<comment> \<open>the open log file; \<open>None\<close>: messages go to \<open>stderr\<close>\<close>
  gPidfile :: "string option"
  err_out :: string             \<comment> \<open>what was written to \<open>stderr\<close>\<close>
  net :: 'w

definition content :: "'w world \<Rightarrow> string \<Rightarrow> char list" where
  "content wd f = (case files wd f of None \<Rightarrow> [] | Some c \<Rightarrow> c)"

definition fopen_r :: "string \<Rightarrow> 'w world \<Rightarrow> char list option" where
  "fopen_r f wd = (if may_read wd f then files wd f else None)"

definition fopen_w :: "string \<Rightarrow> 'w world \<Rightarrow> 'w world option" where
  "fopen_w f wd =
     (if may_write wd f
      then Some (wd\<lparr>files := (files wd)(f := Some []), room := room wd + length (content wd f)\<rparr>)
      else None)"

text \<open>Mode \<^verbatim>\<open>"a"\<close> keeps what the file holds.\<close>

definition fopen_a :: "string \<Rightarrow> 'w world \<Rightarrow> 'w world option" where
  "fopen_a f wd =
     (if may_write wd f then Some (wd\<lparr>files := (files wd)(f := Some (content wd f))\<rparr>) else None)"

text \<open>Appending to an open file: as much as fits is written, success if all of it.\<close>

definition fput :: "string \<Rightarrow> char list \<Rightarrow> 'w world \<Rightarrow> bool \<times> 'w world" where
  "fput f s wd =
     (let s' = take (room wd) s
      in (length s \<le> room wd,
          wd\<lparr>files := (files wd)(f := Some (content wd f @ s')), room := room wd - length s'\<rparr>))"

definition remove_file :: "string \<Rightarrow> 'w world \<Rightarrow> 'w world" where
  "remove_file f wd =
     (if may_write wd f
      then wd\<lparr>files := (files wd)(f := None), room := room wd + length (content wd f)\<rparr>
      else wd)"

lemma content_Some [simp]: "files wd f = Some c \<Longrightarrow> content wd f = c"
  by (simp add: content_def)

lemma fput_fits:
  "length s \<le> room wd \<Longrightarrow>
   fput f s wd =
     (True, wd\<lparr>files := (files wd)(f := Some (content wd f @ s)), room := room wd - length s\<rparr>)"
  by (simp add: fput_def)

text \<open>The rest of the machine is untouched by file operations.\<close>

definition same_machine :: "'w world \<Rightarrow> 'w world \<Rightarrow> bool" where
  "same_machine wd wd' \<longleftrightarrow>
     net wd' = net wd \<and> may_read wd' = may_read wd \<and> may_write wd' = may_write wd \<and>
     sigchld_ignored wd' = sigchld_ignored wd \<and> gMsglevel wd' = gMsglevel wd"

lemma same_machine_refl [simp]: "same_machine wd wd"
  by (simp add: same_machine_def)

lemma same_machine_trans: "same_machine a b \<Longrightarrow> same_machine b c \<Longrightarrow> same_machine a c"
  by (simp add: same_machine_def)

lemma same_machine_ops:
  "snd (fput f s wd) = wd' \<Longrightarrow> same_machine wd wd'"
  "fopen_w f wd = Some wd' \<Longrightarrow> same_machine wd wd'"
  "fopen_a f wd = Some wd' \<Longrightarrow> same_machine wd wd'"
  "remove_file f wd = wd' \<Longrightarrow> same_machine wd wd'"
  by (auto simp: fput_def fopen_w_def fopen_a_def remove_file_def same_machine_def Let_def
      split: if_splits)

section \<open>Reading and writing whole files\<close>

text \<open>
  \<open>readFile\<close> keeps the length in 32 bits and terminates the buffer.  The result is the buffer
  and the length.
\<close>

definition readFile :: "string \<Rightarrow> 'w world \<Rightarrow> (char list \<times> nat) option" where
  "readFile fname wd =
     (case fopen_r fname wd of
        None \<Rightarrow> None
      | Some c \<Rightarrow>
          (let fileLen = length c mod 2 ^ 32
           in if (fileLen + 1) mod 2 ^ 32 = 0 then None
              else Some (take fileLen c @ [NUL], fileLen)))"

text \<open>
  \<open>saveFile\<close> opens with \<open>O_RDWR | O_CREAT\<close>: an existing file is not truncated, and the bytes
  beyond the written ones stay.  \<open>write\<close> stores as much as the disk holds and returns how much;
  that number is also what \<open>saveFile\<close> returns when everything was written.  After a short write
  the message is printed with \<open>errno\<close>, an \<open>int\<close>, for a \<^verbatim>\<open>%s\<close>.
\<close>

definition saveFile ::
  "string option \<Rightarrow> char list option \<Rightarrow> nat \<Rightarrow> 'w world \<Rightarrow> (int \<times> 'w world) res" where
  "saveFile name data sz wd =
     (case (name, data) of
        (Some f, Some d) \<Rightarrow>
          (if \<not> may_write wd f then Inr (- 1, wd)
           else
             let old = content wd f;
                 n = min sz (length old + room wd);
                 new = take n d @ drop n old;
                 wd' = wd\<lparr>files := (files wd)(f := Some new),
                          room := room wd - (length new - length old)\<rparr>
             in (if n \<noteq> sz then (if 0 \<le> gMsglevel wd then Inl BadFormat else Inr (- 1, wd'))
                 else Inr (wrap_s 32 (int n), wd')))
      | _ \<Rightarrow> Inr (- 1, wd))"

lemma saveFile_ok:
  assumes "may_write wd f" "length d \<le> room wd" "length d < 2 ^ 31"
  obtains wd' where "saveFile (Some f) (Some d) (length d) wd = Inr (int (length d), wd')"
    "files wd' f = Some (d @ drop (length d) (content wd f))" "same_machine wd wd'"
    "\<And>g. g \<noteq> f \<Longrightarrow> files wd' g = files wd g"
  using assms by (auto simp: saveFile_def Let_def wrap_s_def same_machine_def)

lemma saveFile_frame:
  "saveFile name data sz wd = Inr (r, wd') \<Longrightarrow>
   same_machine wd wd' \<and> (\<forall>g. name \<noteq> Some g \<longrightarrow> files wd' g = files wd g)"
  by (auto simp: saveFile_def Let_def same_machine_def split: option.splits if_splits)

lemma saveFile_returns:
  assumes "saveFile name data sz wd = Inr (r, wd')" "sz < 2 ^ 31"
  shows "r = - 1 \<or> r = int sz"
  using assms by (auto simp: saveFile_def Let_def wrap_s_def split: option.splits if_splits)

text \<open>A saved file is read back, when nothing longer was there before.\<close>

lemma readFile_saved:
  assumes "may_read wd f" "files wd f = Some d" "length d < 2 ^ 32 - 1"
  shows "readFile f wd = Some (d @ [NUL], length d)"
  using assms by (simp add: readFile_def fopen_r_def)

section \<open>Properties\<close>

definition disk1 :: "unit world" where
  "disk1 = \<lparr>files = (\<lambda>f. if f = ''a'' then Some ''old content'' else None),
     may_read = (\<lambda>_. True), may_write = (\<lambda>_. True), room = 100, sigchld_ignored = True,
     gMsglevel = 1, gLogFP = None, gPidfile = None, err_out = [], net = ()\<rparr>"

text \<open>\<open>saveFile\<close> writes exactly the given bytes, leaves every other file alone and returns
  their number (not 0, which is what its comment promises and what the only caller tests);
  an older, longer file keeps its tail.\<close>

theorem saveFile_result:
  assumes "may_write wd f" "length d \<le> room wd" "length d < 2 ^ 31"
  shows "\<exists>wd'. saveFile (Some f) (Some d) (length d) wd = Inr (int (length d), wd') \<and>
           files wd' f = Some (d @ drop (length d) (content wd f)) \<and>
           (\<forall>g. g \<noteq> f \<longrightarrow> files wd' g = files wd g) \<and> same_machine wd wd'"
  by (rule saveFile_ok [OF assms]) blast

theorem saveFile_result_witness:
  "\<exists>wd'. saveFile (Some ''a'') (Some ''new'') (length ''new'') disk1 =
       Inr (int (length ''new''), wd') \<and>
     files wd' ''a'' = Some (''new'' @ drop (length ''new'') (content disk1 ''a'')) \<and>
     (\<forall>g. g \<noteq> ''a'' \<longrightarrow> files wd' g = files disk1 g) \<and> same_machine disk1 wd'"
  by (rule saveFile_result) (simp_all add: disk1_def)

end
