(* ===== verification/Am_Output.thy ===== *)
theory Am_Output
  imports Am_File
begin

text \<open>
  \<^verbatim>\<open>src/output.c\<close>: the log and the pid file.

  The static variables \<open>gLogFP\<close>, \<open>gMsglevel\<close> and \<open>gPidfile\<close> are fields of the
  \<open>world\<close>.  A message is modelled after its formatting: \<open>msg\<close> is the text the format string
  and its arguments stand for, before the truncation to \<open>MSGSIZE_MAX\<close>.  \<open>__FILE__\<close>, which
  the build decides, is a parameter.
\<close>

definition MSGSIZE_MAX :: nat where "MSGSIZE_MAX = 5000"
definition TIME_STR_SIZE :: nat where "TIME_STR_SIZE = 25"

datatype debug_type = P_NONE | P_ERROR | P_MSG | P_INFO | P_INFO2 | P_DBG | P_MEM

fun level :: "debug_type \<Rightarrow> int" where
  "level P_NONE = -1"
| "level P_ERROR = 0"
| "level P_MSG = 1"
| "level P_INFO = 2"
| "level P_INFO2 = 3"
| "level P_DBG = 4"
| "level P_MEM = 5"

text \<open>The broken-down local time, as \<open>localtime_r\<close> fills it.\<close>

record tm =
  tm_sec :: nat
  tm_min :: nat
  tm_hour :: nat
  tm_mday :: nat
  tm_mon :: nat
  tm_year :: nat

definition two_digits :: "nat \<Rightarrow> string" where
  "two_digits n = (if n < 10 then CHR ''0'' # show_nat n else show_nat n)"

text \<open>\<open>strftime\<close> with \<^verbatim>\<open>"%y/%m/%d %H:%M:%S"\<close>, then a copy of the whole of it.\<close>

definition getlogtime_str :: "tm \<Rightarrow> string" where
  "getlogtime_str t =
     (let tmp = two_digits (tm_year t mod 100) @ ''/'' @ two_digits (tm_mon t + 1) @ ''/'' @
            two_digits (tm_mday t) @ '' '' @ two_digits (tm_hour t) @ '':'' @
            two_digits (tm_min t) @ '':'' @ two_digits (tm_sec t)
      in snprintf_buf (length tmp + 1) tmp)"

definition log_put :: "string \<Rightarrow> 'w world \<Rightarrow> 'w world" where
  "log_put s wd =
     (case gLogFP wd of
        Some f \<Rightarrow> snd (fput f s wd)
      | None \<Rightarrow> wd\<lparr>err_out := err_out wd @ s\<rparr>)"

definition am_printf ::
  "string \<Rightarrow> nat \<Rightarrow> debug_type \<Rightarrow> tm option \<Rightarrow> string \<Rightarrow> 'w world \<Rightarrow> 'w world" where
  "am_printf file line type withTime msg wd =
     (if level type \<le> gMsglevel wd then
        let tmp = snprintf_buf MSGSIZE_MAX msg;
            wd1 = (case withTime of
                     Some t \<Rightarrow> log_put (''['' @ getlogtime_str t @ ''] '') wd
                   | None \<Rightarrow> wd)
        in if level type \<le> level P_INFO2 \<or> type = P_ERROR
           then log_put (file @ '', '' @ show_nat line @ '': '' @ tmp @ [NL]) wd1
           else log_put (tmp @ [NL]) wd1
      else wd)"

definition log_close :: "'w world \<Rightarrow> 'w world" where
  "log_close wd = (case gLogFP wd of None \<Rightarrow> wd | Some _ \<Rightarrow> wd\<lparr>gLogFP := None\<rparr>)"

text \<open>\<open>msglevel\<close> is an 8-bit \<open>char\<close>, so is \<open>append_log\<close>.\<close>

definition log_init :: "string \<Rightarrow> string option \<Rightarrow> int \<Rightarrow> bool \<Rightarrow> 'w world \<Rightarrow> nat \<times> 'w world" where
  "log_init file logfile msglevel append_log wd =
     (let wd1 = wd\<lparr>gMsglevel := msglevel\<rparr>
      in case logfile of
           Some f \<Rightarrow>
             (if f = [] then (1, wd1)
              else
                let wd2 = log_close wd1
                in case (if append_log then fopen_a f wd2 else fopen_w f wd2) of
                     None \<Rightarrow>
                       (1, am_printf file 60 P_ERROR None
                             (''[log_init] Opening '' @ [SQ] @ f @ [SQ] @ '' for logging failed'') wd2)
                   | Some wd3 \<Rightarrow> (1, wd3\<lparr>gLogFP := Some f\<rparr>))
         | None \<Rightarrow> (1, wd1))"

definition pid_msg :: "string \<Rightarrow> int \<Rightarrow> string" where
  "pid_msg f pid =
     ''[pid_create] Opening '' @ [SQ] @ f @ [SQ] @ '' for pidfile (pid:'' @ show_int pid @ '')''"

definition pid_create :: "string \<Rightarrow> string option \<Rightarrow> int \<Rightarrow> 'w world \<Rightarrow> nat \<times> 'w world" where
  "pid_create file pidfile pid wd =
     (case pidfile of
        Some f \<Rightarrow>
          (if f = [] then (1, wd)
           else
             (case fopen_w f wd of
                None \<Rightarrow>
                  (1, am_printf file 79 P_ERROR None
                        (''[pid_create] Opening '' @ [SQ] @ f @ [SQ] @ '' for pidfile failed'') wd)
              | Some wd1 \<Rightarrow>
                  (let wd2 = am_printf file 82 P_MSG None (pid_msg f pid) wd1
                   in (1, (snd (fput f (show_int pid @ [NL]) wd2))\<lparr>gPidfile := Some f\<rparr>))))
      | None \<Rightarrow> (1, wd))"

definition pid_close :: "'w world \<Rightarrow> 'w world" where
  "pid_close wd =
     (case gPidfile wd of
        Some f \<Rightarrow> (if f \<noteq> [] then (remove_file f wd)\<lparr>gPidfile := None\<rparr> else wd)
      | None \<Rightarrow> wd)"

section \<open>What the logger guarantees\<close>

lemma two_digits_length: "n < 100 \<Longrightarrow> length (two_digits n) = 2"
  by (auto simp: two_digits_def show_nat.simps [of n] show_nat.simps [of "n div 10"])

definition tm_ok :: "tm \<Rightarrow> bool" where
  "tm_ok t \<longleftrightarrow> tm_sec t \<le> 60 \<and> tm_min t < 60 \<and> tm_hour t < 24 \<and> tm_mday t \<le> 31 \<and> tm_mon t < 12"

lemma getlogtime_length: "tm_ok t \<Longrightarrow> length (getlogtime_str t) = 17"
  by (simp add: getlogtime_str_def tm_ok_def snprintf_buf_def Let_def two_digits_length)

text \<open>The two buffers for the time (25 bytes each) are large enough.\<close>

lemma getlogtime_fits [c_bounds]: "tm_ok t \<Longrightarrow> length (getlogtime_str t) < TIME_STR_SIZE"
  by (simp add: getlogtime_length TIME_STR_SIZE_def)

lemma log_put_machine [simp]: "same_machine wd (log_put s wd)"
  by (auto simp: log_put_def same_machine_def fput_def Let_def split: option.splits)

lemma am_printf_machine: "same_machine wd (am_printf file line type t msg wd)"
  by (auto simp: am_printf_def Let_def split: option.splits
      intro: same_machine_trans [OF log_put_machine log_put_machine])

text \<open>Only the log is written to.\<close>

lemma am_printf_files:
  "gLogFP wd \<noteq> Some g \<Longrightarrow> files (am_printf file line type t msg wd) g = files wd g"
  by (auto simp: am_printf_def log_put_def fput_def Let_def split: option.splits)

lemma am_printf_silent: "gMsglevel wd < level type \<Longrightarrow> am_printf file line type t msg wd = wd"
  by (simp add: am_printf_def)

text \<open>A message of the default verbosity: one line with its place in the source.\<close>

lemma am_printf_stderr:
  assumes "gLogFP wd = None" "level type \<le> gMsglevel wd" "level type \<le> 3" "length msg < MSGSIZE_MAX"
  shows "err_out (am_printf file line type None msg wd) =
    err_out wd @ file @ '', '' @ show_nat line @ '': '' @ msg @ [NL]"
  using assms by (simp add: am_printf_def log_put_def snprintf_buf_fits)

lemma pid_close_idem: "pid_close (pid_close wd) = pid_close wd"
  by (auto simp: pid_close_def remove_file_def split: option.splits)

lemma content_fopen_w: "fopen_w f wd = Some wd1 \<Longrightarrow> content wd1 f = [] \<and> gLogFP wd1 = gLogFP wd"
  by (auto simp: fopen_w_def content_def split: if_splits)

text \<open>The pid file is created with the decimal process number and a newline, and \<open>pid_close\<close>
  removes it again, whatever was logged meanwhile to another file.\<close>

theorem pid_file_lifecycle:
  assumes "f \<noteq> []" "may_write wd f" "gLogFP wd = None" "12 \<le> room wd" "- (10 ^ 9) < pid" "pid < 10 ^ 9"
  shows "\<exists>wd'. pid_create file (Some f) pid wd = (1, wd') \<and>
           files wd' f = Some (show_int pid @ [NL]) \<and> gPidfile wd' = Some f \<and>
           files (pid_close wd') f = None \<and> gPidfile (pid_close wd') = None"
proof -
  obtain wd1 where w1: "fopen_w f wd = Some wd1" "room wd \<le> room wd1"
    using assms(2) by (auto simp: fopen_w_def)
  then have c: "content wd1 f = []" "gLogFP wd1 = None" "may_write wd1 f"
    using content_fopen_w [OF w1(1)] assms(2,3) same_machine_ops(2) [OF w1(1)]
    by (auto simp: same_machine_def)
  define wd2 where "wd2 = am_printf file 82 P_MSG None (pid_msg f pid) wd1"
  have 2: "content wd2 f = []" "room wd2 = room wd1" "may_write wd2 f"
    using c by (auto simp: wd2_def am_printf_def log_put_def Let_def content_def)
  have "length (show_nat (nat \<bar>pid\<bar>)) \<le> 9"
    by (rule show_nat_length_mono_aux) (use assms(5,6) in auto)
  then have "length (show_int pid @ [NL]) \<le> room wd2"
    using assms(4) w1(2) 2(2) by (cases "pid < 0") (auto simp: show_int_def)
  from fput_fits [OF this, of f] 2 show ?thesis
    using assms(1) w1(1)
    by (auto simp: pid_create_def wd2_def [symmetric] Let_def pid_close_def remove_file_def)
qed

theorem pid_file_lifecycle_witness:
  "\<exists>wd'. pid_create ''output.c'' (Some ''am.pid'') 4711 disk1 = (1, wd') \<and>
     files wd' ''am.pid'' = Some (show_int 4711 @ [NL]) \<and> gPidfile wd' = Some ''am.pid'' \<and>
     files (pid_close wd') ''am.pid'' = None \<and> gPidfile (pid_close wd') = None"
  by (rule pid_file_lifecycle) (simp_all add: disk1_def)

end
