(* ===== verification/Am_State.thy ===== *)
theory Am_State
  imports Am_File
begin

text \<open>
  \<^verbatim>\<open>src/state.c\<close>: the download history on disk.

  The history is the list of the data of the nodes, a \<open>string option list\<close> (a node may hold
  NULL as far as the types go).  Buffering of stdio is not modelled: a full disk shows at the
  call that writes the bytes.
\<close>

definition MAX_LINE_LEN :: nat where "MAX_LINE_LEN = 2048"

section \<open>Saving\<close>

text \<open>The loop: \<open>fputs\<close> of the entry, \<open>fputc\<close> of the newline, up to a NULL entry.\<close>

fun save_loop :: "string \<Rightarrow> string option list \<Rightarrow> 'w world \<Rightarrow> int \<times> 'w world" where
  "save_loop f [] wd = (0, wd)"
| "save_loop f (None # es) wd = (0, wd)"
| "save_loop f (Some e # es) wd =
     (let (ok, wd1) = fput f e wd;
          (ok, wd1) = (if ok then fput f [NL] wd1 else (ok, wd1))
      in if ok then save_loop f es wd1 else (- 1, wd1))"

definition save_state :: "string option \<Rightarrow> string option list \<Rightarrow> 'w world \<Rightarrow> int \<times> 'w world" where
  "save_state state_file downloads wd =
     (case state_file of
        None \<Rightarrow> (0, wd)
      | Some f \<Rightarrow>
          (case fopen_w f wd of
             None \<Rightarrow> (- 1, wd)
           | Some wd1 \<Rightarrow> save_loop f downloads wd1))"

lemma save_loop_machine: "same_machine wd (snd (save_loop f ds wd))"
proof (induction f ds wd rule: save_loop.induct)
  case (3 f e es wd)
  obtain ok1 wd1 where 1: "fput f e wd = (ok1, wd1)" by force
  obtain ok2 wd2 where 2: "(if ok1 then fput f [NL] wd1 else (ok1, wd1)) = (ok2, wd2)" by force
  have "same_machine wd wd1" using 1 same_machine_ops(1) [of f e wd wd1] by simp
  moreover have "same_machine wd1 wd2"
    using 2 same_machine_ops(1) [of f "[NL]" wd1 wd2] by (cases ok1) simp_all
  ultimately have m: "same_machine wd wd2" by (rule same_machine_trans)
  show ?case
  proof (cases ok2)
    case True
    with 1 2 have "same_machine wd2 (snd (save_loop f es wd2))" by (intro "3.IH") (cases ok1; simp)+
    then have "same_machine wd (snd (save_loop f es wd2))" by (rule same_machine_trans [OF m])
    moreover have "save_loop f (Some e # es) wd = save_loop f es wd2"
      using 1 2 True by (cases ok1) simp_all
    ultimately show ?thesis by simp
  next
    case False
    with 1 2 have "save_loop f (Some e # es) wd = (- 1, wd2)" by (cases ok1) simp_all
    with m show ?thesis by simp
  qed
qed simp_all

lemma save_state_machine: "same_machine wd (snd (save_state state_file ds wd))"
proof (cases state_file)
  case (Some f)
  then show ?thesis
    using same_machine_trans [OF same_machine_ops(2) [of f wd] save_loop_machine]
    by (simp add: save_state_def split: option.splits)
qed (simp add: save_state_def)

section \<open>Loading\<close>

text \<open>\<open>fgets(line, n + 1, fp)\<close>: at most \<open>n\<close> characters, up to and with the first newline.\<close>

fun fgets_line :: "nat \<Rightarrow> string \<Rightarrow> string \<times> string" where
  "fgets_line 0 s = ([], s)"
| "fgets_line (Suc n) [] = ([], [])"
| "fgets_line (Suc n) (c # s) =
     (if c = NL then ([NL], s) else let (l, r) = fgets_line n s in (c # l, r))"

lemma fgets_line_split: "fst (fgets_line n s) @ snd (fgets_line n s) = s"
  by (induction n s rule: fgets_line.induct) (auto simp: split_beta Let_def)

lemma fgets_line_fst: "fgets_line (Suc n) (c # s) = (l, r) \<Longrightarrow> l \<noteq> []"
  by (auto simp: split_beta Let_def split: if_splits)

lemma fgets_line_shorter: "0 < n \<Longrightarrow> s \<noteq> [] \<Longrightarrow> fgets_line n s = (l, r) \<Longrightarrow> length r < length s"
proof -
  assume n: "0 < n" "s \<noteq> []" and f: "fgets_line n s = (l, r)"
  then have "l \<noteq> []" by (cases n; cases s) (auto split: if_splits prod.splits)
  moreover have "l @ r = s" using fgets_line_split [of n s] f by simp
  ultimately show "length r < length s" by auto
qed

lemma fgets_line_bound: "length (fst (fgets_line n s)) \<le> n"
  by (induction n s rule: fgets_line.induct) (auto simp: split_beta Let_def)

text \<open>
  The data of each line goes to the tail of the list.  \<open>len\<close> is \<open>strlen(line)\<close>, and the last
  character is dropped whatever it is; \<open>addToTail\<close> refuses the NULL that \<open>am_strndup\<close> returns
  for a line that starts with NUL.
\<close>

function load_loop :: "string \<Rightarrow> string list \<Rightarrow> string list" where
  "load_loop s head =
     (if s = [] then head
      else let (line, r) = fgets_line (MAX_LINE_LEN - 1) s;
               len = length (cstr line);
               data = am_strndup (Some line) (len - 1)
           in load_loop r (case data of None \<Rightarrow> head | Some d \<Rightarrow> head @ [d]))"
  by pat_completeness auto
termination
proof (relation "measure (\<lambda>(s, h). length s)")
  fix s :: string and head :: "string list" and x l r len data
  assume "s \<noteq> []" "x = fgets_line (MAX_LINE_LEN - 1) s" "(l, r) = x"
  then have "length r < length s"
    by (intro fgets_line_shorter [of "MAX_LINE_LEN - 1" s l r]) (simp_all add: MAX_LINE_LEN_def)
  then show "((r, case data of None \<Rightarrow> head | Some d \<Rightarrow> head @ [d]), s, head)
      \<in> measure (\<lambda>(s, h). length s)" by simp
qed simp

declare load_loop.simps [simp del]

definition load_state :: "string \<Rightarrow> string list \<Rightarrow> 'w world \<Rightarrow> int \<times> string list" where
  "load_state state_file head wd =
     (case fopen_r state_file wd of
        None \<Rightarrow> (- 1, head)
      | Some c \<Rightarrow> (0, load_loop c head))"

section \<open>The format\<close>

text \<open>The text of a history, and the histories it represents faithfully.\<close>

definition state_text :: "string list \<Rightarrow> string" where
  "state_text es = concat (map (\<lambda>e. e @ [NL]) es)"

definition storable :: "string \<Rightarrow> bool" where
  "storable e \<longleftrightarrow> NL \<notin> set e \<and> NUL \<notin> set e \<and> length e + 2 \<le> MAX_LINE_LEN"

lemma state_text_simps [simp]:
  "state_text [] = []" "state_text (e # es) = e @ NL # state_text es"
  by (simp_all add: state_text_def)

lemma NL_NUL [simp]: "NL \<noteq> NUL" "NUL \<noteq> NL"
  by (simp_all add: NL_def NUL_def)

lemma save_loop_text:
  "length (state_text es) \<le> room wd \<Longrightarrow>
   \<exists>wd'. save_loop f (map Some es) wd = (0, wd') \<and>
     content wd' f = content wd f @ state_text es \<and> same_machine wd wd' \<and>
     (es = [] \<longrightarrow> wd' = wd) \<and> (es \<noteq> [] \<longrightarrow> files wd' f \<noteq> None) \<and>
     (\<forall>g. g \<noteq> f \<longrightarrow> files wd' g = files wd g)"
proof (induction es arbitrary: wd)
  case Nil
  then show ?case by simp
next
  case (Cons e es)
  let ?w = "wd\<lparr>files := (files wd)(f := Some (content wd f @ e @ [NL])),
               room := room wd - length e - 1\<rparr>"
  from Cons.prems have fit: "length (state_text es) \<le> room ?w" by simp
  have step: "save_loop f (map Some (e # es)) wd = save_loop f (map Some es) ?w"
    using Cons.prems by (auto simp: fput_def Let_def)
  from Cons.IH [OF fit] obtain wd' where
    "save_loop f (map Some es) ?w = (0, wd')" "content wd' f = content ?w f @ state_text es"
    "same_machine ?w wd'" "es = [] \<longrightarrow> wd' = ?w" "es \<noteq> [] \<longrightarrow> files wd' f \<noteq> None"
    "\<forall>g. g \<noteq> f \<longrightarrow> files wd' g = files ?w g" by blast
  then show ?case unfolding step
    by (cases "es = []") (auto simp: same_machine_def)
qed

lemma save_state_text:
  assumes "may_write wd f" "length (state_text es) \<le> room wd"
  obtains wd' where "save_state (Some f) (map Some es) wd = (0, wd')"
    "files wd' f = Some (state_text es)" "same_machine wd wd'"
    "\<And>g. g \<noteq> f \<Longrightarrow> files wd' g = files wd g"
proof -
  obtain wd1 where 1: "fopen_w f wd = Some wd1" "files wd1 f = Some []" "room wd \<le> room wd1"
    "same_machine wd wd1" "\<forall>g. g \<noteq> f \<longrightarrow> files wd1 g = files wd g"
    using assms(1) by (auto simp: fopen_w_def same_machine_def)
  from 1(2) have "content wd1 f = []" by simp
  moreover have "length (state_text es) \<le> room wd1" using assms(2) 1(3) by simp
  ultimately obtain wd' where 2: "save_loop f (map Some es) wd1 = (0, wd')"
    "content wd' f = state_text es" "same_machine wd1 wd'" "es = [] \<longrightarrow> wd' = wd1"
    "es \<noteq> [] \<longrightarrow> files wd' f \<noteq> None" "\<forall>g. g \<noteq> f \<longrightarrow> files wd' g = files wd1 g"
    using save_loop_text [of es wd1 f] by auto
  have "files wd' f = Some (state_text es)"
    using 1(2) 2(2,4,5) by (cases "es = []") auto
  moreover have "same_machine wd wd'" using 1(4) 2(3) by (rule same_machine_trans)
  moreover have "save_state (Some f) (map Some es) wd = (0, wd')"
    using 1(1) 2(1) by (simp add: save_state_def)
  ultimately show thesis using that [of wd'] 1(5) 2(6) by simp
qed

lemma fgets_line_whole:
  "NL \<notin> set e \<Longrightarrow> length e < n \<Longrightarrow> fgets_line n (e @ NL # r) = (e @ [NL], r)"
proof (induction e arbitrary: n)
  case Nil
  then show ?case by (cases n) auto
next
  case (Cons c e)
  then show ?case by (cases n) auto
qed

lemma fgets_line_part:
  "NL \<notin> set (take n s) \<Longrightarrow> n \<le> length s \<Longrightarrow> fgets_line n s = (take n s, drop n s)"
  by (induction n s rule: fgets_line.induct) auto

lemma am_strndup_line:
  "NUL \<notin> set e \<Longrightarrow> am_strndup (Some (e @ [NL])) (length e) = Some e"
  by (cases e) (auto simp: am_strndup_def)

lemma load_loop_entry:
  assumes "storable e"
  shows "load_loop (e @ NL # r) head = load_loop r (head @ [e])"
proof -
  have l: "fgets_line (MAX_LINE_LEN - 1) (e @ NL # r) = (e @ [NL], r)"
    using assms by (intro fgets_line_whole) (auto simp: storable_def)
  have "cstr (e @ [NL]) = e @ [NL]"
    using assms NL_NUL by (intro cstr_id) (auto simp: storable_def)
  moreover have "am_strndup (Some (e @ [NL])) (length e) = Some e"
    using assms by (auto simp: storable_def intro: am_strndup_line)
  ultimately show ?thesis
    by (subst load_loop.simps) (simp add: l [simplified] Let_def)
qed

lemma load_loop_text: "\<forall>e \<in> set es. storable e \<Longrightarrow> load_loop (state_text es) head = head @ es"
proof (induction es arbitrary: head)
  case Nil
  then show ?case by (simp add: load_loop.simps)
next
  case (Cons e es)
  then show ?case by (simp add: load_loop_entry)
qed

definition state_of_text :: "string \<Rightarrow> string list" where
  "state_of_text s = load_loop s []"

interpretation state: codec state_text state_of_text "{es. \<forall>e \<in> set es. storable e}"
  by unfold_locales (simp add: state_of_text_def load_loop_text)

text \<open>An entry that does not fit into the line buffer comes back in pieces.\<close>

lemma load_loop_long:
  assumes "NL \<notin> set e" "NUL \<notin> set e" "2047 \<le> length e" "length e + 2 \<le> 2047 + 2048"
  shows "load_loop (e @ NL # r) head = load_loop r (head @ [take 2046 e, drop 2047 e])"
proof -
  have ne: "e \<noteq> []" using assms(3) by auto
  have "NL \<notin> set (take 2047 (e @ NL # r))"
    using assms(1,3) by (auto dest: in_set_takeD)
  then have "fgets_line 2047 (e @ NL # r) = (take 2047 e, drop 2047 e @ NL # r)"
    using fgets_line_part [of 2047 "e @ NL # r"] assms(3) by simp
  then have l: "fgets_line (MAX_LINE_LEN - 1) (e @ NL # r) = (take 2047 e, drop 2047 e @ NL # r)"
    by (simp add: MAX_LINE_LEN_def)
  have c: "cstr (take 2047 e) = take 2047 e"
    using assms(2) by (metis cstr_id in_set_takeD)
  have d: "am_strndup (Some (take 2047 e)) 2046 = Some (take 2046 e)"
    using ne assms(2) by (cases e) (auto simp: am_strndup_def)
  have "load_loop (e @ NL # r) head = load_loop (drop 2047 e @ NL # r) (head @ [take 2046 e])"
    using assms(3) ne by (subst load_loop.simps) (simp add: l [simplified] c d Let_def)
  also have "\<dots> = load_loop r ((head @ [take 2046 e]) @ [drop 2047 e])"
    using assms by (intro load_loop_entry) (auto simp: storable_def MAX_LINE_LEN_def dest: in_set_dropD)
  finally show ?thesis by simp
qed

section \<open>Properties\<close>

text \<open>C18: Saving the history and loading it in the next run gives the same history, entry by entry
  and in the same order, behind what the list already held; no other file changes.\<close>

theorem state_roundtrip:
  assumes "\<forall>e \<in> set es. storable e" "may_write wd f" "may_read wd f"
    and "length (state_text es) \<le> room wd"
  shows "\<exists>wd'. save_state (Some f) (map Some es) wd = (0, wd') \<and>
           load_state f head wd' = (0, head @ es) \<and>
           (\<forall>g. g \<noteq> f \<longrightarrow> files wd' g = files wd g)"
proof -
  obtain wd' where "save_state (Some f) (map Some es) wd = (0, wd')"
    "files wd' f = Some (state_text es)" "same_machine wd wd'"
    "\<And>g. g \<noteq> f \<Longrightarrow> files wd' g = files wd g"
    using save_state_text [OF assms(2,4)] by blast
  then show ?thesis
    using assms(1,3) by (auto simp: load_state_def fopen_r_def same_machine_def load_loop_text)
qed

theorem state_roundtrip_witness:
  "\<exists>wd'. save_state (Some ''a'') (map Some [''http://x/1'', ''http://x/2'']) disk1 = (0, wd') \<and>
     load_state ''a'' [''z''] wd' = (0, [''z''] @ [''http://x/1'', ''http://x/2'']) \<and>
     (\<forall>g. g \<noteq> ''a'' \<longrightarrow> files wd' g = files disk1 g)"
  by (rule state_roundtrip)
    (simp_all add: disk1_def storable_def NL_def NUL_def MAX_LINE_LEN_def)

text \<open>An entry of 2047 characters or more is not restored: \<open>load_state\<close> reads its line in two
  pieces, drops a character of it, and the list it returns does not contain the entry.\<close>

theorem state_long_entry_lost:
  assumes "files wd f = Some (state_text [e])" "may_read wd f"
    and "NL \<notin> set e" "NUL \<notin> set e" "2047 \<le> length e" "length e + 2 \<le> 2047 + 2048"
  shows "load_state f [] wd = (0, [take 2046 e, drop 2047 e]) \<and> e \<notin> set (snd (load_state f [] wd))"
proof -
  have "load_loop (e @ NL # []) [] = load_loop [] ([] @ [take 2046 e, drop 2047 e])"
    by (rule load_loop_long [OF assms(3-6)])
  then have r: "load_state f [] wd = (0, [take 2046 e, drop 2047 e])"
    using assms(1,2) by (simp add: load_state_def fopen_r_def load_loop.simps [of "[]"])
  have "length (take 2046 e) \<noteq> length e" "length (drop 2047 e) \<noteq> length e"
    using assms(5) by auto
  then have "e \<noteq> take 2046 e" "e \<noteq> drop 2047 e" by metis+
  with r show ?thesis by simp
qed

theorem state_long_entry_lost_witness:
  "load_state ''s'' []
       (disk1\<lparr>files := [''s'' \<mapsto> state_text [replicate 2047 CHR ''x'']]\<rparr>) =
     (0, [take 2046 (replicate 2047 CHR ''x''), drop 2047 (replicate 2047 CHR ''x'')]) \<and>
   replicate 2047 CHR ''x'' \<notin> set (snd (load_state ''s'' []
       (disk1\<lparr>files := [''s'' \<mapsto> state_text [replicate 2047 CHR ''x'']]\<rparr>)))"
  by (rule state_long_entry_lost) (simp_all add: disk1_def NL_def NUL_def del: state_text_simps)

end
