(* ===== verification/Am_Feed.thy ===== *)
theory Am_Feed
  imports Am_Regex
begin

text \<open>
  \<^verbatim>\<open>src/feed_item.c\<close>, \<^verbatim>\<open>src/filters.c\<close>, \<^verbatim>\<open>src/rss_feed.c\<close>: the data of the program (feed
  items, filters, feeds) and the decision whether an item is wanted.

  The lists of filters and feeds are HOL lists, the head first; \<^verbatim>\<open>Am_List\<close> shows that the C
  lists behave so.  Freeing an element only returns its memory and is modelled as the record of
  what is freed.
\<close>

section \<open>Feed items\<close>

record feed_item =
  item_name :: "string option"
  item_url :: "string option"
  item_category :: "string option"
  item_guid :: "string option"

definition newFeedItem :: feed_item where
  "newFeedItem = \<lparr>item_name = None, item_url = None, item_category = None, item_guid = None\<rparr>"

text \<open>The blocks \<open>freeFeedItem\<close> gives to \<open>am_free\<close>, in order; the item itself is the last.\<close>

definition freeFeedItem :: "feed_item option \<Rightarrow> string list \<times> bool" where
  "freeFeedItem data =
     (case data of
        None \<Rightarrow> ([], False)
      | Some i \<Rightarrow>
          (List.map_filter id [item_name i, item_url i, item_category i, item_guid i], True))"

section \<open>Filters\<close>

record am_filter =
  f_pattern :: "string option"
  f_folder :: "string option"
  f_feedID :: "string option"

definition filter_new :: am_filter where
  "filter_new = \<lparr>f_pattern = None, f_folder = None, f_feedID = None\<rparr>"

definition filter_add :: "am_filter option \<Rightarrow> am_filter list \<Rightarrow> am_filter list res" where
  "filter_add p head = (case p of None \<Rightarrow> Inl AssertFail | Some f \<Rightarrow> Inr (f # head))"

definition filter_free :: "am_filter option \<Rightarrow> string list \<times> bool" where
  "filter_free x =
     (case x of
        None \<Rightarrow> ([], False)
      | Some f \<Rightarrow> (List.map_filter id [f_pattern f, f_folder f, f_feedID f], True))"

section \<open>Feeds\<close>

record rss_feed =
  feed_url :: "string option"
  feed_cookies :: "string option"
  feed_id :: "string option"
  feed_url_pattern :: "string option"
  feed_url_replace :: "string option"
  feed_ttl :: int   \<comment> \<open>\<open>uint32_t\<close>\<close>

definition feed_new :: rss_feed where
  "feed_new = \<lparr>feed_url = None, feed_cookies = None, feed_id = None, feed_url_pattern = None,
     feed_url_replace = None, feed_ttl = wrap_u 32 (- 1)\<rparr>"

definition feed_add :: "rss_feed option \<Rightarrow> rss_feed list \<Rightarrow> rss_feed list res" where
  "feed_add p head = (case p of None \<Rightarrow> Inl AssertFail | Some f \<Rightarrow> Inr (f # head))"

definition feed_free :: "rss_feed option \<Rightarrow> string list \<times> bool" where
  "feed_free x =
     (case x of
        None \<Rightarrow> ([], False)
      | Some f \<Rightarrow>
          (List.map_filter id
             [feed_url f, feed_cookies f, feed_id f, feed_url_pattern f, feed_url_replace f], True))"

section \<open>Matching an item against the filters\<close>

text \<open>
  A filter without (or with an empty) feed ID is for every feed; one with an ID only for the
  feed of the same ID.  The comparison is reached only when both are non-empty.
\<close>

definition applies :: "am_filter \<Rightarrow> string option \<Rightarrow> bool" where
  "applies f feedID \<longleftrightarrow>
     (case f_feedID f of
        None \<Rightarrow> True
      | Some fid \<Rightarrow>
          fid = [] \<or>
          (case feedID of None \<Rightarrow> False | Some i \<Rightarrow> i \<noteq> [] \<and> strcasecmp_eq i fid))"

text \<open>The result is the return value and \<open>*folder\<close>, which stays as it was without a match.\<close>

fun isMatch ::
  "pcre \<Rightarrow> am_filter list \<Rightarrow> string option \<Rightarrow> string option \<Rightarrow> string option \<Rightarrow> nat \<times> string option"
where
  "isMatch re [] str feedID folder = (0, folder)"
| "isMatch re (f # fs) str feedID folder =
     (if applies f feedID \<and> isRegExMatch re (f_pattern f) str = 1 then (1, f_folder f)
      else isMatch re fs str feedID folder)"

definition wanted_by :: "pcre \<Rightarrow> string option \<Rightarrow> string option \<Rightarrow> am_filter \<Rightarrow> bool" where
  "wanted_by re str feedID f \<longleftrightarrow> applies f feedID \<and> isRegExMatch re (f_pattern f) str = 1"

lemma isMatch_find:
  "isMatch re fs str feedID folder =
     (case find (wanted_by re str feedID) fs of
        None \<Rightarrow> (0, folder)
      | Some f \<Rightarrow> (1, f_folder f))"
  by (induction fs) (auto simp: wanted_by_def)

lemma find_SomeE:
  assumes "find P xs = Some x"
  obtains gs hs where "xs = gs @ x # hs" "P x" "\<forall>g \<in> set gs. \<not> P g"
proof -
  from assms have "\<exists>gs hs. xs = gs @ x # hs \<and> P x \<and> (\<forall>g \<in> set gs. \<not> P g)"
  proof (induction xs)
    case (Cons y ys)
    show ?case
    proof (cases "P y")
      case True
      with Cons.prems show ?thesis by force
    next
      case False
      with Cons obtain gs hs where "ys = gs @ x # hs" "P x" "\<forall>g \<in> set gs. \<not> P g" by auto
      with False show ?thesis by (intro exI [of _ "y # gs"] exI [of _ hs]) auto
    qed
  qed simp
  then show thesis using that by blast
qed

lemma isMatch_01: "fst (isMatch re fs str feedID folder) \<in> {0, 1}"
  by (simp add: isMatch_find split: option.splits)

lemma isMatch_no_name: "fst (isMatch re fs None feedID folder) = 0"
  by (induction fs) auto

text \<open>Feed IDs are compared without regard to case.\<close>

lemma applies_case: "map tolower i = map tolower j \<Longrightarrow> (i = [] \<longleftrightarrow> j = []) \<Longrightarrow>
   applies f (Some i) = applies f (Some j)"
  by (auto simp: applies_def strcasecmp_eq_def split: option.splits)

section \<open>Properties\<close>

text \<open>C23: \<open>isMatch\<close> reports a match exactly when some filter of the feed (or of every feed) has a
  pattern that matches, and the folder it returns is that of the first such filter in the list;
  without a match the caller's folder is unchanged.\<close>

theorem isMatch_first:
  "isMatch re fs str feedID folder = (1, d) \<longleftrightarrow>
     (\<exists>gs f hs. fs = gs @ f # hs \<and> wanted_by re str feedID f \<and> d = f_folder f \<and>
        \<not> (\<exists>g \<in> set gs. wanted_by re str feedID g))"
  (is "?lhs \<longleftrightarrow> ?rhs")
proof
  assume ?lhs
  then obtain f where f: "find (wanted_by re str feedID) fs = Some f" "d = f_folder f"
    by (auto simp: isMatch_find split: option.splits)
  from f(1) obtain gs hs where "fs = gs @ f # hs" "wanted_by re str feedID f"
    "\<forall>g \<in> set gs. \<not> wanted_by re str feedID g"
    by (rule find_SomeE)
  with f(2) show ?rhs by blast
next
  assume ?rhs
  then obtain gs f hs where fs: "fs = gs @ f # hs" "wanted_by re str feedID f" "d = f_folder f"
    "\<forall>g \<in> set gs. \<not> wanted_by re str feedID g" by auto
  have "find (wanted_by re str feedID) (gs @ f # hs) = Some f"
    using fs(2,4) by (induction gs) auto
  then show ?lhs using fs(1,3) by (simp add: isMatch_find)
qed

end
