(* ===== verification/Am_Downloads.thy ===== *)
theory Am_Downloads
  imports Am_List Am_Utils Am_Feed
begin

text \<open>
  \<^verbatim>\<open>src/downloads.c\<close>: the bucket of identifiers that have been downloaded.

  The functions are modelled on the store of \<^verbatim>\<open>Am_List\<close>.  \<open>hasGUID\<close>, \<open>seen\<close> and
  \<open>remember\<close> say the same on a plain list, the newest entry first; the refinement lemmas show
  that the C functions implement them and that they return.
\<close>

section \<open>The functions on the store\<close>

partial_function (option) hasGUID_loop :: "string \<Rightarrow> string heap \<Rightarrow> nat option \<Rightarrow> bool option" where
  "hasGUID_loop guid h p =
     (case p of
        None \<Rightarrow> Some False
      | Some a \<Rightarrow>
          (case cells h a of
             None \<Rightarrow> None
           | Some n \<Rightarrow> if dat n = guid then Some True else hasGUID_loop guid h (nxt n)))"

definition bucket_hasGUID :: "string option \<Rightarrow> string heap \<Rightarrow> nat option \<Rightarrow> bool option" where
  "bucket_hasGUID guid h head =
     (case guid of
        None \<Rightarrow> Some False
      | Some g \<Rightarrow> if g \<noteq> [] then hasGUID_loop g h head else Some False)"

definition has_been_downloaded :: "string heap \<Rightarrow> nat option \<Rightarrow> feed_item \<Rightarrow> bool option" where
  "has_been_downloaded h bucket item = do {
     a \<leftarrow> bucket_hasGUID (item_guid item) h bucket;
     if a then Some True else bucket_hasGUID (item_url item) h bucket }"

text \<open>\<open>addToBucket(guid, head, maxBucketItems)\<close>: the return code, \<open>*head\<close> and the store.\<close>

definition addToBucket ::
  "string option \<Rightarrow> nat option \<Rightarrow> nat \<Rightarrow> string heap \<Rightarrow> (int \<times> nat option \<times> string heap) option" where
  "addToBucket guid head maxBucketItems h = do {
     (r, head', h1) \<leftarrow> addToHead (am_strdup guid) (Some head) h;
     p \<leftarrow> head';
     n \<leftarrow> (if 0 < maxBucketItems then listCount h1 p else Some 0);
     h2 \<leftarrow> (if 0 < maxBucketItems \<and> maxBucketItems < n then removeLast p h1 else Some h1);
     Some (0, p, h2) }"

section \<open>The bucket as a list\<close>

definition hasGUID :: "string option \<Rightarrow> string list \<Rightarrow> bool" where
  "hasGUID guid b = (case guid of None \<Rightarrow> False | Some g \<Rightarrow> g \<noteq> [] \<and> g \<in> set b)"

definition seen :: "string list \<Rightarrow> feed_item \<Rightarrow> bool" where
  "seen b item \<longleftrightarrow> hasGUID (item_guid item) b \<or> hasGUID (item_url item) b"

definition remember :: "string option \<Rightarrow> string list \<Rightarrow> nat \<Rightarrow> string list" where
  "remember guid b maxBucketItems =
     (let b1 = (case am_strdup guid of None \<Rightarrow> b | Some g \<Rightarrow> g # b)
      in if 0 < maxBucketItems \<and> maxBucketItems < length b1 then butlast b1 else b1)"

section \<open>The functions implement it\<close>

lemma hasGUID_loop_chain: "chain h p ns \<Longrightarrow> hasGUID_loop g h p = Some (g \<in> snd ` set ns)"
proof (induction ns arbitrary: p)
  case Nil
  then show ?case by (simp add: hasGUID_loop.simps [of g h None])
next
  case (Cons n ns)
  obtain a d where n: "n = (a, d)" by force
  with Cons.prems obtain m where m: "p = Some a" "cells h a = Some m" "dat m = d" "chain h (nxt m) ns"
    by auto
  with Cons.IH [OF m(4)] n show ?case
    by (auto simp: hasGUID_loop.simps [of g h "Some a"])
qed

lemma bucket_hasGUID_refines:
  "repr_ref (p, h) b \<Longrightarrow> bucket_hasGUID guid h p = Some (hasGUID guid b)"
  by (auto simp: repr_ref_def bucket_hasGUID_def hasGUID_def hasGUID_loop_chain split: option.splits)

lemma has_been_downloaded_refines:
  "repr_ref (p, h) b \<Longrightarrow> has_been_downloaded h p item = Some (seen b item)"
  by (simp add: has_been_downloaded_def seen_def bucket_hasGUID_refines)

lemma remember_length:
  "0 < m \<Longrightarrow> length b \<le> m \<Longrightarrow> length (remember guid b m) \<le> m"
  by (auto simp: remember_def Let_def split: option.splits)

lemma remember_mem:
  "am_strdup (Some g) = Some g \<Longrightarrow> 0 < m \<longrightarrow> 1 < m \<or> b = [] \<Longrightarrow> g \<in> set (remember (Some g) b m)"
  by (cases b) (auto simp: remember_def Let_def)

lemma remember_None [simp]: "length b \<le> m \<or> m = 0 \<Longrightarrow> remember None b m = b"
  by (auto simp: remember_def)

text \<open>The first element of a non-empty bucket is never the one that is removed.\<close>

lemma remember_hd:
  assumes "g \<noteq> []" "NUL \<notin> set g" "0 < m \<Longrightarrow> b \<noteq> [] \<or> 1 \<le> m"
  shows "\<exists>r. remember (Some g) b m = g # r"
  using assms by (cases b) (auto simp: remember_def Let_def am_strdup_Some)

lemma addToBucket_NULL:
  assumes "repr_ref (p, h) b" "am_strdup guid = None" "length b \<le> m \<or> m = 0" "length b < 2 ^ 32"
  shows "addToBucket guid p m h = Some (0, p, h)"
  using assms heap_list.count_repr [OF assms(1)]
  by (auto simp: addToBucket_def addToHead_NULL count_ref_def)

lemma addToBucket_refines:
  assumes r: "repr_ref (p, h) b" and len: "Suc (length b) < 2 ^ 32"
    and ok: "am_strdup guid = None \<Longrightarrow> length b \<le> m \<or> m = 0"
  shows "\<exists>p' h'. addToBucket guid p m h = Some (0, p', h') \<and> repr_ref (p', h') (remember guid b m)"
proof (cases "am_strdup guid")
  case None
  then show ?thesis
    using addToBucket_NULL [OF r None ok [OF None]] ok [OF None] r len
    by (auto simp: remember_def)
next
  case (Some g)
  have push: "push_ref g (p, h) = Some (p1, h1) \<longleftrightarrow>
      (\<exists>c. addToHead (Some g) (Some p) h = Some (c, Some p1, h1))" for p1 h1
    by (auto simp: push_ref_def split: option.splits)
  show ?thesis
  proof (cases "0 < m")
    case True
    obtain s1 s2 where s: "push_ref g (p, h) = Some s1" "count_ref s1 = Some (Suc (length b))"
      "(if m < Suc (length b) then drop_last_ref s1 else Some s1) = Some s2"
      "repr_ref s2 (if m < Suc (length b) then butlast (g # b) else g # b)"
      using heap_list.push_bounded [OF r len True, of g] by blast
    obtain p1 h1 where s1: "s1 = (p1, h1)" by force
    from s(1) push obtain c where "addToHead (Some g) (Some p) h = Some (c, Some p1, h1)"
      unfolding s1 by blast
    with s True Some show ?thesis
      by (cases "m < Suc (length b)")
        (auto simp: addToBucket_def s1 count_ref_def drop_last_ref_def remember_def)
  next
    case False
    obtain s1 where s: "push_ref g (p, h) = Some s1" "repr_ref s1 (g # b)"
      using heap_list.push_repr [OF r, of g] by blast
    obtain p1 h1 where s1: "s1 = (p1, h1)" by force
    from s(1) push obtain c where "addToHead (Some g) (Some p) h = Some (c, Some p1, h1)"
      unfolding s1 by blast
    with s False Some show ?thesis
      by (auto simp: addToBucket_def s1 remember_def)
  qed
qed

section \<open>Properties\<close>

text \<open>C32: \<open>addToBucket\<close> returns for every list and keeps the bucket: the new identifier becomes the
  head, and when the list has grown past its maximum the oldest entry, and only that one, goes.\<close>

theorem addToBucket_correct:
  assumes "repr_ref (p, h) b" "Suc (length b) < 2 ^ 32" "g \<noteq> []" "NUL \<notin> set g"
  shows "\<exists>p' h'. addToBucket (Some g) p m h = Some (0, p', h') \<and>
     repr_ref (p', h') (if 0 < m \<and> m < Suc (length b) then butlast (g # b) else g # b)"
proof -
  have dup: "am_strdup (Some g) = Some g" using assms(3,4) by (simp add: am_strdup_Some)
  then have "\<exists>p' h'. addToBucket (Some g) p m h = Some (0, p', h') \<and>
      repr_ref (p', h') (remember (Some g) b m)"
    by (intro addToBucket_refines [OF assms(1,2)]) simp
  then show ?thesis by (auto simp: remember_def dup)
qed

definition bucket1 :: "nat option \<times> string heap" where
  "bucket1 = (Some 1,
     \<lparr>cells = [0 \<mapsto> \<lparr>nxt = None, dat = ''u0''\<rparr>, 1 \<mapsto> \<lparr>nxt = Some 0, dat = ''u1''\<rparr>],
      brk = 2, released = []\<rparr>)"

lemma bucket1_repr: "repr_ref bucket1 [''u1'', ''u0'']"
  by (auto simp: repr_ref_def bucket1_def heap_ok_def
      intro!: exI [of _ "[(1, ''u1''), (0, ''u0'')]"])

theorem addToBucket_correct_witness:
  "\<exists>p' h'. addToBucket (Some ''u2'') (fst bucket1) 2 (snd bucket1) = Some (0, p', h') \<and>
     repr_ref (p', h') (if 0 < (2::nat) \<and> 2 < Suc (length [''u1'', ''u0''])
       then butlast (''u2'' # [''u1'', ''u0'']) else ''u2'' # [''u1'', ''u0''])"
  by (rule addToBucket_correct) (simp_all add: bucket1_repr NUL_def)

text \<open>An item is taken for downloaded exactly when its GUID or its URL is in the bucket; an empty
  or missing identifier never counts.\<close>

theorem has_been_downloaded_correct:
  assumes "repr_ref (p, h) b"
  shows "has_been_downloaded h p item =
     Some (\<exists>g. (item_guid item = Some g \<or> item_url item = Some g) \<and> g \<noteq> [] \<and> g \<in> set b)"
  by (auto simp: has_been_downloaded_refines [OF assms] seen_def hasGUID_def split: option.splits)

theorem has_been_downloaded_correct_witness:
  "has_been_downloaded (snd bucket1) (fst bucket1) (newFeedItem\<lparr>item_url := Some ''u0''\<rparr>) =
     Some (\<exists>g. (item_guid (newFeedItem\<lparr>item_url := Some ''u0''\<rparr>) = Some g \<or>
         item_url (newFeedItem\<lparr>item_url := Some ''u0''\<rparr>) = Some g) \<and> g \<noteq> [] \<and>
       g \<in> set [''u1'', ''u0''])"
  by (rule has_been_downloaded_correct) (simp add: bucket1_repr)

end
