(* ===== verification/Am_Xml.thy ===== *)
theory Am_Xml
  imports Am_Feed
begin

text \<open>
  \<^verbatim>\<open>src/xml_parser.c\<close>: from the XML of a feed to a list of feed items.

  libxml2 is the record \<open>xml_lib\<close>: parsing, recovery, and the two XPath queries, on a type of
  documents that is left open.  Of a node the model keeps what the code reads.  A NULL node name
  (libxml2 has them for CDATA sections) is \<open>None\<close>.
\<close>

section \<open>The document\<close>

record xml_attr =
  attr_name :: string
  attr_text :: "string option"     \<comment> \<open>\<open>xmlNodeGetContent(attr->children)\<close>\<close>

record xml_child =
  child_name :: "string option"
  child_text :: "string option"    \<comment> \<open>\<open>xmlNodeGetContent(child->children)\<close>\<close>
  child_attrs :: "xml_attr list"

record xml_node =
  is_element :: bool
  node_children :: "xml_child list"
  node_text :: "string option"     \<comment> \<open>\<open>xmlNodeGetContent(node->children)\<close>\<close>

text \<open>The result of a query: \<open>None\<close> when it fails, \<open>Some None\<close> for a NULL node set.\<close>

record 'doc xml_lib =
  xmlParseMemory :: "char list \<Rightarrow> nat \<Rightarrow> 'doc option"
  xmlRecoverMemory :: "char list \<Rightarrow> nat \<Rightarrow> 'doc option"
  xmlXPathNewContext :: "'doc \<Rightarrow> bool"
  xpath :: "string \<Rightarrow> 'doc \<Rightarrow> xml_node list option option"

section \<open>The functions\<close>

text \<open>\<open>getNodeText(child, dest)\<close>: the result and \<open>*dest\<close> afterwards.\<close>

definition getNodeText :: "string option \<Rightarrow> string option \<Rightarrow> (bool \<times> string option) res" where
  "getNodeText textNode dest =
     (if dest \<noteq> None then Inl AssertFail
      else let dest = am_strdup textNode in Inr (dest \<noteq> None, dest))"

record rssNode =
  rss_url :: "string option"
  rss_type :: "string option"

fun getNodeAttributes_loop :: "xml_attr list \<Rightarrow> rssNode \<Rightarrow> rssNode res" where
  "getNodeAttributes_loop [] tmp = Inr tmp"
| "getNodeAttributes_loop (a # as) tmp =
     (if attr_name a = ''url'' then
        bindR (getNodeText (attr_text a) (rss_url tmp))
          (\<lambda>(r, d). getNodeAttributes_loop as (tmp\<lparr>rss_url := d\<rparr>))
      else if attr_name a = ''content'' \<or> attr_name a = ''type'' then
        bindR (getNodeText (attr_text a) (rss_type tmp))
          (\<lambda>(r, d). getNodeAttributes_loop as (tmp\<lparr>rss_type := d\<rparr>))
      else getNodeAttributes_loop as tmp)"

definition getNodeAttributes :: "xml_child \<Rightarrow> rssNode res" where
  "getNodeAttributes child =
     getNodeAttributes_loop (child_attrs child) \<lparr>rss_url = None, rss_type = None\<rparr>"

text \<open>One turn of the loop over the children of an item, on \<open>(item, name_set, url_set)\<close>.\<close>

definition item_step ::
  "xml_child \<Rightarrow> feed_item \<times> bool \<times> bool \<Rightarrow> (feed_item \<times> bool \<times> bool) res" where
  "item_step child st =
     (case st of (item, name_set, url_set) \<Rightarrow>
       (case child_name child of
          None \<Rightarrow> Inl NullDeref
        | Some name \<Rightarrow>
            (if \<not> name_set \<and> name = ''title'' then
               bindR (getNodeText (child_text child) (item_name item))
                 (\<lambda>(r, d). Inr (item\<lparr>item_name := d\<rparr>, r, url_set))
             else if name = ''link'' then
               (if \<not> url_set then
                  bindR (getNodeText (child_text child) (item_url item))
                    (\<lambda>(r, d). Inr (item\<lparr>item_url := d\<rparr>, name_set, r))
                else Inr (item, name_set, url_set))
             else if name = ''category'' \<and> item_category item = None then
               bindR (getNodeText (child_text child) (item_category item))
                 (\<lambda>(r, d). Inr (item\<lparr>item_category := d\<rparr>, name_set, url_set))
             else if name = ''enclosure'' then
               bindR (getNodeAttributes child) (\<lambda>enc.
                 if rss_url enc \<noteq> None \<and> rss_type enc = Some ''application/x-bittorrent''
                 then Inr (item\<lparr>item_url := am_strdup (rss_url enc)\<rparr>, name_set, True)
                 else Inr (item, name_set, url_set))
             else if name = ''guid'' \<and> item_guid item = None then
               bindR (getNodeText (child_text child) (item_guid item))
                 (\<lambda>(r, d). Inr (item\<lparr>item_guid := d\<rparr>, name_set, url_set))
             else Inr (item, name_set, url_set))))"

fun item_loop ::
  "xml_child list \<Rightarrow> feed_item \<times> bool \<times> bool \<Rightarrow> (feed_item \<times> bool \<times> bool) res" where
  "item_loop [] st = Inr st"
| "item_loop (c # cs) st = bindR (item_step c st) (item_loop cs)"

text \<open>The loop over the nodes; complete items go to the head of \<open>itemList\<close>.\<close>

fun extract_loop :: "xml_node list \<Rightarrow> feed_item list \<Rightarrow> feed_item list res" where
  "extract_loop [] itemList = Inr itemList"
| "extract_loop (n # ns) itemList =
     (if is_element n \<and> node_children n \<noteq> [] then
        bindR (item_loop (node_children n) (newFeedItem, False, False))
          (\<lambda>(item, name_set, url_set).
            extract_loop ns (if name_set \<and> url_set then item # itemList else itemList))
      else extract_loop ns itemList)"

definition extract_feed_items :: "xml_node list option \<Rightarrow> feed_item list res" where
  "extract_feed_items nodes = (case nodes of None \<Rightarrow> Inr [] | Some ns \<Rightarrow> extract_loop ns [])"

text \<open>
  \<open>parse_xmldata(data, size, item_count, ttl)\<close>: \<open>ttl\<close> is \<open>None\<close> for a NULL pointer, otherwise
  the value it points to; the result is the list, \<open>*item_count\<close> and \<open>*ttl\<close>.
\<close>

definition parse_ttl :: "xml_node list option option \<Rightarrow> int \<Rightarrow> int res" where
  "parse_ttl obj ttl =
     (case obj of
        None \<Rightarrow> Inr ttl
      | Some None \<Rightarrow> Inl NullDeref
      | Some (Some ns) \<Rightarrow>
          (if length ns = 1 \<and> is_element (ns ! 0) then
             (case node_text (ns ! 0) of
                None \<Rightarrow> Inl NullDeref
              | Some t \<Rightarrow> Inr (wrap_u 32 (atoi t)))
           else Inr ttl))"

definition parse_xmldata ::
  "'doc xml_lib \<Rightarrow> char list option \<Rightarrow> nat \<Rightarrow> int option \<Rightarrow> (feed_item list \<times> nat \<times> int option) res"
where
  "parse_xmldata lib data sz ttl =
     (case data of
        None \<Rightarrow> Inr ([], 0, ttl)
      | Some d \<Rightarrow>
          (let doc = (case xmlParseMemory lib d sz of
                        None \<Rightarrow> xmlRecoverMemory lib d sz
                      | Some x \<Rightarrow> Some x)
           in case doc of
                None \<Rightarrow> Inr ([], 0, ttl)
              | Some doc \<Rightarrow>
                  (if \<not> xmlXPathNewContext lib doc then Inr ([], 0, ttl)
                   else
                     bindR (case ttl of
                              None \<Rightarrow> Inr None
                            | Some t \<Rightarrow>
                                bindR (parse_ttl (xpath lib ''//channel/ttl'' doc) t)
                                  (\<lambda>t. Inr (Some t)))
                       (\<lambda>ttl.
                          case xpath lib ''//item'' doc of
                            None \<Rightarrow> Inr ([], 0, ttl)
                          | Some nodes \<Rightarrow>
                              bindR (extract_feed_items nodes) (\<lambda>items.
                                Inr (items,
                                     case nodes of None \<Rightarrow> 0 | Some ns \<Rightarrow> length ns mod 2 ^ 32,
                                     ttl))))))"

section \<open>What an item contains\<close>

definition opt_list :: "string option \<Rightarrow> string list" where
  "opt_list p = (case p of None \<Rightarrow> [] | Some t \<Rightarrow> if t = [] then [] else [t])"

definition list_opt :: "string list \<Rightarrow> string option" where
  "list_opt l = (case l of [] \<Rightarrow> None | t # _ \<Rightarrow> Some t)"

lemma list_opt_simps [simp]:
  "list_opt [] = None" "list_opt (t # l) = Some t" "list_opt l = None \<longleftrightarrow> l = []"
  by (simp_all add: list_opt_def split: list.splits)

lemma list_opt_append: "list_opt (xs @ ys) = (if xs = [] then list_opt ys else list_opt xs)"
  by (cases xs) simp_all

lemma opt_list_length: "length (opt_list p) \<le> 1"
  by (simp add: opt_list_def split: option.splits)

text \<open>The non-empty texts of the children of a name, and of the attributes of some names.\<close>

fun texts :: "string \<Rightarrow> xml_child list \<Rightarrow> string list" where
  "texts name [] = []"
| "texts name (c # cs) =
     (if child_name c = Some name then opt_list (child_text c) else []) @ texts name cs"

definition named :: "string list \<Rightarrow> xml_attr list \<Rightarrow> xml_attr list" where
  "named names as = filter (\<lambda>a. attr_name a \<in> set names) as"

definition attr_texts :: "string list \<Rightarrow> xml_attr list \<Rightarrow> string list" where
  "attr_texts names as = concat (map (\<lambda>a. opt_list (attr_text a)) (named names as))"

lemma named_simps [simp]:
  "named names [] = []"
  "named names (a # as) = (if attr_name a \<in> set names then a # named names as else named names as)"
  by (simp_all add: named_def)

lemma attr_texts_simps [simp]:
  "attr_texts names [] = []"
  "attr_texts names (a # as) =
     (if attr_name a \<in> set names then opt_list (attr_text a) else []) @ attr_texts names as"
  by (simp_all add: attr_texts_def)

lemma attr_texts_none: "named names as = [] \<Longrightarrow> attr_texts names as = []"
  by (simp add: attr_texts_def)

text \<open>The address of a torrent enclosure.\<close>

definition torrent_url :: "xml_child \<Rightarrow> string list" where
  "torrent_url c =
     (if child_name c = Some ''enclosure'' \<and>
         attr_texts [''content'', ''type''] (child_attrs c) = [''application/x-bittorrent'']
      then attr_texts [''url''] (child_attrs c) else [])"

definition torrent_urls :: "xml_child list \<Rightarrow> string list" where
  "torrent_urls cs = concat (map torrent_url cs)"

definition best_url :: "xml_child list \<Rightarrow> string option" where
  "best_url cs =
     (if torrent_urls cs \<noteq> [] then Some (last (torrent_urls cs)) else list_opt (texts ''link'' cs))"

definition item_of :: "xml_child list \<Rightarrow> feed_item" where
  "item_of cs = \<lparr>item_name = list_opt (texts ''title'' cs), item_url = best_url cs,
     item_category = list_opt (texts ''category'' cs), item_guid = list_opt (texts ''guid'' cs)\<rparr>"

definition complete :: "feed_item \<Rightarrow> bool" where
  "complete i \<longleftrightarrow> item_name i \<noteq> None \<and> item_url i \<noteq> None"

text \<open>
  What the code assumes of a document: every child has a name, no text contains NUL, and an
  enclosure has at most one attribute for each of its two fields.
\<close>

definition text_ok :: "string option \<Rightarrow> bool" where
  "text_ok p \<longleftrightarrow> (case p of None \<Rightarrow> True | Some t \<Rightarrow> NUL \<notin> set t)"

definition child_ok :: "xml_child \<Rightarrow> bool" where
  "child_ok c \<longleftrightarrow> child_name c \<noteq> None \<and> text_ok (child_text c) \<and>
     (child_name c = Some ''enclosure'' \<longrightarrow>
        list_all (\<lambda>a. text_ok (attr_text a)) (child_attrs c) \<and>
        length (named [''url''] (child_attrs c)) \<le> 1 \<and>
        length (named [''content'', ''type''] (child_attrs c)) \<le> 1)"

lemma am_strdup_list_opt: "text_ok p \<Longrightarrow> am_strdup p = list_opt (opt_list p)"
  by (auto simp: text_ok_def am_strdup_Some opt_list_def split: option.splits)

lemma getNodeText_ok:
  "text_ok p \<Longrightarrow> getNodeText p None = Inr (opt_list p \<noteq> [], list_opt (opt_list p))"
  by (cases "opt_list p") (simp_all add: getNodeText_def am_strdup_list_opt)

text \<open>The value of a field after the attributes \<open>as\<close>.\<close>

definition field_after :: "string option \<Rightarrow> string list \<Rightarrow> xml_attr list \<Rightarrow> string option" where
  "field_after d names as = (if named names as = [] then d else list_opt (attr_texts names as))"

lemma attrs_loop:
  assumes "list_all (\<lambda>a. text_ok (attr_text a)) as"
    and "length (named [''url''] as) + (if rss_url tmp = None then 0 else 1) \<le> 1"
    and "length (named [''content'', ''type''] as) + (if rss_type tmp = None then 0 else 1) \<le> 1"
  shows "getNodeAttributes_loop as tmp =
    Inr \<lparr>rss_url = field_after (rss_url tmp) [''url''] as,
         rss_type = field_after (rss_type tmp) [''content'', ''type''] as\<rparr>"
  using assms
proof (induction as arbitrary: tmp)
  case Nil
  then show ?case by (simp add: field_after_def)
next
  case (Cons a as)
  have ok: "text_ok (attr_text a)" "list_all (\<lambda>a. text_ok (attr_text a)) as"
    using Cons.prems(1) by simp_all
  consider (u) "attr_name a = ''url''" | (t) "attr_name a = ''content'' \<or> attr_name a = ''type''"
    | (o) "attr_name a \<noteq> ''url''" "attr_name a \<noteq> ''content''" "attr_name a \<noteq> ''type''" by blast
  then show ?case
  proof cases
    case u
    then have "rss_url tmp = None" "named [''url''] as = []"
      using Cons.prems(2) by (auto split: if_splits)
    with u ok Cons.prems(3) Cons.IH [of "tmp\<lparr>rss_url := list_opt (opt_list (attr_text a))\<rparr>"]
    show ?thesis
      using opt_list_length [of "attr_text a"]
      by (auto simp: getNodeText_ok field_after_def attr_texts_none)
  next
    case t
    then have "rss_type tmp = None" "named [''content'', ''type''] as = []"
      using Cons.prems(3) by (auto split: if_splits)
    with t ok Cons.prems(2) Cons.IH [of "tmp\<lparr>rss_type := list_opt (opt_list (attr_text a))\<rparr>"]
    show ?thesis
      using opt_list_length [of "attr_text a"]
      by (auto simp: getNodeText_ok field_after_def attr_texts_none)
  next
    case o
    with ok Cons.prems Cons.IH [of tmp] show ?thesis by (simp add: field_after_def)
  qed
qed

lemma getNodeAttributes_ok:
  assumes "child_ok c" "child_name c = Some ''enclosure''"
  shows "getNodeAttributes c =
    Inr \<lparr>rss_url = list_opt (attr_texts [''url''] (child_attrs c)),
         rss_type = list_opt (attr_texts [''content'', ''type''] (child_attrs c))\<rparr>"
  unfolding getNodeAttributes_def
  by (subst attrs_loop)
    (use assms in \<open>auto simp: child_ok_def field_after_def attr_texts_none\<close>)

lemma attr_texts_length: "length (attr_texts names as) \<le> length (named names as)"
proof (induction as)
  case (Cons a as)
  then show ?case using opt_list_length [of "attr_text a"] by simp
qed simp

lemma enclosure_url:
  assumes "child_ok c" "child_name c = Some ''enclosure''"
    and "enc = \<lparr>rss_url = list_opt (attr_texts [''url''] (child_attrs c)),
               rss_type = list_opt (attr_texts [''content'', ''type''] (child_attrs c))\<rparr>"
  shows "(rss_url enc \<noteq> None \<and> rss_type enc = Some ''application/x-bittorrent'') =
      (torrent_url c \<noteq> [])"
    and "torrent_url c \<noteq> [] \<Longrightarrow> am_strdup (rss_url enc) = Some (last (torrent_url c))"
proof -
  let ?u = "attr_texts [''url''] (child_attrs c)"
    and ?t = "attr_texts [''content'', ''type''] (child_attrs c)"
  have "length ?u \<le> 1" "length ?t \<le> 1"
    using assms(1,2) attr_texts_length le_trans unfolding child_ok_def by blast+
  then have ut: "?u = [] \<or> (\<exists>u. ?u = [u])" "?t = [] \<or> (\<exists>t. ?t = [t])"
    by (auto simp: le_Suc_eq length_Suc_conv)
  then show "(rss_url enc \<noteq> None \<and> rss_type enc = Some ''application/x-bittorrent'') =
      (torrent_url c \<noteq> [])"
    using assms(2,3) by (auto simp: torrent_url_def)
  have "\<forall>u \<in> set ?u. u \<noteq> [] \<and> NUL \<notin> set u" if "list_all (\<lambda>a. text_ok (attr_text a)) as"
      "?u = attr_texts [''url''] as" for as
    unfolding that(2) using that(1)
    by (induction as) (auto simp: opt_list_def text_ok_def split: option.splits if_splits)
  then have "\<forall>u \<in> set ?u. u \<noteq> [] \<and> NUL \<notin> set u"
    using assms(1,2) by (auto simp: child_ok_def)
  then show "torrent_url c \<noteq> [] \<Longrightarrow> am_strdup (rss_url enc) = Some (last (torrent_url c))"
    using ut assms(3) by (auto simp: torrent_url_def am_strdup_Some split: if_splits)
qed

text \<open>The three variables of the loop, after the children \<open>cs\<close>.\<close>

definition scanned :: "xml_child list \<Rightarrow> feed_item \<times> bool \<times> bool" where
  "scanned cs = (item_of cs, texts ''title'' cs \<noteq> [], best_url cs \<noteq> None)"

lemma texts_append [simp]: "texts name (xs @ ys) = texts name xs @ texts name ys"
  by (induction xs) simp_all

lemma torrent_urls_append [simp]: "torrent_urls (xs @ ys) = torrent_urls xs @ torrent_urls ys"
  by (simp add: torrent_urls_def)

lemma torrent_urls_other: "child_name c \<noteq> Some ''enclosure'' \<Longrightarrow> torrent_urls [c] = []"
  by (simp add: torrent_urls_def torrent_url_def)

lemma best_url_None: "best_url cs = None \<longleftrightarrow> torrent_urls cs = [] \<and> texts ''link'' cs = []"
  by (simp add: best_url_def)

lemma item_step_scanned:
  assumes "child_ok c"
  shows "item_step c (scanned ps) = Inr (scanned (ps @ [c]))"
proof -
  obtain n where n: "child_name c = Some n" using assms by (auto simp: child_ok_def)
  have t: "text_ok (child_text c)" using assms by (simp add: child_ok_def)
  consider "n = ''title''" | "n = ''link''" | "n = ''category''" | "n = ''enclosure''" | "n = ''guid''"
    | "n \<noteq> ''title''" "n \<noteq> ''link''" "n \<noteq> ''category''" "n \<noteq> ''enclosure''" "n \<noteq> ''guid''" by blast
  then show ?thesis
  proof cases
    case 1
    have "torrent_urls [c] = []" using n 1 by (intro torrent_urls_other) simp
    then show ?thesis using n t 1
      by (cases "texts ''title'' ps")
        (auto simp: item_step_def scanned_def item_of_def best_url_def getNodeText_ok list_opt_append)
  next
    case 2
    have "torrent_urls [c] = []" using n 2 by (intro torrent_urls_other) simp
    then show ?thesis using n t 2
      by (cases "best_url ps"; cases "opt_list (child_text c)")
        (auto simp: item_step_def scanned_def item_of_def best_url_def getNodeText_ok list_opt_append
          split: if_splits)
  next
    case 3
    have "torrent_urls [c] = []" using n 3 by (intro torrent_urls_other) simp
    then show ?thesis using n t 3
      by (cases "texts ''category'' ps")
        (auto simp: item_step_def scanned_def item_of_def best_url_def getNodeText_ok list_opt_append)
  next
    case 4
    note e = enclosure_url [OF assms n [unfolded 4] refl]
    have u: "torrent_urls [c] = torrent_url c" by (simp add: torrent_urls_def)
    show ?thesis
      using n 4 e u
      by (cases "torrent_url c = []")
        (auto simp: item_step_def scanned_def item_of_def best_url_def
          getNodeAttributes_ok [OF assms n [unfolded 4]])
  next
    case 5
    have "torrent_urls [c] = []" using n 5 by (intro torrent_urls_other) simp
    then show ?thesis using n t 5
      by (cases "texts ''guid'' ps")
        (auto simp: item_step_def scanned_def item_of_def best_url_def getNodeText_ok list_opt_append)
  next
    case 6
    have "torrent_urls [c] = []" using n 6 by (intro torrent_urls_other) simp
    then show ?thesis using n 6
      by (auto simp: item_step_def scanned_def item_of_def best_url_def)
  qed
qed

lemma item_loop_scanned:
  "list_all child_ok cs \<Longrightarrow> item_loop cs (scanned ps) = Inr (scanned (ps @ cs))"
proof (induction cs arbitrary: ps)
  case (Cons c cs)
  have "item_loop (c # cs) (scanned ps) = item_loop cs (scanned (ps @ [c]))"
    using Cons.prems by (simp add: item_step_scanned)
  also have "\<dots> = Inr (scanned ((ps @ [c]) @ cs))" using Cons by simp
  finally show ?case by simp
qed simp

lemma scanned_Nil: "scanned [] = (newFeedItem, False, False)"
  by (simp add: scanned_def item_of_def best_url_def torrent_urls_def newFeedItem_def)

lemma item_loop_ok: "list_all child_ok cs \<Longrightarrow>
  item_loop cs (newFeedItem, False, False) = Inr (scanned cs)"
  using item_loop_scanned [of cs "[]"] by (simp add: scanned_Nil)

definition items_of :: "xml_node list \<Rightarrow> feed_item list" where
  "items_of ns = filter complete (map (\<lambda>n. item_of (node_children n)) (filter is_element ns))"

lemma complete_item_of:
  "complete (item_of cs) \<longleftrightarrow> texts ''title'' cs \<noteq> [] \<and> best_url cs \<noteq> None"
  by (simp add: complete_def item_of_def)

lemma item_of_Nil [simp]: "\<not> complete (item_of [])"
  by (simp add: complete_item_of)

lemma extract_loop_ok:
  "\<forall>n \<in> set ns. list_all child_ok (node_children n) \<Longrightarrow>
   extract_loop ns items = Inr (rev (items_of ns) @ items)"
proof (induction ns arbitrary: items)
  case (Cons n ns)
  show ?case
  proof (cases "is_element n \<and> node_children n \<noteq> []")
    case True
    then have "extract_loop (n # ns) items = extract_loop ns
        (if complete (item_of (node_children n)) then item_of (node_children n) # items else items)"
      using Cons.prems by (simp add: item_loop_ok scanned_def complete_item_of)
    with Cons True show ?thesis by (simp add: items_of_def)
  next
    case False
    with Cons show ?thesis by (auto simp: items_of_def)
  qed
qed (simp add: items_of_def)

section \<open>Properties\<close>

text \<open>C28: From a well-formed list of item nodes exactly the items with a title and an address are
  taken, the last one first; the name, category and GUID are the first non-empty texts of their
  elements, the address is that of the last torrent enclosure, or else of the first non-empty link.\<close>

theorem extract_feed_items_correct:
  assumes "\<forall>n \<in> set ns. list_all child_ok (node_children n)"
  shows "extract_feed_items (Some ns) = Inr (rev (items_of ns)) \<and>
    list_all (\<lambda>i. (\<exists>s. item_name i = Some s \<and> s \<noteq> []) \<and> (\<exists>u. item_url i = Some u \<and> u \<noteq> []))
      (items_of ns)"
proof -
  have nz: "[] \<notin> set (texts name cs)" for name cs
    by (induction cs) (auto simp: opt_list_def split: option.splits)
  have na: "[] \<notin> set (attr_texts names as)" for names as
    by (induction as) (auto simp: opt_list_def split: option.splits)
  have nt: "[] \<notin> set (torrent_urls cs)" for cs
    using na by (auto simp: torrent_urls_def torrent_url_def)
  have first: "list_opt l = Some s \<Longrightarrow> s \<in> set l" for l :: "string list" and s
    by (cases l) auto
  have "(\<exists>s. item_name i = Some s \<and> s \<noteq> []) \<and> (\<exists>u. item_url i = Some u \<and> u \<noteq> [])"
    if "i \<in> set (items_of ns)" for i
  proof -
    from that obtain cs where i: "i = item_of cs" "complete i" by (auto simp: items_of_def)
    then obtain s u where "item_name i = Some s" "item_url i = Some u" by (auto simp: complete_def)
    moreover from this i(1) have "s \<noteq> []" using first nz by (fastforce simp: item_of_def)
    moreover have "u \<noteq> []"
      using \<open>item_url i = Some u\<close> i(1) first [of "texts ''link'' cs"] nz [of "''link''"] nt [of cs]
      by (auto simp: item_of_def best_url_def split: if_splits) (metis last_in_set)
    ultimately show ?thesis by simp
  qed
  then show ?thesis by (simp add: extract_feed_items_def extract_loop_ok [OF assms] list_all_iff)
qed

definition node1 :: xml_node where
  "node1 = \<lparr>is_element = True, node_children =
     [\<lparr>child_name = Some ''title'', child_text = Some ''A'', child_attrs = []\<rparr>,
      \<lparr>child_name = Some ''link'', child_text = Some ''http://a'', child_attrs = []\<rparr>,
      \<lparr>child_name = Some ''enclosure'', child_text = None, child_attrs =
         [\<lparr>attr_name = ''url'', attr_text = Some ''http://b''\<rparr>,
          \<lparr>attr_name = ''type'', attr_text = Some ''application/x-bittorrent''\<rparr>]\<rparr>],
     node_text = None\<rparr>"

theorem extract_feed_items_correct_witness:
  "extract_feed_items (Some [node1, node1]) = Inr (rev (items_of [node1, node1])) \<and>
    list_all (\<lambda>i. (\<exists>s. item_name i = Some s \<and> s \<noteq> []) \<and> (\<exists>u. item_url i = Some u \<and> u \<noteq> []))
      (items_of [node1, node1])"
  by (rule extract_feed_items_correct) (simp add: node1_def child_ok_def text_ok_def NUL_def)

text \<open>An enclosure that has both a \<open>content\<close> and a \<open>type\<close> attribute (or repeats one) with a
  non-empty first value stops the program: the second value trips the assertion in
  \<open>getNodeText\<close>.\<close>

theorem enclosure_assertion:
  assumes "child_name c = Some ''enclosure''"
    and "child_attrs c = xs @ a # ys @ b # zs"
    and "attr_name a \<in> {''content'', ''type''}" "attr_name b \<in> {''content'', ''type''}"
    and "attr_text a = Some t" "t \<noteq> []" "NUL \<notin> set t"
    and "named [''url'', ''content'', ''type''] (xs @ ys) = []"
  shows "item_step c (item, name_set, url_set) = Inl AssertFail"
proof -
  have skip: "getNodeAttributes_loop (us @ vs) tmp = getNodeAttributes_loop vs tmp"
    if "named [''url'', ''content'', ''type''] us = []" for us vs tmp
    using that by (induction us) (auto split: if_splits)
  have "named [''url'', ''content'', ''type''] xs = []" "named [''url'', ''content'', ''type''] ys = []"
    using assms(8) by (simp_all add: named_def)
  then have "getNodeAttributes c = Inl AssertFail"
    using assms(2-7)
    by (auto simp: getNodeAttributes_def skip getNodeText_def am_strdup_Some)
  with assms(1) show ?thesis by (simp add: item_step_def)
qed

theorem enclosure_assertion_witness:
  "item_step \<lparr>child_name = Some ''enclosure'', child_text = None, child_attrs =
      [\<lparr>attr_name = ''type'', attr_text = Some ''x''\<rparr>,
       \<lparr>attr_name = ''content'', attr_text = None\<rparr>]\<rparr> (newFeedItem, True, False) = Inl AssertFail"
  by (rule enclosure_assertion [of _ "[]" "\<lparr>attr_name = ''type'', attr_text = Some ''x''\<rparr>" "[]"
        "\<lparr>attr_name = ''content'', attr_text = None\<rparr>" "[]" "''x''"])
    (simp_all add: NUL_def)

end
