(* ===== verification/Am_Json.thy ===== *)
theory Am_Json
  imports Am_Base64 Am_Regex
begin

text \<open>
  \<^verbatim>\<open>src/json.c\<close>: the JSON packets sent to Transmission, and the fields read from its answers.

  A packet is printed with \<open>snprintf\<close> into a buffer sized beforehand; sizes are kept in \<open>int\<close>,
  so a size that does not fit wraps and the allocation of a non-positive size gives NULL.
\<close>

section \<open>Packets that add a torrent\<close>

definition quoted :: "string \<Rightarrow> string" where
  "quoted s = DQ # s @ [DQ]"

text \<open>The length \<open>snprintf\<close> returns, an \<open>int\<close>, negative when it overflows.\<close>

definition printf_len :: "string \<Rightarrow> int" where
  "printf_len s = (if length s < 2 ^ 31 then int (length s) else - 1)"

definition folder_line :: "string \<Rightarrow> string" where
  "folder_line folder = quoted ''download-dir'' @ '': '' @ quoted folder @ '','' @ [NL]"

text \<open>\<open>folder_str\<close> has \<open>strlen(folder) + 20\<close> bytes; the result is the string and that size.\<close>

definition make_folder_str :: "string option \<Rightarrow> (string option \<times> int) res" where
  "make_folder_str folder =
     (case folder of
        None \<Rightarrow> Inr (None, 0)
      | Some f \<Rightarrow>
          (if f = [] then Inr (None, 0)
           else let folderstr_size = wrap_s 32 (int (length f) + 20)
                in if folderstr_size \<le> 0 then Inl AssertFail
                   else Inr (Some (snprintf_buf (nat folderstr_size) (folder_line f)), folderstr_size)))"

definition torrent_add :: "string \<Rightarrow> string \<Rightarrow> string \<Rightarrow> bool \<Rightarrow> string" where
  "torrent_add key val folder_str start =
     ''{'' @ [NL] @ quoted ''method'' @ '': '' @ quoted ''torrent-add'' @ '','' @ [NL] @
     quoted ''arguments'' @ '': {'' @ [NL] @ quoted key @ '': '' @ quoted val @ '','' @ [NL] @
     folder_str @ quoted ''paused'' @ '': '' @ (if start then ''0'' else ''1'') @ [NL] @
     ''}'' @ [NL] @ ''}''"

text \<open>\<open>strlen(JSONstr)\<close>: the fixed text, with three conversions of two characters.\<close>

definition jsonstr_len :: "string \<Rightarrow> nat" where
  "jsonstr_len key = length (torrent_add key [] [] True) - 1 + 6"

definition print_packet :: "int \<Rightarrow> string \<Rightarrow> (string option \<times> nat) res" where
  "print_packet buf_size text =
     (if buf_size \<le> 0 then Inl NullDeref
      else let json_size = printf_len text
           in if json_size < 0 \<or> json_size \<ge> buf_size then Inr (None, 0)
              else Inr (Some (snprintf_buf (nat buf_size) text), nat json_size))"

text \<open>The result is the returned pointer and \<open>*setme_size\<close>.\<close>

definition makeTorrentAddFilenameJSON ::
  "string \<Rightarrow> bool \<Rightarrow> string option \<Rightarrow> (string option \<times> nat) res" where
  "makeTorrentAddFilenameJSON torrent_name start folder =
     bindR (make_folder_str folder) (\<lambda>(folder_str, folderstr_size).
       print_packet
         (wrap_s 32 (int (length torrent_name) + int (jsonstr_len ''filename'') + folderstr_size + 10))
         (torrent_add ''filename'' torrent_name
            (case folder_str of None \<Rightarrow> [] | Some s \<Rightarrow> s) start))"

definition makeTorrentAddMetaInfoJSON ::
  "char list option \<Rightarrow> nat \<Rightarrow> bool \<Rightarrow> string option \<Rightarrow> (string option \<times> nat) res" where
  "makeTorrentAddMetaInfoJSON data tsize start folder =
     bindR (base64_encode data tsize True) (\<lambda>(encoded, enc_size).
       case (encoded, enc_size) of
         (Some enc, Some n) \<Rightarrow>
           (if 0 < n then
              bindR (make_folder_str folder) (\<lambda>(folder_str, folderstr_size).
                print_packet
                  (wrap_s 32 (int n + int (jsonstr_len ''metainfo'') + folderstr_size + 10))
                  (torrent_add ''metainfo'' enc
                     (case folder_str of None \<Rightarrow> [] | Some s \<Rightarrow> s) start))
            else Inr (None, 0))
       | _ \<Rightarrow> Inr (None, 0))"

section \<open>The packet that sets the upload limit\<close>

definition torrent_set :: "int \<Rightarrow> string \<Rightarrow> int \<Rightarrow> string \<Rightarrow> string" where
  "torrent_set tID limit upspeed limited =
     ''{'' @ [NL] @ quoted ''method'' @ '': '' @ quoted ''torrent-set'' @ '','' @ [NL] @
     quoted ''arguments'' @ '': {'' @ [NL] @ quoted ''ids'' @ '': '' @ show_int tID @ '','' @ [NL] @
     quoted limit @ '': '' @ show_int upspeed @ '','' @ [NL] @
     quoted limited @ '': true'' @ [NL] @ ''}'' @ [NL] @ ''}''"

text \<open>\<open>%d\<close> prints \<open>upspeed\<close>, a \<open>uint32_t\<close>, as an \<open>int\<close>.\<close>

definition makeChangeUpSpeedJSON :: "int \<Rightarrow> nat \<Rightarrow> nat \<Rightarrow> string option \<times> nat" where
  "makeChangeUpSpeedJSON tID upspeed rpcVersion =
     (if rpcVersion = 0 \<or> upspeed = 0 \<or> tID \<le> 0 then (None, 0)
      else
        let buf_size = length (torrent_set 0 [] 0 []) - 2 + 8 + 60;
            text = (if rpcVersion \<le> 4
                    then torrent_set tID ''speed-limit-up'' (wrap_s 32 (int upspeed))
                           ''speed-limit-up-enabled''
                    else torrent_set tID ''uploadLimit'' (wrap_s 32 (int upspeed)) ''uploadLimited'')
        in if length text \<ge> buf_size then (None, 0)
           else (Some (snprintf_buf buf_size text), length text))"

section \<open>Answers\<close>

definition result_regex :: string where
  "result_regex = quoted ''result'' @ '':'' @ [BSL] @ ''s*'' @ quoted ''(.+)''"

definition id_regex :: string where
  "id_regex = quoted ''id'' @ '':'' @ [BSL] @ ''s*('' @ [BSL] @ ''d+)''"

definition rpc_regex :: string where
  "rpc_regex = quoted ''rpc-version'' @ '':'' @ [BSL] @ ''s*('' @ [BSL] @ ''d+)''"

definition parseResponse :: "pcre \<Rightarrow> string option \<Rightarrow> string option res" where
  "parseResponse re response = getRegExMatch re (Some result_regex) response 1"

definition parseTorrentID :: "pcre \<Rightarrow> string option \<Rightarrow> int res" where
  "parseTorrentID re response =
     bindR (getRegExMatch re (Some id_regex) response 1) (\<lambda>result_str.
       Inr (case result_str of None \<Rightarrow> - 1 | Some s \<Rightarrow> atoi s))"

text \<open>\<open>int8_t\<close>\<close>

definition parseRPCVersion :: "pcre \<Rightarrow> string option \<Rightarrow> int res" where
  "parseRPCVersion re response =
     bindR (getRegExMatch re (Some rpc_regex) response 1) (\<lambda>result_str.
       Inr (case result_str of None \<Rightarrow> - 1 | Some s \<Rightarrow> wrap_s 8 (atoi s)))"

section \<open>The buffers are large enough\<close>

lemma quoted_length [simp]: "length (quoted s) = length s + 2"
  by (simp add: quoted_def)

lemma folder_line_length: "length (folder_line f) = length f + 20"
  by (simp add: folder_line_def)

text \<open>The buffer is one byte short: the newline at the end is lost.\<close>

definition folder_text :: "string \<Rightarrow> string" where
  "folder_text f = quoted ''download-dir'' @ '': '' @ quoted f @ '',''"

lemma make_folder_str_Some:
  assumes "f \<noteq> []" "length f + 20 < 2 ^ 31"
  shows "make_folder_str (Some f) = Inr (Some (folder_text f), int (length f) + 20)"
proof -
  have w: "wrap_s 32 (int (length f) + 20) = int (length f) + 20"
    using assms(2) by (intro wrap_s_id) simp_all
  have "nat (int (length f) + 20) = length f + 20" by simp
  moreover have "folder_line f = folder_text f @ [NL]" "length (folder_text f) = length f + 20 - 1"
    by (simp_all add: folder_line_def folder_text_def)
  then have "take (length f + 20 - 1) (folder_line f) = folder_text f" by simp
  ultimately show ?thesis
    using assms(1) w by (simp add: make_folder_str_def snprintf_buf_def Let_def)
qed

lemma make_folder_str_none [simp]:
  "make_folder_str None = Inr (None, 0)" "make_folder_str (Some []) = Inr (None, 0)"
  by (simp_all add: make_folder_str_def)

lemma torrent_add_length:
  "length (torrent_add key val fs start) =
   length (torrent_add key [] [] True) + length val + length fs"
  by (simp add: torrent_add_def)

lemma print_packet_ok:
  assumes "int (length text) < n" "n < 2 ^ 31"
  shows "print_packet (wrap_s 32 n) text = Inr (Some text, length text)"
proof -
  have "wrap_s 32 n = n" using assms by (intro wrap_s_id) simp_all
  then show ?thesis
    using assms by (simp add: print_packet_def printf_len_def snprintf_buf_fits Let_def)
qed

definition folder_part :: "string option \<Rightarrow> string" where
  "folder_part folder = (case folder of None \<Rightarrow> [] | Some f \<Rightarrow> if f = [] then [] else folder_text f)"

definition folder_size :: "string option \<Rightarrow> nat" where
  "folder_size folder = (case folder of None \<Rightarrow> 0 | Some f \<Rightarrow> if f = [] then 0 else length f + 20)"

lemma make_folder_str_cases:
  assumes "folder_size folder < 2 ^ 31"
  shows "\<exists>fs. make_folder_str folder = Inr (fs, int (folder_size folder)) \<and>
    (case fs of None \<Rightarrow> [] | Some s \<Rightarrow> s) = folder_part folder"
  using assms make_folder_str_Some
  by (cases folder) (auto simp: folder_part_def folder_size_def split: if_splits)

lemma folder_part_length: "length (folder_part folder) \<le> folder_size folder"
  by (simp add: folder_part_def folder_size_def folder_text_def split: option.splits)

text \<open>Both packets have the same shape and the same size computation.\<close>

lemma packet_ok:
  assumes "length val + folder_size folder + 200 < 2 ^ 31" "length key \<le> 20"
    and "make_folder_str folder = Inr (fs, int (folder_size folder))"
    and "(case fs of None \<Rightarrow> [] | Some s \<Rightarrow> s) = folder_part folder"
  shows "print_packet
      (wrap_s 32 (int (length val) + int (jsonstr_len key) + int (folder_size folder) + 10))
      (torrent_add key val (folder_part folder) start) =
    Inr (Some (torrent_add key val (folder_part folder) start),
         length (torrent_add key val (folder_part folder) start))"
proof (rule print_packet_ok)
  have j: "jsonstr_len key = length (torrent_add key [] [] True) + 5"
    by (simp add: jsonstr_len_def torrent_add_def)
  show "int (length (torrent_add key val (folder_part folder) start))
      < int (length val) + int (jsonstr_len key) + int (folder_size folder) + 10"
    using folder_part_length [of folder]
    by (simp add: torrent_add_length [of key val] j)
  have "jsonstr_len key \<le> 100" using assms(2) by (simp add: jsonstr_len_def torrent_add_def)
  then show "int (length val) + int (jsonstr_len key) + int (folder_size folder) + 10 < 2 ^ 31"
    using assms(1) by simp
qed

lemma makeTorrentAddFilenameJSON_ok:
  assumes "length nm + folder_size folder + 200 < 2 ^ 31"
  shows "makeTorrentAddFilenameJSON nm start folder =
    Inr (Some (torrent_add ''filename'' nm (folder_part folder) start),
         length (torrent_add ''filename'' nm (folder_part folder) start))"
proof -
  have "folder_size folder < 2 ^ 31" using assms by simp
  then obtain fs where fs: "make_folder_str folder = Inr (fs, int (folder_size folder))"
    "(case fs of None \<Rightarrow> [] | Some s \<Rightarrow> s) = folder_part folder"
    using make_folder_str_cases by blast
  have "length ''filename'' \<le> 20" by simp
  from packet_ok [OF assms this fs] show ?thesis
    by (simp add: makeTorrentAddFilenameJSON_def fs)
qed

lemma torrent_add_nonempty: "0 < length (torrent_add key val fs start)"
  by (simp add: torrent_add_def)

lemma makeTorrentAddMetaInfoJSON_none:
  "makeTorrentAddMetaInfoJSON None n start folder = Inr (None, 0)"
  "makeTorrentAddMetaInfoJSON (Some d) 0 start folder = Inr (None, 0)"
  by (simp_all add: makeTorrentAddMetaInfoJSON_def base64_encode_def)

lemma makeTorrentAddMetaInfoJSON_ok:
  fixes s :: string
  assumes "0 < length s" "length s + folder_size folder < 2 ^ 30"
  defines "p \<equiv> \<lambda>start. torrent_add ''metainfo'' (encode_loop [] s) (folder_part folder) start"
  shows "makeTorrentAddMetaInfoJSON (Some s) (length s) start folder =
    Inr (Some (p start), length (p start))"
proof -
  let ?e = "encode_loop [] s"
  have "length s < 2 ^ 31" using assms(2) by simp
  note enc = base64_encode_ok [OF assms(1) this]
  have len: "length ?e = 4 * ((length s + 2) div 3)" by (simp add: encode_loop_length)
  have "length ?e \<le> length s + length s div 3 + 4" unfolding len by presburger
  then have fit: "length ?e + folder_size folder + 200 < 2 ^ 31" using assms(2) by simp
  have "folder_size folder < 2 ^ 31" using fit by simp
  then obtain fs where fs: "make_folder_str folder = Inr (fs, int (folder_size folder))"
    "(case fs of None \<Rightarrow> [] | Some s \<Rightarrow> s) = folder_part folder"
    using make_folder_str_cases by blast
  have "length ''metainfo'' \<le> 20" by simp
  note p = packet_ok [OF fit this fs]
  have "0 < (length s + 2) div 3" using assms(1) by presburger
  then have "0 < length ?e" by (simp add: len)
  then show ?thesis
    using enc [folded len] p by (simp add: makeTorrentAddMetaInfoJSON_def fs p_def)
qed

lemma show_nat_len31: "n < 2 ^ 31 \<Longrightarrow> length (show_nat n) \<le> 10"
  by (rule show_nat_length_mono_aux) simp_all

lemma show_int_len32:
  assumes "- (2 ^ 31) \<le> i" "i < 2 ^ 31"
  shows "length (show_int i) \<le> 11"
proof -
  have "length (show_nat (nat \<bar>i\<bar>)) \<le> 10"
    by (rule show_nat_length_mono_aux) (use assms in auto)
  then show ?thesis by (auto simp: show_int_def)
qed

section \<open>Properties\<close>

text \<open>C30: The packet that adds a torrent carries the whole torrent: for every content and folder the
  computed buffer holds the text, the reported size is its length, and the metainfo field decodes
  to the bytes that were given.\<close>

theorem makeTorrentAddMetaInfoJSON_correct:
  assumes "0 < length s" "length s + folder_size folder < 2 ^ 30"
  shows "\<exists>e. makeTorrentAddMetaInfoJSON (Some s) (length s) start folder =
      Inr (Some (torrent_add ''metainfo'' e (folder_part folder) start),
           length (torrent_add ''metainfo'' e (folder_part folder) start)) \<and>
    base64_decode (Some e) (length e) True = Inr (Some s, Some (length s))"
  using makeTorrentAddMetaInfoJSON_ok [OF assms] base64_decode_encoded [of s] assms by auto

theorem makeTorrentAddMetaInfoJSON_correct_witness:
  "\<exists>e. makeTorrentAddMetaInfoJSON (Some ''d4:infoe'') (length ''d4:infoe'') True (Some ''/tmp'') =
      Inr (Some (torrent_add ''metainfo'' e (folder_part (Some ''/tmp'')) True),
           length (torrent_add ''metainfo'' e (folder_part (Some ''/tmp'')) True)) \<and>
    base64_decode (Some e) (length e) True = Inr (Some ''d4:infoe'', Some (length ''d4:infoe''))"
  by (rule makeTorrentAddMetaInfoJSON_correct) (simp_all add: folder_size_def)

text \<open>The packet that limits the upload speed is produced for every valid torrent, speed and RPC
  version, never truncated, and names the fields that version of Transmission understands.\<close>

theorem makeChangeUpSpeedJSON_correct:
  assumes "0 < tID" "tID < 2 ^ 31" "0 < upspeed" "upspeed < 2 ^ 31" "0 < rpcVersion"
  shows "makeChangeUpSpeedJSON tID upspeed rpcVersion =
    (let text = (if rpcVersion \<le> 4
       then torrent_set tID ''speed-limit-up'' (int upspeed) ''speed-limit-up-enabled''
       else torrent_set tID ''uploadLimit'' (int upspeed) ''uploadLimited'')
     in (Some text, length text))"
proof -
  have w: "wrap_s 32 (int upspeed) = int upspeed" using assms(4) by (intro wrap_s_id) simp_all
  have l: "length (torrent_set tID a (int upspeed) b) \<le>
      length (torrent_set 0 [] 0 []) - 2 + length a + length b + 22" for a b
    using show_int_len32 [of tID] show_int_len32 [of "int upspeed"] assms
    by (simp add: torrent_set_def show_int_def [of 0] show_nat.simps [of 0])
  have "length (torrent_set tID ''speed-limit-up'' (int upspeed) ''speed-limit-up-enabled'')
      < length (torrent_set 0 [] 0 []) - 2 + 8 + 60"
    using l [of "''speed-limit-up''" "''speed-limit-up-enabled''"] by simp
  moreover have "length (torrent_set tID ''uploadLimit'' (int upspeed) ''uploadLimited'')
      < length (torrent_set 0 [] 0 []) - 2 + 8 + 60"
    using l [of "''uploadLimit''" "''uploadLimited''"] by simp
  ultimately show ?thesis
    using assms by (simp add: makeChangeUpSpeedJSON_def w snprintf_buf_fits Let_def)
qed

theorem makeChangeUpSpeedJSON_correct_witness:
  "makeChangeUpSpeedJSON 5 100 4 =
    (let text = (if (4::nat) \<le> 4
       then torrent_set 5 ''speed-limit-up'' (int 100) ''speed-limit-up-enabled''
       else torrent_set 5 ''uploadLimit'' (int 100) ''uploadLimited'')
     in (Some text, length text))"
  by (rule makeChangeUpSpeedJSON_correct) simp_all

end
