(* ===== verification/Am_Web.thy ===== *)
theory Am_Web
  imports Am_Regex Am_Urlcode
begin

text \<open>
  \<^verbatim>\<open>src/web.c\<close>: HTTP requests through libcurl, and the callbacks that collect an answer.

  libcurl is the record \<open>curl_lib\<close>: a handle is the record \<open>curl\<close> of the options set on it, and
  \<open>curl_easy_perform\<close> turns it into a \<open>transfer\<close>, the sequence of header lines and body chunks
  handed to the callbacks, a result code and a status.  The static variables of the file are the
  record \<open>web\<close>.  A buffer is a list of cells, \<open>None\<close> for a byte that was never written.
\<close>

section \<open>Data\<close>

definition DATA_BUFFER_SIZE :: nat where "DATA_BUFFER_SIZE = 1024 * 100"
definition MAX_URL_LEN :: nat where "MAX_URL_LEN = 1024"
definition MAXLEN :: nat where "MAXLEN = 200"

record HTTPData =
  hd_data :: "char option list option"
  hd_size :: nat
  hd_pos :: nat

record WebData =
  w_url :: "string option"
  w_length :: int
  w_filename :: "string option"
  w_resp :: HTTPData

record HTTPResponse =
  hr_data :: "char list option"
  hr_filename :: "string option"
  hr_size :: nat
  hr_code :: int

record web =
  gSessionID :: "string option"
  isMoveHeader :: bool
  gbGlobalInitDone :: bool

section \<open>libcurl\<close>

record curl =
  opt_url :: "string option"
  opt_cookie :: "string option"
  opt_cookiefile :: bool
  opt_userpwd :: "string option"
  opt_post :: bool
  opt_headers :: "string list"
  opt_postfields :: "char list option"
  opt_verifypeer :: bool
  opt_verifyhost :: bool
  opt_follow :: bool
  opt_maxredirs :: nat
  opt_timeout :: nat
  opt_transmission :: bool   \<comment> \<open>the header callback is \<open>parse_Transmission_response\<close>\<close>

datatype event = Header string | Body "char list"

record transfer =
  t_events :: "event list"
  t_result :: int
  t_status :: int

record 'w curl_lib =
  curl_easy_init :: "'w \<Rightarrow> bool"
  curl_easy_perform :: "curl \<Rightarrow> 'w \<Rightarrow> transfer \<times> 'w"

section \<open>Constructors\<close>

definition HTTPData_new :: HTTPData where
  "HTTPData_new = \<lparr>hd_data = None, hd_size = 0, hd_pos = 0\<rparr>"

definition WebData_new :: "string option \<Rightarrow> WebData" where
  "WebData_new url =
     \<lparr>w_url = am_strdup url, w_length = wrap_u 64 (- 1), w_filename = None, w_resp = HTTPData_new\<rparr>"

definition WebData_clear :: "WebData \<Rightarrow> WebData" where
  "WebData_clear mem =
     mem\<lparr>w_filename := None, w_resp := \<lparr>hd_data = None, hd_size = 0, hd_pos = 0\<rparr>\<rparr>"

definition HTTPResponse_new :: HTTPResponse where
  "HTTPResponse_new = \<lparr>hr_data = None, hr_filename = None, hr_size = 0, hr_code = 0\<rparr>"

definition SessionID_free :: "web \<Rightarrow> web" where
  "SessionID_free w = w\<lparr>gSessionID := None\<rparr>"

definition am_curl_init :: "'w curl_lib \<Rightarrow> string option \<Rightarrow> bool \<Rightarrow> 'w \<Rightarrow> curl option" where
  "am_curl_init lib auth isPost wd =
     (if curl_easy_init lib wd then
        Some \<lparr>opt_url = None, opt_cookie = None, opt_cookiefile = False,
              opt_userpwd = (case auth of Some a \<Rightarrow> if a \<noteq> [] then Some a else None | None \<Rightarrow> None),
              opt_post = isPost, opt_headers = [], opt_postfields = None, opt_verifypeer = False,
              opt_verifyhost = False, opt_follow = True, opt_maxredirs = 5, opt_timeout = 60,
              opt_transmission = False\<rparr>
      else None)"

section \<open>Callbacks\<close>

text \<open>\<open>am_realloc\<close>: new cells are unwritten.\<close>

definition resize :: "nat \<Rightarrow> char option list option \<Rightarrow> char option list" where
  "resize n old =
     (case old of
        None \<Rightarrow> replicate n None
      | Some d \<Rightarrow> take n d @ replicate (n - length d) None)"

definition set_content_length :: "int \<Rightarrow> WebData \<Rightarrow> WebData" where
  "set_content_length n mem =
     (let r = w_resp mem; sz = nat n + 1
      in mem\<lparr>w_length := n, w_resp := r\<lparr>hd_size := sz, hd_data := Some (resize sz (hd_data r))\<rparr>\<rparr>)"

text \<open>\<^verbatim>\<open>content_length + 1\<close> is computed in \<open>int\<close>.\<close>

definition announce_length :: "int \<Rightarrow> WebData \<Rightarrow> WebData res" where
  "announce_length n mem =
     (if n + 1 \<ge> 2 ^ 31 then Inl IntOverflow else Inr (set_content_length n mem))"

definition length_regex :: string where
  "length_regex = ''Content-Length:'' @ [BSL] @ ''s('' @ [BSL] @ ''d+)''"

definition filename_regex :: string where
  "filename_regex =
     ''Content-Disposition:'' @ [BSL] @ ''s(inline|attachment);'' @ [BSL] @ ''s+filename='' @ [DQ] @
     ''?(.+?)'' @ [DQ] @ ''?;?'' @ [BSL] @ ''r?'' @ [BSL] @ ''n?$''"

definition write_header_callback ::
  "pcre \<Rightarrow> string \<Rightarrow> WebData \<times> web \<Rightarrow> (WebData \<times> web) res" where
  "write_header_callback re line st =
     (case st of (mem, w) \<Rightarrow>
       (if starts_with ''Location:'' line then
          Inr (if hd_data (w_resp mem) \<noteq> None
               then mem\<lparr>w_length := 0, w_resp := (w_resp mem)\<lparr>hd_data := None, hd_size := 0\<rparr>\<rparr>
               else mem,
               w\<lparr>isMoveHeader := True\<rparr>)
        else if starts_with ''Content-Length:'' line then
          bindR (getRegExMatch re (Some length_regex) (Some line) 1) (\<lambda>tmp.
            case tmp of
              None \<Rightarrow> Inr (mem, w)
            | Some t \<Rightarrow>
                if 0 < atoi t \<and> \<not> isMoveHeader w
                then bindR (announce_length (atoi t) mem) (\<lambda>mem. Inr (mem, w))
                else Inr (mem, w))
        else if 19 \<le> length line \<and>
             map tolower (take 20 line) = map tolower ''Content-Disposition:'' then
          bindR (getRegExMatch re (Some filename_regex) (Some line) 2) (\<lambda>filename.
            Inr (case filename of None \<Rightarrow> mem | Some f \<Rightarrow> mem\<lparr>w_filename := Some f\<rparr>, w))
        else if starts_with [CR, NL] line then Inr (mem, w\<lparr>isMoveHeader := False\<rparr>)
        else Inr (mem, w)))"

definition session_key :: string where "session_key = ''X-Transmission-Session-Id: ''"

text \<open>The identifier ends at the first white space; a line without any is read past its end.\<close>

definition parse_Transmission_response ::
  "pcre \<Rightarrow> string \<Rightarrow> WebData \<times> web \<Rightarrow> (WebData \<times> web) res" where
  "parse_Transmission_response re line st =
     (case st of (mem, w) \<Rightarrow>
       (if starts_with session_key line then
          (let begin = drop (length session_key) line;
               n = length (takeWhile (\<lambda>c. \<not> isspace c) begin)
           in if n = length begin then Inl OutOfBounds
              else Inr (mem, w\<lparr>gSessionID := am_strndup (Some begin) n\<rparr>))
        else if starts_with ''Content-Length:'' line then
          bindR (getRegExMatch re (Some length_regex) (Some line) 1) (\<lambda>tmp.
            case tmp of
              None \<Rightarrow> Inr (mem, w)
            | Some t \<Rightarrow>
                if 0 < atoi t
                then bindR (announce_length (atoi t) mem) (\<lambda>mem. Inr (mem, w))
                else Inr (mem, w))
        else Inr (mem, w)))"

text \<open>\<^verbatim>\<open>do { buffer_size *= 2; } while(buffer_size < need);\<close>\<close>

partial_function (option) double_size :: "nat \<Rightarrow> nat \<Rightarrow> nat option" where
  "double_size sz need = (if 2 * sz < need then double_size (2 * sz) need else Some (2 * sz))"

definition ensure_room :: "nat \<Rightarrow> HTTPData \<Rightarrow> HTTPData res" where
  "ensure_room need r =
     (let r = (if hd_data r = None
               then r\<lparr>hd_size := DATA_BUFFER_SIZE, hd_data := Some (replicate DATA_BUFFER_SIZE None)\<rparr>
               else r)
      in if need > hd_size r then
           (case double_size (hd_size r) need of
              None \<Rightarrow> Inl Hang
            | Some n \<Rightarrow> Inr (r\<lparr>hd_size := n, hd_data := Some (resize n (hd_data r))\<rparr>))
         else Inr r)"

definition write_data_callback :: "char list \<Rightarrow> WebData \<Rightarrow> WebData res" where
  "write_data_callback ptr mem =
     (let line_len = length ptr; pos = hd_pos (w_resp mem); need = pos + line_len + 1
      in bindR (ensure_room need (w_resp mem)) (\<lambda>r.
           case hd_data r of
             None \<Rightarrow> Inr (mem\<lparr>w_resp := r\<rparr>)
           | Some d \<Rightarrow>
               (if need > length d then Inl BufferOverflow
                else Inr (mem\<lparr>w_resp :=
                       r\<lparr>hd_data := Some (take pos d @ map Some ptr @ [Some NUL] @ drop need d),
                         hd_pos := pos + line_len\<rparr>\<rparr>))))"

text \<open>What the callbacks make of the events of one transfer.\<close>

fun deliver ::
  "(string \<Rightarrow> WebData \<times> web \<Rightarrow> (WebData \<times> web) res) \<Rightarrow> event list \<Rightarrow> WebData \<times> web \<Rightarrow>
   (WebData \<times> web) res" where
  "deliver header_cb [] st = Inr st"
| "deliver header_cb (Header l # es) st = bindR (header_cb l st) (deliver header_cb es)"
| "deliver header_cb (Body b # es) st =
     bindR (write_data_callback b (fst st)) (\<lambda>mem. deliver header_cb es (mem, snd st))"

section \<open>Requests\<close>

text \<open>\<open>am_strndup(data, size)\<close> on a buffer: the first byte is inspected, then all are copied.\<close>

definition copy_body :: "char option list \<Rightarrow> nat \<Rightarrow> char list option res" where
  "copy_body d n =
     (case d of
        [] \<Rightarrow> Inl OutOfBounds
      | None # _ \<Rightarrow> Inl Uninitialised
      | Some c # _ \<Rightarrow>
          (if c = NUL then Inr None
           else if length d < n then Inl OutOfBounds
           else if None \<in> set (take n d) then Inl Uninitialised
           else Inr (Some (map the (take n d)))))"

definition make_response :: "WebData \<Rightarrow> int \<Rightarrow> HTTPResponse res" where
  "make_response mem status =
     (let resp = HTTPResponse_new\<lparr>hr_code := status\<rparr>;
          resp = resp\<lparr>hr_filename := am_strdup (w_filename mem)\<rparr>
      in case hd_data (w_resp mem) of
           None \<Rightarrow> Inr resp
         | Some d \<Rightarrow>
             bindR (copy_body d (hd_pos (w_resp mem)))
               (\<lambda>b. Inr (resp\<lparr>hr_size := hd_pos (w_resp mem), hr_data := b\<rparr>)))"

text \<open>The options \<open>getHTTPData\<close> sets on a session; a cookie set earlier stays.\<close>

definition get_request :: "string \<Rightarrow> string option \<Rightarrow> curl \<Rightarrow> curl" where
  "get_request url cookies c =
     (let c = c\<lparr>opt_url := Some (url_encode_whitespace url)\<rparr>
      in case cookies of
           Some k \<Rightarrow> if k \<noteq> [] then c\<lparr>opt_cookie := Some k\<rparr> else c\<lparr>opt_cookiefile := True\<rparr>
         | None \<Rightarrow> c\<lparr>opt_cookiefile := True\<rparr>)"

type_synonym 'w get_result = "HTTPResponse option \<times> curl option \<times> web \<times> 'w"

definition getHTTPData ::
  "pcre \<Rightarrow> 'w curl_lib \<Rightarrow> string option \<Rightarrow> string option \<Rightarrow> curl option \<Rightarrow> web \<Rightarrow> 'w \<Rightarrow>
   'w get_result res" where
  "getHTTPData re lib url cookies curl_session w wd =
     (case url of
        None \<Rightarrow> Inr (None, curl_session, w, wd)
      | Some u \<Rightarrow>
          (let mem = WebData_new (Some u);
               (session, w) =
                 (case curl_session of
                    None \<Rightarrow> (am_curl_init lib None False wd, w\<lparr>gbGlobalInitDone := True\<rparr>)
                  | Some c \<Rightarrow> (Some c, w))
           in case session of
                None \<Rightarrow> Inr (None, None, w, wd)
              | Some c \<Rightarrow>
                  (let c = get_request u cookies c;
                       (t, wd) = curl_easy_perform lib c wd
                   in bindR (deliver (write_header_callback re) (t_events t) (mem, w)) (\<lambda>(mem, w).
                        if t_result t \<noteq> 0 then Inr (None, Some c, w, wd)
                        else bindR (make_response mem (t_status t))
                               (\<lambda>resp. Inr (Some resp, Some c, w, wd))))))"

text \<open>
  The header with the session identifier: \<open>len\<close> is the length of the whole text, and
  \<open>sessionKey[len] = 0\<close> is written even where \<open>snprintf\<close> has truncated.
\<close>

definition session_header :: "string \<Rightarrow> string res" where
  "session_header sid =
     (let text = session_key @ sid; len = length text
      in if len \<ge> MAXLEN then Inl BufferOverflow else Inr (snprintf_buf MAXLEN text))"

text \<open>The handle of one attempt; \<open>url\<close> is \<open>response_data->url\<close>.\<close>

definition post_request ::
  "'w curl_lib \<Rightarrow> string option \<Rightarrow> string option \<Rightarrow> char list \<Rightarrow> web \<Rightarrow> 'w \<Rightarrow> curl option res" where
  "post_request lib url auth data w wd =
     (case am_curl_init lib auth True wd of
        None \<Rightarrow> Inr None
      | Some c \<Rightarrow>
          (case url of
             None \<Rightarrow> Inl NullDeref
           | Some u \<Rightarrow>
               (let c = c\<lparr>opt_url := Some u, opt_postfields := Some data\<rparr>
                in if strstr u ''transmission'' = None then Inr (Some c)
                   else bindR (case gSessionID w of
                                 None \<Rightarrow> Inr []
                               | Some sid \<Rightarrow> bindR (session_header sid) (\<lambda>h. Inr [h]))
                          (\<lambda>hs. Inr (Some (c\<lparr>opt_transmission := True,
                                opt_headers := ''Content-Type: application/json'' # hs\<rparr>))))))"

text \<open>
  The loop with its counter \<open>tries\<close>.  A status of 409 closes the handle, and the next turn
  makes a new one with the session identifier found meanwhile.
\<close>

fun send_loop ::
  "pcre \<Rightarrow> 'w curl_lib \<Rightarrow> string option \<Rightarrow> char list \<Rightarrow> nat \<Rightarrow> WebData \<Rightarrow> web \<Rightarrow> 'w \<Rightarrow>
   (HTTPResponse option \<times> web \<times> 'w) res" where
  "send_loop re lib auth data 0 mem w wd = Inr (None, w, wd)"
| "send_loop re lib auth data (Suc tries) mem w wd =
     (let mem = WebData_clear mem; w = w\<lparr>gbGlobalInitDone := True\<rparr>
      in bindR (post_request lib (w_url mem) auth data w wd) (\<lambda>handle.
           case handle of
             None \<Rightarrow> Inr (None, w, wd)
           | Some c \<Rightarrow>
               (let (t, wd) = curl_easy_perform lib c wd;
                    cb = (if opt_transmission c then parse_Transmission_response re
                          else write_header_callback re)
                in bindR (deliver cb (t_events t) (mem, w)) (\<lambda>(mem, w).
                     if t_result t \<noteq> 0 then Inr (None, w, wd)
                     else if t_status t = 409 then send_loop re lib auth data tries mem w wd
                     else bindR (make_response mem (t_status t))
                            (\<lambda>resp. Inr (Some resp, w, wd))))))"

definition sendHTTPData ::
  "pcre \<Rightarrow> 'w curl_lib \<Rightarrow> string option \<Rightarrow> string option \<Rightarrow> char list option \<Rightarrow> nat \<Rightarrow> web \<Rightarrow> 'w \<Rightarrow>
   (HTTPResponse option \<times> web \<times> 'w) res" where
  "sendHTTPData re lib url auth data data_size w wd =
     (case (url, data) of
        (Some u, Some d) \<Rightarrow>
          send_loop re lib auth (take data_size d) 2 (WebData_new (Some u)) w wd
      | _ \<Rightarrow> Inr (None, w, wd))"

definition rewriteURL ::
  "pcre \<Rightarrow> string option \<Rightarrow> string option \<Rightarrow> string option \<Rightarrow> string option res" where
  "rewriteURL re url pattern substitute = performRegexReplace re url pattern substitute"

section \<open>The buffer\<close>

text \<open>The buffer and its recorded size agree, so no write is out of bounds.\<close>

definition buffer_ok :: "WebData \<Rightarrow> bool" where
  "buffer_ok mem \<longleftrightarrow>
     (case hd_data (w_resp mem) of
        None \<Rightarrow> True
      | Some d \<Rightarrow> length d = hd_size (w_resp mem) \<and> 0 < length d)"

lemma buffer_ok_new [simp]: "buffer_ok (WebData_new url)" "buffer_ok (WebData_clear mem)"
  by (simp_all add: buffer_ok_def WebData_new_def WebData_clear_def HTTPData_new_def)

lemma resize_length [simp]: "length (resize n old) = n"
  by (auto simp: resize_def split: option.splits)

lemma resize_Nil [simp]: "resize n old = [] \<longleftrightarrow> n = 0"
  by (metis length_0_conv resize_length)

lemma buffer_ok_set_content_length: "buffer_ok (set_content_length n mem)"
  by (simp add: buffer_ok_def set_content_length_def Let_def)

lemma double_size_total: "0 < sz \<Longrightarrow> \<exists>n. double_size sz need = Some n \<and> need \<le> n \<and> sz \<le> n"
proof (induction "need - sz" arbitrary: sz rule: less_induct)
  case less
  show ?case
  proof (cases "2 * sz < need")
    case True
    have "need - 2 * sz < need - sz" using True less.prems by simp
    from less.hyps [OF this] less.prems
    obtain n where "double_size (2 * sz) need = Some n" "need \<le> n" "2 * sz \<le> n" by auto
    with True show ?thesis by (subst double_size.simps) auto
  next
    case False
    then show ?thesis by (subst double_size.simps) auto
  qed
qed

lemma take_resize: "k \<le> n \<Longrightarrow> k \<le> length d \<Longrightarrow> take k (resize n (Some d)) = take k d"
  by (simp add: resize_def min_def)

lemma ensure_room_ok:
  assumes "buffer_ok mem"
  shows "\<exists>r d. ensure_room need (w_resp mem) = Inr r \<and> hd_data r = Some d \<and> length d = hd_size r \<and>
    need \<le> length d \<and> d \<noteq> [] \<and>
    (\<forall>e k. hd_data (w_resp mem) = Some e \<longrightarrow> k \<le> length e \<longrightarrow> take k d = take k e)"
proof (cases "hd_data (w_resp mem)")
  case None
  obtain n where n: "double_size DATA_BUFFER_SIZE need = Some n" "need \<le> n" "DATA_BUFFER_SIZE \<le> n"
    using double_size_total [of DATA_BUFFER_SIZE need] by (auto simp: DATA_BUFFER_SIZE_def)
  have "0 < DATA_BUFFER_SIZE" by (simp add: DATA_BUFFER_SIZE_def)
  with None n show ?thesis by (auto simp: ensure_room_def Let_def)
next
  case (Some e)
  with assms have e: "length e = hd_size (w_resp mem)" "e \<noteq> []" by (auto simp: buffer_ok_def)
  obtain n where n: "double_size (length e) need = Some n" "need \<le> n" "length e \<le> n"
    using double_size_total [of "length e" need] e(2) by blast
  have "take k (resize n (Some e)) = take k e" if "k \<le> length e" for k
    using that n(3) by (intro take_resize) simp_all
  with Some n e show ?thesis
    by (cases "length e < need")
      (auto simp: ensure_room_def Let_def)
qed

lemma write_data_callback_ok:
  assumes "buffer_ok mem"
  obtains mem' where "write_data_callback ptr mem = Inr mem'" "buffer_ok mem'"
    "hd_pos (w_resp mem') = hd_pos (w_resp mem) + length ptr"
    "w_url mem' = w_url mem" "w_filename mem' = w_filename mem"
    "\<exists>d rest. hd_data (w_resp mem') = Some (d @ map Some ptr @ Some NUL # rest) \<and>
       length d = hd_pos (w_resp mem) \<and>
       (\<forall>e. hd_data (w_resp mem) = Some e \<longrightarrow> length d \<le> length e \<longrightarrow> d = take (length d) e)"
proof -
  let ?pos = "hd_pos (w_resp mem)"
  let ?need = "?pos + length ptr + 1"
  obtain r d where r: "ensure_room ?need (w_resp mem) = Inr r" "hd_data r = Some d"
    "length d = hd_size r" "?need \<le> length d"
    "\<And>e k. hd_data (w_resp mem) = Some e \<Longrightarrow> k \<le> length e \<Longrightarrow> take k d = take k e"
    using ensure_room_ok [OF assms] by blast
  let ?m = "mem\<lparr>w_resp := r\<lparr>hd_data := Some (take ?pos d @ map Some ptr @ [Some NUL] @ drop ?need d),
      hd_pos := ?pos + length ptr\<rparr>\<rparr>"
  have "write_data_callback ptr mem = Inr ?m"
    using r(1,2,4) by (simp add: write_data_callback_def Let_def)
  moreover have "buffer_ok ?m" using r(3,4) by (simp add: buffer_ok_def)
  ultimately show thesis using r(4,5)
    by (intro that [of ?m] exI [of _ "take ?pos d"] exI [of _ "drop ?need d"]) simp_all
qed

lemma WebData_new_filename [simp]: "w_filename (WebData_new u) = None"
  by (simp add: WebData_new_def)

text \<open>A header line that names no file.\<close>

definition unnamed :: "string \<Rightarrow> bool" where
  "unnamed line \<longleftrightarrow> map tolower (take 20 line) \<noteq> map tolower ''Content-Disposition:''"

text \<open>A header line that announces less than two gigabytes.\<close>

definition modest :: "pcre \<Rightarrow> string \<Rightarrow> bool" where
  "modest re line \<longleftrightarrow> (starts_with ''Content-Length:'' line \<longrightarrow>
     (case getRegExMatch re (Some length_regex) (Some line) 1 of
        Inr (Some t) \<Rightarrow> atoi t + 1 < 2 ^ 31
      | _ \<Rightarrow> True))"

lemma write_header_callback_ok:
  assumes "pcre_lists re" "buffer_ok mem" "modest re line"
  obtains mem' w' where "write_header_callback re line (mem, w) = Inr (mem', w')" "buffer_ok mem'"
    "hd_pos (w_resp mem') = hd_pos (w_resp mem)" "gSessionID w' = gSessionID w"
    "unnamed line \<Longrightarrow> w_filename mem' = w_filename mem"
proof -
  obtain a where a: "getRegExMatch re (Some length_regex) (Some line) 1 = Inr a"
    using getRegExMatch_safe [OF assms(1), of 1] by auto
  obtain b where b: "getRegExMatch re (Some filename_regex) (Some line) 2 = Inr b"
    using getRegExMatch_safe [OF assms(1), of 2] by auto
  have s: "hd_pos (w_resp (set_content_length n mem)) = hd_pos (w_resp mem)"
    "w_filename (set_content_length n mem) = w_filename mem" for n
    by (simp_all add: set_content_length_def Let_def)
  have "\<exists>mem' w'. write_header_callback re line (mem, w) = Inr (mem', w') \<and> buffer_ok mem' \<and>
      hd_pos (w_resp mem') = hd_pos (w_resp mem) \<and> gSessionID w' = gSessionID w \<and>
      (unnamed line \<longrightarrow> w_filename mem' = w_filename mem)"
    using assms(2,3) a b s buffer_ok_set_content_length
    by (auto simp: write_header_callback_def buffer_ok_def unnamed_def modest_def announce_length_def
        split: option.splits)
  then show thesis using that by blast
qed

lemma deliver_append:
  "deliver cb (xs @ ys) st = bindR (deliver cb xs st) (deliver cb ys)"
proof (induction cb xs st rule: deliver.induct)
  case (2 cb l es st)
  then show ?case by (cases "cb l st") simp_all
next
  case (3 cb b es st)
  then show ?case by (cases "write_data_callback b (fst st)") simp_all
qed simp

lemma deliver_headers:
  assumes "pcre_lists re" "buffer_ok mem" "list_all (modest re) hs"
  shows "\<exists>mem' w'. deliver (write_header_callback re) (map Header hs) (mem, w) = Inr (mem', w') \<and>
    buffer_ok mem' \<and> hd_pos (w_resp mem') = hd_pos (w_resp mem) \<and> gSessionID w' = gSessionID w \<and>
    (list_all unnamed hs \<longrightarrow> w_filename mem' = w_filename mem)"
  using assms(2,3)
proof (induction hs arbitrary: mem w)
  case (Cons h hs)
  obtain m1 w1 where 1: "write_header_callback re h (mem, w) = Inr (m1, w1)" "buffer_ok m1"
    "hd_pos (w_resp m1) = hd_pos (w_resp mem)" "gSessionID w1 = gSessionID w"
    "unnamed h \<Longrightarrow> w_filename m1 = w_filename mem"
    using write_header_callback_ok [OF assms(1) Cons.prems(1), of h w] Cons.prems(2) by auto
  from Cons.IH [OF 1(2), of w1] Cons.prems(2) 1 show ?case by auto
qed simp

text \<open>Chunk after chunk the buffer holds what has been received, and a terminator.\<close>

lemma deliver_bodies:
  "buffer_ok mem \<Longrightarrow> hd_pos (w_resp mem) = length got \<Longrightarrow>
   (got \<noteq> [] \<Longrightarrow> \<exists>rest. hd_data (w_resp mem) = Some (map Some got @ rest)) \<Longrightarrow>
   \<exists>mem'. deliver cb (map Body bs) (mem, w) = Inr (mem', w) \<and> buffer_ok mem' \<and>
     w_filename mem' = w_filename mem \<and>
     hd_pos (w_resp mem') = length (got @ concat bs) \<and>
     (if bs = [] then mem' = mem
      else \<exists>rest. hd_data (w_resp mem') = Some (map Some (got @ concat bs) @ Some NUL # rest))"
proof (induction bs arbitrary: mem got)
  case Nil
  then show ?case by simp
next
  case (Cons b bs)
  obtain m1 where m1: "write_data_callback b mem = Inr m1" "buffer_ok m1"
    "hd_pos (w_resp m1) = hd_pos (w_resp mem) + length b" "w_filename m1 = w_filename mem"
    "\<exists>d rest. hd_data (w_resp m1) = Some (d @ map Some b @ Some NUL # rest) \<and>
       length d = hd_pos (w_resp mem) \<and>
       (\<forall>e. hd_data (w_resp mem) = Some e \<longrightarrow> length d \<le> length e \<longrightarrow> d = take (length d) e)"
    by (rule write_data_callback_ok [OF Cons.prems(1)])
  then obtain d rest where d: "hd_data (w_resp m1) = Some (d @ map Some b @ Some NUL # rest)"
    "length d = length got"
    "\<And>e. hd_data (w_resp mem) = Some e \<Longrightarrow> length d \<le> length e \<Longrightarrow> d = take (length d) e"
    using Cons.prems(2) by auto
  have "d = map Some got"
  proof (cases "got = []")
    case True
    with d(2) show ?thesis by simp
  next
    case False
    then obtain r where "hd_data (w_resp mem) = Some (map Some got @ r)" using Cons.prems(3) by blast
    from d(3) [OF this] d(2) show ?thesis by simp
  qed
  with d have data: "hd_data (w_resp m1) = Some (map Some (got @ b) @ Some NUL # rest)" by simp
  have "\<exists>mem'. deliver cb (map Body bs) (m1, w) = Inr (mem', w) \<and> buffer_ok mem' \<and>
     w_filename mem' = w_filename m1 \<and>
     hd_pos (w_resp mem') = length ((got @ b) @ concat bs) \<and>
     (if bs = [] then mem' = m1
      else \<exists>rest. hd_data (w_resp mem') = Some (map Some ((got @ b) @ concat bs) @ Some NUL # rest))"
    by (rule Cons.IH [OF m1(2)]) (use m1(3) Cons.prems(2) data in auto)
  then show ?case using m1(1,4) data by (cases "bs = []") auto
qed

lemma copy_body_whole:
  "body \<noteq> [] \<Longrightarrow> hd body \<noteq> NUL \<Longrightarrow> copy_body (map Some body @ rest) (length body) = Inr (Some body)"
proof -
  assume a: "body \<noteq> []" "hd body \<noteq> NUL"
  then obtain c cs where b: "body = c # cs" by (cases body) auto
  have "take (length body) (map Some body @ rest) = map Some body" by simp
  moreover have "None \<notin> set (map Some body)" by auto
  moreover have "map the (map Some body) = body" by (simp add: o_def)
  ultimately show ?thesis using a b by (simp add: copy_body_def o_def)
qed

section \<open>Requests\<close>

lemma get_events_ok:
  assumes "pcre_lists re" "concat bs \<noteq> []" "hd (concat bs) \<noteq> NUL" "list_all (modest re) hs"
  shows "\<exists>mem' w' resp.
    deliver (write_header_callback re) (map Header hs @ map Body bs) (WebData_new u, w) =
      Inr (mem', w') \<and>
    make_response mem' st = Inr resp \<and> hr_data resp = Some (concat bs) \<and>
    hr_size resp = length (concat bs) \<and> hr_code resp = st \<and> gSessionID w' = gSessionID w \<and>
    (list_all unnamed hs \<longrightarrow> hr_filename resp = None)"
proof -
  obtain m1 w1 where 1: "deliver (write_header_callback re) (map Header hs) (WebData_new u, w) = Inr (m1, w1)"
    "buffer_ok m1" "hd_pos (w_resp m1) = hd_pos (w_resp (WebData_new u))"
    "gSessionID w1 = gSessionID w" "list_all unnamed hs \<longrightarrow> w_filename m1 = None"
    using deliver_headers [OF assms(1) _ assms(4), of "WebData_new u" w] by auto
  from 1(3) have "hd_pos (w_resp m1) = length []" by (simp add: WebData_new_def HTTPData_new_def)
  from deliver_bodies [OF 1(2) this, of "write_header_callback re" bs w1] assms(2)
  obtain m2 rest where 2: "deliver (write_header_callback re) (map Body bs) (m1, w1) = Inr (m2, w1)"
    "hd_pos (w_resp m2) = length (concat bs)" "w_filename m2 = w_filename m1"
    "hd_data (w_resp m2) = Some (map Some (concat bs) @ Some NUL # rest)"
    by (auto split: if_splits)
  have "copy_body (map Some (concat bs) @ Some NUL # rest) (length (concat bs)) = Inr (Some (concat bs))"
    by (rule copy_body_whole [OF assms(2,3)])
  then show ?thesis
    using 1(1,4,5) 2 by (auto simp: deliver_append make_response_def Let_def)
qed

lemma send_loop_count:
  assumes "\<And>c wd. cnt (snd (curl_easy_perform lib c wd)) \<le> Suc (cnt wd)"
  shows "send_loop re lib auth data n mem w wd = Inr (r, w', wd') \<Longrightarrow> cnt wd' \<le> cnt wd + n"
proof (induction n arbitrary: mem w wd)
  case (Suc n)
  let ?w = "w\<lparr>gbGlobalInitDone := True\<rparr>"
  from Suc.prems obtain h where h: "post_request lib (w_url (WebData_clear mem)) auth data ?w wd = Inr h"
    by (auto simp: bindR_Inr_iff Let_def)
  show ?case
  proof (cases h)
    case None
    with Suc.prems h show ?thesis by simp
  next
    case (Some c)
    obtain t wd1 where t: "curl_easy_perform lib c wd = (t, wd1)" by force
    have c1: "cnt wd1 \<le> Suc (cnt wd)" using assms [of c wd] t by simp
    from Suc.prems h Some t obtain m1 w1 where
      "wd' = wd1 \<or> send_loop re lib auth data n m1 w1 wd1 = Inr (r, w', wd')"
      by (auto simp: bindR_Inr_iff Let_def split: if_splits)
    with Suc.IH [of m1 w1 wd1] c1 show ?thesis by auto
  qed
qed simp

text \<open>The handle of an upload to Transmission.\<close>

definition rpc_handle :: "string \<Rightarrow> string option \<Rightarrow> char list \<Rightarrow> string list \<Rightarrow> curl" where
  "rpc_handle u auth data hs =
     \<lparr>opt_url = Some u, opt_cookie = None, opt_cookiefile = False,
      opt_userpwd = (case auth of Some a \<Rightarrow> if a \<noteq> [] then Some a else None | None \<Rightarrow> None),
      opt_post = True, opt_headers = ''Content-Type: application/json'' # hs,
      opt_postfields = Some data, opt_verifypeer = False, opt_verifyhost = False, opt_follow = True,
      opt_maxredirs = 5, opt_timeout = 60, opt_transmission = True\<rparr>"

lemma post_request_rpc:
  assumes "curl_easy_init lib wd" "strstr u ''transmission'' \<noteq> None"
  shows "post_request lib (Some u) auth data w wd =
    (case gSessionID w of
       None \<Rightarrow> Inr (Some (rpc_handle u auth data []))
     | Some sid \<Rightarrow> if length sid < 173 then Inr (Some (rpc_handle u auth data [session_key @ sid]))
                 else Inl BufferOverflow)"
proof -
  have l: "length session_key = 27" by (simp add: session_key_def)
  have "session_header sid = (if length sid < 173 then Inr (session_key @ sid) else Inl BufferOverflow)"
    for sid
    by (simp add: session_header_def Let_def l MAXLEN_def snprintf_buf_def)
  then show ?thesis
    using assms by (auto simp: post_request_def am_curl_init_def rpc_handle_def Let_def split: option.splits)
qed

lemma session_line:
  assumes "\<forall>c \<in> set sid. \<not> isspace c" "sid \<noteq> []" "NUL \<notin> set sid"
  shows "parse_Transmission_response re (session_key @ sid @ [CR, NL]) (mem, w) =
    Inr (mem, w\<lparr>gSessionID := Some sid\<rparr>)"
proof -
  have "isspace CR" by (simp add: isspace_def code_def CR_def)
  then have "takeWhile (\<lambda>c. \<not> isspace c) (sid @ [CR, NL]) = sid"
    using assms(1) by (simp add: takeWhile_eq_all_conv)
  moreover have "am_strndup (Some (sid @ [CR, NL])) (length sid) = Some sid"
    using assms(2,3) by (cases sid) (auto simp: am_strndup_def)
  ultimately show ?thesis
    by (simp add: parse_Transmission_response_def starts_with_def Let_def)
qed

text \<open>A header line of a Transmission answer other than that with the identifier.\<close>

definition plain_line :: "pcre \<Rightarrow> string \<Rightarrow> bool" where
  "plain_line re line \<longleftrightarrow> modest re line \<and> \<not> starts_with session_key line"

lemma parse_response_plain:
  assumes "pcre_lists re" "buffer_ok mem" "plain_line re line"
  obtains mem' where "parse_Transmission_response re line (mem, w) = Inr (mem', w)" "buffer_ok mem'"
    "hd_pos (w_resp mem') = hd_pos (w_resp mem)" "w_url mem' = w_url mem"
proof -
  obtain a where a: "getRegExMatch re (Some length_regex) (Some line) 1 = Inr a"
    using getRegExMatch_safe [OF assms(1), of 1] by auto
  have "hd_pos (w_resp (set_content_length n mem)) = hd_pos (w_resp mem)"
    "w_url (set_content_length n mem) = w_url mem" for n
    by (simp_all add: set_content_length_def Let_def)
  then have "\<exists>mem'. parse_Transmission_response re line (mem, w) = Inr (mem', w) \<and> buffer_ok mem' \<and>
      hd_pos (w_resp mem') = hd_pos (w_resp mem) \<and> w_url mem' = w_url mem"
    using assms(2,3) a buffer_ok_set_content_length
    by (auto simp: parse_Transmission_response_def plain_line_def modest_def announce_length_def
        split: option.splits)
  then show thesis using that by blast
qed

lemma deliver_plain:
  assumes "pcre_lists re" "buffer_ok mem" "list_all (plain_line re) hs"
  shows "\<exists>mem'. deliver (parse_Transmission_response re) (map Header hs) (mem, w) = Inr (mem', w) \<and>
    buffer_ok mem' \<and> hd_pos (w_resp mem') = hd_pos (w_resp mem) \<and> w_url mem' = w_url mem"
  using assms(2,3)
proof (induction hs arbitrary: mem)
  case (Cons h hs)
  obtain m1 where 1: "parse_Transmission_response re h (mem, w) = Inr (m1, w)" "buffer_ok m1"
    "hd_pos (w_resp m1) = hd_pos (w_resp mem)" "w_url m1 = w_url mem"
    using parse_response_plain [OF assms(1) Cons.prems(1), of h w] Cons.prems(2) by auto
  from Cons.IH [OF 1(2)] Cons.prems(2) 1 show ?case by auto
qed simp

lemma deliver_bodies_url:
  "buffer_ok mem \<Longrightarrow> \<exists>mem'. deliver cb (map Body bs) (mem, w) = Inr (mem', w) \<and> w_url mem' = w_url mem"
proof (induction bs arbitrary: mem)
  case (Cons b bs)
  obtain m1 where 1: "write_data_callback b mem = Inr m1" "buffer_ok m1" "w_url m1 = w_url mem"
    by (rule write_data_callback_ok [OF Cons.prems])
  from Cons.IH [OF 1(2)] 1 show ?case by auto
qed simp

text \<open>The answer with the identifier, and an answer with a body.\<close>

lemma deliver_identifier:
  assumes "pcre_lists re" "buffer_ok mem" "list_all (plain_line re) (hs @ hs')"
    and "sid \<noteq> []" "\<forall>c \<in> set sid. \<not> isspace c \<and> c \<noteq> NUL"
  shows "\<exists>mem'. deliver (parse_Transmission_response re)
      (map Header (hs @ (session_key @ sid @ [CR, NL]) # hs') @ map Body bs) (mem, w) =
    Inr (mem', w\<lparr>gSessionID := Some sid\<rparr>) \<and> w_url mem' = w_url mem"
proof -
  let ?cb = "parse_Transmission_response re" and ?w = "w\<lparr>gSessionID := Some sid\<rparr>"
  obtain m1 where 1: "deliver ?cb (map Header hs) (mem, w) = Inr (m1, w)" "buffer_ok m1" "w_url m1 = w_url mem"
    using deliver_plain [OF assms(1,2), of hs w] assms(3) by auto
  obtain m2 where 2: "deliver ?cb (map Header hs') (m1, ?w) = Inr (m2, ?w)" "buffer_ok m2" "w_url m2 = w_url m1"
    using deliver_plain [OF assms(1) 1(2), of hs' ?w] assms(3) by auto
  obtain m3 where 3: "deliver ?cb (map Body bs) (m2, ?w) = Inr (m3, ?w)" "w_url m3 = w_url m2"
    using deliver_bodies_url [OF 2(2)] by blast
  have "?cb (session_key @ sid @ [CR, NL]) (m1, w) = Inr (m1, ?w)"
    using assms(4,5) by (intro session_line) auto
  with 1(1,3) 2(1,3) 3 show ?thesis by (simp add: deliver_append)
qed

lemma deliver_answer:
  assumes "pcre_lists re" "list_all (plain_line re) hs" "concat bs \<noteq> []" "hd (concat bs) \<noteq> NUL"
  shows "\<exists>mem' resp. deliver (parse_Transmission_response re) (map Header hs @ map Body bs)
      (WebData_clear mem, w) = Inr (mem', w) \<and>
    make_response mem' st = Inr resp \<and> hr_data resp = Some (concat bs) \<and>
    hr_size resp = length (concat bs) \<and> hr_code resp = st"
proof -
  let ?cb = "parse_Transmission_response re"
  obtain m1 where 1: "deliver ?cb (map Header hs) (WebData_clear mem, w) = Inr (m1, w)" "buffer_ok m1"
    "hd_pos (w_resp m1) = 0"
    using deliver_plain [OF assms(1) buffer_ok_new(2) assms(2), of mem w] by (auto simp: WebData_clear_def)
  have "hd_pos (w_resp m1) = length []" by (simp add: 1(3))
  from deliver_bodies [OF 1(2) this, of ?cb bs w] assms(3)
  obtain m2 rest where 2: "deliver ?cb (map Body bs) (m1, w) = Inr (m2, w)"
    "hd_pos (w_resp m2) = length (concat bs)"
    "hd_data (w_resp m2) = Some (map Some (concat bs) @ Some NUL # rest)"
    by (auto split: if_splits)
  have "copy_body (map Some (concat bs) @ Some NUL # rest) (length (concat bs)) = Inr (Some (concat bs))"
    by (rule copy_body_whole [OF assms(3,4)])
  with 1(1) 2 show ?thesis by (auto simp: deliver_append make_response_def Let_def)
qed

text \<open>One upload that is answered at once, with or without a session identifier.\<close>

definition session_headers :: "web \<Rightarrow> string list" where
  "session_headers w = (case gSessionID w of None \<Rightarrow> [] | Some sid \<Rightarrow> [session_key @ sid])"

definition session_short :: "web \<Rightarrow> bool" where
  "session_short w \<longleftrightarrow> (case gSessionID w of None \<Rightarrow> True | Some sid \<Rightarrow> length sid < 173)"

lemma sendHTTPData_once:
  assumes "u \<noteq> []" "NUL \<notin> set u" "strstr u ''transmission'' \<noteq> None" "session_short w"
    and "curl_easy_init lib wd"
    and "curl_easy_perform lib (rpc_handle u auth data (session_headers w)) wd =
      (\<lparr>t_events = [Body body], t_result = 0, t_status = 200\<rparr>, wd1)"
    and "body \<noteq> []" "hd body \<noteq> NUL"
  shows "\<exists>resp. sendHTTPData re lib (Some u) auth (Some data) (length data) w wd =
      Inr (Some resp, w\<lparr>gbGlobalInitDone := True\<rparr>, wd1) \<and>
    hr_data resp = Some body \<and> hr_code resp = 200"
proof -
  let ?mem = "WebData_clear (WebData_new (Some u))"
  let ?w = "w\<lparr>gbGlobalInitDone := True\<rparr>"
  have url: "w_url ?mem = Some u"
    using assms(1,2) by (simp add: WebData_new_def WebData_clear_def am_strdup_Some)
  have tr: "opt_transmission (rpc_handle u auth data hs)" for hs by (simp add: rpc_handle_def)
  have "hd_pos (w_resp ?mem) = length []" by (simp add: WebData_clear_def)
  from deliver_bodies [OF buffer_ok_new(2) this, of "parse_Transmission_response re" "[body]" ?w]
  obtain m rest where m: "deliver (parse_Transmission_response re) [Body body] (?mem, ?w) = Inr (m, ?w)"
    "hd_data (w_resp m) = Some (map Some body @ Some NUL # rest)" "hd_pos (w_resp m) = length body"
    by auto
  have "copy_body (map Some body @ Some NUL # rest) (length body) = Inr (Some body)"
    by (rule copy_body_whole [OF assms(7,8)])
  then obtain resp where resp: "make_response m 200 = Inr resp" "hr_data resp = Some body"
    "hr_code resp = 200"
    using m(2,3) by (auto simp: make_response_def Let_def)
  have "post_request lib (Some u) auth data ?w wd =
      Inr (Some (rpc_handle u auth data (session_headers w)))"
    using assms(4) post_request_rpc [OF assms(5,3), of auth data ?w]
    by (auto simp: session_headers_def session_short_def split: option.splits)
  then have "send_loop re lib auth data 2 (WebData_new (Some u)) w wd = Inr (Some resp, ?w, wd1)"
    unfolding numeral_2_eq_2
    using assms(6) m(1) resp(1) by (simp add: Let_def url tr del: deliver.simps(3))
  then show ?thesis using resp(2,3) by (auto simp: sendHTTPData_def)
qed

section \<open>Properties\<close>

text \<open>C20: A successful download returns exactly the bytes received, whatever the headers (redirects,
  missing or false lengths below two gigabytes) and however the body is cut into chunks: no chunk is written outside
  the buffer, none is lost, and the reported size is their total length.\<close>

theorem getHTTPData_body:
  assumes "pcre_lists re" "concat bs \<noteq> []" "hd (concat bs) \<noteq> NUL" "list_all (modest re) hs"
    and "curl_easy_perform lib (get_request u cookies c) wd =
      (\<lparr>t_events = map Header hs @ map Body bs, t_result = 0, t_status = st\<rparr>, wd')"
  shows "\<exists>resp w'. getHTTPData re lib (Some u) cookies (Some c) w wd =
      Inr (Some resp, Some (get_request u cookies c), w', wd') \<and>
    hr_data resp = Some (concat bs) \<and> hr_size resp = length (concat bs) \<and> hr_code resp = st"
proof -
  obtain mem' w' resp where
    "deliver (write_header_callback re) (map Header hs @ map Body bs) (WebData_new (Some u), w) =
      Inr (mem', w')" "make_response mem' st = Inr resp"
    "hr_data resp = Some (concat bs)" "hr_size resp = length (concat bs)" "hr_code resp = st"
    using get_events_ok [OF assms(1-4)] by blast
  then show ?thesis using assms(5) by (auto simp: getHTTPData_def Let_def)
qed

definition web0 :: web where
  "web0 = \<lparr>gSessionID = None, isMoveHeader = False, gbGlobalInitDone = False\<rparr>"

definition handle0 :: curl where
  "handle0 = rpc_handle ''http://x/'' None [] []"

definition echo_lib :: "unit curl_lib" where
  "echo_lib = \<lparr>curl_easy_init = (\<lambda>_. True), curl_easy_perform = (\<lambda>c wd.
     (\<lparr>t_events = map Header [''Content-Length: 3'', [CR, NL]] @ map Body [''ab'', ''cde''],
       t_result = 0, t_status = 200\<rparr>, ()))\<rparr>"

definition echo_pcre :: pcre where
  "echo_pcre = demo_pcre\<lparr>pcre_substrings := \<lambda>p s n. Some (replicate (nat n) ''3'')\<rparr>"

lemma echo_pcre_lists: "pcre_lists echo_pcre"
  by (simp add: pcre_lists_def demo_pcre_def echo_pcre_def)

lemma echo_pcre_match: "getRegExMatch echo_pcre (Some p) (Some s) 1 \<in> {Inr None, Inr (Some ''3'')}"
proof -
  have "am_strstrip (am_strdup (Some ''3'')) = Some ''3''" by code_simp
  moreover have "getRegExCaptureGroups echo_pcre (Some p) (Some s) = (3, Some [''3'', ''3'', ''3''])
      \<or> fst (getRegExCaptureGroups echo_pcre (Some p) (Some s)) \<le> 0"
    by (auto simp: getRegExCaptureGroups_def init_regex_def getPCRECaptureCount_def echo_pcre_def
        demo_pcre_def Let_def eval_nat_numeral)
  ultimately show ?thesis
    by (auto simp: getRegExMatch_def Let_def split: prod.splits)
qed

lemma echo_pcre_modest: "modest echo_pcre line"
proof -
  have "atoi ''3'' + 1 < 2 ^ 31" by code_simp
  then show ?thesis using echo_pcre_match [of length_regex line] by (auto simp: modest_def)
qed

theorem getHTTPData_body_witness:
  "\<exists>resp w'. getHTTPData echo_pcre echo_lib (Some ''http://x/y z'') None (Some handle0) web0 () =
      Inr (Some resp, Some (get_request ''http://x/y z'' None handle0), w', ()) \<and>
    hr_data resp = Some (concat [''ab'', ''cde'']) \<and> hr_size resp = length (concat [''ab'', ''cde'']) \<and>
    hr_code resp = 200"
  by (rule getHTTPData_body [OF echo_pcre_lists, where hs = "[''Content-Length: 3'', [CR, NL]]"])
    (simp_all add: echo_lib_def NUL_def echo_pcre_modest)

text \<open>An upload makes at most two requests: whatever the server answers, the loop over status 409
  ends, and no third request is sent.\<close>

theorem sendHTTPData_two_requests:
  assumes "\<And>c wd. cnt (snd (curl_easy_perform lib c wd)) \<le> Suc (cnt wd)"
  shows "case sendHTTPData re lib url auth data n w wd of
      Inl _ \<Rightarrow> True | Inr (r, w', wd') \<Rightarrow> cnt wd' \<le> cnt wd + 2"
proof -
  have "cnt wd' \<le> cnt wd + 2" if "sendHTTPData re lib url auth data n w wd = Inr (r, w', wd')"
    for r w' wd'
  proof -
    have "wd' = wd \<or> (\<exists>d mem. send_loop re lib auth d 2 mem w wd = Inr (r, w', wd'))"
      using that by (auto simp: sendHTTPData_def split: option.splits)
    then show ?thesis using send_loop_count [OF assms(1), of re auth _ 2 _ w wd r w' wd'] by auto
  qed
  then show ?thesis by (auto split: sum.splits)
qed

definition busy_lib :: "nat curl_lib" where
  "busy_lib = \<lparr>curl_easy_init = (\<lambda>_. True), curl_easy_perform = (\<lambda>c n.
     (\<lparr>t_events = [], t_result = 0, t_status = 409\<rparr>, Suc n))\<rparr>"

theorem sendHTTPData_two_requests_witness:
  "case sendHTTPData demo_pcre busy_lib (Some ''http://h/transmission/rpc'') None (Some ''{}'') 2
      web0 (5::nat) of
    Inl _ \<Rightarrow> True | Inr (r, w', wd') \<Rightarrow> wd' \<le> 5 + 2"
  by (rule sendHTTPData_two_requests [where cnt = "\<lambda>n. n"]) (simp add: busy_lib_def)

text \<open>C27: When Transmission answers 409 with a session identifier, whatever the upload had sent before (no
  identifier or a stale one) and whatever else the answer holds (status line, other headers, the
  end of the headers, an error page), the upload is repeated with exactly the new identifier in its
  headers, the bytes of the second answer alone are returned, and the identifier is kept for the next
  upload.  The identifier needs fewer than 173 characters, and no header announces 2 gigabytes.\<close>

theorem sendHTTPData_session:
  assumes "pcre_lists re" "u \<noteq> []" "NUL \<notin> set u" "strstr u ''transmission'' \<noteq> None" "session_short w"
    and "curl_easy_init lib wd" "curl_easy_init lib wd1"
    and "sid \<noteq> []" "\<forall>c \<in> set sid. \<not> isspace c \<and> c \<noteq> NUL" "length sid < 173"
    and "curl_easy_perform lib (rpc_handle u auth data (session_headers w)) wd =
      (\<lparr>t_events = map Header (hs @ (session_key @ sid @ [CR, NL]) # hs') @ map Body bs,
        t_result = 0, t_status = 409\<rparr>, wd1)"
    and "curl_easy_perform lib (rpc_handle u auth data [session_key @ sid]) wd1 =
      (\<lparr>t_events = map Header hs2 @ map Body bs2, t_result = 0, t_status = st\<rparr>, wd2)"
    and "list_all (plain_line re) (hs @ hs')" "list_all (plain_line re) hs2"
    and "st \<noteq> 409" "concat bs2 \<noteq> []" "hd (concat bs2) \<noteq> NUL"
  shows "\<exists>resp w'. sendHTTPData re lib (Some u) auth (Some data) (length data) w wd =
      Inr (Some resp, w', wd2) \<and>
    hr_data resp = Some (concat bs2) \<and> hr_size resp = length (concat bs2) \<and> hr_code resp = st \<and>
    gSessionID w' = Some sid"
proof -
  let ?mem = "WebData_clear (WebData_new (Some u))" and ?cb = "parse_Transmission_response re"
  let ?w = "w\<lparr>gbGlobalInitDone := True\<rparr>"
  let ?w1 = "?w\<lparr>gSessionID := Some sid\<rparr>"
  have url: "w_url (WebData_clear m) = w_url m" "w_url ?mem = Some u" for m
    using assms(2,3) by (simp_all add: WebData_new_def WebData_clear_def am_strdup_Some)
  have tr: "opt_transmission (rpc_handle u auth data hs)" for hs by (simp add: rpc_handle_def)
  obtain m1 where 1: "deliver ?cb (map Header (hs @ (session_key @ sid @ [CR, NL]) # hs') @ map Body bs)
      (?mem, ?w) = Inr (m1, ?w1)" "w_url m1 = Some u"
    using deliver_identifier [OF assms(1) buffer_ok_new(2) assms(13,8,9)] url(2) by metis
  obtain m2 resp where 2: "deliver ?cb (map Header hs2 @ map Body bs2) (WebData_clear m1, ?w1) = Inr (m2, ?w1)"
    "make_response m2 st = Inr resp" "hr_data resp = Some (concat bs2)"
    "hr_size resp = length (concat bs2)" "hr_code resp = st"
    using deliver_answer [OF assms(1,14,16,17)] by metis
  have first: "post_request lib (Some u) auth data ?w wd =
      Inr (Some (rpc_handle u auth data (session_headers w)))"
    using assms(5) post_request_rpc [OF assms(6,4), of auth data ?w]
    by (auto simp: session_headers_def session_short_def split: option.splits)
  have second: "post_request lib (Some u) auth data ?w1 wd1 =
      Inr (Some (rpc_handle u auth data [session_key @ sid]))"
    using assms(10) post_request_rpc [OF assms(7,4), of auth data ?w1] by simp
  have w1: "?w1\<lparr>gbGlobalInitDone := True\<rparr> = ?w1" by simp
  have again: "send_loop re lib auth data (Suc 0) m1 ?w1 wd1 = Inr (Some resp, ?w1, wd2)"
    unfolding send_loop.simps Let_def w1 url(1) 1(2) second using assms(12,15) 2(1,2) by (simp add: tr)
  have "send_loop re lib auth data 2 (WebData_new (Some u)) w wd = Inr (Some resp, ?w1, wd2)"
    unfolding numeral_2_eq_2 send_loop.simps(2) [of _ _ _ _ "Suc 0"] Let_def url(2) first
    using assms(11) 1(1) again by (simp add: tr del: send_loop.simps)
  then show ?thesis using 2(3-5) by (auto simp: sendHTTPData_def)
qed

text \<open>A server that refuses the identifier \<open>old\<close> with an error page, and answers the next request.\<close>

definition session_lib :: "nat curl_lib" where
  "session_lib = \<lparr>curl_easy_init = (\<lambda>_. True), curl_easy_perform = (\<lambda>c n.
     (if opt_headers c = [''Content-Type: application/json'', session_key @ ''old'']
      then \<lparr>t_events = map Header ([''HTTP/1.1 409 Conflict''] @ (session_key @ ''abc'' @ [CR, NL]) # [[CR, NL]]) @
              map Body [''<h1>409: Conflict</h1>''], t_result = 0, t_status = 409\<rparr>
      else \<lparr>t_events = map Header [''HTTP/1.1 200 OK'', [CR, NL]] @ map Body [''o'', ''k''],
             t_result = 0, t_status = 200\<rparr>, Suc n))\<rparr>"

theorem sendHTTPData_session_witness:
  "\<exists>resp w'. sendHTTPData echo_pcre session_lib (Some ''http://h/transmission/rpc'') None
      (Some ''{}'') (length ''{}'') (web0\<lparr>gSessionID := Some ''old''\<rparr>) 0 = Inr (Some resp, w', 2) \<and>
    hr_data resp = Some (concat [''o'', ''k'']) \<and> hr_size resp = length (concat [''o'', ''k'']) \<and>
    hr_code resp = 200 \<and> gSessionID w' = Some ''abc''"
  by (rule sendHTTPData_session [OF echo_pcre_lists, where ?wd1.0 = 1 and sid = "''abc''" and hs = "[''HTTP/1.1 409 Conflict'']" and
        hs' = "[[CR, NL]]" and bs = "[''<h1>409: Conflict</h1>'']" and ?hs2.0 = "[''HTTP/1.1 200 OK'', [CR, NL]]"])
    (simp_all add: session_lib_def session_headers_def session_short_def rpc_handle_def NUL_def starts_with_def
      isspace_def code_def plain_line_def echo_pcre_modest session_key_def)

text \<open>A session identifier of 173 characters or more makes the next upload write past the end of
  the header buffer: the terminator goes where the untruncated text would have ended.\<close>

theorem session_id_overflow:
  assumes "u \<noteq> []" "NUL \<notin> set u" "strstr u ''transmission'' \<noteq> None" "curl_easy_init lib wd"
    and "gSessionID w = Some sid" "173 \<le> length sid"
  shows "sendHTTPData re lib (Some u) auth (Some data) n w wd = Inl BufferOverflow"
proof -
  have "w_url (WebData_clear (WebData_new (Some u))) = Some u"
    using assms(1,2) by (simp add: WebData_new_def WebData_clear_def am_strdup_Some)
  then show ?thesis
    using post_request_rpc [OF assms(4,3), of auth _ "w\<lparr>gbGlobalInitDone := True\<rparr>"] assms(5,6)
    by (simp add: sendHTTPData_def numeral_2_eq_2 Let_def)
qed

theorem session_id_overflow_witness:
  "sendHTTPData demo_pcre busy_lib (Some ''http://h/transmission/rpc'') None (Some ''{}'') 2
     (web0\<lparr>gSessionID := Some (replicate 173 CHR ''x'')\<rparr>) 0 = Inl BufferOverflow"
  by (rule session_id_overflow [where sid = "replicate 173 CHR ''x''"]) (simp_all add: busy_lib_def NUL_def starts_with_def)

end
