(* ===== verification/Am_Torrent.thy ===== *)
theory Am_Torrent
  imports Am_Json Am_Web Am_File
begin

text \<open>
  \<^verbatim>\<open>src/torrent.c\<close> and \<^verbatim>\<open>src/transmission.c\<close>: handing a torrent over to Transmission by RPC, to
  \<^verbatim>\<open>transmission-remote\<close> or to another program, and the name under which it is stored.

  Programs started by \<open>system\<close> are the parameter \<open>shell\<close>, which yields the wait status of a
  command (\<open>-1\<close> when no process could be made) and the machine afterwards.
\<close>

definition PATH_MAX :: nat where "PATH_MAX = 4096"

text \<open>\<open>%s\<close> of a NULL pointer, as glibc prints it.\<close>

definition printf_s :: "string option \<Rightarrow> string" where
  "printf_s p = (case p of None \<Rightarrow> ''(null)'' | Some s \<Rightarrow> s)"

section \<open>The file name\<close>

text \<open>The tokens of \<open>strtok\<close> for one delimiter: the maximal runs of other characters.\<close>

function strtok_tokens :: "char \<Rightarrow> string \<Rightarrow> string list" where
  "strtok_tokens d s =
     (let s' = dropWhile (\<lambda>c. c = d) s
      in if s' = [] then []
         else takeWhile (\<lambda>c. c \<noteq> d) s' # strtok_tokens d (dropWhile (\<lambda>c. c \<noteq> d) s'))"
  by pat_completeness auto
termination
proof (relation "measure (\<lambda>(d, s). length s)")
  fix d :: char and s x :: string
  assume x: "x = dropWhile (\<lambda>c. c = d) s" "x \<noteq> []"
  then have "hd x \<noteq> d" using hd_dropWhile [of "\<lambda>c. c = d" s] by simp
  then have "length (dropWhile (\<lambda>c. c \<noteq> d) x) < length x"
    using x(2) length_dropWhile_le [of "\<lambda>c. c \<noteq> d" "tl x"] by (cases x) auto
  moreover have "length x \<le> length s" by (simp add: x(1) length_dropWhile_le)
  ultimately show "((d, dropWhile (\<lambda>c. c \<noteq> d) x), d, s) \<in> measure (\<lambda>(d, s). length s)" by simp
qed simp

declare strtok_tokens.simps [simp del]

definition get_filename :: "string option \<Rightarrow> string option \<Rightarrow> string option \<Rightarrow> string res" where
  "get_filename content_filename url t_folder =
     bindR
       (case content_filename of
          Some f \<Rightarrow> if length f + 1 > PATH_MAX then Inl BufferOverflow else Inr f
        | None \<Rightarrow>
            (case url of
               None \<Rightarrow> Inl NullDeref
             | Some u \<Rightarrow>
                 (if length u + 1 > PATH_MAX then Inl BufferOverflow
                  else case strtok_tokens (CHR ''/'') u of
                         [] \<Rightarrow> Inl Uninitialised
                       | t # ts \<Rightarrow> Inr (last (t # ts)))))
       (\<lambda>buf. Inr (snprintf_buf (PATH_MAX - 1) (printf_s t_folder @ ''/'' @ buf)))"

section \<open>RPC\<close>

text \<open>The answer's text, up to its first NUL.\<close>

definition response_text :: "HTTPResponse \<Rightarrow> string option" where
  "response_text res = map_option cstr (hr_data res)"

definition sendTransmissionRPC ::
  "pcre \<Rightarrow> 'w curl_lib \<Rightarrow> string option \<Rightarrow> nat \<Rightarrow> string option \<Rightarrow> string option \<Rightarrow> web \<Rightarrow> 'w \<Rightarrow>
   (int \<times> web \<times> 'w) res" where
  "sendTransmissionRPC re lib rpc_packet packet_size url auth w wd =
     (if rpc_packet = None \<or> packet_size = 0 then Inl AssertFail
      else bindR (sendHTTPData re lib url auth rpc_packet packet_size w wd) (\<lambda>(res, w, wd).
        case res of
          None \<Rightarrow> Inr (- 1, w, wd)
        | Some r \<Rightarrow>
            (if hr_code r = 200 then
               bindR (parseResponse re (response_text r)) (\<lambda>response.
                 case response of
                   None \<Rightarrow> Inr (- 1, w, wd)
                 | Some t \<Rightarrow>
                     (if strncmp_eq 7 t ''success'' then
                        bindR (parseTorrentID re (response_text r)) (\<lambda>i. Inr (i, w, wd))
                      else if strncmp_eq 17 t ''duplicate torrent'' then Inr (0, w, wd)
                      else Inr (- 1, w, wd)))
             else Inr (- 1, w, wd))))"

definition uploadMagnet ::
  "pcre \<Rightarrow> 'w curl_lib \<Rightarrow> string \<Rightarrow> string option \<Rightarrow> string option \<Rightarrow> bool \<Rightarrow> string option \<Rightarrow> web \<Rightarrow>
   'w \<Rightarrow> (int \<times> web \<times> 'w) res" where
  "uploadMagnet re lib magnet_uri url auth start folder w wd =
     bindR (makeTorrentAddFilenameJSON magnet_uri start folder) (\<lambda>(packet, packet_size).
       sendTransmissionRPC re lib packet packet_size url auth w wd)"

definition uploadTorrent ::
  "pcre \<Rightarrow> 'w curl_lib \<Rightarrow> char list option \<Rightarrow> nat \<Rightarrow> string option \<Rightarrow> string option \<Rightarrow> bool \<Rightarrow>
   string option \<Rightarrow> web \<Rightarrow> 'w \<Rightarrow> (int \<times> web \<times> 'w) res" where
  "uploadTorrent re lib t_data t_size url auth start folder w wd =
     bindR (makeTorrentAddMetaInfoJSON t_data t_size start folder) (\<lambda>(packet, packet_size).
       sendTransmissionRPC re lib packet packet_size url auth w wd)"

definition changeUploadSpeed ::
  "pcre \<Rightarrow> 'w curl_lib \<Rightarrow> string option \<Rightarrow> string option \<Rightarrow> int \<Rightarrow> nat \<Rightarrow> nat \<Rightarrow> web \<Rightarrow> 'w \<Rightarrow>
   (nat \<times> web \<times> 'w) res" where
  "changeUploadSpeed re lib url auth i upspeed rpcVersion w wd =
     (if i > 0 then
        (let (packet, packet_size) = makeChangeUpSpeedJSON i upspeed rpcVersion
         in if packet \<noteq> None \<and> packet_size > 0 then
              bindR (sendHTTPData re lib url auth packet packet_size w wd) (\<lambda>(res, w, wd).
                case res of
                  None \<Rightarrow> Inr (0, w, wd)
                | Some r \<Rightarrow>
                    (if hr_code r = 200 then
                       bindR (parseResponse re (response_text r)) (\<lambda>response.
                         case response of
                           None \<Rightarrow> Inr (0, w, wd)
                         | Some t \<Rightarrow>
                             Inr (if strncmp_eq 7 t ''success'' then 1 else 0, w, wd))
                     else Inr (0, w, wd)))
            else Inr (0, w, wd))
      else Inr (0, w, wd))"

definition rpc_url :: "string \<Rightarrow> nat \<Rightarrow> string" where
  "rpc_url host port =
     snprintf_buf MAX_URL_LEN (''http://'' @ host @ '':'' @ show_nat port @ ''/transmission/rpc'')"

definition session_get :: string where
  "session_get =
     ''{'' @ [NL] @ quoted ''method'' @ '': '' @ quoted ''session-get'' @ '','' @ [NL] @
     quoted ''arguments'' @ '': {}'' @ [NL] @ ''}''"

definition getRPCVersion ::
  "pcre \<Rightarrow> 'w curl_lib \<Rightarrow> string option \<Rightarrow> nat \<Rightarrow> string option \<Rightarrow> web \<Rightarrow> 'w \<Rightarrow>
   (int \<times> web \<times> 'w) res" where
  "getRPCVersion re lib host port auth w wd =
     (case host of
        None \<Rightarrow> Inr (0, w, wd)
      | Some h \<Rightarrow>
          bindR (sendHTTPData re lib (Some (rpc_url h port)) auth (Some session_get)
                   (length session_get) w wd) (\<lambda>(res, w, wd).
            case res of
              None \<Rightarrow> Inr (0, w, wd)
            | Some r \<Rightarrow>
                (if hr_code r = 200 then
                   bindR (parseResponse re (response_text r)) (\<lambda>response.
                     case response of
                       None \<Rightarrow> Inr (0, w, wd)
                     | Some t \<Rightarrow>
                         (if strncmp_eq 7 t ''success'' then
                            bindR (parseRPCVersion re (response_text r)) (\<lambda>v. Inr (v, w, wd))
                          else Inr (0, w, wd)))
                 else Inr (0, w, wd))))"

section \<open>External programs\<close>

text \<open>
  \<open>system\<close>: while SIGCHLD is ignored, the child's status is lost and the call fails.
\<close>

definition am_system ::
  "(string \<Rightarrow> 'w world \<Rightarrow> int \<times> 'w world) \<Rightarrow> string \<Rightarrow> 'w world \<Rightarrow> int \<times> 'w world" where
  "am_system shell cmd wd =
     (let (st, wd1) = shell cmd wd in (if sigchld_ignored wd then - 1 else st, wd1))"

definition WEXITSTATUS :: "int \<Rightarrow> int" where
  "WEXITSTATUS st = (st div 256) mod 256"

text \<open>\<open>status\<close> is an \<open>int8_t\<close> in both functions.\<close>

definition call_transmission ::
  "(string \<Rightarrow> 'w world \<Rightarrow> int \<times> 'w world) \<Rightarrow> string option \<Rightarrow> string option \<Rightarrow> 'w world \<Rightarrow>
   int \<times> 'w world" where
  "call_transmission shell tm_path filename wd =
     (case filename of
        Some f \<Rightarrow>
          (if length f > 1 then
             (let buf = snprintf_buf PATH_MAX
                    (''transmission-remote -g '' @ quoted (printf_s tm_path) @ '' -a '' @ quoted f);
                  (st, wd1) = am_system shell buf wd;
                  status = wrap_s 8 st
              in if status = - 1 then (- 1, wd1) else (0, wd1))
           else (- 1, wd))
      | None \<Rightarrow> (- 1, wd))"

definition call_external ::
  "(string \<Rightarrow> 'w world \<Rightarrow> int \<times> 'w world) \<Rightarrow> string option \<Rightarrow> string option \<Rightarrow> 'w world \<Rightarrow>
   int \<times> 'w world" where
  "call_external shell external_name filename wd =
     (case (external_name, filename) of
        (Some e, Some f) \<Rightarrow>
          (if length f < 1 then (- 1, wd)
           else
             (let buf = snprintf_buf PATH_MAX (e @ '' '' @ f);
                  (st, wd1) = am_system shell buf (wd\<lparr>sigchld_ignored := False\<rparr>);
                  status = wrap_s 8 st;
                  wd2 = wd1\<lparr>sigchld_ignored := True\<rparr>
              in if status = - 1 then (- 1, wd2) else (wrap_s 8 (WEXITSTATUS status), wd2)))
      | _ \<Rightarrow> (- 1, wd))"

section \<open>Facts\<close>

lemma strtok_tokens_nil: "strtok_tokens d [] = []"
  by (simp add: strtok_tokens.simps)

lemma dropWhile_append_stop: "\<not> P y \<Longrightarrow> dropWhile P (xs @ y # ys) = dropWhile P xs @ y # ys"
  by (induction xs) simp_all

lemma strtok_tokens_last:
  "d \<notin> set t \<Longrightarrow> t \<noteq> [] \<Longrightarrow> \<exists>ts. strtok_tokens d (s @ d # t) = ts @ [t]"
proof (induction d s arbitrary: t rule: strtok_tokens.induct)
  case (1 d s)
  have tw: "takeWhile (\<lambda>c. c \<noteq> d) t = t" "dropWhile (\<lambda>c. c \<noteq> d) t = []"
    using 1(2) by (auto simp: takeWhile_eq_all_conv dropWhile_eq_Nil_conv)
  let ?s = "dropWhile (\<lambda>c. c = d) s"
  show ?case
  proof (cases "?s = []")
    case True
    then have "\<forall>c \<in> set s. c = d" by (simp add: dropWhile_eq_Nil_conv)
    then have "dropWhile (\<lambda>c. c = d) (s @ d # t) = dropWhile (\<lambda>c. c = d) t"
      by (simp add: dropWhile_append2)
    also have "\<dots> = t" using 1(2,3) by (cases t) auto
    finally have dt: "dropWhile (\<lambda>c. c = d) (s @ d # t) = t" .
    show ?thesis
      unfolding strtok_tokens.simps [of d "s @ d # t"] Let_def dt tw strtok_tokens_nil
      using 1(3) by simp
  next
    case False
    then obtain c r where c: "?s = c # r" by (cases ?s) auto
    then have cd: "c \<noteq> d" using hd_dropWhile [of "\<lambda>c. c = d" s] by simp
    have drop: "dropWhile (\<lambda>c. c = d) (s @ d # t) = ?s @ d # t"
      using False by (metis dropWhile_append dropWhile_eq_Nil_conv)
    let ?r = "dropWhile (\<lambda>c. c \<noteq> d) ?s"
    have dr: "dropWhile (\<lambda>c. c \<noteq> d) (?s @ d # t) = ?r @ d # t"
      by (rule dropWhile_append_stop) simp
    obtain ts where ts: "strtok_tokens d (?r @ d # t) = ts @ [t]"
      using "1.IH" [OF refl False 1(2,3)] by blast
    show ?thesis
      unfolding strtok_tokens.simps [of d "s @ d # t"] Let_def drop dr ts
      by (rule exI [of _ "takeWhile (\<lambda>c. c \<noteq> d) (?s @ d # t) # ts"]) simp
  qed
qed

lemma wrap_s8_low: "wrap_s 8 (256 * k) = 0"
proof -
  have "(256 * k + 128) mod 256 = (128::int)" by (simp only: mod_mult_self4) simp
  then show ?thesis by (simp add: wrap_s_def)
qed

lemma uploadTorrent_empty:
  "uploadTorrent re lib (Some d) 0 url auth start folder w wd = Inl AssertFail"
  "uploadTorrent re lib None n url auth start folder w wd = Inl AssertFail"
  by (simp_all add: uploadTorrent_def makeTorrentAddMetaInfoJSON_none sendTransmissionRPC_def)

text \<open>An upload that Transmission accepts.\<close>

lemma sendTransmissionRPC_ok:
  assumes "u \<noteq> []" "NUL \<notin> set u" "strstr u ''transmission'' \<noteq> None" "session_short w"
    and "curl_easy_init lib wd" "packet \<noteq> []"
    and "curl_easy_perform lib (rpc_handle u auth packet (session_headers w)) wd =
      (\<lparr>t_events = [Body ans], t_result = 0, t_status = 200\<rparr>, wd1)"
    and "ans \<noteq> []" "hd ans \<noteq> NUL"
    and "parseResponse re (Some (cstr ans)) = Inr (Some t)" "strncmp_eq 7 t ''success''"
    and "parseTorrentID re (Some (cstr ans)) = Inr tid"
  shows "sendTransmissionRPC re lib (Some packet) (length packet) (Some u) auth w wd =
    Inr (tid, w\<lparr>gbGlobalInitDone := True\<rparr>, wd1)"
proof -
  obtain resp where "sendHTTPData re lib (Some u) auth (Some packet) (length packet) w wd =
      Inr (Some resp, w\<lparr>gbGlobalInitDone := True\<rparr>, wd1)"
    "hr_data resp = Some ans" "hr_code resp = 200"
    using sendHTTPData_once [OF assms(1-5,7-9)] by blast
  with assms(6,10-12) show ?thesis
    by (simp add: sendTransmissionRPC_def response_text_def)
qed

lemma rpc_url_text:
  assumes "length host < 900" "port < 65536"
  shows "rpc_url host port = ''http://'' @ host @ '':'' @ show_nat port @ ''/transmission/rpc''"
proof -
  have "length (show_nat port) \<le> 5"
    by (rule show_nat_length_mono_aux) (use assms(2) in simp_all)
  with assms(1) show ?thesis
    unfolding rpc_url_def by (intro snprintf_buf_fits) (simp add: MAX_URL_LEN_def)
qed

lemma rpc_url_ok:
  assumes "length host < 900" "port < 65536" "NUL \<notin> set host"
  shows "rpc_url host port \<noteq> []" "NUL \<notin> set (rpc_url host port)"
    "strstr (rpc_url host port) ''transmission'' \<noteq> None"
proof -
  note t = rpc_url_text [OF assms(1,2)]
  show "rpc_url host port \<noteq> []" by (simp add: t)
  have "NUL \<notin> set (show_nat port)"
    using show_nat_digits [of NUL port] by (auto simp: isdigit_def code_def NUL_def)
  with assms(3) show "NUL \<notin> set (rpc_url host port)" by (simp add: t) (simp add: NUL_def)
  let ?n = "length (''http://'' @ host @ '':'' @ show_nat port @ ''/'')"
  have "drop ?n (rpc_url host port) = ''transmission/rpc''" by (simp add: t)
  then have "starts_with ''transmission'' (drop ?n (rpc_url host port))"
    by (simp only: starts_with_def) simp
  then show "strstr (rpc_url host port) ''transmission'' \<noteq> None"
    using strstr_None [of "''transmission''" "rpc_url host port"] by blast
qed

section \<open>Properties\<close>

text \<open>Without a name from the server, the torrent is stored in the torrent folder under the part of
  the URL behind its last slash (no extension is appended); a name from the server is appended
  to the folder as it is, slashes and dots included.\<close>

theorem get_filename_path:
  assumes "CHR ''/'' \<notin> set nm" "nm \<noteq> []" "length (s @ CHR ''/'' # nm) < 4096"
    and "length folder + length nm + 1 \<le> 4094" "length folder + length f + 1 \<le> 4094"
  shows "get_filename None (Some (s @ CHR ''/'' # nm)) (Some folder) = Inr (folder @ ''/'' @ nm) \<and>
    get_filename (Some f) url (Some folder) = Inr (folder @ ''/'' @ f)"
proof -
  obtain ts where ts: "strtok_tokens (CHR ''/'') (s @ CHR ''/'' # nm) = ts @ [nm]"
    using strtok_tokens_last [OF assms(1,2)] by blast
  then have "(case strtok_tokens (CHR ''/'') (s @ CHR ''/'' # nm) of
      [] \<Rightarrow> Inl Uninitialised | t # ts \<Rightarrow> Inr (last (t # ts))) = (Inr nm :: string res)"
    by (cases ts) auto
  then show ?thesis
    using assms(3-5) by (simp add: get_filename_def PATH_MAX_def snprintf_buf_def printf_s_def)
qed

theorem get_filename_path_witness:
  "get_filename None (Some (''http://host/dl'' @ CHR ''/'' # ''42'')) (Some ''/tmp'') =
     Inr (''/tmp'' @ ''/'' @ ''42'') \<and>
   get_filename (Some ''../etc/x'') None (Some ''/tmp'') = Inr (''/tmp'' @ ''/'' @ ''../etc/x'')"
  by (rule get_filename_path) simp_all

text \<open>\<open>call_external\<close> reports success for every exit code of the program: the wait status is cut
  to 8 bits before the exit code is taken from its upper half.\<close>

theorem call_external_any_exit_code:
  assumes "f \<noteq> []" "\<And>cmd w. fst (shell cmd w) = 256 * exit_code"
  shows "fst (call_external shell (Some e) (Some f) wd) = 0 \<and>
    sigchld_ignored (snd (call_external shell (Some e) (Some f) wd))"
proof -
  have "wrap_s 8 (WEXITSTATUS 0) = 0" by (simp add: WEXITSTATUS_def wrap_s_def)
  then show ?thesis
    using assms by (simp add: call_external_def am_system_def case_prod_beta Let_def wrap_s8_low)
qed

theorem call_external_any_exit_code_witness:
  "fst (call_external (\<lambda>cmd w. (256 * 3, w)) (Some ''add'') (Some ''/tmp/t'') disk1) = 0 \<and>
   sigchld_ignored (snd (call_external (\<lambda>cmd w. (256 * 3, w)) (Some ''add'') (Some ''/tmp/t'') disk1))"
  by (rule call_external_any_exit_code) simp_all

text \<open>While SIGCHLD is ignored, as it is in the running daemon, \<open>call_transmission\<close> reports a
  failure whatever \<^verbatim>\<open>transmission-remote\<close> does; unlike \<open>call_external\<close> it does not restore the
  default disposition first.\<close>

theorem call_transmission_sigchld:
  assumes "sigchld_ignored wd" "1 < length f"
  shows "fst (call_transmission shell path (Some f) wd) = - 1"
proof -
  have "wrap_s 8 (- 1) = - 1" by (simp add: wrap_s_def)
  then show ?thesis
    using assms by (simp add: call_transmission_def am_system_def case_prod_beta Let_def)
qed

theorem call_transmission_sigchld_witness:
  "fst (call_transmission (\<lambda>cmd w. (0, w)) (Some ''/tr'') (Some ''/tmp/t'') disk1) = - 1"
  by (rule call_transmission_sigchld) (simp_all add: disk1_def)

end
