(* ===== verification/Am_Notify.thy ===== *)
theory Am_Notify
  imports Am_Torrent
begin

text \<open>
  \<^verbatim>\<open>src/prowl.c\<close> and \<^verbatim>\<open>src/pushover.c\<close>: push notifications about new and failed downloads.

  The texts of the log messages are kept only where a function returns them.
\<close>

section \<open>Prowl\<close>

definition getProwlErrorMessage :: "nat \<Rightarrow> string" where
  "getProwlErrorMessage responseCode =
     (if responseCode = 400 then ''Bad request''
      else if responseCode = 401 then ''Invalid API key''
      else if responseCode = 405 then ''Method not allowed (non-SSL connection)''
      else if responseCode = 406 then ''API limit exceeded''
      else if responseCode = 500 then ''Internal server error''
      else ''Unknown error!'')"

definition prowl_text :: "string \<Rightarrow> string \<Rightarrow> string \<Rightarrow> string" where
  "prowl_text apikey event desc =
     ''apikey='' @ apikey @ ''&priority=0&application=Automatic&event='' @ event @ ''&description='' @ desc"

definition opt_len :: "string option \<Rightarrow> nat" where
  "opt_len p = (case p of None \<Rightarrow> 0 | Some s \<Rightarrow> length s)"

text \<open>The message and \<open>*size\<close>; a NULL text is printed as \<^verbatim>\<open>(null)\<close>.\<close>

definition createProwlMessage ::
  "string option \<Rightarrow> string option \<Rightarrow> string option \<Rightarrow> string option \<times> int" where
  "createProwlMessage apikey event desc =
     (case apikey of
        None \<Rightarrow> (None, 0)
      | Some k \<Rightarrow>
          (if event = None \<and> desc = None then (None, 0)
           else
             let total_size = length k + opt_len event + opt_len desc + 80;
                 text = prowl_text k (printf_s event) (printf_s desc)
             in (Some (snprintf_buf total_size text), int (length text))))"

definition prowl_add_url :: string where
  "prowl_add_url = snprintf_buf 128 (''https://api.prowlapp.com'' @ ''/publicapi/add'')"

text \<open>The return value is an \<open>int16_t\<close>: 1, \<open>-1\<close>, or the negated status.\<close>

definition sendProwlNotification ::
  "pcre \<Rightarrow> 'w curl_lib \<Rightarrow> string option \<Rightarrow> string option \<Rightarrow> string option \<Rightarrow> web \<Rightarrow> 'w \<Rightarrow>
   (int \<times> web \<times> 'w) res" where
  "sendProwlNotification re lib apikey event desc w wd =
     (let (data, data_size) = createProwlMessage apikey event desc
      in if data = None then Inr (- 1, w, wd)
         else bindR (sendHTTPData re lib (Some prowl_add_url) None data (nat data_size) w wd)
                (\<lambda>(response, w, wd).
                  Inr (case response of
                         None \<Rightarrow> - 1
                       | Some r \<Rightarrow> if hr_code r = 200 then 1 else wrap_s 16 (- hr_code r), w, wd)))"

definition prowl_verify_url :: "string \<Rightarrow> string" where
  "prowl_verify_url apikey =
     snprintf_buf 128
       (''https://api.prowlapp.com'' @ ''/publicapi/verify'' @ ''?apikey='' @ apikey)"

definition verifyProwlAPIKey ::
  "pcre \<Rightarrow> 'w curl_lib \<Rightarrow> string option \<Rightarrow> web \<Rightarrow> 'w \<Rightarrow> (int \<times> web \<times> 'w) res" where
  "verifyProwlAPIKey re lib apikey w wd =
     (case apikey of
        None \<Rightarrow> Inr (- 1, w, wd)
      | Some k \<Rightarrow>
          bindR (getHTTPData re lib (Some (prowl_verify_url k)) None None w wd)
            (\<lambda>(response, session, w, wd).
              Inr (case response of
                     None \<Rightarrow> - 1
                   | Some r \<Rightarrow> if hr_code r = 200 then 1 else wrap_s 16 (- hr_code r), w, wd)))"

text \<open>The \<open>enum\<close> values are 1 and 2; every other number takes the default branch.\<close>

definition event_text :: "int \<Rightarrow> string option" where
  "event_text event =
     (if event = 1 then Some ''Torrent File Auto-Added''
      else if event = 2 then Some ''Auto-Add Failed'' else None)"

definition prowl_sendNotification ::
  "pcre \<Rightarrow> 'w curl_lib \<Rightarrow> int \<Rightarrow> string option \<Rightarrow> string option \<Rightarrow> web \<Rightarrow> 'w \<Rightarrow> (nat \<times> web \<times> 'w) res"
where
  "prowl_sendNotification re lib event apikey filename w wd =
     (case event_text event of
        None \<Rightarrow> Inr (0, w, wd)
      | Some e \<Rightarrow>
          bindR (sendProwlNotification re lib apikey (Some e)
                   (Some (snprintf_buf 500 (printf_s filename))) w wd)
            (\<lambda>(r, w, wd). Inr (if r = 1 then 1 else 0, w, wd)))"

section \<open>Pushover\<close>

definition getErrorMessage :: "nat \<Rightarrow> string" where
  "getErrorMessage responseCode =
     (if responseCode = 400 then ''Bad request''
      else if responseCode = 405 then ''Method not allowed (non-SSL connection)''
      else if responseCode = 406 then ''API limit exceeded''
      else if responseCode = 410 then ''AuthorizationToken no longer valid''
      else if responseCode = 500 then ''Internal server error''
      else if responseCode = 503 then ''Service unavailable''
      else ''Unknown error!'')"

definition pushover_text :: "string \<Rightarrow> string \<Rightarrow> string \<Rightarrow> string" where
  "pushover_text apikey event desc =
     ''token='' @ apikey @ ''&title='' @ event @ ''&message='' @ desc"

definition createMessage ::
  "string option \<Rightarrow> string option \<Rightarrow> string option \<Rightarrow> string option \<times> int" where
  "createMessage apikey event desc =
     (case (apikey, desc) of
        (Some k, Some d) \<Rightarrow>
          (let total_size = length k + opt_len event + length d + 80;
               text = pushover_text k (printf_s event) d
           in (Some (snprintf_buf total_size text), int (length text)))
      | _ \<Rightarrow> (None, 0))"

definition pushover_url :: string where
  "pushover_url = snprintf_buf 128 (''https://api.pushover.net'' @ ''/1/messages.json'')"

definition sendPushoverNotification ::
  "pcre \<Rightarrow> 'w curl_lib \<Rightarrow> string option \<Rightarrow> string option \<Rightarrow> string option \<Rightarrow> web \<Rightarrow> 'w \<Rightarrow>
   (int \<times> web \<times> 'w) res" where
  "sendPushoverNotification re lib apikey event desc w wd =
     (let (data, data_size) = createMessage apikey event desc
      in if data = None then Inr (- 1, w, wd)
         else bindR (sendHTTPData re lib (Some pushover_url) None data (nat data_size) w wd)
                (\<lambda>(response, w, wd).
                  Inr (case response of
                         None \<Rightarrow> - 1
                       | Some r \<Rightarrow> if hr_code r = 200 then 1 else wrap_s 16 (- hr_code r), w, wd)))"

definition pushover_sendNotification ::
  "pcre \<Rightarrow> 'w curl_lib \<Rightarrow> int \<Rightarrow> string option \<Rightarrow> string option \<Rightarrow> web \<Rightarrow> 'w \<Rightarrow> (nat \<times> web \<times> 'w) res"
where
  "pushover_sendNotification re lib event apikey filename w wd =
     (case event_text event of
        None \<Rightarrow> Inr (0, w, wd)
      | Some e \<Rightarrow>
          bindR (sendPushoverNotification re lib apikey (Some e)
                   (Some (snprintf_buf 500 (printf_s filename))) w wd)
            (\<lambda>(r, w, wd). Inr (if r = 1 then 1 else 0, w, wd)))"

section \<open>Messages fit\<close>

lemma printf_s_length: "length (printf_s p) \<le> opt_len p + 6"
  by (simp add: printf_s_def opt_len_def split: option.splits)

lemma createProwlMessage_fits:
  "length (prowl_text k (printf_s event) (printf_s desc))
     < length k + opt_len event + opt_len desc + 80 \<or> (event = None \<and> desc = None)"
  using printf_s_length [of event] printf_s_length [of desc]
  by (cases event; cases desc) (simp_all add: prowl_text_def printf_s_def opt_len_def)

section \<open>Properties\<close>

text \<open>The two notification messages are always complete: with a key and something to tell, the
  buffer holds the whole text, the size handed to the upload is its length, and a description
  longer than 499 characters is cut by the caller and not by the message.\<close>

theorem notification_messages:
  "createProwlMessage (Some k) (Some e) desc =
     (let t = prowl_text k e (printf_s desc) in (Some t, int (length t))) \<and>
   createMessage (Some k) event (Some d) =
     (let t = pushover_text k (printf_s event) d in (Some t, int (length t)))"
proof -
  have "length (prowl_text k e (printf_s desc)) < length k + length e + opt_len desc + 80"
    using printf_s_length [of desc] by (simp add: prowl_text_def)
  moreover have "length (pushover_text k (printf_s event) d) < length k + opt_len event + length d + 80"
    using printf_s_length [of event] by (simp add: pushover_text_def)
  ultimately show ?thesis
    by (simp add: createProwlMessage_def createMessage_def opt_len_def [of "Some e"]
        printf_s_def [of "Some e"] snprintf_buf_fits Let_def)
qed

end
