(* ===== verification/Am_Handle.thy ===== *)
theory Am_Handle
  imports Am_Feed Am_Utils
begin

text \<open>
  The session handle of \<^verbatim>\<open>include/automatic.h\<close>, its defaults (\<open>session_init\<close> of
  \<^verbatim>\<open>src/automatic.c\<close>), and the two small functions of that file that need nothing else.

  Integer fields keep their C type: the functions that store into them convert.
\<close>

section \<open>Constants\<close>

definition AM_DEFAULT_RPC_VERSION :: int where "AM_DEFAULT_RPC_VERSION = 4"
definition AM_DEFAULT_INTERVAL :: int where "AM_DEFAULT_INTERVAL = 30"
definition AM_DEFAULT_HOST :: string where "AM_DEFAULT_HOST = ''localhost''"
definition AM_DEFAULT_RPCPORT :: nat where "AM_DEFAULT_RPCPORT = 9091"
definition AM_DEFAULT_MAXBUCKET :: nat where "AM_DEFAULT_MAXBUCKET = 30"
definition AM_DEFAULT_STATEFILE :: string where "AM_DEFAULT_STATEFILE = ''.automatic.state''"
definition AM_TRANSMISSION_EXTERNAL :: nat where "AM_TRANSMISSION_EXTERNAL = 1"
definition AM_TRANSMISSION_1_2 :: nat where "AM_TRANSMISSION_1_2 = 2"
definition AM_TRANSMISSION_1_3 :: nat where "AM_TRANSMISSION_1_3 = 3"

lemmas am_consts =
  AM_DEFAULT_RPC_VERSION_def AM_DEFAULT_INTERVAL_def AM_DEFAULT_HOST_def AM_DEFAULT_RPCPORT_def
  AM_DEFAULT_MAXBUCKET_def AM_DEFAULT_STATEFILE_def AM_TRANSMISSION_EXTERNAL_def
  AM_TRANSMISSION_1_2_def AM_TRANSMISSION_1_3_def

section \<open>The handle\<close>

record auto_handle =
  transmission_path :: "string option"
  statefile :: "string option"
  torrent_folder :: "string option"
  auth :: "string option"
  host :: "string option"
  prowl_key :: "string option"
  pushover_key :: "string option"
  transmission_external :: "string option"
  feeds :: "rss_feed list"
  filters :: "am_filter list"
  downloads :: "string list"
  rpc_version :: int            \<comment> \<open>\<open>int8_t\<close>\<close>
  max_bucket_items :: nat       \<comment> \<open>\<open>uint16_t\<close>\<close>
  bucket_changed :: bool
  check_interval :: int         \<comment> \<open>\<open>uint8_t\<close>\<close>
  use_transmission :: bool
  start_torrent :: bool
  rpc_port :: nat               \<comment> \<open>\<open>uint16_t\<close>\<close>
  transmission_version :: nat
  upspeed :: int                \<comment> \<open>\<open>int16_t\<close>\<close>
  prowl_key_valid :: bool
  match_only :: bool

text \<open>\<open>path\<close> has \<open>MAXPATHLEN\<close> bytes.\<close>

definition state_path :: "env \<Rightarrow> string option res" where
  "state_path e =
     (let home = (case get_home_folder e of None \<Rightarrow> ''(null)'' | Some h \<Rightarrow> h);
          path = home @ ''/'' @ AM_DEFAULT_STATEFILE
      in if length path + 1 > MAXPATHLEN then Inl BufferOverflow else Inr (am_strdup (Some path)))"

definition session_init :: "env \<Rightarrow> auto_handle res" where
  "session_init e =
     bindR (get_tr_folder e) (\<lambda>tr. bindR (state_path e) (\<lambda>st.
       Inr \<lparr>transmission_path = tr, statefile = st, torrent_folder = get_temp_folder e, auth = None,
            host = None, prowl_key = None, pushover_key = None, transmission_external = None,
            feeds = [], filters = [], downloads = [], rpc_version = AM_DEFAULT_RPC_VERSION,
            max_bucket_items = AM_DEFAULT_MAXBUCKET, bucket_changed = False,
            check_interval = AM_DEFAULT_INTERVAL, use_transmission = True, start_torrent = True,
            rpc_port = AM_DEFAULT_RPCPORT, transmission_version = AM_TRANSMISSION_1_3,
            upspeed = -1, prowl_key_valid = False, match_only = False\<rparr>))"

definition isMagnetURI :: "string option \<Rightarrow> bool" where
  "isMagnetURI url =
     (case url of
        None \<Rightarrow> False
      | Some u \<Rightarrow> if u = [] then False
                  else if length u < 7 then False else strncmp_eq 7 u ''magnet:'')"

lemma isMagnetURI_iff: "isMagnetURI url \<longleftrightarrow> (\<exists>r. url = Some (''magnet:'' @ r))"
proof (cases url)
  case (Some u)
  have "strncmp_eq 7 u ''magnet:'' \<longleftrightarrow> starts_with ''magnet:'' u"
    by (simp add: strncmp_eq_def starts_with_def numeral_eq_Suc)
  moreover have "starts_with ''magnet:'' u \<Longrightarrow> 7 \<le> length u"
    using starts_with_length [of "''magnet:''" u] by simp
  ultimately show ?thesis using Some by (auto simp: isMagnetURI_def starts_with_iff)
qed (simp add: isMagnetURI_def)

text \<open>
  The home folder decides whether a session can be made at all: when the first of its two
  users has returned, the second one cannot overrun its buffer.
\<close>

lemma get_tr_folder_home:
  assumes "get_tr_folder e = Inr tr"
  obtains h where "get_home_folder e = Some h" "h \<noteq> []" "length h < 4075"
  using assms that
  by (auto simp: get_tr_folder_def MAXPATHLEN_def Let_def split: option.splits if_splits)

lemma state_path_ok:
  assumes "get_tr_folder e = Inr tr"
  shows "\<exists>p. state_path e = Inr p"
proof -
  obtain h where "get_home_folder e = Some h" "length h < 4075"
    using get_tr_folder_home [OF assms] by blast
  then show ?thesis by (simp add: state_path_def MAXPATHLEN_def AM_DEFAULT_STATEFILE_def)
qed

text \<open>A handle for examples.\<close>

definition lab_session :: auto_handle where
  "lab_session = \<lparr>transmission_path = None, statefile = None, torrent_folder = Some ''/tmp'',
     auth = None, host = None, prowl_key = None, pushover_key = None, transmission_external = None,
     feeds = [feed_new\<lparr>feed_url := Some ''http://x/rss''\<rparr>],
     filters = [\<lparr>f_pattern = Some ''linux'', f_folder = None, f_feedID = None\<rparr>],
     downloads = [], rpc_version = 4, max_bucket_items = 30, bucket_changed = False,
     check_interval = 30, use_transmission = True, start_torrent = True, rpc_port = 9091,
     transmission_version = AM_TRANSMISSION_1_3, upspeed = - 1, prowl_key_valid = False,
     match_only = False\<rparr>"

end
