(* ===== verification/Am_Config.thy ===== *)
theory Am_Config
  imports Am_Handle Am_Xml
begin

text \<open>
  \<^verbatim>\<open>src/config_parser.c\<close>: the configuration file.

  The file is a \<open>string\<close> and a position in it; behind its end the buffer holds one NUL.  The
  character loops are written with \<open>takeWhile\<close> where they only collect a run.  Line numbers
  serve the messages only and are left out.  Options of a \<open>feed\<close> or \<open>filter\<close> arrive in the
  order of the C list: the last one of the text first.
\<close>

definition MAX_OPT_LEN :: nat where "MAX_OPT_LEN = 50"
definition MAX_PARAM_LEN :: nat where "MAX_PARAM_LEN = 20000"
definition SUCCESS :: int where "SUCCESS = 0"
definition FAILURE :: int where "FAILURE = - 1"

section \<open>Helpers\<close>

definition set_path :: "env \<Rightarrow> string option \<Rightarrow> string option \<Rightarrow> string option res" where
  "set_path e src dst =
     (case src of
        None \<Rightarrow> Inr dst
      | Some s \<Rightarrow>
          (if length s < MAXPATHLEN then
             bindR (resolve_path e (Some s)) (\<lambda>tmp.
               case tmp of
                 None \<Rightarrow> Inr dst
               | Some t \<Rightarrow> am_replace_str (Some t) (Some [BSL, CHR '' '']) (Some '' ''))
           else Inr dst))"

text \<open>\<^verbatim>\<open>end = str + strlen(str) - 1; while(end > str && isspace(*end)) end--;\<close>\<close>

fun trim_end :: "string \<Rightarrow> nat \<Rightarrow> nat" where
  "trim_end s 0 = 0"
| "trim_end s (Suc n) = (if isspace (s ! Suc n) then trim_end s n else Suc n)"

definition isquote :: "char \<Rightarrow> bool" where
  "isquote c \<longleftrightarrow> c = DQ \<or> c = SQ"

text \<open>
  When only a quote is left, \<open>end\<close> points before the string, and the copy of the empty string
  is NULL.
\<close>

definition trim :: "string option \<Rightarrow> string option" where
  "trim str =
     (case str of
        None \<Rightarrow> None
      | Some s \<Rightarrow>
          (if s = [] then None
           else let s1 = dropWhile isspace s
                in if s1 = [] then None
                   else let s2 = (if isquote (hd s1) then tl s1 else s1)
                        in if s2 = [] then None
                           else let i = trim_end s2 (length s2 - 1);
                                    n = (if isquote (s2 ! i) then i else i + 1)
                                in am_strndup (Some s2) n))"

text \<open>\<open>strlen\<close> of the trimmed text, which may be NULL; the result is a \<open>uint32_t\<close> read as \<open>int\<close>.\<close>

definition parseUInt :: "string \<Rightarrow> int res" where
  "parseUInt str =
     (case trim (Some str) of
        None \<Rightarrow> Inl NullDeref
      | Some t \<Rightarrow>
          Inr (if list_all isdigit t \<and> 0 < atoi t then atoi t else - 1))"

section \<open>Suboptions\<close>

type_synonym suboption = "string \<times> string"

definition parseSubOption :: "string \<Rightarrow> suboption option res" where
  "parseSubOption line =
     (if line = [] then Inl AssertFail
      else Inr (case strstr line ''=>'' of
                  None \<Rightarrow> None
                | Some i \<Rightarrow>
                    (if 1 < i then
                       (case (am_strndup (Some line) (i - 1), trim (Some (drop (i + 2) line))) of
                          (Some opt, Some param) \<Rightarrow> Some (opt, param)
                        | _ \<Rightarrow> None)
                     else None)))"

text \<open>\<open>tmp[tmp_pos] = c\<close>, where \<open>tmp_pos\<close> is the length of what was collected.\<close>

definition tmp_put :: "char list \<Rightarrow> char \<Rightarrow> char list res" where
  "tmp_put tmp c = (if length tmp < MAX_PARAM_LEN then Inr (tmp @ [c]) else Inl BufferOverflow)"

lemma dropWhile_shorter: "dropWhile P r = q # d # r'' \<Longrightarrow> length r'' < length r"
  using length_dropWhile_le [of P r] by simp

text \<open>
  The inner loop of \<open>parseMultiOption\<close>: \<open>prev\<close> is the character before the position, \<open>lq\<close> the
  index of the last double quote.  After a line ending in a backslash or a plus the text goes on
  behind the next line's opening quote, in place of the last one; the character after that quote
  is taken as it is, the terminator at the end of the text included.  \<open>None\<close> stands for a
  parse error.
\<close>

function collect ::
  "char \<Rightarrow> string \<Rightarrow> char list \<Rightarrow> nat option \<Rightarrow> (char list \<times> string) option res" where
  "collect prev [] tmp lq = bindR (tmp_put tmp NUL) (\<lambda>_. Inr (Some (tmp, [])))"
| "collect prev (c # r) tmp lq =
     (if c = DQ then bindR (tmp_put tmp c) (\<lambda>t. collect c r t (Some (length tmp)))
      else if c = NL then
        (if prev = BSL \<or> prev = CHR ''+'' then
           (case dropWhile isspace r of
              [] \<Rightarrow> bindR (tmp_put tmp NUL) (\<lambda>_. Inr None)
            | q # r' \<Rightarrow>
                (if q = DQ then
                   (case lq of
                      None \<Rightarrow> bindR (tmp_put tmp NUL) (\<lambda>_. Inr None)
                    | Some p \<Rightarrow>
                        (case r' of
                           [] \<Rightarrow> bindR (tmp_put (take p tmp) NUL) (\<lambda>t.
                                   bindR (tmp_put t NUL) (\<lambda>_. Inr (Some (t, []))))
                         | d # r'' \<Rightarrow> bindR (tmp_put (take p tmp) d) (\<lambda>t. collect d r'' t lq)))
                 else bindR (tmp_put tmp NUL) (\<lambda>_. Inr None)))
         else bindR (tmp_put tmp NUL) (\<lambda>_. Inr (Some (tmp, c # r))))
      else bindR (tmp_put tmp c) (\<lambda>t. collect c r t lq))"
  by pat_completeness auto

termination
  by (relation "measure (\<lambda>(p, r, t, l). length r)") (auto dest: dropWhile_shorter)

declare collect.simps [simp del]

lemma DQ_NL [simp]: "DQ \<noteq> NL" "NL \<noteq> DQ" "NL \<noteq> BSL" "DQ \<noteq> BSL" "BSL \<noteq> NL" "BSL \<noteq> DQ"
  by (simp_all add: DQ_def NL_def BSL_def)

text \<open>The loop, case by case.\<close>

lemma collect_plain:
  "c \<noteq> NL \<Longrightarrow> collect prev (c # r) tmp lq =
     bindR (tmp_put tmp c) (\<lambda>t. collect c r t (if c = DQ then Some (length tmp) else lq))"
  unfolding collect.simps(2) by simp

lemma collect_end:
  "prev \<noteq> BSL \<Longrightarrow> prev \<noteq> CHR ''+'' \<Longrightarrow> collect prev (NL # r) tmp lq =
     bindR (tmp_put tmp NUL) (\<lambda>_. Inr (Some (tmp, NL # r)))"
  unfolding collect.simps(2) by simp

lemma collect_joined:
  "prev = BSL \<or> prev = CHR ''+'' \<Longrightarrow> dropWhile isspace r = DQ # d # r' \<Longrightarrow>
   collect prev (NL # r) tmp (Some p) = bindR (tmp_put (take p tmp) d) (\<lambda>t. collect d r' t (Some p))"
  unfolding collect.simps(2) by auto

lemma collect_broken:
  assumes "prev = BSL \<or> prev = CHR ''+''"
    and "\<not> (\<exists>d r' p. dropWhile isspace r = DQ # d # r' \<and> lq = Some p)"
    and "collect prev (NL # r) tmp lq = Inr (Some (t, r'))"
  shows "r' = []"
  using assms unfolding collect.simps(2)
  by (auto simp: bindR_Inr_iff split: list.splits option.splits if_splits)

lemma collect_rest:
  "collect prev r tmp lq = Inr (Some (t, r')) \<Longrightarrow> length r' \<le> length r"
proof (induction "length r" arbitrary: prev r tmp lq rule: less_induct)
  case less
  show ?case
  proof (cases r)
    case Nil
    with less.prems show ?thesis by (simp add: collect.simps(1) bindR_Inr_iff)
  next
    case (Cons c s)
    consider (p) "c \<noteq> NL" | (e) "c = NL" "prev \<noteq> BSL" "prev \<noteq> CHR ''+''"
      | (j) d s' p where "c = NL" "prev = BSL \<or> prev = CHR ''+''"
          "dropWhile isspace s = DQ # d # s'" "lq = Some p"
      | (b) "c = NL" "prev = BSL \<or> prev = CHR ''+''"
          "\<not> (\<exists>d s' p. dropWhile isspace s = DQ # d # s' \<and> lq = Some p)" by blast
    then show ?thesis
    proof cases
      case p
      with less.prems Cons obtain t1 lq1 where "collect c s t1 lq1 = Inr (Some (t, r'))"
        by (auto simp: collect_plain bindR_Inr_iff)
      from less.hyps [OF _ this] Cons show ?thesis by simp
    next
      case e
      with less.prems Cons show ?thesis by (auto simp: collect_end bindR_Inr_iff)
    next
      case j
      with less.prems Cons obtain t1 where "collect d s' t1 lq = Inr (Some (t, r'))"
        by (auto simp: collect_joined bindR_Inr_iff)
      moreover have "length s' < length r" using dropWhile_shorter [OF j(3)] Cons by simp
      ultimately show ?thesis using less.hyps [of s'] by fastforce
    next
      case b
      with less.prems Cons collect_broken [of prev s lq tmp t r'] show ?thesis by simp
    qed
  qed
qed

lemma collect_shorter:
  assumes "collect prev (c # r) tmp lq = Inr (Some (t, r'))" "c \<noteq> NL"
  shows "length r' < length (c # r)"
proof -
  from assms obtain t1 lq1 where "collect c r t1 lq1 = Inr (Some (t, r'))"
    by (auto simp: collect_plain bindR_Inr_iff)
  from collect_rest [OF this] show ?thesis by simp
qed

text \<open>The outer loop; the list of suboptions grows at its head.\<close>

function multi_loop :: "string \<Rightarrow> suboption list \<Rightarrow> suboption list res" where
  "multi_loop rest options =
     (if rest = [] then Inr options
      else bindR (collect NUL (dropWhile isspace rest) [] None) (\<lambda>x.
        case x of
          None \<Rightarrow> Inr options
        | Some (tmp, rest') \<Rightarrow>
            bindR (if tmp \<noteq> [] then parseSubOption (cstr tmp) else Inr None) (\<lambda>i.
              multi_loop rest' (case i of None \<Rightarrow> options | Some i \<Rightarrow> i # options))))"
  by pat_completeness auto
termination
proof (relation "measure (\<lambda>(r, opts). length r)")
  fix rest :: string and options :: "suboption list" and x y tmp rest' i
  assume r: "rest \<noteq> []" and c: "collect NUL (dropWhile isspace rest) [] None = Inr x"
    "x = Some y" "(tmp, rest') = y"
  have "length rest' < length rest"
  proof (cases "dropWhile isspace rest")
    case Nil
    with c have "rest' = []" by (auto simp: collect.simps(1) bindR_Inr_iff)
    with r show ?thesis by simp
  next
    case (Cons d s)
    then have "\<not> isspace d" using hd_dropWhile [of isspace rest] by simp
    then have "d \<noteq> NL" by (auto simp: isspace_def code_def NL_def)
    from c Cons have "collect NUL (d # s) [] None = Inr (Some (tmp, rest'))" by auto
    then have "length rest' < length (d # s)" using \<open>d \<noteq> NL\<close> by (rule collect_shorter)
    then show ?thesis using length_dropWhile_le [of isspace rest] Cons by simp
  qed
  then show "((rest', case i of None \<Rightarrow> options | Some i \<Rightarrow> i # options), rest, options)
      \<in> measure (\<lambda>(r, opts). length r)" by simp
qed simp

declare multi_loop.simps [simp del]

definition parseMultiOption :: "string \<Rightarrow> suboption list res" where
  "parseMultiOption str = multi_loop str []"

section \<open>Filters and feeds\<close>

definition filter_option :: "env \<Rightarrow> suboption \<Rightarrow> am_filter \<Rightarrow> am_filter res" where
  "filter_option e i f =
     (if strncmp_eq 7 (fst i) ''pattern'' then Inr (f\<lparr>f_pattern := trim (Some (snd i))\<rparr>)
      else if strncmp_eq 6 (fst i) ''folder'' then
        bindR (set_path e (trim (Some (snd i))) (f_folder f)) (\<lambda>p. Inr (f\<lparr>f_folder := p\<rparr>))
      else if strncmp_eq 6 (fst i) ''feedid'' then Inr (f\<lparr>f_feedID := trim (Some (snd i))\<rparr>)
      else Inr f)"

fun filter_options :: "env \<Rightarrow> suboption list \<Rightarrow> am_filter \<Rightarrow> am_filter res" where
  "filter_options e [] f = Inr f"
| "filter_options e (i # is) f = bindR (filter_option e i f) (filter_options e is)"

text \<open>No filter object exists without a suboption.\<close>

definition parseFilter :: "env \<Rightarrow> am_filter list \<Rightarrow> string \<Rightarrow> (int \<times> am_filter list) res" where
  "parseFilter e fs filter_str =
     bindR (parseMultiOption filter_str) (\<lambda>opts.
       if opts = [] then Inr (FAILURE, fs)
       else bindR (filter_options e opts filter_new) (\<lambda>f.
              if f_pattern f \<noteq> None
              then bindR (filter_add (Some f) fs) (\<lambda>fs. Inr (SUCCESS, fs))
              else Inr (FAILURE, fs)))"

definition parseCookiesFromURL :: "pcre \<Rightarrow> rss_feed \<Rightarrow> rss_feed res" where
  "parseCookiesFromURL re feed =
     (case feed_url feed of
        None \<Rightarrow> Inl AssertFail
      | Some u \<Rightarrow>
          (if u = [] then Inl AssertFail
           else bindR (getRegExMatch re (Some '':COOKIE:(.+)'') (Some u) 1)
                  (\<lambda>c. Inr (feed\<lparr>feed_cookies := c\<rparr>))))"

definition feed_option :: "suboption \<Rightarrow> rss_feed \<Rightarrow> rss_feed" where
  "feed_option i f =
     (let v = trim (Some (snd i))
      in if strncmp_eq 11 (fst i) ''url_pattern'' then f\<lparr>feed_url_pattern := v\<rparr>
         else if strncmp_eq 11 (fst i) ''url_replace'' then f\<lparr>feed_url_replace := v\<rparr>
         else if strncmp_eq 3 (fst i) ''url'' then f\<lparr>feed_url := v\<rparr>
         else if strncmp_eq 6 (fst i) ''cookies'' then f\<lparr>feed_cookies := v\<rparr>
         else if strncmp_eq 2 (fst i) ''id'' then f\<lparr>feed_id := v\<rparr>
         else f)"

definition parseFeed :: "pcre \<Rightarrow> rss_feed list \<Rightarrow> string \<Rightarrow> (int \<times> rss_feed list) res" where
  "parseFeed re fs feedstr =
     bindR (parseMultiOption feedstr) (\<lambda>opts.
       let f = fold feed_option opts feed_new
       in if opts = [] \<or> feed_url f = None then Inr (FAILURE, fs)
          else bindR (if feed_cookies f = None then parseCookiesFromURL re f else Inr f) (\<lambda>f.
                 bindR (feed_add (Some f) fs) (\<lambda>fs. Inr (SUCCESS, fs))))"

section \<open>Options\<close>

definition yes_no :: "string \<Rightarrow> bool \<Rightarrow> bool" where
  "yes_no param old =
     (if strncmp_eq 1 param ''0'' \<or> strncmp_eq 2 param ''no'' then False
      else if strncmp_eq 1 param ''1'' \<or> strncmp_eq 3 param ''yes'' then True
      else old)"

text \<open>The options of numbers: the field keeps as many bits as its type has.\<close>

definition set_number :: "string \<Rightarrow> int \<Rightarrow> auto_handle \<Rightarrow> auto_handle" where
  "set_number opt numval as =
     (if opt = ''upload-limit'' then
        (if 0 < numval then as\<lparr>upspeed := wrap_s 16 (wrap_u 16 numval)\<rparr> else as)
      else if opt = ''rpc-port'' then
        (if 1024 < numval \<and> numval < 65535 then as\<lparr>rpc_port := nat numval\<rparr> else as)
      else
        (if 0 < numval then as\<lparr>check_interval := wrap_u 8 numval\<rparr> else as))"

definition set_version :: "string \<Rightarrow> auto_handle \<Rightarrow> auto_handle" where
  "set_version param as =
     (if param = ''external'' then as\<lparr>transmission_version := AM_TRANSMISSION_EXTERNAL\<rparr>
      else if take 3 param = ''1.2'' then as\<lparr>transmission_version := AM_TRANSMISSION_1_2\<rparr>
      else if take 3 param = ''1.3'' then as\<lparr>transmission_version := AM_TRANSMISSION_1_3\<rparr>
      else as)"

definition am_set_option ::
  "pcre \<Rightarrow> env \<Rightarrow> auto_handle \<Rightarrow> string \<Rightarrow> string \<Rightarrow> (int \<times> auto_handle) res" where
  "am_set_option re e as opt param =
     (if opt = ''url'' then Inr (FAILURE, as)
      else if opt = ''feed'' then
        bindR (parseFeed re (feeds as) param) (\<lambda>(r, fs). Inr (r, as\<lparr>feeds := fs\<rparr>))
      else if opt = ''transmission-home'' then
        bindR (set_path e (Some param) (transmission_path as))
          (\<lambda>p. Inr (SUCCESS, as\<lparr>transmission_path := p\<rparr>))
      else if opt = ''prowl-apikey'' then Inr (SUCCESS, as\<lparr>prowl_key := am_strdup (Some param)\<rparr>)
      else if opt = ''pushover-apikey'' then
        Inr (SUCCESS, as\<lparr>pushover_key := am_strdup (Some param)\<rparr>)
      else if opt = ''transmission-version'' then Inr (SUCCESS, set_version param as)
      else if opt = ''transmission-external'' then
        bindR (set_path e (Some param) (transmission_external as))
          (\<lambda>p. Inr (SUCCESS, as\<lparr>transmission_external := p,
                     transmission_version := AM_TRANSMISSION_EXTERNAL\<rparr>))
      else if opt = ''torrent-folder'' then
        bindR (set_path e (Some param) (torrent_folder as))
          (\<lambda>p. Inr (SUCCESS, as\<lparr>torrent_folder := p\<rparr>))
      else if opt = ''statefile'' then
        bindR (set_path e (Some param) (statefile as)) (\<lambda>p. Inr (SUCCESS, as\<lparr>statefile := p\<rparr>))
      else if opt = ''rpc-host'' then Inr (SUCCESS, as\<lparr>host := am_strdup (Some param)\<rparr>)
      else if opt = ''rpc-auth'' then Inr (SUCCESS, as\<lparr>auth := am_strdup (Some param)\<rparr>)
      else if opt = ''upload-limit'' \<or> opt = ''rpc-port'' \<or> opt = ''interval'' then
        bindR (parseUInt param) (\<lambda>numval. Inr (SUCCESS, set_number opt numval as))
      else if opt = ''use-transmission'' then
        Inr (SUCCESS, as\<lparr>use_transmission := yes_no param (use_transmission as)\<rparr>)
      else if opt = ''start-torrents'' then
        Inr (SUCCESS, as\<lparr>start_torrent := yes_no param (start_torrent as)\<rparr>)
      else if opt = ''patterns'' then Inr (FAILURE, as)
      else if opt = ''filter'' then
        bindR (parseFilter e (filters as) param) (\<lambda>(r, fs). Inr (r, as\<lparr>filters := fs\<rparr>))
      else Inr (SUCCESS, as))"

section \<open>The file\<close>

text \<open>\<open>-1\<close> is \<open>None\<close>; \<open>strlen(line)\<close> ends the skipping.\<close>

definition SkipWhitespace :: "string \<Rightarrow> nat \<Rightarrow> nat option" where
  "SkipWhitespace line pos =
     (if cstr line = [] then None
      else Some (pos + length (takeWhile isspace (take (length (cstr line) - pos) (drop pos line)))))"

text \<open>The loop over a comment stops at a newline only.\<close>

definition skip_comment :: "string \<Rightarrow> nat \<Rightarrow> nat res" where
  "skip_comment line pos =
     (let n = length (takeWhile (\<lambda>c. c \<noteq> NL) (drop pos line))
      in if pos + n < length line then Inr (pos + n + 1) else Inl OutOfBounds)"

definition opt_char :: "char \<Rightarrow> bool" where
  "opt_char c \<longleftrightarrow> isprint c \<and> c \<noteq> CHR '' '' \<and> c \<noteq> CHR ''#'' \<and> c \<noteq> CHR ''=''"

text \<open>
  The name of an option and the position behind it; \<open>None\<close> is a parse error.  A name that is too
  long sets \<open>parse_error\<close> but does not end the loop: \<open>opt\<close> has \<open>MAX_OPT_LEN + 1\<close> bytes.
\<close>

definition read_option :: "string \<Rightarrow> nat \<Rightarrow> (string \<times> nat) option res" where
  "read_option line pos =
     (let opt = takeWhile opt_char (drop pos line); opt_pos = length opt
      in if opt_pos > MAX_OPT_LEN + 1 then Inl BufferOverflow
         else if opt_pos = 0 \<or> opt_pos \<ge> MAX_OPT_LEN then Inr None
         else Inr (Some (opt, pos + opt_pos)))"

text \<open>
  The parameter at a position: in quotes on one line, in braces, or a word.  The result is the
  text as a C string and the position behind it.
\<close>

definition read_quoted :: "string \<Rightarrow> char \<Rightarrow> nat \<Rightarrow> (string \<times> nat) option" where
  "read_quoted line c pos =
     (let s = takeWhile (\<lambda>x. x \<noteq> c \<and> x \<noteq> NL) (take MAX_PARAM_LEN (drop pos line)); n = length s
      in if n < MAX_PARAM_LEN \<and> pos + n < length line \<and> line ! (pos + n) = c
         then Some (cstr s, pos + n + 1) else None)"

definition read_braced :: "string \<Rightarrow> nat \<Rightarrow> (string \<times> nat) option" where
  "read_braced line pos =
     (let s = takeWhile (\<lambda>x. x \<noteq> CHR ''}'') (take MAX_PARAM_LEN (drop pos line)); n = length s
      in if n < MAX_PARAM_LEN \<and> pos + n < length line then Some (cstr s, pos + n + 1) else None)"

definition word_char :: "char \<Rightarrow> bool" where
  "word_char c \<longleftrightarrow> isprint c \<and> \<not> isspace c \<and> c \<noteq> CHR ''#''"

definition read_word :: "string \<Rightarrow> nat \<Rightarrow> (string \<times> nat) option" where
  "read_word line pos =
     (let s = takeWhile word_char (drop pos line)
      in if length s \<ge> MAX_PARAM_LEN then None else Some (s, pos + length s))"

definition read_param :: "string \<Rightarrow> nat \<Rightarrow> (string \<times> nat) option" where
  "read_param line pos =
     (let c = line ! pos
      in if isquote c then read_quoted line c (pos + 1)
         else if c = CHR ''{'' then read_braced line (pos + 1)
         else read_word line pos)"

text \<open>
  One turn of the main loop.  \<open>Stop b as\<close> leaves it with \<open>parse_error = b\<close>, \<open>Next pos as\<close> goes on.
\<close>

datatype turn = Stop bool auto_handle | Next nat auto_handle

definition at_skip :: "string \<Rightarrow> nat \<Rightarrow> auto_handle \<Rightarrow> (nat \<Rightarrow> turn res) \<Rightarrow> turn res" where
  "at_skip line pos as k =
     (case SkipWhitespace line pos of
        None \<Rightarrow> Inr (Stop True as)
      | Some p \<Rightarrow> if p \<ge> length line then Inr (Stop False as) else k p)"

definition config_value ::
  "pcre \<Rightarrow> env \<Rightarrow> string \<Rightarrow> string \<Rightarrow> nat \<Rightarrow> auto_handle \<Rightarrow> turn res" where
  "config_value re e line opt pos as =
     (case read_param line pos of
        None \<Rightarrow> Inr (Stop True as)
      | Some (param, p) \<Rightarrow>
          bindR (am_set_option re e as opt param) (\<lambda>(r, as).
            if r = FAILURE then Inr (Stop True as)
            else at_skip line p as (\<lambda>p. Inr (Next p as))))"

definition config_turn :: "pcre \<Rightarrow> env \<Rightarrow> string \<Rightarrow> nat \<Rightarrow> auto_handle \<Rightarrow> turn res" where
  "config_turn re e line pos as =
     at_skip line pos as (\<lambda>p.
       if line ! p = CHR ''#'' then bindR (skip_comment line p) (\<lambda>p. Inr (Next p as))
       else
         bindR (read_option line p) (\<lambda>o'.
           case o' of
             None \<Rightarrow> Inr (Stop True as)
           | Some (opt, p) \<Rightarrow>
               at_skip line p as (\<lambda>p.
                 if line ! p \<noteq> CHR ''='' then Inr (Stop True as)
                 else at_skip line (p + 1) as (\<lambda>p. config_value re e line opt p as))))"

lemma SkipWhitespace_le: "SkipWhitespace line pos = Some p \<Longrightarrow> pos \<le> p"
  by (auto simp: SkipWhitespace_def split: if_splits)

lemma at_skip_Next:
  assumes "at_skip line pos as k = Inr (Next q as')"
  obtains p where "pos \<le> p" "p < length line" "k p = Inr (Next q as')"
proof (cases "SkipWhitespace line pos")
  case None
  with assms show ?thesis by (simp add: at_skip_def)
next
  case (Some p)
  with assms have "p < length line" "k p = Inr (Next q as')"
    by (auto simp: at_skip_def split: if_splits)
  with that [of p] SkipWhitespace_le [OF Some] show ?thesis by simp
qed

lemma read_param_le: "read_param line pos = Some (s, p) \<Longrightarrow> pos \<le> p"
  by (auto simp: read_param_def read_quoted_def read_braced_def read_word_def Let_def split: if_splits)

lemma config_value_Next:
  assumes "config_value re e line opt pos as = Inr (Next q as')"
  shows "pos \<le> q \<and> q < length line"
proof -
  obtain s p where s: "read_param line pos = Some (s, p)"
    using assms by (auto simp: config_value_def split: option.splits)
  with assms obtain a where "at_skip line p a (\<lambda>p. Inr (Next p a)) = Inr (Next q as')"
    by (auto simp: config_value_def bindR_Inr_iff split: if_splits)
  then have "p \<le> q" "q < length line" by (auto elim!: at_skip_Next)
  with read_param_le [OF s] show ?thesis by simp
qed

lemma read_option_le:
  "read_option line pos = Inr (Some (opt, p)) \<Longrightarrow> pos < p"
  by (auto simp: read_option_def Let_def split: if_splits)

lemma config_turn_Next:
  assumes "config_turn re e line pos as = Inr (Next q as')"
  shows "pos < q \<and> q \<le> length line"
proof -
  from assms obtain p where p: "pos \<le> p" "p < length line"
    and k: "(if line ! p = CHR ''#'' then bindR (skip_comment line p) (\<lambda>p. Inr (Next p as))
       else
         bindR (read_option line p) (\<lambda>o'.
           case o' of
             None \<Rightarrow> Inr (Stop True as)
           | Some (opt, p) \<Rightarrow>
               at_skip line p as (\<lambda>p.
                 if line ! p \<noteq> CHR ''='' then Inr (Stop True as)
                 else at_skip line (p + 1) as (\<lambda>p. config_value re e line opt p as))))
       = Inr (Next q as')"
    unfolding config_turn_def by (rule at_skip_Next)
  show ?thesis
  proof (cases "line ! p = CHR ''#''")
    case True
    with k have "skip_comment line p = Inr q" by (auto simp: bindR_Inr_iff)
    with p show ?thesis by (auto simp: skip_comment_def Let_def split: if_splits)
  next
    case False
    with k obtain opt p1 where o: "read_option line p = Inr (Some (opt, p1))"
      and a: "at_skip line p1 as (\<lambda>p.
                 if line ! p \<noteq> CHR ''='' then Inr (Stop True as)
                 else at_skip line (p + 1) as (\<lambda>p. config_value re e line opt p as)) = Inr (Next q as')"
      by (auto simp: bindR_Inr_iff split: option.splits)
    from a obtain p2 where p2: "p1 \<le> p2" "p2 < length line"
      "at_skip line (p2 + 1) as (\<lambda>p. config_value re e line opt p as) = Inr (Next q as')"
      by (rule at_skip_Next) (auto split: if_splits)
    from p2(3) obtain p3 where "p2 + 1 \<le> p3" "config_value re e line opt p3 as = Inr (Next q as')"
      by (rule at_skip_Next)
    with config_value_Next p2(1) p(1) read_option_le [OF o] show ?thesis by fastforce
  qed
qed

function parse_loop :: "pcre \<Rightarrow> env \<Rightarrow> string \<Rightarrow> nat \<Rightarrow> auto_handle \<Rightarrow> (bool \<times> auto_handle) res" where
  "parse_loop re e line pos as =
     (if pos = length line then Inr (False, as)
      else bindR (config_turn re e line pos as) (\<lambda>t.
        case t of
          Stop b as \<Rightarrow> Inr (b, as)
        | Next p as \<Rightarrow> parse_loop re e line p as))"
  by pat_completeness auto
termination
  by (relation "measure (\<lambda>(re, e, line, pos, as). length line - pos)")
    (auto dest!: config_turn_Next)

declare parse_loop.simps [simp del]

text \<open>
  \<open>parse_config_file(as, filename)\<close> on the contents of the file (\<open>None\<close>: it cannot be opened).
  Reading an empty file fails.  The result is the return value and the handle, which keeps the
  options set before an error.
\<close>

definition parse_config_file ::
  "pcre \<Rightarrow> env \<Rightarrow> string option \<Rightarrow> auto_handle \<Rightarrow> (int \<times> auto_handle) res" where
  "parse_config_file re e file as =
     (case file of
        None \<Rightarrow> Inr (- 1, as)
      | Some line \<Rightarrow>
          (if line = [] then Inr (- 1, as)
           else bindR (parse_loop re e line 0 as)
                  (\<lambda>(parse_error, as). Inr (if parse_error then - 1 else 0, as))))"

end
