(* ===== verification/Am_Config_Text.thy ===== *)
theory Am_Config_Text
  imports Am_Config
begin

text \<open>
  What the parser of \<^verbatim>\<open>src/config_parser.c\<close> makes of well-formed text: suboptions written
  \<^verbatim>\<open>name => "value"\<close>, one on a line, and options written \<^verbatim>\<open>name = "value"\<close> or
  \<^verbatim>\<open>name = { ... }\<close>.
\<close>

section \<open>Trimming\<close>

text \<open>A text \<open>trim\<close> leaves as it is: no white space and no quotes at its ends.\<close>

definition clean :: "string \<Rightarrow> bool" where
  "clean v \<longleftrightarrow> v \<noteq> [] \<and> NUL \<notin> set v \<and> \<not> isspace (hd v) \<and> \<not> isquote (hd v)
     \<and> \<not> isspace (v ! (length v - 1)) \<and> \<not> isquote (v ! (length v - 1))"

lemma isspace_DQ [simp]: "\<not> isspace DQ" "isquote DQ"
  by (simp_all add: isspace_def code_def DQ_def isquote_def)

lemma isspace_NL [simp]: "isspace NL"
  by (simp add: isspace_def code_def NL_def)

lemma trim_end_stop: "0 < n \<Longrightarrow> \<not> isspace (s ! n) \<Longrightarrow> trim_end s n = n"
  by (cases n) simp_all

lemma trim_quoted:
  assumes "list_all isspace sp" "v \<noteq> []" "NUL \<notin> set v"
  shows "trim (Some (sp @ DQ # v @ [DQ])) = Some v"
proof -
  have "dropWhile isspace (sp @ DQ # v @ [DQ]) = DQ # v @ [DQ]"
    using assms(1) by (simp add: dropWhile_append2 list_all_iff)
  moreover have "trim_end (v @ [DQ]) (length v) = length v"
    using assms(2) by (intro trim_end_stop) simp_all
  ultimately show ?thesis
    using assms(2,3) by (cases v) (auto simp: trim_def Let_def am_strndup_def)
qed

lemma trim_clean: "clean v \<Longrightarrow> trim (Some v) = Some v"
proof -
  assume c: "clean v"
  then obtain a r where v: "v = a # r" by (cases v) (simp_all add: clean_def)
  have "trim_end v (length v - 1) = length v - 1"
  proof (cases "length v - 1")
    case (Suc n)
    with c show ?thesis by (intro trim_end_stop) (simp_all add: clean_def)
  qed simp
  moreover have "a \<noteq> NUL" using c v by (auto simp: clean_def)
  ultimately show ?thesis
    using c v by (simp add: trim_def Let_def clean_def am_strndup_def)
qed

section \<open>Suboptions\<close>

definition subopt_text :: "suboption \<Rightarrow> string" where
  "subopt_text s = fst s @ '' => '' @ [DQ] @ snd s @ [DQ, NL]"

definition subopt_ok :: "suboption \<Rightarrow> bool" where
  "subopt_ok s \<longleftrightarrow> fst s \<noteq> [] \<and> NUL \<notin> set (fst s) \<and> NL \<notin> set (fst s) \<and> CHR ''='' \<notin> set (fst s)
     \<and> \<not> isspace (hd (fst s)) \<and> snd s \<noteq> [] \<and> NUL \<notin> set (snd s) \<and> NL \<notin> set (snd s)
     \<and> length (fst s) + length (snd s) + 6 < MAX_PARAM_LEN"

lemma strstr_arrow:
  "CHR ''='' \<notin> set n \<Longrightarrow> strstr (n @ '' =>'' @ r) ''=>'' = Some (length n + 1)"
  by (induction n) (auto simp: starts_with_def)

lemma parseSubOption_text:
  assumes "n \<noteq> []" "NUL \<notin> set n" "CHR ''='' \<notin> set n" "v \<noteq> []" "NUL \<notin> set v"
  shows "parseSubOption (n @ '' => '' @ [DQ] @ v @ [DQ]) = Inr (Some (n, v))"
proof -
  let ?l = "n @ '' => '' @ [DQ] @ v @ [DQ]"
  have "strstr ?l ''=>'' = Some (length n + 1)"
    using strstr_arrow [OF assms(3), of "'' '' @ [DQ] @ v @ [DQ]"] by simp
  moreover have "am_strndup (Some ?l) (length n) = Some n"
    using assms(1,2) by (cases n) (auto simp: am_strndup_def)
  moreover have "trim (Some (drop (length n + 1 + 2) ?l)) = Some v"
    using trim_quoted [of "'' ''" v] assms(4,5)
    by (simp add: isspace_def code_def numeral_eq_Suc)
  ultimately show ?thesis
    using assms(1) by (cases n) (simp_all add: parseSubOption_def)
qed

lemma collect_line:
  "L \<noteq> [] \<Longrightarrow> NL \<notin> set L \<Longrightarrow> length tmp + length L < MAX_PARAM_LEN \<Longrightarrow>
   L ! (length L - 1) = DQ \<Longrightarrow>
   collect prev (L @ NL # r) tmp lq = Inr (Some (tmp @ L, NL # r))"
proof (induction L arbitrary: prev tmp lq)
  case (Cons c L)
  have "collect prev ((c # L) @ NL # r) tmp lq =
      collect c (L @ NL # r) (tmp @ [c]) (if c = DQ then Some (length tmp) else lq)"
    using Cons.prems by (auto simp: collect_plain tmp_put_def)
  moreover have "collect c (L @ NL # r) (tmp @ [c]) q = Inr (Some (tmp @ c # L, NL # r))" for q
  proof (cases "L = []")
    case True
    with Cons.prems have "c = DQ" by simp
    with True Cons.prems show ?thesis
      by (simp add: collect_end tmp_put_def DQ_def BSL_def)
  next
    case False
    with Cons.prems Cons.IH [of "tmp @ [c]" c q] show ?thesis
      by (cases L) (auto simp: nth_Cons')
  qed
  ultimately show ?case by simp
qed simp

lemma multi_loop_space: "isspace c \<Longrightarrow> multi_loop (c # r) opts = multi_loop r opts"
proof (cases "r = []")
  case True
  assume "isspace c"
  with True show ?thesis
    by (simp add: multi_loop.simps [of "[c]"] multi_loop.simps [of "[]"] collect.simps(1)
        tmp_put_def MAX_PARAM_LEN_def)
next
  case False
  assume "isspace c"
  with False show ?thesis
    by (simp add: multi_loop.simps [of "c # r"] multi_loop.simps [of r])
qed

lemma multi_loop_text:
  assumes "subopt_ok s"
  shows "multi_loop (subopt_text s @ rest) opts = multi_loop rest (s # opts)"
proof -
  obtain n v where s: "s = (n, v)" by (cases s)
  let ?L = "n @ '' => '' @ [DQ] @ v @ [DQ]"
  have t: "subopt_text s @ rest = ?L @ NL # rest" by (simp add: s subopt_text_def)
  have dw: "dropWhile isspace (?L @ NL # rest) = ?L @ NL # rest"
    using assms by (cases n) (simp_all add: s subopt_ok_def)
  have "NL \<noteq> CHR '' ''" "NL \<noteq> CHR ''=''" "NL \<noteq> CHR ''>''" by (simp_all add: NL_def)
  then have "collect NUL (?L @ NL # rest) [] None = Inr (Some ([] @ ?L, NL # rest))"
    using assms by (intro collect_line) (auto simp: s subopt_ok_def nth_append)
  moreover have "NUL \<notin> set ?L"
    using assms by (auto simp: s subopt_ok_def NUL_def DQ_def)
  then have "cstr ?L = ?L" by (rule cstr_id)
  moreover have "parseSubOption ?L = Inr (Some (n, v))"
    using assms by (intro parseSubOption_text) (auto simp: s subopt_ok_def)
  ultimately have "multi_loop (?L @ NL # rest) opts = multi_loop (NL # rest) ((n, v) # opts)"
    unfolding multi_loop.simps [of "?L @ NL # rest"] dw by simp
  then show ?thesis unfolding t unfolding s by (simp only: multi_loop_space [OF isspace_NL])
qed

lemma multi_loop_texts:
  "\<forall>s \<in> set os. subopt_ok s \<Longrightarrow>
   multi_loop (concat (map subopt_text os)) opts = Inr (rev os @ opts)"
proof (induction os arbitrary: opts)
  case Nil
  show ?case by (simp add: multi_loop.simps [of "[]"])
next
  case (Cons s os)
  then show ?case by (simp add: multi_loop_text)
qed

section \<open>Options\<close>

datatype quoting = Quoted | Braced

type_synonym entry = "string \<times> quoting \<times> string"

fun entry_text :: "entry \<Rightarrow> string" where
  "entry_text (opt, Quoted, p) = opt @ '' = '' @ [DQ] @ p @ [DQ, NL]"
| "entry_text (opt, Braced, p) = opt @ '' = {'' @ p @ ''}'' @ [NL]"

definition name_ok :: "string \<Rightarrow> bool" where
  "name_ok opt \<longleftrightarrow> opt \<noteq> [] \<and> list_all opt_char opt \<and> length opt < MAX_OPT_LEN"

fun entry_ok :: "entry \<Rightarrow> bool" where
  "entry_ok (opt, q, p) \<longleftrightarrow> name_ok opt \<and> NUL \<notin> set p \<and> length p < MAX_PARAM_LEN
     \<and> (case q of Quoted \<Rightarrow> DQ \<notin> set p \<and> NL \<notin> set p | Braced \<Rightarrow> CHR ''}'' \<notin> set p)"

text \<open>What a file of such options means: each is set in turn, up to the first failure.\<close>

fun apply_entries ::
  "pcre \<Rightarrow> env \<Rightarrow> entry list \<Rightarrow> auto_handle \<Rightarrow> (int \<times> auto_handle) res" where
  "apply_entries re e [] as = Inr (0, as)"
| "apply_entries re e ((opt, q, p) # es) as =
     bindR (am_set_option re e as opt p) (\<lambda>(r, as).
       if r = FAILURE then Inr (- 1, as) else apply_entries re e es as)"

text \<open>\<open>Inl b\<close>: the loop ends here, with (\<open>True\<close>) or without a parse error.\<close>

definition resume :: "string \<Rightarrow> nat \<Rightarrow> bool + nat" where
  "resume line pos =
     (case SkipWhitespace line pos of
        None \<Rightarrow> Inl True
      | Some p \<Rightarrow> if p \<ge> length line then Inl False else Inr p)"

lemma at_skip_resume:
  "at_skip line q as k = (case resume line q of Inl b \<Rightarrow> Inr (Stop b as) | Inr p \<Rightarrow> k p)"
  by (simp add: at_skip_def resume_def split: option.split)

text \<open>
  A turn of the main loop up to the call of \<open>set_option\<close> reads the buffer and the two arrays on
  the stack only: it ends the loop (with or without a parse error), skips a comment, or finds an
  option.
\<close>

datatype token = End bool | Skip nat | Set string string nat

definition skip_to :: "string \<Rightarrow> nat \<Rightarrow> (nat \<Rightarrow> token res) \<Rightarrow> token res" where
  "skip_to line pos k = (case resume line pos of Inl b \<Rightarrow> Inr (End b) | Inr p \<Rightarrow> k p)"

definition next_option :: "string \<Rightarrow> nat \<Rightarrow> token res" where
  "next_option line pos =
     skip_to line pos (\<lambda>p.
       if line ! p = CHR ''#'' then bindR (skip_comment line p) (\<lambda>p. Inr (Skip p))
       else bindR (read_option line p) (\<lambda>o'.
         case o' of
           None \<Rightarrow> Inr (End True)
         | Some (opt, p) \<Rightarrow>
             skip_to line p (\<lambda>p.
               if line ! p \<noteq> CHR ''='' then Inr (End True)
               else skip_to line (p + 1) (\<lambda>p.
                 case read_param line p of
                   None \<Rightarrow> Inr (End True)
                 | Some (param, q) \<Rightarrow> Inr (Set opt param q)))))"

definition turn_of :: "pcre \<Rightarrow> env \<Rightarrow> string \<Rightarrow> auto_handle \<Rightarrow> token \<Rightarrow> turn res" where
  "turn_of re e line as t =
     (case t of
        End b \<Rightarrow> Inr (Stop b as)
      | Skip p \<Rightarrow> Inr (Next p as)
      | Set opt param q \<Rightarrow>
          bindR (am_set_option re e as opt param) (\<lambda>(r, as).
            if r = FAILURE then Inr (Stop True as)
            else at_skip line q as (\<lambda>p. Inr (Next p as))))"

lemma turn_of_simps [simp]:
  "turn_of re e line as (End b) = Inr (Stop b as)"
  "turn_of re e line as (Skip p) = Inr (Next p as)"
  by (simp_all add: turn_of_def)

lemma turn_of_skip:
  "bindR (skip_to line pos k) (turn_of re e line as) = at_skip line pos as (\<lambda>p. bindR (k p) (turn_of re e line as))"
  by (simp add: skip_to_def at_skip_resume split: sum.split)

lemma config_turn_parts:
  "config_turn re e line pos as = bindR (next_option line pos) (turn_of re e line as)"
proof -
  have "config_value re e line opt p as =
      bindR (case read_param line p of None \<Rightarrow> Inr (End True) | Some (param, q) \<Rightarrow> Inr (Set opt param q))
        (turn_of re e line as)" for opt p
    by (simp add: config_value_def turn_of_def split: option.split)
  then show ?thesis
    by (auto simp: config_turn_def next_option_def turn_of_skip bindR_assoc fun_eq_iff
        intro!: arg_cong [of _ _ "at_skip line _ as"] bindR_cong split: option.split)
qed

lemma resume_to:
  assumes "line = pre @ sp @ rest" "list_all isspace sp" "rest \<noteq> []" "\<not> isspace (hd rest)"
    and "NUL \<notin> set line"
  shows "resume line (length pre) = Inr (length pre + length sp)"
proof -
  have "takeWhile isspace (sp @ rest) = sp"
    using assms(2-4) by (cases rest) (simp_all add: takeWhile_append2 list_all_iff takeWhile_append)
  then show ?thesis
    using assms by (simp add: resume_def SkipWhitespace_def cstr_id)
qed

lemma resume_stop:
  assumes "line = pre @ sp" "list_all isspace sp" "line \<noteq> []" "NUL \<notin> set line"
  shows "resume line (length pre) = Inl False"
proof -
  have "takeWhile isspace sp = sp" using assms(2) by (simp add: list_all_iff)
  then have "length (takeWhile isspace sp) = length sp" by (rule arg_cong)
  with assms(1,3,4) show ?thesis by (simp add: resume_def SkipWhitespace_def cstr_id)
qed

lemma opt_char_facts:
  "opt_char c \<Longrightarrow> \<not> isspace c" "opt_char c \<Longrightarrow> c \<noteq> NUL" "opt_char c \<Longrightarrow> c \<noteq> CHR ''#''"
  "\<not> opt_char (CHR '' '')"
proof -
  assume o: "opt_char c"
  then have "code c \<noteq> code (CHR '' '')" by (auto simp: opt_char_def code_inj)
  then have "code c \<noteq> 32" by (simp add: code_def)
  with o show "\<not> isspace c" by (auto simp: opt_char_def isprint_def isspace_def)
qed (auto simp: opt_char_def isprint_not_NUL)

lemma read_option_name:
  assumes "line = pre @ opt @ CHR '' '' # rest" "name_ok opt"
  shows "read_option line (length pre) = Inr (Some (opt, length pre + length opt))"
proof -
  have "takeWhile opt_char (opt @ CHR '' '' # rest) = opt"
    using assms(2) by (simp add: name_ok_def takeWhile_append list_all_iff opt_char_facts(4))
  then show ?thesis using assms by (simp add: read_option_def Let_def name_ok_def)
qed

lemma takeWhile_take_stop:
  "\<forall>c \<in> set p. P c \<Longrightarrow> \<not> P d \<Longrightarrow> length p < n \<Longrightarrow> takeWhile P (take n (p @ d # rest)) = p"
  by (cases "n - length p") (simp_all add: takeWhile_append)

lemma read_quoted_text:
  assumes "line = pre @ p @ DQ # rest" "DQ \<notin> set p" "NL \<notin> set p" "NUL \<notin> set p"
    "length p < MAX_PARAM_LEN"
  shows "read_quoted line DQ (length pre) = Some (p, length pre + length p + 1)"
proof -
  have "takeWhile (\<lambda>x. x \<noteq> DQ \<and> x \<noteq> NL) (take MAX_PARAM_LEN (p @ DQ # rest)) = p"
    using assms(2,3,5) by (intro takeWhile_take_stop) auto
  then show ?thesis
    using assms by (simp add: read_quoted_def Let_def cstr_id nth_append)
qed

lemma read_braced_text:
  assumes "line = pre @ p @ CHR ''}'' # rest" "CHR ''}'' \<notin> set p" "NUL \<notin> set p"
    "length p < MAX_PARAM_LEN"
  shows "read_braced line (length pre) = Some (p, length pre + length p + 1)"
proof -
  have "takeWhile (\<lambda>x. x \<noteq> CHR ''}'') (take MAX_PARAM_LEN (p @ CHR ''}'' # rest)) = p"
    using assms(2,4) by (intro takeWhile_take_stop) auto
  then show ?thesis
    using assms by (simp add: read_braced_def Let_def cstr_id nth_append)
qed

text \<open>One option of the file is one turn of the parser.\<close>

definition turn_result :: "string \<Rightarrow> nat \<Rightarrow> int \<times> auto_handle \<Rightarrow> turn res" where
  "turn_result rest q x =
     (if fst x = FAILURE then Inr (Stop True (snd x))
      else if rest = [] then Inr (Stop False (snd x)) else Inr (Next q (snd x)))"

lemma isspace_blank: "isspace (CHR '' '')"
  by (simp add: isspace_def code_def)

lemma next_option_text:
  assumes line: "line = pre @ entry_text (opt, q, p) @ rest" and ok: "entry_ok (opt, q, p)"
    and n: "NUL \<notin> set line" and r: "rest = [] \<or> \<not> isspace (hd rest)"
  obtains pos where "next_option line (length pre) = Inr (Set opt p pos)"
    "resume line pos = (if rest = [] then Inl False else Inr (length (pre @ entry_text (opt, q, p))))"
proof -
  define val where "val = (case q of Quoted \<Rightarrow> DQ # p @ [DQ] | Braced \<Rightarrow> ''{'' @ p @ ''}'')"
  let ?p1 = "pre @ opt" and ?p2 = "pre @ opt @ '' =''" and ?p3 = "pre @ opt @ '' = ''"
  have tx: "entry_text (opt, q, p) = opt @ '' = '' @ val @ [NL]"
    by (cases q) (simp_all add: val_def)
  have l: "line = pre @ opt @ '' = '' @ val @ NL # rest" by (simp add: line tx)
  have v: "val \<noteq> []" "\<not> isspace (hd val)"
    by (cases q; simp add: val_def isspace_def code_def DQ_def)+
  from ok have o: "opt \<noteq> []" "opt_char (hd opt)" "name_ok opt"
    by (cases opt; simp add: name_ok_def)+
  have s1: "resume line (length pre) = Inr (length pre)"
    using resume_to [of line pre "[]" "opt @ '' = '' @ val @ NL # rest"] l n o
      opt_char_facts(1) [of "hd opt"] by simp
  have s2: "resume line (length ?p1) = Inr (length ?p1 + 1)"
    using resume_to [of line ?p1 "'' ''" "''= '' @ val @ NL # rest"] l n
    by (simp add: isspace_def code_def)
  have s3: "resume line (length ?p2) = Inr (length ?p3)"
    using resume_to [of line ?p2 "'' ''" "val @ NL # rest"] l n v
    by (simp add: isspace_def code_def)
  have ro: "read_option line (length pre) = Inr (Some (opt, length ?p1))"
    using read_option_name [of line pre opt "''= '' @ val @ NL # rest"] l o by simp
  have rp: "read_param line (length ?p3) = Some (p, length ?p3 + length val)"
  proof (cases q)
    case Quoted
    with ok show ?thesis
      using read_quoted_text [of line "?p3 @ [DQ]" p "NL # rest"] l
      by (simp add: read_param_def val_def nth_append)
  next
    case Braced
    with ok show ?thesis
      using read_braced_text [of line "?p3 @ ''{''" p "NL # rest"] l
      by (simp add: read_param_def val_def nth_append isquote_def DQ_def SQ_def)
  qed
  have "line ! length pre = hd opt" using l o by (cases opt) (simp_all add: nth_append)
  then have c1: "line ! length pre \<noteq> CHR ''#''" using opt_char_facts(3) [OF o(2)] by auto
  have c2: "line ! (length ?p1 + 1) = CHR ''=''" by (simp add: l nth_append)
  have c3: "length ?p1 + 1 + 1 = length ?p2" by simp
  let ?q = "length ?p3 + length val"
  have "next_option line (length pre) = Inr (Set opt p ?q)"
    by (simp only: next_option_def skip_to_def sum.case s1 c1 ro if_False bindR_simps option.case prod.case
        s2 c2 simp_thms c3 s3 rp)
  moreover have "resume line ?q = (if rest = [] then Inl False else Inr (length (pre @ entry_text (opt, q, p))))"
    using resume_stop [of line "?p3 @ val" "[NL]"] resume_to [of line "?p3 @ val" "[NL]" rest] l n r
    by (auto simp: tx add.assoc)
  ultimately show ?thesis by (rule that)
qed

lemma config_turn_text:
  assumes "line = pre @ entry_text (opt, q, p) @ rest" "entry_ok (opt, q, p)" "NUL \<notin> set line"
    "rest = [] \<or> \<not> isspace (hd rest)"
  shows "config_turn re e line (length pre) as =
     bindR (am_set_option re e as opt p) (turn_result rest (length (pre @ entry_text (opt, q, p))))"
proof -
  obtain pos where "next_option line (length pre) = Inr (Set opt p pos)"
    "resume line pos = (if rest = [] then Inl False else Inr (length (pre @ entry_text (opt, q, p))))"
    using assms by (rule next_option_text)
  then show ?thesis
    by (auto simp: config_turn_parts turn_of_def at_skip_resume turn_result_def intro!: bindR_cong)
qed

lemma entry_text_facts:
  assumes "entry_ok x"
  shows "entry_text x \<noteq> []" "\<not> isspace (hd (entry_text x))" "NUL \<notin> set (entry_text x)"
proof -
  obtain opt q p where x: "x = (opt, q, p)" by (cases x)
  with assms obtain c o' where o: "opt = c # o'" "opt_char c" "\<forall>d \<in> set o'. opt_char d"
    by (cases opt) (auto simp: name_ok_def list_all_iff)
  show "entry_text x \<noteq> []" by (cases q) (simp_all add: x)
  show "\<not> isspace (hd (entry_text x))" using o opt_char_facts(1) by (cases q) (simp_all add: x)
  show "NUL \<notin> set (entry_text x)"
    using o opt_char_facts(2) assms
    by (cases q) (auto simp: x NUL_def DQ_def NL_def)
qed

definition config_text :: "entry list \<Rightarrow> string" where
  "config_text es = concat (map entry_text es)"

lemma config_text_facts:
  assumes "\<forall>x \<in> set es. entry_ok x"
  shows "config_text es = [] \<longleftrightarrow> es = []" "es \<noteq> [] \<Longrightarrow> \<not> isspace (hd (config_text es))"
    "NUL \<notin> set (config_text es)"
  using assms entry_text_facts by (cases es; auto simp: config_text_def)+

lemma parse_loop_text:
  "\<forall>x \<in> set es. entry_ok x \<Longrightarrow> NUL \<notin> set pre \<Longrightarrow> es \<noteq> [] \<Longrightarrow>
   parse_loop re e (pre @ config_text es) (length pre) as =
     bindR (apply_entries re e es as) (\<lambda>(r, as). Inr (r = - 1, as))"
proof (induction es arbitrary: pre as)
  case (Cons x es)
  obtain opt q p where x: "x = (opt, q, p)" by (cases x)
  let ?line = "pre @ config_text (x # es)" and ?pre = "pre @ entry_text x"
  have l: "?line = pre @ entry_text (opt, q, p) @ config_text es" "?line = ?pre @ config_text es"
    by (simp_all add: config_text_def x)
  have ok: "entry_ok x" "\<forall>x \<in> set es. entry_ok x" using Cons.prems by simp_all
  have nn: "NUL \<notin> set ?line"
    using Cons.prems(2) config_text_facts(3) [OF Cons.prems(1)] by simp
  have turn: "config_turn re e ?line (length pre) as =
      bindR (am_set_option re e as opt p) (turn_result (config_text es) (length ?pre))"
    using config_turn_text [OF l(1) _ nn] ok config_text_facts [OF ok(2)] x by auto
  have ne: "length pre \<noteq> length ?line"
    using entry_text_facts(1) [OF ok(1)] by (simp add: config_text_def)
  have IH: "parse_loop re e ?line (length ?pre) a =
      bindR (apply_entries re e es a) (\<lambda>(r, as). Inr (r = - 1, as))" if "es \<noteq> []" for a
    unfolding l(2) using Cons.IH [OF ok(2) _ that, of ?pre a] Cons.prems(2) entry_text_facts(3) [OF ok(1)]
    by simp
  show ?case
  proof (cases "am_set_option re e as opt p")
    case (Inl f)
    with turn ne show ?thesis by (subst parse_loop.simps) (simp add: x)
  next
    case (Inr y)
    obtain r a where y: "y = (r, a)" by (cases y)
    note facts = turn ne Inr y turn_result_def config_text_facts(1) [OF ok(2)] FAILURE_def
    consider "r = FAILURE" | "r \<noteq> FAILURE" "es = []" | "r \<noteq> FAILURE" "es \<noteq> []" by blast
    then show ?thesis
    proof cases
      case 1
      with facts show ?thesis by (subst parse_loop.simps) (simp add: x)
    next
      case 2
      with facts show ?thesis by (subst parse_loop.simps) (simp add: x)
    next
      case 3
      with facts IH [of a] show ?thesis by (subst parse_loop.simps) (simp add: x)
    qed
  qed
qed simp

lemma parse_config_file_text:
  assumes "es \<noteq> []" "\<forall>x \<in> set es. entry_ok x"
  shows "parse_config_file re e (Some (config_text es)) as = apply_entries re e es as"
proof -
  have r: "apply_entries re e es as = Inr (r, a) \<Longrightarrow> r = 0 \<or> r = - 1" for r a
    by (induction re e es as rule: apply_entries.induct) (auto simp: bindR_Inr_iff split: if_splits)
  have "parse_loop re e (config_text es) 0 as =
      bindR (apply_entries re e es as) (\<lambda>(r, as). Inr (r = - 1, as))"
    using parse_loop_text [OF assms(2) _ assms(1), of "[]" re e as] by simp
  then show ?thesis
    using assms r config_text_facts(1) [OF assms(2)]
    by (cases "apply_entries re e es as") (auto simp: parse_config_file_def)
qed

section \<open>Feeds and filters\<close>

definition subopts_text :: "suboption list \<Rightarrow> string" where
  "subopts_text os = concat (map subopt_text os)"

lemma parseMultiOption_text:
  "\<forall>s \<in> set os. subopt_ok s \<Longrightarrow> parseMultiOption (subopts_text os) = Inr (rev os)"
  by (simp add: parseMultiOption_def multi_loop_texts subopts_text_def)

text \<open>A value that survives both passes of \<open>trim\<close> and stays inside its braces.\<close>

definition value_ok :: "string \<Rightarrow> bool" where
  "value_ok v \<longleftrightarrow> clean v \<and> NL \<notin> set v \<and> CHR ''}'' \<notin> set v \<and> length v < 4000"

lemma subopt_ok_value:
  assumes "value_ok v" "n \<in> {''url'', ''id'', ''cookies'', ''pattern'', ''feedid''}"
  shows "subopt_ok (n, v)"
  using assms
  by (auto simp: subopt_ok_def value_ok_def clean_def MAX_PARAM_LEN_def NUL_def NL_def
      isspace_def code_def)

definition feed_text :: "string \<Rightarrow> string \<Rightarrow> string \<Rightarrow> string" where
  "feed_text u i c = subopts_text [(''url'', u), (''id'', i), (''cookies'', c)]"

definition filter_text :: "string \<Rightarrow> string \<Rightarrow> string" where
  "filter_text p i = subopts_text [(''pattern'', p), (''feedid'', i)]"

lemma parseFeed_text:
  assumes "value_ok u" "value_ok i" "value_ok c"
  shows "parseFeed re fs (feed_text u i c) =
     Inr (SUCCESS, feed_new\<lparr>feed_url := Some u, feed_cookies := Some c, feed_id := Some i\<rparr> # fs)"
proof -
  have "parseMultiOption (feed_text u i c) = Inr [(''cookies'', c), (''id'', i), (''url'', u)]"
    using parseMultiOption_text [of "[(''url'', u), (''id'', i), (''cookies'', c)]"]
      subopt_ok_value assms by (simp add: feed_text_def)
  moreover have "trim (Some u) = Some u" "trim (Some i) = Some i" "trim (Some c) = Some c"
    using assms trim_clean by (simp_all add: value_ok_def)
  ultimately show ?thesis
    by (simp add: parseFeed_def feed_option_def strncmp_eq_def numeral_eq_Suc feed_add_def
        feed_new_def SUCCESS_def)
qed

lemma parseFilter_text:
  assumes "value_ok p" "value_ok i"
  shows "parseFilter e fs (filter_text p i) =
     Inr (SUCCESS, \<lparr>f_pattern = Some p, f_folder = None, f_feedID = Some i\<rparr> # fs)"
proof -
  have "parseMultiOption (filter_text p i) = Inr [(''feedid'', i), (''pattern'', p)]"
    using parseMultiOption_text [of "[(''pattern'', p), (''feedid'', i)]"]
      subopt_ok_value assms by (simp add: filter_text_def)
  moreover have "trim (Some p) = Some p" "trim (Some i) = Some i"
    using assms trim_clean by (simp_all add: value_ok_def)
  ultimately show ?thesis
    by (simp add: parseFilter_def filter_option_def strncmp_eq_def numeral_eq_Suc filter_add_def
        filter_new_def SUCCESS_def)
qed

definition short_name :: "string \<Rightarrow> bool" where
  "short_name n \<longleftrightarrow> length n \<le> 11 \<and> NUL \<notin> set n \<and> CHR ''}'' \<notin> set n"

lemma short_names:
  "short_name ''url''" "short_name ''id''" "short_name ''cookies''" "short_name ''pattern''"
  "short_name ''feedid''"
  by (simp_all add: short_name_def NUL_def)

lemma subopt_text_facts:
  assumes "value_ok v" "short_name n"
  shows "NUL \<notin> set (subopt_text (n, v))" "CHR ''}'' \<notin> set (subopt_text (n, v))"
    "length (subopt_text (n, v)) \<le> 4100"
proof -
  have "NUL \<notin> {DQ, NL, CHR '' '', CHR ''='', CHR ''>''}" "CHR ''}'' \<notin> {DQ, NL}"
    by (simp_all add: NUL_def DQ_def NL_def)
  with assms show "NUL \<notin> set (subopt_text (n, v))" "CHR ''}'' \<notin> set (subopt_text (n, v))"
    by (simp_all add: subopt_text_def short_name_def value_ok_def clean_def)
  from assms show "length (subopt_text (n, v)) \<le> 4100"
    by (simp add: subopt_text_def short_name_def value_ok_def)
qed

lemma subopts_text_ok:
  assumes "\<forall>(n, v) \<in> set os. value_ok v \<and> short_name n" "length os \<le> 4" "name_ok opt"
  shows "entry_ok (opt, Braced, subopts_text os)"
proof -
  have "NUL \<notin> set (subopts_text os) \<and> CHR ''}'' \<notin> set (subopts_text os)
      \<and> length (subopts_text os) \<le> 4100 * length os"
    using assms(1)
  proof (induction os)
    case (Cons s os)
    then show ?case
      using subopt_text_facts [of "snd s" "fst s"] by (auto simp: subopts_text_def)
  qed (simp add: subopts_text_def)
  with assms(2,3) show ?thesis by (simp add: MAX_PARAM_LEN_def)
qed

section \<open>Numbers\<close>

lemma isdigit_clean:
  assumes "v \<noteq> []" "list_all isdigit v"
  shows "clean v"
proof -
  have d: "isdigit c \<Longrightarrow> c \<noteq> NUL \<and> \<not> isspace c \<and> \<not> isquote c" for c
    by (auto simp: isdigit_def isspace_def isquote_def code_def NUL_def DQ_def SQ_def)
  have "hd v \<in> set v" "v ! (length v - 1) \<in> set v" using assms(1) by simp_all
  then show ?thesis using assms d by (auto simp: clean_def list_all_iff)
qed

lemma parseUInt_show_nat:
  assumes "0 < n" "n < 2 ^ 31"
  shows "parseUInt (show_nat n) = Inr (int n)"
proof -
  have "list_all isdigit (show_nat n)" by (simp add: list_all_iff show_nat_digits)
  then show ?thesis
    using assms by (simp add: parseUInt_def trim_clean isdigit_clean atoi_show_nat)
qed

lemma wrap_s_wrap_u: "0 < w \<Longrightarrow> wrap_s w (wrap_u w x) = wrap_s w x"
  by (simp add: wrap_s_def wrap_u_def mod_add_left_eq)

section \<open>Properties\<close>

definition demo_env :: env where
  "demo_env = \<lparr>getenv = (\<lambda>n. None), pw_dir = None\<rparr>"

text \<open>C14: a configuration file that consists of options written \<^verbatim>\<open>name = "text"\<close> or
  \<^verbatim>\<open>name = {text}\<close>, one after the other, has the effect of setting each option to exactly
  that text, in the order of the file, until the first one that is refused; the parser loses
  no option, adds none, and its return value says whether one was refused.\<close>

theorem config_file_correct:
  assumes "es \<noteq> []" "\<forall>x \<in> set es. entry_ok x"
  shows "parse_config_file re e (Some (config_text es)) as = apply_entries re e es as"
  using assms by (rule parse_config_file_text)

theorem config_file_correct_witness:
  "parse_config_file demo_pcre demo_env (Some (config_text
      [(''rpc-host'', Quoted, ''box''), (''rpc-auth'', Braced, ''me:pw'')])) lab_session =
   apply_entries demo_pcre demo_env [(''rpc-host'', Quoted, ''box''), (''rpc-auth'', Braced, ''me:pw'')] lab_session"
  by (rule config_file_correct)
    (simp_all add: name_ok_def opt_char_def isprint_def code_def MAX_OPT_LEN_def
      MAX_PARAM_LEN_def NUL_def DQ_def NL_def)

text \<open>C22: from the text of the file to the session: a feed and a filter, written with their
  suboptions on lines of their own in braces, give exactly one feed and one filter with those
  URL, id, cookies and pattern in front of the session's lists; nothing else of the handle
  changes and the parser reports success.\<close>

theorem config_feed_filter:
  assumes "value_ok u" "value_ok i" "value_ok c" "value_ok p" "value_ok j"
  shows "parse_config_file re e (Some (config_text
      [(''feed'', Braced, feed_text u i c), (''filter'', Braced, filter_text p j)])) as =
    Inr (0, as\<lparr>
      feeds := feed_new\<lparr>feed_url := Some u, feed_cookies := Some c, feed_id := Some i\<rparr> # feeds as,
      filters := \<lparr>f_pattern = Some p, f_folder = None, f_feedID = Some j\<rparr> # filters as\<rparr>)"
proof -
  have n: "name_ok ''feed''" "name_ok ''filter''"
    by (simp_all add: name_ok_def opt_char_def isprint_def code_def MAX_OPT_LEN_def)
  have "entry_ok (''feed'', Braced, feed_text u i c)" "entry_ok (''filter'', Braced, filter_text p j)"
    unfolding feed_text_def filter_text_def
    by (rule subopts_text_ok; use assms n short_names in simp)+
  moreover have "SUCCESS \<noteq> FAILURE" by (simp add: SUCCESS_def FAILURE_def)
  ultimately show ?thesis
    by (simp add: parse_config_file_text am_set_option_def parseFeed_text parseFilter_text assms)
qed

theorem config_feed_filter_witness:
  "parse_config_file demo_pcre demo_env (Some (config_text
      [(''feed'', Braced, feed_text ''http://x/rss'' ''1'' ''a=b''),
       (''filter'', Braced, filter_text ''linux'' ''1'')])) lab_session =
    Inr (0, lab_session\<lparr>
      feeds := feed_new\<lparr>feed_url := Some ''http://x/rss'', feed_cookies := Some ''a=b'',
                 feed_id := Some ''1''\<rparr> # feeds lab_session,
      filters := \<lparr>f_pattern = Some ''linux'', f_folder = None, f_feedID = Some ''1''\<rparr> # filters lab_session\<rparr>)"
  by (rule config_feed_filter)
    (simp_all add: value_ok_def clean_def isspace_def isquote_def char_defs)

text \<open>The numeric options.  A printed positive \<open>int\<close> is stored in the width of its field:
  the interval keeps its value modulo 256 (so 256 minutes become 0), the upload limit wraps to
  16 signed bits, and only a port strictly between 1024 and 65535 is taken.\<close>

theorem config_numbers:
  assumes "0 < n" "n < 2 ^ 31"
  shows "am_set_option re e as ''interval'' (show_nat n) =
      Inr (SUCCESS, as\<lparr>check_interval := int n mod 256\<rparr>)
    \<and> am_set_option re e as ''upload-limit'' (show_nat n) =
      Inr (SUCCESS, as\<lparr>upspeed := wrap_s 16 (int n)\<rparr>)
    \<and> am_set_option re e as ''rpc-port'' (show_nat n) =
      Inr (SUCCESS, if 1024 < n \<and> n < 65535 then as\<lparr>rpc_port := n\<rparr> else as)"
  using assms wrap_u_def [of 8 "int n"]
  by (simp add: am_set_option_def parseUInt_show_nat set_number_def wrap_s_wrap_u)

theorem config_numbers_witness:
  "am_set_option demo_pcre demo_env lab_session ''interval'' (show_nat 256) =
      Inr (SUCCESS, lab_session\<lparr>check_interval := int 256 mod 256\<rparr>)
    \<and> am_set_option demo_pcre demo_env lab_session ''upload-limit'' (show_nat 256) =
      Inr (SUCCESS, lab_session\<lparr>upspeed := wrap_s 16 (int 256)\<rparr>)
    \<and> am_set_option demo_pcre demo_env lab_session ''rpc-port'' (show_nat 256) =
      Inr (SUCCESS, if 1024 < (256::nat) \<and> (256::nat) < 65535 then lab_session\<lparr>rpc_port := 256\<rparr> else lab_session)"
  by (rule config_numbers) simp_all

text \<open>C31: three texts the parser does not survive: a name of more than 51 characters is written
  past the end of its buffer, a comment that ends the file without a newline is read past the
  end of the file, and a number in quotes that is empty is a NULL pointer.\<close>

theorem config_faults:
  assumes "list_all opt_char n" "51 < length n" "NUL \<notin> set n" "NL \<notin> set c" "NUL \<notin> set c"
  shows "parse_config_file re e (Some n) as = Inl BufferOverflow
    \<and> parse_config_file re e (Some (CHR ''#'' # c)) as = Inl OutOfBounds
    \<and> parse_config_file re e (Some (config_text [(''interval'', Quoted, '''')])) as = Inl NullDeref"
proof (intro conjI)
  have nh: "n \<noteq> []" "opt_char (hd n)" using assms(1,2) by (cases n; simp)+
  have "takeWhile opt_char n = n" using assms(1) by (simp add: list_all_iff)
  then have "read_option n 0 = Inl BufferOverflow"
    using assms(2) by (simp add: read_option_def MAX_OPT_LEN_def del: takeWhile_eq_all_conv)
  moreover have "at_skip n 0 as k = k 0" for k
    using resume_to [of n "[]" "[]" n] nh assms(3) opt_char_facts(1) by (simp add: at_skip_resume)
  moreover have "n ! 0 \<noteq> CHR ''#''" using nh opt_char_facts(3) [OF nh(2)] by (cases n) auto
  ultimately have "config_turn re e n 0 as = Inl BufferOverflow" by (simp add: config_turn_def)
  then show "parse_config_file re e (Some n) as = Inl BufferOverflow"
    using nh by (simp add: parse_config_file_def parse_loop.simps [of _ _ n 0])
  let ?c = "CHR ''#'' # c"
  have "takeWhile (\<lambda>c. c \<noteq> NL) ?c = ?c" using assms(4) by (auto simp: NL_def)
  then have "skip_comment ?c 0 = Inl OutOfBounds"
    by (simp add: skip_comment_def del: takeWhile_eq_all_conv takeWhile.simps)
  moreover have "at_skip ?c 0 as k = k 0" for k
    using resume_to [of ?c "[]" "[]" ?c] assms(5) by (simp add: at_skip_resume isspace_def code_def NUL_def)
  ultimately have "config_turn re e ?c 0 as = Inl OutOfBounds" by (simp add: config_turn_def)
  then show "parse_config_file re e (Some ?c) as = Inl OutOfBounds"
    by (simp add: parse_config_file_def parse_loop.simps [of _ _ ?c 0])
  have "entry_ok (''interval'', Quoted, '''')"
    by (simp add: name_ok_def opt_char_def isprint_def code_def MAX_OPT_LEN_def MAX_PARAM_LEN_def)
  then show "parse_config_file re e (Some (config_text [(''interval'', Quoted, '''')])) as
      = Inl NullDeref"
    by (simp add: parse_config_file_text am_set_option_def parseUInt_def trim_def)
qed

theorem config_faults_witness:
  "parse_config_file demo_pcre demo_env (Some (replicate 52 CHR ''x'')) lab_session = Inl BufferOverflow
    \<and> parse_config_file demo_pcre demo_env (Some (CHR ''#'' # ''bye'')) lab_session = Inl OutOfBounds
    \<and> parse_config_file demo_pcre demo_env (Some (config_text [(''interval'', Quoted, '''')])) lab_session = Inl NullDeref"
  by (rule config_faults)
    (simp_all add: list_all_iff opt_char_def isprint_def code_def NUL_def NL_def)

end
