(* ===== verification/Am_Config_Inv.thy ===== *)
theory Am_Config_Inv
  imports Am_Config
begin

text \<open>
  Invariants of the configuration parser, as a locale: what every option preserves, the whole
  file preserves.  The parser touches the handle through \<open>am_set_option\<close> only.
\<close>

text \<open>A property of the handle, after a turn of the main loop.\<close>

definition holds :: "(auto_handle \<Rightarrow> bool) \<Rightarrow> turn \<Rightarrow> bool" where
  "holds P t \<longleftrightarrow> (case t of Stop b s \<Rightarrow> P s | Next q s \<Rightarrow> P s)"

lemma holds_simps [simp]: "holds P (Stop b s) \<longleftrightarrow> P s" "holds P (Next q s) \<longleftrightarrow> P s"
  by (simp_all add: holds_def)

locale option_invariant =
  fixes re :: pcre and e :: env and P :: "auto_handle \<Rightarrow> bool"
  assumes option: "am_set_option re e s opt param = Inr (r, s') \<Longrightarrow> P s \<Longrightarrow> P s'"
begin

lemma skip_inv: "at_skip line pos s k = Inr t \<Longrightarrow> P s \<Longrightarrow> (\<And>p. k p = Inr t \<Longrightarrow> holds P t) \<Longrightarrow> holds P t"
  by (auto simp: at_skip_def split: option.splits if_splits)

lemma value_inv:
  assumes "config_value re e line opt pos s = Inr t" "P s"
  shows "holds P t"
proof (cases "read_param line pos")
  case None
  with assms show ?thesis by (auto simp: config_value_def)
next
  case (Some y)
  obtain param p where y: "y = (param, p)" by (cases y)
  with Some assms(1) obtain r s1 where o: "am_set_option re e s opt param = Inr (r, s1)"
    and k: "(if r = FAILURE then Inr (Stop True s1) else at_skip line p s1 (\<lambda>p. Inr (Next p s1))) = Inr t"
    by (auto simp: config_value_def bindR_Inr_iff)
  from o assms(2) have "P s1" by (rule option)
  show ?thesis
  proof (cases "r = FAILURE")
    case True
    with k \<open>P s1\<close> show ?thesis by auto
  next
    case False
    with k have "at_skip line p s1 (\<lambda>p. Inr (Next p s1)) = Inr t" by simp
    then show ?thesis using \<open>P s1\<close> by (rule skip_inv) (use \<open>P s1\<close> in auto)
  qed
qed

lemma turn_inv:
  assumes "config_turn re e line pos s = Inr t" "P s"
  shows "holds P t"
  using assms(1) unfolding config_turn_def
proof (rule skip_inv [OF _ assms(2)])
  fix p
  assume k: "(if line ! p = CHR ''#'' then bindR (skip_comment line p) (\<lambda>p. Inr (Next p s))
       else bindR (read_option line p) (\<lambda>o'. case o' of None \<Rightarrow> Inr (Stop True s)
           | Some (opt, p) \<Rightarrow> at_skip line p s (\<lambda>p. if line ! p \<noteq> CHR ''='' then Inr (Stop True s)
                 else at_skip line (p + 1) s (\<lambda>p. config_value re e line opt p s)))) = Inr t"
  show "holds P t"
  proof (cases "line ! p = CHR ''#''")
    case True
    with k assms(2) show ?thesis by (auto simp: bindR_Inr_iff)
  next
    case False
    with k obtain y where y: "(case y of None \<Rightarrow> Inr (Stop True s)
           | Some (opt, p) \<Rightarrow> at_skip line p s (\<lambda>p. if line ! p \<noteq> CHR ''='' then Inr (Stop True s)
                 else at_skip line (p + 1) s (\<lambda>p. config_value re e line opt p s))) = Inr t"
      by (auto simp: bindR_Inr_iff)
    show ?thesis
    proof (cases y)
      case None
      with y assms(2) show ?thesis by auto
    next
      case (Some z)
      obtain opt q where "z = (opt, q)" by (cases z)
      with y Some have "at_skip line q s (\<lambda>p. if line ! p \<noteq> CHR ''='' then Inr (Stop True s)
                 else at_skip line (p + 1) s (\<lambda>p. config_value re e line opt p s)) = Inr t" by simp
      then show ?thesis
      proof (rule skip_inv [OF _ assms(2)])
        fix q
        assume "(if line ! q \<noteq> CHR ''='' then Inr (Stop True s)
                 else at_skip line (q + 1) s (\<lambda>p. config_value re e line opt p s)) = Inr t"
        then show "holds P t"
          using assms(2) by (auto split: if_splits elim!: skip_inv dest: value_inv)
      qed
    qed
  qed
qed

lemma loop_inv: "parse_loop re e line pos s = Inr (b, s') \<Longrightarrow> P s \<Longrightarrow> P s'"
proof (induction "length line - pos" arbitrary: pos s rule: less_induct)
  case less
  show ?case
  proof (cases "pos = length line")
    case True
    with less.prems show ?thesis by (subst (asm) parse_loop.simps) simp
  next
    case False
    with less.prems(1) obtain t where t: "config_turn re e line pos s = Inr t"
      "(case t of Stop b as \<Rightarrow> Inr (b, as) | Next p as \<Rightarrow> parse_loop re e line p as) = Inr (b, s')"
      by (subst (asm) parse_loop.simps) (auto simp: bindR_Inr_iff)
    have h: "holds P t" using t(1) less.prems(2) by (rule turn_inv)
    show ?thesis
    proof (cases t)
      case (Stop b' s1)
      with h t(2) show ?thesis by simp
    next
      case (Next q s1)
      with t(1) config_turn_Next [of re e line pos s q s1] have "length line - q < length line - pos" by auto
      with less.hyps Next h t(2) show ?thesis by simp
    qed
  qed
qed

lemma file_inv: "parse_config_file re e f s = Inr (r, s') \<Longrightarrow> P s \<Longrightarrow> P s'"
  by (auto simp: parse_config_file_def bindR_Inr_iff dest: loop_inv split: option.splits if_splits)

end

section \<open>The widths of the fields\<close>

text \<open>
  The ranges of the C types, and the values the code relies on: a port the configuration accepts,
  one of the three versions of Transmission.
\<close>

definition in_width :: "auto_handle \<Rightarrow> bool" where
  "in_width s \<longleftrightarrow> - 128 \<le> rpc_version s \<and> rpc_version s < 128 \<and> max_bucket_items s < 2 ^ 16 \<and>
     0 \<le> check_interval s \<and> check_interval s < 256 \<and> 1024 < rpc_port s \<and> rpc_port s < 65535 \<and>
     - (2 ^ 15) \<le> upspeed s \<and> upspeed s < 2 ^ 15 \<and>
     transmission_version s \<in> {AM_TRANSMISSION_EXTERNAL, AM_TRANSMISSION_1_2, AM_TRANSMISSION_1_3}"

lemma in_width_frame [simp]:
  "in_width (s\<lparr>feeds := fs\<rparr>) = in_width s" "in_width (s\<lparr>filters := ls\<rparr>) = in_width s"
  "in_width (s\<lparr>downloads := ds\<rparr>) = in_width s" "in_width (s\<lparr>bucket_changed := b\<rparr>) = in_width s"
  "in_width (s\<lparr>transmission_path := p\<rparr>) = in_width s" "in_width (s\<lparr>statefile := p\<rparr>) = in_width s"
  "in_width (s\<lparr>torrent_folder := p\<rparr>) = in_width s" "in_width (s\<lparr>auth := p\<rparr>) = in_width s"
  "in_width (s\<lparr>host := p\<rparr>) = in_width s" "in_width (s\<lparr>prowl_key := p\<rparr>) = in_width s"
  "in_width (s\<lparr>pushover_key := p\<rparr>) = in_width s" "in_width (s\<lparr>use_transmission := b\<rparr>) = in_width s"
  "in_width (s\<lparr>start_torrent := b\<rparr>) = in_width s" "in_width (s\<lparr>prowl_key_valid := b\<rparr>) = in_width s"
  "in_width (s\<lparr>match_only := b\<rparr>) = in_width s" "in_width (s\<lparr>transmission_external := p\<rparr>) = in_width s"
  by (simp_all add: in_width_def)

lemma in_width_external [simp]:
  "in_width s \<Longrightarrow> in_width (s\<lparr>transmission_version := AM_TRANSMISSION_EXTERNAL\<rparr>)"
  by (simp add: in_width_def)

lemma set_number_width: "in_width s \<Longrightarrow> in_width (set_number opt n s)"
  by (auto simp: set_number_def in_width_def wrap_u_def wrap_s_def)

lemma set_version_width: "in_width s \<Longrightarrow> in_width (set_version p s)"
  by (simp add: set_version_def in_width_def)

lemma session_init_width: "session_init e = Inr s \<Longrightarrow> in_width s"
  by (auto simp: session_init_def bindR_Inr_iff in_width_def am_consts)

definition fits :: "(int \<times> auto_handle) res \<Rightarrow> bool" where
  "fits m \<longleftrightarrow> (\<forall>r s. m = Inr (r, s) \<longrightarrow> in_width s)"

lemma fits_rules:
  "fits a \<Longrightarrow> fits b \<Longrightarrow> fits (if c then a else b)"
  "(\<And>y. fits (f y)) \<Longrightarrow> fits (bindR m f)"
  "(\<And>u v. fits (g u v)) \<Longrightarrow> fits (case z of (u, v) \<Rightarrow> g u v)"
  "in_width s \<Longrightarrow> fits (Inr (r, s))"
  by (auto simp: fits_def bindR_Inr_iff split: prod.splits)

lemma am_set_option_width: "in_width s \<Longrightarrow> fits (am_set_option re e s opt param)"
  unfolding am_set_option_def
  by (intro fits_rules) (simp_all add: set_number_width set_version_width)

interpretation widths: option_invariant re e in_width for re e
  using am_set_option_width by unfold_locales (auto simp: fits_def)

end
