(* ===== verification/Am_Process.thy ===== *)
theory Am_Process
  imports Am_Handle Am_Xml Am_Notify Am_Downloads Am_State
begin

text \<open>
  \<^verbatim>\<open>src/automatic.c\<close>, the check of one feed: \<open>downloadTorrent\<close>, \<open>addTorrentToTM\<close>,
  \<open>addMagnetToTM\<close>, \<open>processRSSList\<close>, \<open>getRSSFeed\<close>, \<open>processFeed\<close>, \<open>processFile\<close>.

  What the program only calls is bundled in \<open>ext\<close>: PCRE, libcurl, libxml2, the shell and the
  environment.  libcurl acts on the field \<open>net\<close> of the world, so that a transfer cannot touch
  a file.  The history of downloads is the list of \<open>Am_Downloads\<close>.  Log messages are left out.
\<close>

record ('w, 'doc) ext =
  ext_pcre :: pcre
  ext_curl :: "'w curl_lib"
  ext_xml :: "'doc xml_lib"
  ext_shell :: "string \<Rightarrow> 'w world \<Rightarrow> int \<times> 'w world"
  ext_env :: env

definition on_net :: "('w \<Rightarrow> ('a \<times> web \<times> 'w) res) \<Rightarrow> 'w world \<Rightarrow> ('a \<times> web \<times> 'w world) res" where
  "on_net f wd = bindR (f (net wd)) (\<lambda>(a, w, n). Inr (a, w, wd\<lparr>net := n\<rparr>))"

section \<open>Adding a torrent\<close>

text \<open>
  The session's handle is passed by value: where it is NULL a fresh one is used and lost.  The
  result is the response and what the caller's handle has become.
\<close>

definition downloadTorrent ::
  "('w, 'doc) ext \<Rightarrow> curl option \<Rightarrow> string option \<Rightarrow> web \<Rightarrow> 'w world \<Rightarrow>
   ((HTTPResponse option \<times> curl option) \<times> web \<times> 'w world) res" where
  "downloadTorrent x curl_session url w wd =
     on_net (\<lambda>n. bindR (getHTTPData (ext_pcre x) (ext_curl x) url None curl_session w n)
       (\<lambda>(torrent, c, w, n).
          Inr ((case torrent of
                  None \<Rightarrow> None
                | Some r \<Rightarrow> if hr_code r \<noteq> 200 then None else Some r,
                if curl_session = None then None else c), w, n))) wd"

definition rpc_host :: "auto_handle \<Rightarrow> string" where
  "rpc_host ah = (case host ah of None \<Rightarrow> AM_DEFAULT_HOST | Some h \<Rightarrow> h)"

text \<open>What both functions do with the identifier an upload has returned.\<close>

definition after_upload ::
  "('w, 'doc) ext \<Rightarrow> auto_handle \<Rightarrow> string \<Rightarrow> int \<Rightarrow> web \<Rightarrow> 'w world \<Rightarrow> (int \<times> web \<times> 'w world) res"
where
  "after_upload x ah url tid w wd =
     (if tid > 0 then
        (if upspeed ah > 0
         then bindR (on_net (changeUploadSpeed (ext_pcre x) (ext_curl x) (Some url) (auth ah) tid
                       (nat (upspeed ah)) (nat (wrap_u 8 (rpc_version ah))) w) wd)
                (\<lambda>(_, w, wd). Inr (1, w, wd))
         else Inr (1, w, wd))
      else if tid = 0 then Inr (0, w, wd)
      else Inr (- 1, w, wd))"

definition addTorrentToTM ::
  "('w, 'doc) ext \<Rightarrow> auto_handle \<Rightarrow> char list option \<Rightarrow> nat \<Rightarrow> string \<Rightarrow> string option \<Rightarrow> web \<Rightarrow>
   'w world \<Rightarrow> (int \<times> web \<times> 'w world) res" where
  "addTorrentToTM x ah t_data t_size fname folder w wd =
     (if \<not> use_transmission ah then
        bindR (saveFile (Some fname) t_data t_size wd) (\<lambda>(r, wd).
          Inr (if r = 0 then 1 else - 1, w, wd))
      else if transmission_version ah = AM_TRANSMISSION_EXTERNAL then
        bindR (saveFile (Some fname) t_data t_size wd) (\<lambda>(r, wd).
          if r = 0 then
            (let (s, wd) = call_external (ext_shell x) (transmission_external ah) (Some fname) wd
             in Inr (if s \<noteq> 0 then - 1 else 1, w, remove_file fname wd))
          else Inr (- 1, w, wd))
      else if transmission_version ah = AM_TRANSMISSION_1_2 then
        bindR (saveFile (Some fname) t_data t_size wd) (\<lambda>(r, wd).
          if r = 0 then
            (let (s, wd) = call_transmission (ext_shell x) (transmission_path ah) (Some fname) wd
             in Inr (if s = - 1 then - 1 else 1, w, remove_file fname wd))
          else Inr (- 1, w, wd))
      else if transmission_version ah = AM_TRANSMISSION_1_3 then
        (let url = rpc_url (rpc_host ah) (rpc_port ah)
         in bindR (on_net (uploadTorrent (ext_pcre x) (ext_curl x) t_data t_size (Some url) (auth ah)
                     (start_torrent ah) folder w) wd)
              (\<lambda>(tid, w, wd). after_upload x ah url tid w wd))
      else Inr (- 1, w, wd))"

definition addMagnetToTM ::
  "('w, 'doc) ext \<Rightarrow> auto_handle \<Rightarrow> string \<Rightarrow> string option \<Rightarrow> web \<Rightarrow> 'w world \<Rightarrow>
   (int \<times> web \<times> 'w world) res" where
  "addMagnetToTM x ah magnet_uri folder w wd =
     (if use_transmission ah then
        (if transmission_version ah = AM_TRANSMISSION_1_3 then
           (let url = rpc_url (rpc_host ah) (rpc_port ah)
            in bindR (on_net (uploadMagnet (ext_pcre x) (ext_curl x) magnet_uri (Some url) (auth ah)
                        (start_torrent ah) folder w) wd)
                 (\<lambda>(tid, w, wd). after_upload x ah url tid w wd))
         else Inr (- 1, w, wd))
      else Inr (1, w, wd))"

section \<open>The items of a feed\<close>

text \<open>The local and global state of \<open>processRSSList\<close>.\<close>

record 'w run =
  r_session :: auto_handle
  r_curl :: "curl option"
  r_folder :: "string option"   \<comment> \<open>\<open>download_folder\<close>\<close>
  r_web :: web
  r_world :: "'w world"

definition PROWL_NEW_DOWNLOAD :: int where "PROWL_NEW_DOWNLOAD = 1"
definition PROWL_DOWNLOAD_FAILED :: int where "PROWL_DOWNLOAD_FAILED = 2"
definition PUSHOVER_NEW_DOWNLOAD :: int where "PUSHOVER_NEW_DOWNLOAD = 1"
definition PUSHOVER_DOWNLOAD_FAILED :: int where "PUSHOVER_DOWNLOAD_FAILED = 2"

definition notify ::
  "('w, 'doc) ext \<Rightarrow> int \<Rightarrow> int \<Rightarrow> string option \<Rightarrow> 'w run \<Rightarrow> 'w run res" where
  "notify x prowl_event pushover_event nm st =
     (let s = r_session st
      in bindR
           (if prowl_key_valid s then
              bindR (on_net (prowl_sendNotification (ext_pcre x) (ext_curl x) prowl_event (prowl_key s)
                       nm (r_web st)) (r_world st))
                (\<lambda>(_, w, wd). Inr (st\<lparr>r_web := w, r_world := wd\<rparr>))
            else Inr st)
           (\<lambda>st.
              if pushover_key s \<noteq> None then
                bindR (on_net (pushover_sendNotification (ext_pcre x) (ext_curl x) pushover_event
                         (pushover_key s) nm (r_web st)) (r_world st))
                  (\<lambda>(_, w, wd). Inr (st\<lparr>r_web := w, r_world := wd\<rparr>))
              else Inr st))"

text \<open>The URL a torrent is fetched from, after the feed's rewriting rule.\<close>

definition torrent_address :: "('w, 'doc) ext \<Rightarrow> rss_feed option \<Rightarrow> feed_item \<Rightarrow> string option res" where
  "torrent_address x feed item =
     bindR
       (case feed of
          None \<Rightarrow> Inr None
        | Some f \<Rightarrow>
            if feed_url_pattern f \<noteq> None \<and> feed_url_replace f \<noteq> None
            then rewriteURL (ext_pcre x) (item_url item) (feed_url_pattern f) (feed_url_replace f)
            else Inr None)
       (\<lambda>download_url. Inr (if download_url \<noteq> None then download_url else item_url item))"

definition add_item ::
  "('w, 'doc) ext \<Rightarrow> rss_feed option \<Rightarrow> feed_item \<Rightarrow> 'w run \<Rightarrow> (int \<times> 'w run) res" where
  "add_item x feed item st =
     (if isMagnetURI (item_url item) then
        bindR (addMagnetToTM x (r_session st) (the (item_url item)) (r_folder st) (r_web st) (r_world st))
          (\<lambda>(r, w, wd). Inr (r, st\<lparr>r_web := w, r_world := wd\<rparr>))
      else
        bindR (torrent_address x feed item) (\<lambda>url.
        bindR (downloadTorrent x (r_curl st) url (r_web st) (r_world st)) (\<lambda>((torrent, c), w, wd).
          let st = st\<lparr>r_curl := c, r_web := w, r_world := wd\<rparr>
          in case torrent of
               None \<Rightarrow> Inr (- 1, st)
             | Some t \<Rightarrow>
                 bindR (get_filename (hr_filename t) (item_url item) (torrent_folder (r_session st)))
                   (\<lambda>fname.
                 bindR (addTorrentToTM x (r_session st) (hr_data t) (hr_size t mod 2 ^ 32) fname
                          (r_folder st) w wd)
                   (\<lambda>(r, w, wd). Inr (r, st\<lparr>r_web := w, r_world := wd\<rparr>))))))"

definition item_key :: "feed_item \<Rightarrow> string option" where
  "item_key item = (if item_guid item \<noteq> None then item_guid item else item_url item)"

text \<open>The history grows and is written to the state file at once.\<close>

definition remember_item :: "feed_item \<Rightarrow> 'w run \<Rightarrow> 'w run" where
  "remember_item item st =
     (let s = r_session st;
          s = s\<lparr>downloads := remember (item_key item) (downloads s) (max_bucket_items s),
               bucket_changed := True\<rparr>
      in st\<lparr>r_session := s,
           r_world := snd (save_state (statefile s) (map Some (downloads s)) (r_world st))\<rparr>)"

definition item_result ::
  "('w, 'doc) ext \<Rightarrow> feed_item \<Rightarrow> int \<times> 'w run \<Rightarrow> 'w run res" where
  "item_result x item = (\<lambda>(r, st).
     if r \<ge> 0 then
       bindR (if r > 0 then notify x PROWL_NEW_DOWNLOAD PUSHOVER_NEW_DOWNLOAD (item_name item) st
              else Inr st)
         (\<lambda>st. Inr (remember_item item st))
     else notify x PROWL_DOWNLOAD_FAILED PUSHOVER_DOWNLOAD_FAILED (item_name item) st)"

definition process_item ::
  "('w, 'doc) ext \<Rightarrow> rss_feed option \<Rightarrow> feed_item \<Rightarrow> 'w run \<Rightarrow> 'w run res" where
  "process_item x feed item st =
     (let s = r_session st;
          feedID = (case feed of None \<Rightarrow> None | Some f \<Rightarrow> feed_id f);
          (m, folder) = isMatch (ext_pcre x) (filters s) (item_name item) feedID (r_folder st);
          st = st\<lparr>r_folder := folder\<rparr>
      in if m = 0 then Inr st
         else if match_only s then Inr st
         else if seen (downloads s) item then Inr st
         else bindR (add_item x feed item st) (item_result x item))"

fun process_items ::
  "('w, 'doc) ext \<Rightarrow> rss_feed option \<Rightarrow> feed_item list \<Rightarrow> 'w run \<Rightarrow> 'w run res" where
  "process_items x feed [] st = Inr st"
| "process_items x feed (i # is) st = bindR (process_item x feed i st) (process_items x feed is)"

definition processRSSList ::
  "('w, 'doc) ext \<Rightarrow> auto_handle \<Rightarrow> curl option \<Rightarrow> feed_item list \<Rightarrow> rss_feed option \<Rightarrow> web \<Rightarrow>
   'w world \<Rightarrow> 'w run res" where
  "processRSSList x session curl_session items feed w wd =
     process_items x feed items
       \<lparr>r_session = session, r_curl = curl_session, r_folder = None, r_web = w, r_world = wd\<rparr>"

section \<open>Feeds and files\<close>

definition getRSSFeed ::
  "('w, 'doc) ext \<Rightarrow> rss_feed \<Rightarrow> web \<Rightarrow> 'w world \<Rightarrow>
   ((HTTPResponse option \<times> curl option) \<times> web \<times> 'w world) res" where
  "getRSSFeed x feed w wd =
     on_net (\<lambda>n. bindR (getHTTPData (ext_pcre x) (ext_curl x) (feed_url feed) (feed_cookies feed) None w n)
       (\<lambda>(r, c, w, n). Inr ((r, c), w, n))) wd"

text \<open>\<^verbatim>\<open>session->max_bucket_items += item_count;\<close> in 16 bits\<close>

definition grow_bucket :: "nat \<Rightarrow> auto_handle \<Rightarrow> auto_handle" where
  "grow_bucket item_count s = s\<lparr>max_bucket_items := (max_bucket_items s + item_count) mod 2 ^ 16\<rparr>"

text \<open>
  \<open>processFeed(session, feed, firstrun)\<close>, where \<open>feed\<close> is element \<open>k\<close> of the session's list;
  its TTL is updated in place.  The result is the number of items (a \<open>uint16_t\<close>), the session
  and the rest.
\<close>

definition processFeed ::
  "('w, 'doc) ext \<Rightarrow> auto_handle \<Rightarrow> nat \<Rightarrow> bool \<Rightarrow> web \<Rightarrow> 'w world \<Rightarrow>
   (nat \<times> auto_handle \<times> web \<times> 'w world) res" where
  "processFeed x session k firstrun w wd =
     (let feed = feeds session ! k
      in bindR (getRSSFeed x feed w wd) (\<lambda>((response, c), w, wd).
           if c = None \<and> response \<noteq> None then Inl Abort
           else case response of
             None \<Rightarrow> Inr (0, session, w, wd)
           | Some r \<Rightarrow>
               (if hr_code r = 200 \<and> hr_data r \<noteq> None then
                  bindR (parse_xmldata (ext_xml x) (hr_data r) (hr_size r mod 2 ^ 32)
                           (Some (feed_ttl feed))) (\<lambda>(items, item_count, ttl).
                    let feed = feed\<lparr>feed_ttl := the ttl\<rparr>;
                        session = session\<lparr>feeds := (feeds session)[k := feed]\<rparr>;
                        session = (if firstrun then grow_bucket item_count session else session)
                    in bindR (processRSSList x session c items (Some feed) w wd) (\<lambda>st.
                         Inr (item_count mod 2 ^ 16, r_session st, r_web st, r_world st)))
                else Inr (0, session, w, wd))))"

text \<open>\<open>dummy_ttl\<close> is never initialised and never read.\<close>

definition processFile ::
  "('w, 'doc) ext \<Rightarrow> auto_handle \<Rightarrow> string option \<Rightarrow> web \<Rightarrow> 'w world \<Rightarrow>
   (nat \<times> auto_handle \<times> web \<times> 'w world) res" where
  "processFile x session xmlfile w wd =
     (case xmlfile of
        None \<Rightarrow> Inl AssertFail
      | Some f \<Rightarrow>
          (if f = [] then Inl AssertFail
           else case readFile f wd of
             None \<Rightarrow> Inr (0, session, w, wd)
           | Some (xmldata, fileLen) \<Rightarrow>
               (let fileLen = length (cstr xmldata)
                in bindR (parse_xmldata (ext_xml x) (Some xmldata) fileLen (Some 0))
                     (\<lambda>(items, item_count, ttl).
                        bindR (processRSSList x (grow_bucket item_count session) None items None w wd)
                          (\<lambda>st. Inr (item_count mod 2 ^ 16, r_session st, r_web st, r_world st))))))"

end
