(* ===== verification/Am_Process_Laws.thy ===== *)
theory Am_Process_Laws
  imports Am_Process "HOL-Library.Sublist"
begin

text \<open>
  What a check of the feeds does, and does not do: which items are taken, what happens to the
  history, when nothing is requested at all.
\<close>

section \<open>Frames\<close>

definition wanted :: "('w, 'doc) ext \<Rightarrow> rss_feed option \<Rightarrow> auto_handle \<Rightarrow> feed_item \<Rightarrow> bool" where
  "wanted x feed s item \<longleftrightarrow>
     (\<exists>f \<in> set (filters s).
        wanted_by (ext_pcre x) (item_name item) (case feed of None \<Rightarrow> None | Some f \<Rightarrow> feed_id f) f)"

lemma isMatch_wanted:
  "fst (isMatch re fs nm i folder) = (if \<exists>f \<in> set fs. wanted_by re nm i f then 1 else 0)"
  by (auto simp: isMatch_find find_None_iff find_Some_iff split: option.splits)

lemma notify_session: "notify x p q nm st = Inr st' \<Longrightarrow> r_session st' = r_session st"
  by (auto simp: notify_def bindR_Inr_iff Let_def split: if_splits)

lemma add_item_session: "add_item x feed i st = Inr (r, st') \<Longrightarrow> r_session st' = r_session st"
  by (auto simp: add_item_def bindR_Inr_iff Let_def split: if_splits option.splits)

definition remembered :: "feed_item \<Rightarrow> auto_handle \<Rightarrow> auto_handle" where
  "remembered i s = s\<lparr>downloads := remember (item_key i) (downloads s) (max_bucket_items s),
     bucket_changed := True\<rparr>"

lemma remember_item_session: "r_session (remember_item i st) = remembered i (r_session st)"
  by (simp add: remember_item_def remembered_def Let_def)

lemma remembered_frame [simp]:
  "filters (remembered i s) = filters s" "match_only (remembered i s) = match_only s"
  "feeds (remembered i s) = feeds s" "max_bucket_items (remembered i s) = max_bucket_items s"
  "wanted x feed (remembered i s) = wanted x feed s"
  by (simp_all add: remembered_def wanted_def fun_eq_iff)

lemma item_result_session:
  "item_result x i (r, st) = Inr st' \<Longrightarrow>
   r_session st' = (if r \<ge> 0 then remembered i (r_session st) else r_session st)"
  by (auto simp: item_result_def bindR_Inr_iff remember_item_session
      dest!: notify_session split: if_splits)

text \<open>An item that is not wanted, not to be downloaded, or known already leaves no trace.\<close>

definition idle :: "('w, 'doc) ext \<Rightarrow> rss_feed option \<Rightarrow> auto_handle \<Rightarrow> feed_item \<Rightarrow> bool" where
  "idle x feed s i \<longleftrightarrow> \<not> wanted x feed s i \<or> match_only s \<or> seen (downloads s) i"

lemma process_item_cases:
  obtains f where
    "process_item x feed i st =
       (if idle x feed (r_session st) i then Inr (st\<lparr>r_folder := f\<rparr>)
        else bindR (add_item x feed i (st\<lparr>r_folder := f\<rparr>)) (item_result x i))"
proof -
  let ?m = "isMatch (ext_pcre x) (filters (r_session st)) (item_name i)
      (case feed of None \<Rightarrow> None | Some f \<Rightarrow> feed_id f) (r_folder st)"
  have w: "wanted x feed (r_session st) i \<longleftrightarrow> fst ?m \<noteq> 0"
    unfolding isMatch_wanted by (simp add: wanted_def)
  obtain m f where "?m = (m, f)" by force
  with w have "process_item x feed i st =
       (if idle x feed (r_session st) i then Inr (st\<lparr>r_folder := f\<rparr>)
        else bindR (add_item x feed i (st\<lparr>r_folder := f\<rparr>)) (item_result x i))"
    by (simp add: process_item_def idle_def Let_def)
  then show thesis by (rule that)
qed

lemma process_item_session:
  assumes "process_item x feed i st = Inr st'"
  shows "r_session st' = r_session st \<or>
    (wanted x feed (r_session st) i \<and> \<not> match_only (r_session st) \<and>
     r_session st' = remembered i (r_session st))"
proof -
  obtain f where f: "process_item x feed i st =
       (if idle x feed (r_session st) i then Inr (st\<lparr>r_folder := f\<rparr>)
        else bindR (add_item x feed i (st\<lparr>r_folder := f\<rparr>)) (item_result x i))"
    by (rule process_item_cases)
  show ?thesis
  proof (cases "idle x feed (r_session st) i")
    case True
    with f assms show ?thesis by auto
  next
    case False
    with f assms have "bindR (add_item x feed i (st\<lparr>r_folder := f\<rparr>)) (item_result x i) = Inr st'"
      by simp
    then obtain r st1 where "add_item x feed i (st\<lparr>r_folder := f\<rparr>) = Inr (r, st1)"
      "item_result x i (r, st1) = Inr st'" by (auto simp: bindR_Inr_iff)
    with add_item_session [of x feed i] have s: "r_session st1 = r_session st"
      "r_session st' = (if r \<ge> 0 then remembered i (r_session st) else r_session st)"
      by (auto dest: item_result_session)
    from False have "wanted x feed (r_session st) i" "\<not> match_only (r_session st)"
      by (simp_all add: idle_def)
    with s(2) show ?thesis by (simp split: if_splits)
  qed
qed

definition remember_all :: "feed_item list \<Rightarrow> auto_handle \<Rightarrow> auto_handle" where
  "remember_all js s = fold remembered js s"

lemma remember_all_simps [simp]:
  "remember_all [] s = s" "remember_all (j # js) s = remember_all js (remembered j s)"
  by (simp_all add: remember_all_def)

lemma process_items_session:
  assumes "process_items x feed items st = Inr st'"
  shows "\<exists>js. subseq js (if match_only (r_session st) then []
                         else filter (wanted x feed (r_session st)) items) \<and>
    r_session st' = remember_all js (r_session st)"
  using assms
proof (induction items arbitrary: st)
  case Nil
  then show ?case by (auto intro: exI [of _ "[]"])
next
  case (Cons i items)
  let ?s = "r_session st"
  from Cons.prems obtain st1 where 1: "process_item x feed i st = Inr st1"
    "process_items x feed items st1 = Inr st'" by (auto simp: bindR_Inr_iff)
  from Cons.IH [OF 1(2)] obtain js where js:
    "subseq js (if match_only (r_session st1) then [] else filter (wanted x feed (r_session st1)) items)"
    "r_session st' = remember_all js (r_session st1)" by blast
  from process_item_session [OF 1(1)] show ?case
  proof
    assume "r_session st1 = ?s"
    with js show ?thesis by (auto intro!: exI [of _ js] split: if_splits)
  next
    assume "wanted x feed ?s i \<and> \<not> match_only ?s \<and> r_session st1 = remembered i ?s"
    with js show ?thesis by (auto intro!: exI [of _ "i # js"])
  qed
qed

lemma processRSSList_session:
  assumes "processRSSList x s c items feed w wd = Inr st"
  shows "\<exists>js. subseq js (if match_only s then [] else filter (wanted x feed s) items) \<and>
    r_session st = remember_all js s"
  using process_items_session [of x feed items] assms by (fastforce simp: processRSSList_def)

lemma remember_all_frame [simp]:
  "filters (remember_all js s) = filters s" "match_only (remember_all js s) = match_only s"
  "feeds (remember_all js s) = feeds s" "max_bucket_items (remember_all js s) = max_bucket_items s"
  by (induction js arbitrary: s) simp_all

lemma remember_all_bound:
  "0 < max_bucket_items s \<Longrightarrow> length (downloads s) \<le> max_bucket_items s \<Longrightarrow>
   length (downloads (remember_all js s)) \<le> max_bucket_items s"
proof (induction js arbitrary: s)
  case (Cons j js)
  have "length (downloads (remembered j s)) \<le> max_bucket_items s"
    using Cons.prems by (simp add: remembered_def remember_length)
  with Cons.IH [of "remembered j s"] Cons.prems(1) show ?case by simp
qed simp

lemma process_items_idle:
  "\<forall>i \<in> set items. idle x feed (r_session st) i \<Longrightarrow>
   \<exists>f. process_items x feed items st = Inr (st\<lparr>r_folder := f\<rparr>)"
proof (induction items arbitrary: st)
  case Nil
  show ?case by (rule exI [of _ "r_folder st"]) simp
next
  case (Cons i items)
  obtain f where "process_item x feed i st =
       (if idle x feed (r_session st) i then Inr (st\<lparr>r_folder := f\<rparr>)
        else bindR (add_item x feed i (st\<lparr>r_folder := f\<rparr>)) (item_result x i))"
    by (rule process_item_cases)
  with Cons.prems have i: "process_item x feed i st = Inr (st\<lparr>r_folder := f\<rparr>)" by simp
  have "\<exists>g. process_items x feed items (st\<lparr>r_folder := f\<rparr>) = Inr (st\<lparr>r_folder := f, r_folder := g\<rparr>)"
    using Cons.IH [of "st\<lparr>r_folder := f\<rparr>"] Cons.prems by simp
  with i show ?case by auto
qed

section \<open>Files written by a check\<close>

lemma remember_item_saved:
  fixes st :: "'w run" and i :: feed_item
  defines "s \<equiv> remembered i (r_session st)"
  assumes "statefile (r_session st) = Some f" "\<forall>e \<in> set (downloads s). storable e"
    and "may_write (r_world st) f" "may_read (r_world st) f"
    and "length (state_text (downloads s)) \<le> room (r_world st)"
  shows "load_state f [] (r_world (remember_item i st)) = (0, downloads s)"
proof -
  obtain wd' where 1: "save_state (Some f) (map Some (downloads s)) (r_world st) = (0, wd')"
    "files wd' f = Some (state_text (downloads s))" "same_machine (r_world st) wd'"
    using save_state_text [OF assms(4,6)] by blast
  have "r_world (remember_item i st) = wd'"
    using 1(1) assms(2) by (simp add: remember_item_def Let_def s_def remembered_def)
  with 1(2,3) assms(3,5) show ?thesis
    by (simp add: load_state_def fopen_r_def same_machine_def load_loop_text)
qed

section \<open>Adding without RPC\<close>

lemma saveFile_nonzero:
  assumes "saveFile name data sz wd = Inr (r, wd')" "0 < sz" "sz < 2 ^ 32"
  shows "r \<noteq> 0"
proof
  assume "r = 0"
  with assms(1) have "wrap_s 32 (int sz) = 0"
    by (auto simp: saveFile_def Let_def split: option.splits if_splits)
  then have "(int sz + 2 ^ 31) mod 2 ^ 32 = 2 ^ 31" by (simp add: wrap_s_def)
  then have "(int sz + 2 ^ 31 - 2 ^ 31) mod 2 ^ 32 = (2 ^ 31 - 2 ^ 31) mod 2 ^ 32"
    by (metis mod_diff_left_eq)
  then show False using assms(2,3) by simp
qed

section \<open>Examples\<close>

text \<open>A server that answers every request, and regular expressions that always match.\<close>

definition lab_pcre :: pcre where
  "lab_pcre = \<lparr>pcre_compile = (\<lambda>p. True), pcre_fullinfo = (\<lambda>p. (0, 1)),
     pcre_exec = (\<lambda>p s n. if n = 0 then 0 else 2),
     pcre_substrings = (\<lambda>p s n. Some (s # (if p = id_regex then ''7'' else ''success'') #
       replicate (nat n - 2) []))\<rparr>"

definition lab_curl :: "unit curl_lib" where
  "lab_curl = \<lparr>curl_easy_init = (\<lambda>_. True), curl_easy_perform = (\<lambda>c n.
     (\<lparr>t_events = [Body (if opt_post c then ''{success, 7}'' else ''d4:infoe'')],
       t_result = 0, t_status = 200\<rparr>, ()))\<rparr>"

definition lab_xml :: "unit xml_lib" where
  "lab_xml = \<lparr>xmlParseMemory = (\<lambda>_ _. None), xmlRecoverMemory = (\<lambda>_ _. None),
     xmlXPathNewContext = (\<lambda>_. False), xpath = (\<lambda>_ _. None)\<rparr>"

definition lab_ext :: "(unit, unit) ext" where
  "lab_ext = \<lparr>ext_pcre = lab_pcre, ext_curl = lab_curl, ext_xml = lab_xml,
     ext_shell = (\<lambda>cmd w. (0, w)), ext_env = \<lparr>getenv = (\<lambda>_. None), pw_dir = None\<rparr>\<rparr>"

definition lab_item :: "string \<Rightarrow> feed_item" where
  "lab_item u = newFeedItem\<lparr>item_name := Some ''linux.iso'', item_url := Some u\<rparr>"

lemma lab_wanted: "filters s = filters lab_session \<Longrightarrow> wanted lab_ext feed s (lab_item u)"
  by (simp add: wanted_def wanted_by_def applies_def isRegExMatch_def init_regex_def lab_ext_def
      lab_pcre_def lab_session_def lab_item_def)

lemma lab_lists: "pcre_lists lab_pcre"
  by (auto simp: pcre_lists_def lab_pcre_def)

lemma lab_fields [simp]:
  "use_transmission lab_session" "transmission_version lab_session = AM_TRANSMISSION_1_3"
  "upspeed lab_session = - 1" "\<not> match_only lab_session" "\<not> prowl_key_valid lab_session"
  "pushover_key lab_session = None" "rpc_host lab_session = ''localhost''"
  "rpc_port lab_session = 9091" "downloads lab_session = []"
  "torrent_folder lab_session = Some ''/tmp''" "max_bucket_items lab_session = 30"
  "statefile lab_session = None"
  by (simp_all add: lab_session_def rpc_host_def AM_DEFAULT_HOST_def)

lemma lab_ext_fields [simp]:
  "ext_pcre lab_ext = lab_pcre" "ext_curl lab_ext = lab_curl" "ext_xml lab_ext = lab_xml"
  by (simp_all add: lab_ext_def)

lemma lab_item_fields [simp]:
  "item_name (lab_item u) = Some ''linux.iso''" "item_url (lab_item u) = Some u"
  "item_guid (lab_item u) = None" "item_key (lab_item u) = Some u" "\<not> seen [] (lab_item u)"
  by (simp_all add: lab_item_def newFeedItem_def item_key_def seen_def hasGUID_def)

lemma lab_filename: "get_filename None (Some ''t42'') (Some ''/tmp'') = Inr ''/tmp/t42''"
  by (simp add: get_filename_def strtok_tokens.simps [of _ "''t42''"] strtok_tokens_nil PATH_MAX_def
      snprintf_buf_def printf_s_def)

lemma lab_matches:
  "isMatch lab_pcre (filters lab_session) (Some ''linux.iso'') i folder = (1, None)"
  by (simp add: applies_def isRegExMatch_def init_regex_def lab_pcre_def lab_session_def)

lemma atoi_seven: "atoi ''7'' = 7"
  by (simp add: atoi_def strtol_def isspace_def isdigit_def code_def digit_val_def wrap_s_def)

lemma lab_captures:
  "s \<noteq> [] \<Longrightarrow> getRegExMatch lab_pcre (Some p) (Some s) (Suc 0) =
     Inr (Some (if p = id_regex then ''7'' else ''success''))"
  by (simp add: getRegExMatch_def getRegExCaptureGroups_def init_regex_def getPCRECaptureCount_def
      lab_pcre_def Let_def am_strdup_def am_strndup_def NUL_def am_strstrip_eq strip_ref_def
      isspace_def code_def)

lemma result_not_id: "result_regex \<noteq> id_regex"
  by (simp add: result_regex_def id_regex_def quoted_def)

section \<open>Properties\<close>

text \<open>C16: a check never loses or invents history: the session after \<open>processRSSList\<close> is the one before
  with some of the wanted items remembered, in the order of the feed and each by one call of
  \<open>addToBucket\<close>; with \<open>match_only\<close> none is.  Filters, feeds and settings stay as they were.\<close>

theorem processRSSList_history:
  "case processRSSList x s c items feed w wd of
     Inl _ \<Rightarrow> True
   | Inr st \<Rightarrow> \<exists>js. subseq js (if match_only s then [] else filter (wanted x feed s) items) \<and>
       r_session st = remember_all js s"
  using processRSSList_session [of x s c items feed w wd] by (cases "processRSSList x s c items feed w wd") simp_all

text \<open>The history never outgrows its limit during a check.\<close>

theorem processRSSList_bound:
  assumes "0 < max_bucket_items s" "length (downloads s) \<le> max_bucket_items s"
  shows "case processRSSList x s c items feed w wd of
      Inl _ \<Rightarrow> True
    | Inr st \<Rightarrow> length (downloads (r_session st)) \<le> max_bucket_items (r_session st)"
proof (cases "processRSSList x s c items feed w wd")
  case (Inr st)
  then obtain js where "r_session st = remember_all js s"
    using processRSSList_session by blast
  with Inr remember_all_bound [OF assms, of js] show ?thesis by simp
qed simp

theorem processRSSList_bound_witness:
  "case processRSSList lab_ext lab_session None [lab_item ''t42''] None web0 disk1 of
      Inl _ \<Rightarrow> True
    | Inr st \<Rightarrow> length (downloads (r_session st)) \<le> max_bucket_items (r_session st)"
  by (rule processRSSList_bound) simp_all

text \<open>No traffic without need: when no item of the feed is both wanted and new, or the session only
  matches, a check requests nothing, writes nothing and leaves session and connection as they
  are.\<close>

theorem processRSSList_idle:
  assumes "\<forall>i \<in> set items. \<not> wanted x feed s i \<or> match_only s \<or> seen (downloads s) i"
  shows "\<exists>f. processRSSList x s c items feed w wd =
    Inr \<lparr>r_session = s, r_curl = c, r_folder = f, r_web = w, r_world = wd\<rparr>"
  using process_items_idle [of items x feed
      "\<lparr>r_session = s, r_curl = c, r_folder = None, r_web = w, r_world = wd\<rparr>"] assms
  by (simp add: processRSSList_def idle_def)

theorem processRSSList_idle_witness:
  "\<exists>f. processRSSList lab_ext (lab_session\<lparr>downloads := [''t42'']\<rparr>) None [lab_item ''t42''] None web0
      disk1 =
    Inr \<lparr>r_session = lab_session\<lparr>downloads := [''t42'']\<rparr>, r_curl = None, r_folder = f, r_web = web0,
      r_world = disk1\<rparr>"
  by (rule processRSSList_idle) (simp add: seen_def hasGUID_def)

text \<open>Torrents are lost without the RPC interface: when Transmission is disabled, external, or older
  than 1.3, \<open>addTorrentToTM\<close> fails for every non-empty torrent without calling any program,
  because \<open>saveFile\<close> returns the number of bytes where its callers expect 0.\<close>

theorem addTorrentToTM_without_rpc:
  assumes "\<not> use_transmission ah \<or> transmission_version ah \<noteq> AM_TRANSMISSION_1_3"
    and "0 < sz" "sz < 2 ^ 32"
  shows "addTorrentToTM x ah data sz fname folder w wd =
      addTorrentToTM (x\<lparr>ext_shell := shell\<rparr>) ah data sz fname folder w wd
    \<and> (case addTorrentToTM x ah data sz fname folder w wd of
        Inl _ \<Rightarrow> True
      | Inr (r, w', wd') \<Rightarrow> r = - 1 \<and> w' = w \<and> net wd' = net wd)"
proof (cases "saveFile (Some fname) data sz wd")
  case (Inl f)
  with assms(1) show ?thesis by (simp add: addTorrentToTM_def)
next
  case (Inr y)
  obtain r wd' where y: "y = (r, wd')" by (cases y)
  with Inr have r: "saveFile (Some fname) data sz wd = Inr (r, wd')" by simp
  have "r \<noteq> 0" "net wd' = net wd"
    using saveFile_nonzero [OF r assms(2,3)] saveFile_frame [OF r] by (simp_all add: same_machine_def)
  with r assms(1) show ?thesis by (simp add: addTorrentToTM_def)
qed

theorem addTorrentToTM_without_rpc_witness:
  "addTorrentToTM lab_ext (lab_session\<lparr>use_transmission := False\<rparr>) (Some ''d4:infoe'') 9 ''/tmp/t'' None
      web0 disk1 =
    addTorrentToTM (lab_ext\<lparr>ext_shell := (\<lambda>cmd wd. (256, wd))\<rparr>) (lab_session\<lparr>use_transmission := False\<rparr>)
      (Some ''d4:infoe'') 9 ''/tmp/t'' None web0 disk1
    \<and> (case addTorrentToTM lab_ext (lab_session\<lparr>use_transmission := False\<rparr>) (Some ''d4:infoe'') 9
          ''/tmp/t'' None web0 disk1 of
        Inl _ \<Rightarrow> True
      | Inr (r, w', wd') \<Rightarrow> r = - 1 \<and> w' = web0 \<and> net wd' = net disk1)"
  by (rule addTorrentToTM_without_rpc) simp_all

text \<open>The steps of a new torrent's way: its download, its upload to Transmission, and the bookkeeping
  around a successful \<open>add_item\<close>.\<close>

lemma downloadTorrent_ok:
  assumes "pcre_lists (ext_pcre x)" "list_all unnamed hs" "list_all (modest (ext_pcre x)) hs"
    and "data = concat bs" "data \<noteq> []" "hd data \<noteq> NUL"
    and "curl_easy_perform (ext_curl x) (get_request u None c) (net wd) =
      (\<lparr>t_events = map Header hs @ map Body bs, t_result = 0, t_status = 200\<rparr>, n1)"
  obtains resp w1 where "downloadTorrent x (Some c) (Some u) w wd =
      Inr ((Some resp, Some (get_request u None c)), w1, wd\<lparr>net := n1\<rparr>)"
    "hr_data resp = Some data" "hr_size resp = length data" "gSessionID w1 = gSessionID w"
    "hr_filename resp = None"
proof -
  obtain resp w1 where "getHTTPData (ext_pcre x) (ext_curl x) (Some u) None (Some c) w (net wd) =
      Inr (Some resp, Some (get_request u None c), w1, n1)"
    "hr_data resp = Some data" "hr_size resp = length data" "hr_code resp = 200"
    "gSessionID w1 = gSessionID w" "hr_filename resp = None"
    using get_events_ok [OF assms(1), of bs hs "Some u" w 200] assms(2-7)
    by (auto simp: getHTTPData_def Let_def)
  then show ?thesis by (intro that [of resp w1]) (simp_all add: downloadTorrent_def on_net_def)
qed

lemma addTorrentToTM_ok:
  fixes folder
  defines "packet \<equiv> \<lambda>data s. torrent_add ''metainfo'' (encode_loop [] data) (folder_part folder) (start_torrent s)"
  assumes "use_transmission s" "transmission_version s = AM_TRANSMISSION_1_3" "upspeed s \<le> 0"
      "length (rpc_host s) < 900" "NUL \<notin> set (rpc_host s)" "rpc_port s < 65536"
    and "data \<noteq> []" "length data + folder_size folder < 2 ^ 30"
    and "session_short w" "curl_easy_init (ext_curl x) (net wd)"
      "curl_easy_perform (ext_curl x)
        (rpc_handle (rpc_url (rpc_host s) (rpc_port s)) (auth s) (packet data s) (session_headers w))
        (net wd) = (\<lparr>t_events = [Body ans], t_result = 0, t_status = 200\<rparr>, n2)"
    and "ans \<noteq> []" "hd ans \<noteq> NUL" "parseResponse (ext_pcre x) (Some (cstr ans)) = Inr (Some t)"
      "strncmp_eq 7 t ''success''" "parseTorrentID (ext_pcre x) (Some (cstr ans)) = Inr tid" "0 \<le> tid"
  shows "addTorrentToTM x s (Some data) (length data) fname folder w wd =
    Inr (if tid > 0 then 1 else 0, w\<lparr>gbGlobalInitDone := True\<rparr>, wd\<lparr>net := n2\<rparr>)"
proof -
  let ?url = "rpc_url (rpc_host s) (rpc_port s)" and ?packet = "packet data s"
  have "?packet \<noteq> []" using torrent_add_nonempty by (auto simp: packet_def)
  then have "sendTransmissionRPC (ext_pcre x) (ext_curl x) (Some ?packet) (length ?packet) (Some ?url)
      (auth s) w (net wd) = Inr (tid, w\<lparr>gbGlobalInitDone := True\<rparr>, n2)"
    using rpc_url_ok [OF assms(5,7,6)] assms by (intro sendTransmissionRPC_ok) simp_all
  moreover have "makeTorrentAddMetaInfoJSON (Some data) (length data) (start_torrent s) folder =
      Inr (Some ?packet, length ?packet)"
    using makeTorrentAddMetaInfoJSON_ok [of data folder "start_torrent s"] assms(8,9)
    by (simp add: packet_def)
  ultimately have "uploadTorrent (ext_pcre x) (ext_curl x) (Some data) (length data) (Some ?url)
      (auth s) (start_torrent s) folder w (net wd) = Inr (tid, w\<lparr>gbGlobalInitDone := True\<rparr>, n2)"
    by (simp add: uploadTorrent_def)
  moreover have "AM_TRANSMISSION_1_3 \<noteq> AM_TRANSMISSION_EXTERNAL"
    "AM_TRANSMISSION_1_3 \<noteq> AM_TRANSMISSION_1_2" by (simp_all add: am_consts)
  ultimately show ?thesis
    using assms(2-4,18) by (simp add: addTorrentToTM_def on_net_def after_upload_def Let_def)
qed

lemma processRSSList_taken:
  assumes "\<not> match_only s" "\<not> prowl_key_valid s" "pushover_key s = None"
    and "wanted x feed s i" "\<not> seen (downloads s) i"
    and "snd (isMatch (ext_pcre x) (filters s) (item_name i)
       (case feed of None \<Rightarrow> None | Some f \<Rightarrow> feed_id f) None) = folder"
    and "add_item x feed i \<lparr>r_session = s, r_curl = c, r_folder = folder, r_web = w, r_world = wd\<rparr> = Inr (r, st)"
    and "r_session st = s" "0 \<le> r"
  shows "processRSSList x s c [i] feed w wd = Inr (remember_item i st)"
proof -
  let ?st = "\<lparr>r_session = s, r_curl = c, r_folder = None, r_web = w, r_world = wd\<rparr>"
  have nt: "notify x p q nm st = Inr st" for p q nm
    using assms(2,3,8) by (simp add: notify_def Let_def)
  have "fst (isMatch (ext_pcre x) (filters s) (item_name i)
      (case feed of None \<Rightarrow> None | Some f \<Rightarrow> feed_id f) None) = 1"
    using assms(4) unfolding isMatch_wanted by (simp add: wanted_def)
  with assms(6) have "isMatch (ext_pcre x) (filters s) (item_name i)
      (case feed of None \<Rightarrow> None | Some f \<Rightarrow> feed_id f) None = (1, folder)"
    by (metis prod.collapse)
  then have "process_item x feed i ?st = item_result x i (r, st)"
    using assms(1,5,7) by (simp add: process_item_def Let_def)
  also have "\<dots> = Inr (remember_item i st)" using assms(9) by (simp add: item_result_def nt)
  finally show ?thesis by (simp add: processRSSList_def)
qed

text \<open>C2: a new torrent goes all the way: a wanted, unknown item whose address answers with a torrent is
  fetched over the feed's connection, handed to Transmission in one RPC request (with the session
  identifier, if one is known) that carries exactly the bytes received, and, when Transmission
  answers with an identifier, remembered in the history; nothing else is requested.\<close>

theorem new_torrent_added:
  assumes session: "use_transmission s" "transmission_version s = AM_TRANSMISSION_1_3" "upspeed s \<le> 0"
      "\<not> match_only s" "\<not> prowl_key_valid s" "pushover_key s = None"
      "length (rpc_host s) < 900" "NUL \<notin> set (rpc_host s)" "rpc_port s < 65536"
    and item: "wanted x feed s i" "\<not> seen (downloads s) i" "\<not> isMagnetURI (item_url i)"
      "torrent_address x feed i = Inr (Some u)"
      "get_filename None (item_url i) (torrent_folder s) = Inr fname"
      "snd (isMatch (ext_pcre x) (filters s) (item_name i)
         (case feed of None \<Rightarrow> None | Some f \<Rightarrow> feed_id f) None) = folder"
    and download: "pcre_lists (ext_pcre x)" "list_all unnamed hs" "list_all (modest (ext_pcre x)) hs"
      "data = concat bs" "data \<noteq> []" "hd data \<noteq> NUL" "length data + folder_size folder < 2 ^ 30"
      "curl_easy_perform (ext_curl x) (get_request u None c) (net wd) =
        (\<lparr>t_events = map Header hs @ map Body bs, t_result = 0, t_status = 200\<rparr>, n1)"
    and upload: "session_short w" "curl_easy_init (ext_curl x) n1"
      "curl_easy_perform (ext_curl x)
        (rpc_handle (rpc_url (rpc_host s) (rpc_port s)) (auth s)
          (torrent_add ''metainfo'' (encode_loop [] data) (folder_part folder) (start_torrent s))
          (session_headers w)) n1 =
        (\<lparr>t_events = [Body ans], t_result = 0, t_status = 200\<rparr>, n2)"
    and answer: "ans \<noteq> []" "hd ans \<noteq> NUL" "parseResponse (ext_pcre x) (Some (cstr ans)) = Inr (Some t)"
      "strncmp_eq 7 t ''success''" "parseTorrentID (ext_pcre x) (Some (cstr ans)) = Inr tid" "0 \<le> tid"
  shows "\<exists>st. processRSSList x s (Some c) [i] feed w wd = Inr st \<and>
    r_session st = remembered i s \<and> net (r_world st) = n2"
proof -
  let ?st = "\<lparr>r_session = s, r_curl = Some c, r_folder = None, r_web = w, r_world = wd\<rparr>"
  let ?r = "if tid > 0 then 1 else 0 :: int"
  have r0: "0 \<le> ?r" by (cases "tid > 0") simp_all
  obtain resp w1 where dl: "downloadTorrent x (Some c) (Some u) w wd =
      Inr ((Some resp, Some (get_request u None c)), w1, wd\<lparr>net := n1\<rparr>)"
    and resp: "hr_data resp = Some data" "hr_size resp = length data"
      "gSessionID w1 = gSessionID w" "hr_filename resp = None"
    using downloadTorrent_ok [OF download(1-3)] download(4-6,8) by metis
  have w1: "session_short w1" "session_headers w1 = session_headers w"
    using upload(1) resp(3) by (simp_all add: session_short_def session_headers_def)
  have add: "addTorrentToTM x s (Some data) (length data) fname folder w1 (wd\<lparr>net := n1\<rparr>) =
      Inr (?r, w1\<lparr>gbGlobalInitDone := True\<rparr>, wd\<lparr>net := n1\<rparr>\<lparr>net := n2\<rparr>)"
    by (rule addTorrentToTM_ok [OF session(1-3,7-9) download(5,7)])
      (use upload(2,3) answer w1 in simp_all)
  have m: "length data mod 2 ^ 32 = length data" using download(7) by simp
  obtain st1 where st1: "add_item x feed i (?st\<lparr>r_folder := folder\<rparr>) = Inr (?r, st1)"
    "r_session st1 = s" "net (r_world st1) = n2"
    using item(3,4,5) m add by (simp add: add_item_def dl resp Let_def)
  have "processRSSList x s (Some c) [i] feed w wd = Inr (remember_item i st1)"
    by (rule processRSSList_taken [OF session(4-6) item(1,2,6) _ st1(2) r0]) (use st1(1) in simp)
  moreover have "net (r_world (remember_item i st1)) = n2"
    using save_state_machine st1(3) by (auto simp: remember_item_def Let_def same_machine_def)
  ultimately show ?thesis using st1(2) remember_item_session by metis
qed

theorem new_torrent_added_witness:
  "\<exists>st. processRSSList lab_ext lab_session (Some (handle0\<lparr>opt_post := False\<rparr>)) [lab_item ''t42''] None
      web0 disk1 = Inr st \<and>
    r_session st = remembered (lab_item ''t42'') lab_session \<and> net (r_world st) = ()"
  by (rule new_torrent_added [where u = "''t42''" and fname = "''/tmp/t42''" and folder = None and
        hs = "[]" and bs = "[''d4:infoe'']" and data = "''d4:infoe''" and ?n1.0 = "()" and
        ans = "''{success, 7}''" and t = "''success''" and tid = 7])
    (use lab_lists in \<open>simp_all add: lab_wanted lab_matches lab_filename isMagnetURI_def
      torrent_address_def NUL_def folder_size_def web0_def session_short_def lab_curl_def
      rpc_handle_def get_request_def handle0_def parseResponse_def parseTorrentID_def lab_captures
      strncmp_eq_def cstr_def result_not_id atoi_seven\<close>)

lemma magnet_run:
  assumes "\<not> use_transmission s" "\<not> match_only s" "\<not> prowl_key_valid s" "pushover_key s = None"
    and "wanted x feed s i" "\<not> seen (downloads s) i" "isMagnetURI (item_url i)"
  shows "\<exists>f. processRSSList x s c [i] feed w wd =
    Inr (remember_item i \<lparr>r_session = s, r_curl = c, r_folder = f, r_web = w, r_world = wd\<rparr>)"
proof -
  let ?st = "\<lambda>f. \<lparr>r_session = s, r_curl = c, r_folder = f, r_web = w, r_world = wd\<rparr>"
  obtain f where f: "process_item x feed i (?st None) =
      (if idle x feed (r_session (?st None)) i then Inr ((?st None)\<lparr>r_folder := f\<rparr>)
       else bindR (add_item x feed i ((?st None)\<lparr>r_folder := f\<rparr>)) (item_result x i))"
    by (rule process_item_cases)
  have "notify x p q nm (?st f) = Inr (?st f)" for p q nm
    using assms(3,4) by (simp add: notify_def)
  moreover have "\<not> idle x feed s i" using assms(2,5,6) by (simp add: idle_def)
  moreover have "add_item x feed i (?st f) = Inr (1, ?st f)"
    using assms(1,7) by (simp add: add_item_def addMagnetToTM_def)
  ultimately show ?thesis using f by (auto simp: processRSSList_def item_result_def)
qed

text \<open>A magnet link is forgotten when Transmission is disabled: nothing is sent to anyone, and yet the
  item counts as downloaded and is kept in the history, so that it is not offered again.\<close>

theorem magnet_without_transmission:
  assumes "\<not> use_transmission s" "\<not> match_only s" "\<not> prowl_key_valid s" "pushover_key s = None"
    and "wanted x feed s i" "\<not> seen (downloads s) i" "isMagnetURI (item_url i)"
  shows "\<exists>st. processRSSList x s c [i] feed w wd = Inr st \<and>
    r_session st = remembered i s \<and> r_web st = w \<and> net (r_world st) = net wd"
proof -
  obtain f where "processRSSList x s c [i] feed w wd =
      Inr (remember_item i \<lparr>r_session = s, r_curl = c, r_folder = f, r_web = w, r_world = wd\<rparr>)"
    using magnet_run [OF assms] by blast
  moreover have "net (r_world (remember_item i st)) = net (r_world st)"
    "r_web (remember_item i st) = r_web st" for st :: "'a run"
    using save_state_machine by (auto simp: remember_item_def Let_def same_machine_def)
  ultimately show ?thesis by (simp add: remember_item_session)
qed

theorem magnet_without_transmission_witness:
  "\<exists>st. processRSSList lab_ext (lab_session\<lparr>use_transmission := False\<rparr>) None
      [lab_item ''magnet:?x''] None web0 disk1 = Inr st \<and>
    r_session st = remembered (lab_item ''magnet:?x'') (lab_session\<lparr>use_transmission := False\<rparr>) \<and>
    r_web st = web0 \<and> net (r_world st) = net disk1"
  by (rule magnet_without_transmission) (simp_all add: lab_wanted isMagnetURI_iff)

end
