(* ===== verification/Am_Check_Laws.thy ===== *)
theory Am_Check_Laws
  imports Am_Process_Laws
begin

text \<open>
  A whole check: \<open>processFeed\<close> and \<open>processFile\<close>, from the answer of the server to the history.
  The first check of a feed makes room for its items, so that it evicts nothing.
\<close>

section \<open>Counting items\<close>

lemma extract_loop_length:
  "extract_loop ns l = Inr items \<Longrightarrow> length items \<le> length l + length ns"
proof (induction ns arbitrary: l)
  case (Cons n ns)
  then show ?case
  proof (cases "is_element n \<and> node_children n \<noteq> []")
    case True
    with Cons.prems obtain item a b where
      "extract_loop ns (if a \<and> b then item # l else l) = Inr items"
      by (auto simp: bindR_Inr_iff)
    from Cons.IH [OF this] show ?thesis by (simp split: if_splits)
  next
    case False
    with Cons.prems Cons.IH [of l] show ?thesis by auto
  qed
qed simp

text \<open>The number reported is at least the number of items, when it fits into 32 bits.\<close>

lemma parse_xmldata_count:
  assumes "parse_xmldata lib data sz ttl = Inr (items, cnt, ttl')"
    and "\<And>doc ns. xpath lib ''//item'' doc = Some (Some ns) \<Longrightarrow> length ns < 2 ^ 32"
  shows "(cnt = 0 \<and> items = []) \<or>
    (\<exists>doc ns. xpath lib ''//item'' doc = Some (Some ns) \<and> cnt = length ns \<and> length items \<le> cnt)"
proof (cases "cnt = 0 \<and> items = []")
  case False
  define doc where "doc = (\<lambda>d. case xmlParseMemory lib d sz of
      None \<Rightarrow> xmlRecoverMemory lib d sz | Some x \<Rightarrow> Some x)"
  obtain d where d: "data = Some d" using assms(1) False by (cases data) (auto simp: parse_xmldata_def)
  obtain y where y: "doc d = Some y" "xmlXPathNewContext lib y"
    using assms(1) False d by (cases "doc d") (auto simp: parse_xmldata_def doc_def split: if_splits)
  define m where "m = (case ttl of None \<Rightarrow> Inr None
      | Some t \<Rightarrow> bindR (parse_ttl (xpath lib ''//channel/ttl'' y) t) (\<lambda>t. Inr (Some t)))"
  from assms(1) d y have "bindR m (\<lambda>ttl. case xpath lib ''//item'' y of
        None \<Rightarrow> Inr ([], 0, ttl)
      | Some nodes \<Rightarrow>
          bindR (extract_feed_items nodes) (\<lambda>items.
            Inr (items, case nodes of None \<Rightarrow> 0 | Some ns \<Rightarrow> length ns mod 2 ^ 32, ttl))) =
      Inr (items, cnt, ttl')"
    by (simp add: parse_xmldata_def doc_def m_def Let_def)
  then obtain t where t: "(case xpath lib ''//item'' y of
        None \<Rightarrow> Inr ([], 0, t)
      | Some nodes \<Rightarrow>
          bindR (extract_feed_items nodes) (\<lambda>items.
            Inr (items, case nodes of None \<Rightarrow> 0 | Some ns \<Rightarrow> length ns mod 2 ^ 32, t))) =
      Inr (items, cnt, ttl')"
    unfolding bindR_Inr_iff by blast
  then obtain nodes where x: "xpath lib ''//item'' y = Some nodes"
    using False by (cases "xpath lib ''//item'' y") auto
  with t have x2: "extract_feed_items nodes = Inr items"
    "cnt = (case nodes of None \<Rightarrow> 0 | Some ns \<Rightarrow> length ns mod 2 ^ 32)"
    by (auto simp: bindR_Inr_iff)
  with False obtain ns where ns: "nodes = Some ns"
    by (cases nodes) (auto simp: extract_feed_items_def)
  with x2(1) have "length items \<le> length ns"
    by (auto simp: extract_feed_items_def dest: extract_loop_length)
  with x x2 ns assms(2) [of y ns] show ?thesis by auto
qed simp

section \<open>Room for the items\<close>

lemma remember_room:
  "length b < m \<Longrightarrow> \<exists>ks. remember k b m = ks @ b \<and> length ks \<le> 1"
  by (auto simp: remember_def Let_def split: option.splits)

lemma remember_all_room:
  "length (downloads s) + length js \<le> max_bucket_items s \<Longrightarrow>
   \<exists>ks. downloads (remember_all js s) = ks @ downloads s \<and> length ks \<le> length js"
proof (induction js arbitrary: s)
  case (Cons j js)
  then obtain ks where ks: "remember (item_key j) (downloads s) (max_bucket_items s) = ks @ downloads s"
    "length ks \<le> 1" using remember_room [of "downloads s" "max_bucket_items s" "item_key j"] by auto
  then have "length (downloads (remembered j s)) + length js \<le> max_bucket_items (remembered j s)"
    using Cons.prems by (simp add: remembered_def)
  with Cons.IH obtain ks' where
    "downloads (remember_all js (remembered j s)) = ks' @ downloads (remembered j s)"
    "length ks' \<le> length js" by blast
  with ks show ?case by (auto simp: remembered_def intro!: exI [of _ "ks' @ ks"])
qed simp

lemma processRSSList_room:
  assumes "processRSSList x s c items feed w wd = Inr st"
    and "length (downloads s) + length items \<le> max_bucket_items s"
  shows "\<exists>ks. downloads (r_session st) = ks @ downloads s \<and> length ks \<le> length items"
proof -
  obtain js where js: "subseq js (if match_only s then [] else filter (wanted x feed s) items)"
    "r_session st = remember_all js s"
    using processRSSList_session [OF assms(1)] by blast
  have "length js \<le> length (if match_only s then [] else filter (wanted x feed s) items)"
    using js(1) by (rule list_emb_length)
  also have "\<dots> \<le> length items" by simp
  finally have "length js \<le> length items" .
  with remember_all_room [of s js] assms(2) js(2) show ?thesis by fastforce
qed

lemma processRSSList_max:
  "processRSSList x s c items feed w wd = Inr st \<Longrightarrow> max_bucket_items (r_session st) = max_bucket_items s"
  using processRSSList_session by fastforce

text \<open>The part \<open>processFeed\<close> and \<open>processFile\<close> share: the bound grows, then the list is processed.\<close>

lemma grown_check:
  assumes "processRSSList x (grow_bucket cnt s) c items feed w wd = Inr st"
    and "length items \<le> cnt" "length (downloads s) \<le> max_bucket_items s"
    and "max_bucket_items s + cnt < 2 ^ 16"
  shows "\<exists>ks. downloads (r_session st) = ks @ downloads s \<and>
    length (downloads (r_session st)) \<le> max_bucket_items (r_session st) \<and>
    max_bucket_items (r_session st) = max_bucket_items s + cnt"
proof -
  have m: "max_bucket_items (grow_bucket cnt s) = max_bucket_items s + cnt"
    using assms(4) by (simp add: grow_bucket_def)
  have d: "downloads (grow_bucket cnt s) = downloads s" by (simp add: grow_bucket_def)
  obtain ks where "downloads (r_session st) = ks @ downloads s" "length ks \<le> length items"
    using processRSSList_room [OF assms(1)] assms(2,3) m d by auto
  with processRSSList_max [OF assms(1)] m assms(2,3) show ?thesis by auto
qed

text \<open>A first check that changes something has processed the list of an answer.\<close>

lemma processFeed_taken:
  fixes wd :: "'w world"
  assumes "processFeed x s k True w wd = Inr (n, s', w', wd')" "\<not> (s' = s \<and> n = 0)"
  shows "\<exists>(r :: HTTPResponse) items cnt ttl feed c w1 wd1 st.
    parse_xmldata (ext_xml x) (hr_data r) (hr_size r mod 2 ^ 32) (Some (feed_ttl (feeds s ! k))) =
      Inr (items, cnt, ttl) \<and>
    processRSSList x (grow_bucket cnt (s\<lparr>feeds := (feeds s)[k := feed]\<rparr>)) c items (Some feed) w1 wd1 =
      Inr st \<and> n = cnt mod 2 ^ 16 \<and> s' = r_session st"
proof -
  define result where "result = (\<lambda>item_count (st :: 'w run).
    Inr (item_count mod 2 ^ 16, r_session st, r_web st, r_world st) ::
      (nat \<times> auto_handle \<times> web \<times> 'w world) res)"
  define taken where "taken = (\<lambda>c w1 wd1 (items, item_count, ttl).
    bindR (processRSSList x (grow_bucket item_count
             (s\<lparr>feeds := (feeds s)[k := (feeds s ! k)\<lparr>feed_ttl := the ttl\<rparr>]\<rparr>)) c items
             (Some ((feeds s ! k)\<lparr>feed_ttl := the ttl\<rparr>)) w1 wd1) (result item_count))"
  have "getRSSFeed x (feeds s ! k) w wd \<noteq> Inl e" for e
    using assms(1) by (auto simp: processFeed_def)
  then obtain response c w1 wd1 where
    g: "getRSSFeed x (feeds s ! k) w wd = Inr ((response, c), w1, wd1)"
    by (metis sum.exhaust surj_pair)
  from assms(1) have
    a: "(if c = None \<and> response \<noteq> None then Inl Abort
         else case response of
             None \<Rightarrow> Inr (0, s, w1, wd1)
           | Some r \<Rightarrow>
               (if hr_code r = 200 \<and> hr_data r \<noteq> None then
                  bindR (parse_xmldata (ext_xml x) (hr_data r) (hr_size r mod 2 ^ 32)
                           (Some (feed_ttl (feeds s ! k)))) (taken c w1 wd1)
                else Inr (0, s, w1, wd1))) = Inr (n, s', w', wd')"
    by (simp only: processFeed_def Let_def g bindR_simps prod.case if_True taken_def result_def)
  then obtain r where r: "response = Some r"
    using assms(2) by (cases response) (auto split: if_splits)
  with a assms(2) have "bindR (parse_xmldata (ext_xml x) (hr_data r) (hr_size r mod 2 ^ 32)
      (Some (feed_ttl (feeds s ! k)))) (taken c w1 wd1) = Inr (n, s', w', wd')"
    by (simp split: if_splits)
  then obtain items cnt ttl where p:
    "parse_xmldata (ext_xml x) (hr_data r) (hr_size r mod 2 ^ 32) (Some (feed_ttl (feeds s ! k))) =
      Inr (items, cnt, ttl)" "taken c w1 wd1 (items, cnt, ttl) = Inr (n, s', w', wd')"
    unfolding bindR_Inr_iff by (metis prod_cases3)
  from p(2) obtain st where
    q: "processRSSList x (grow_bucket cnt (s\<lparr>feeds := (feeds s)[k := (feeds s ! k)\<lparr>feed_ttl := the ttl\<rparr>]\<rparr>))
      c items (Some ((feeds s ! k)\<lparr>feed_ttl := the ttl\<rparr>)) w1 wd1 = Inr st"
    "result cnt st = Inr (n, s', w', wd')"
    unfolding taken_def prod.case bindR_Inr_iff by blast
  from q(2) have "n = cnt mod 2 ^ 16" "s' = r_session st" by (simp_all add: result_def)
  with p(1) q(1) show ?thesis by blast
qed

section \<open>The property\<close>

text \<open>C29: the first check of a feed evicts nothing: \<open>processFeed\<close> first extends the bound of the history by
  the number of items in the feed, so the history after the check is the old one with new entries
  in front, within its bound.  The number of items and the bound must fit into the 16 bits of
  \<open>max_bucket_items\<close> together.\<close>

theorem first_check_evicts_nothing:
  assumes "processFeed x s k True w wd = Inr (n, s', w', wd')"
    and "length (downloads s) \<le> max_bucket_items s"
    and "\<And>doc ns. xpath (ext_xml x) ''//item'' doc = Some (Some ns) \<Longrightarrow>
      max_bucket_items s + length ns < 2 ^ 16"
    and "max_bucket_items s < 2 ^ 16"
  shows "\<exists>ks. downloads s' = ks @ downloads s \<and> length (downloads s') \<le> max_bucket_items s' \<and>
    max_bucket_items s' = max_bucket_items s + n"
proof (cases "s' = s \<and> n = 0")
  case True
  with assms(2) show ?thesis by simp
next
  case False
  from processFeed_taken [OF assms(1) False] obtain r :: HTTPResponse and items cnt ttl feed c w1 wd1 st where
    x: "parse_xmldata (ext_xml x) (hr_data r) (hr_size r mod 2 ^ 32) (Some (feed_ttl (feeds s ! k))) =
        Inr (items, cnt, ttl)"
    and p: "processRSSList x (grow_bucket cnt (s\<lparr>feeds := (feeds s)[k := feed]\<rparr>)) c items (Some feed) w1 wd1 =
        Inr st" "n = cnt mod 2 ^ 16" "s' = r_session st" by blast
  have "length ns < 2 ^ 32" if "xpath (ext_xml x) ''//item'' doc = Some (Some ns)" for doc ns
    using assms(3) [OF that] by simp
  with parse_xmldata_count [OF x] have c: "length items \<le> cnt" "max_bucket_items s + cnt < 2 ^ 16"
    using assms(3,4) by auto
  with p(2) have "n = cnt" by simp
  with grown_check [OF p(1)] assms(2) p(3) c show ?thesis by simp
qed

text \<open>A feed with one magnet link, checked without Transmission.\<close>

definition lab_feed_xml :: "unit xml_lib" where
  "lab_feed_xml = \<lparr>xmlParseMemory = (\<lambda>_ _. Some ()), xmlRecoverMemory = (\<lambda>_ _. None),
     xmlXPathNewContext = (\<lambda>_. True),
     xpath = (\<lambda>q _. Some (Some (if q = ''//item'' then
       [\<lparr>is_element = True, node_children =
          [\<lparr>child_name = Some ''title'', child_text = Some ''linux.iso'', child_attrs = []\<rparr>,
           \<lparr>child_name = Some ''link'', child_text = Some ''magnet:?x'', child_attrs = []\<rparr>],
         node_text = None\<rparr>] else [])))\<rparr>"

definition lab_old :: auto_handle where
  "lab_old = lab_session\<lparr>use_transmission := False, downloads := [''old''], max_bucket_items := 1\<rparr>"

lemma lab_feed_items:
  "parse_xmldata lab_feed_xml (Some d) sz (Some t) = Inr ([lab_item ''magnet:?x''], 1, Some t)"
  by (simp add: parse_xmldata_def lab_feed_xml_def parse_ttl_def extract_feed_items_def item_step_def
      getNodeText_def am_strdup_def am_strndup_def lab_item_def newFeedItem_def NUL_def)

lemma lab_wanted2:
  "filters s = filters lab_session \<Longrightarrow> wanted (lab_ext\<lparr>ext_xml := l\<rparr>) feed s (lab_item u)"
  using lab_wanted [of s feed u] by (simp add: wanted_def)

lemma lab_get:
  "\<exists>r c w. getHTTPData lab_pcre lab_curl (Some u) k None web () = Inr (Some r, Some c, w, ()) \<and>
    hr_data r = Some ''d4:infoe'' \<and> hr_code r = 200"
proof -
  let ?w = "web\<lparr>gbGlobalInitDone := True\<rparr>"
  obtain c0 where c0: "am_curl_init lab_curl None False () = Some c0" "\<not> opt_post c0"
    by (simp add: am_curl_init_def lab_curl_def)
  have c: "opt_post (get_request u k c0) = False"
    using c0(2) by (simp add: get_request_def Let_def split: option.split)
  have perform: "curl_easy_perform lab_curl c n =
      (\<lparr>t_events = [Body (if opt_post c then ''{success, 7}'' else ''d4:infoe'')],
        t_result = 0, t_status = 200\<rparr>, ())" for c n by (simp add: lab_curl_def)
  show ?thesis
    using get_events_ok [OF lab_lists, of "[''d4:infoe'']" "[]" "Some u" ?w 200] c c0(1)
    by (auto simp: getHTTPData_def Let_def NUL_def perform)
qed

lemma lab_first_check:
  "\<exists>s' w' wd'. processFeed (lab_ext\<lparr>ext_xml := lab_feed_xml\<rparr>) lab_old 0 True web0 disk1 =
    Inr (1, s', w', wd')"
proof -
  let ?x = "lab_ext\<lparr>ext_xml := lab_feed_xml\<rparr>"
  obtain r c w1 where get: "getRSSFeed ?x (feeds lab_old ! 0) web0 disk1 = Inr ((Some r, Some c), w1, disk1)"
    and r: "hr_data r = Some ''d4:infoe''" "hr_code r = 200"
    using lab_get [where u = "''http://x/rss''" and k = None and web = web0]
    by (auto simp: getRSSFeed_def on_net_def lab_old_def lab_session_def feed_new_def)
  let ?s = "grow_bucket 1 lab_old" and ?i = "lab_item ''magnet:?x''"
  have "\<exists>f. processRSSList ?x ?s (Some c) [?i]
      (Some (feeds lab_old ! 0)) w1 disk1 = Inr (remember_item ?i
        \<lparr>r_session = ?s, r_curl = Some c, r_folder = f,
         r_web = w1, r_world = disk1\<rparr>)"
    by (rule magnet_run) (simp_all add: lab_old_def grow_bucket_def lab_wanted2 isMagnetURI_iff
        seen_def hasGUID_def)
  then show ?thesis
    by (auto simp: processFeed_def get r lab_feed_items Let_def)
qed

theorem first_check_evicts_nothing_witness:
  "\<exists>s' w' wd' ks. processFeed (lab_ext\<lparr>ext_xml := lab_feed_xml\<rparr>) lab_old 0 True web0 disk1 =
      Inr (1, s', w', wd') \<and>
    downloads s' = ks @ [''old''] \<and> length (downloads s') \<le> max_bucket_items s' \<and>
    max_bucket_items s' = 1 + 1"
proof -
  obtain s' w' wd' where c: "processFeed (lab_ext\<lparr>ext_xml := lab_feed_xml\<rparr>) lab_old 0 True web0 disk1 =
      Inr (1, s', w', wd')" using lab_first_check by blast
  have "\<exists>ks. downloads s' = ks @ downloads lab_old \<and> length (downloads s') \<le> max_bucket_items s' \<and>
      max_bucket_items s' = max_bucket_items lab_old + 1"
    by (rule first_check_evicts_nothing [OF c])
      (auto simp: lab_old_def lab_feed_xml_def split: if_splits)
  with c show ?thesis by (auto simp: lab_old_def)
qed

end
