(* ===== verification/Am_Session.thy ===== *)
theory Am_Session
  imports Am_Process Am_Config Am_Output
begin

text \<open>
  \<^verbatim>\<open>src/automatic.c\<close>, the daemon around the checks: command line, start, reload of the
  configuration on SIGHUP, main loop and end.

  The static variables \<open>mySession\<close>, \<open>closing\<close>, \<open>isRunning\<close>, \<open>seenHUP\<close> and those of the
  HTTP component form the record \<open>daemon\<close>.  \<open>getopt_long\<close>, \<open>fork\<close>, \<open>setsid\<close> and
  \<open>getpid\<close> appear through their results.  A process that calls \<open>exit\<close> is in the state \<open>Done\<close>.
\<close>

section \<open>The command line\<close>

definition AM_DEFAULT_CONFIGFILE :: string where "AM_DEFAULT_CONFIGFILE = ''/etc/automatic.conf''"

record arguments =
  arg_c_file :: "string option"
  arg_logfile :: "string option"
  arg_pidfile :: "string option"
  arg_xmlfile :: "string option"
  arg_nofork :: bool
  arg_verbose :: int            \<comment> \<open>\<open>uint8_t\<close>\<close>
  arg_once :: bool
  arg_append_log :: bool
  arg_match_only :: bool

definition default_args :: arguments where
  "default_args = \<lparr>arg_c_file = None, arg_logfile = None, arg_pidfile = None, arg_xmlfile = None,
     arg_nofork = False, arg_verbose = level P_MSG, arg_once = False, arg_append_log = False,
     arg_match_only = False\<rparr>"

text \<open>
  The loop over the results of \<open>getopt_long\<close>, an option character and \<open>optarg\<close> each; every
  other character prints the usage and ends the program (\<open>None\<close>).
\<close>

fun readargs :: "(char \<times> string) list \<Rightarrow> arguments \<Rightarrow> arguments option" where
  "readargs [] a = Some a"
| "readargs ((opt, optarg) # os) a =
     (if opt = CHR ''a'' then readargs os (a\<lparr>arg_append_log := True\<rparr>)
      else if opt = CHR ''v'' then readargs os (a\<lparr>arg_verbose := wrap_u 8 (atoi optarg)\<rparr>)
      else if opt = CHR ''f'' then readargs os (a\<lparr>arg_nofork := True\<rparr>)
      else if opt = CHR ''c'' then readargs os (a\<lparr>arg_c_file := Some optarg\<rparr>)
      else if opt = CHR ''l'' then readargs os (a\<lparr>arg_logfile := Some optarg\<rparr>)
      else if opt = CHR ''p'' then readargs os (a\<lparr>arg_pidfile := Some optarg\<rparr>)
      else if opt = CHR ''x'' then
        readargs os (a\<lparr>arg_xmlfile := Some optarg, arg_nofork := True, arg_once := True\<rparr>)
      else if opt = CHR ''o'' then readargs os (a\<lparr>arg_once := True\<rparr>)
      else if opt = CHR ''m'' then readargs os (a\<lparr>arg_match_only := True\<rparr>)
      else None)"

section \<open>Sessions\<close>

record 'w daemon =
  mySession :: "auto_handle option"
  closing :: bool
  isRunning :: bool
  seenHUP :: bool
  d_web :: web
  d_world :: "'w world"

text \<open>The blocks \<open>session_free\<close> gives back, in order; the handle itself is the last.\<close>

definition session_free :: "auto_handle option \<Rightarrow> string list \<times> bool" where
  "session_free p =
     (case p of
        None \<Rightarrow> ([], False)
      | Some s \<Rightarrow>
          (List.map_filter id
             [transmission_path s, torrent_folder s, statefile s, host s, auth s, prowl_key s,
              pushover_key s, transmission_external s] @
           concat (map (\<lambda>f. fst (feed_free (Some f))) (feeds s)) @ downloads s @
           concat (map (\<lambda>f. fst (filter_free (Some f))) (filters s)), True))"

text \<open>Of the messages only the request for the RPC version has an effect.\<close>

definition printSessionSettings ::
  "('w, 'doc) ext \<Rightarrow> auto_handle \<Rightarrow> web \<Rightarrow> 'w world \<Rightarrow> (auto_handle \<times> web \<times> 'w world) res" where
  "printSessionSettings x s w wd =
     (if use_transmission s \<and> transmission_version s = AM_TRANSMISSION_1_3 then
        bindR (on_net (getRPCVersion (ext_pcre x) (ext_curl x) (Some (rpc_host s)) (rpc_port s)
                 (auth s) w) wd)
          (\<lambda>(v, w, wd). Inr (s\<lparr>rpc_version := v\<rparr>, w, wd))
      else Inr (s, w, wd))"

definition list_empty :: "'a list \<Rightarrow> bool" where
  "list_empty xs \<longleftrightarrow> length xs mod 2 ^ 32 = 0"   \<comment> \<open>\<open>listCount(xs) == 0\<close>\<close>

definition verify_prowl ::
  "('w, 'doc) ext \<Rightarrow> auto_handle \<Rightarrow> web \<Rightarrow> 'w world \<Rightarrow> (auto_handle \<times> web \<times> 'w world) res" where
  "verify_prowl x s w wd =
     (if prowl_key s \<noteq> None then
        bindR (on_net (verifyProwlAPIKey (ext_pcre x) (ext_curl x) (prowl_key s) w) wd)
          (\<lambda>(r, w, wd). Inr (if r = 1 then s\<lparr>prowl_key_valid := True\<rparr> else s, w, wd))
      else Inr (s, w, wd))"

text \<open>What is taken over from the previous session, and its history saved.\<close>

definition replace_session :: "auto_handle option \<Rightarrow> auto_handle \<Rightarrow> 'w world \<Rightarrow> auto_handle \<times> 'w world"
where
  "replace_session old s wd =
     (case old of
        None \<Rightarrow> (s, wd)
      | Some p \<Rightarrow>
          (s\<lparr>match_only := match_only p\<rparr>,
           if bucket_changed p then snd (save_state (statefile p) (map Some (downloads p)) wd)
           else wd))"

definition setupSession ::
  "('w, 'doc) ext \<Rightarrow> auto_handle option \<Rightarrow> 'w daemon \<Rightarrow> (bool \<times> 'w daemon) res" where
  "setupSession x session d =
     (case session of
        None \<Rightarrow> Inr (False, d)
      | Some s \<Rightarrow>
          (if list_empty (feeds s) \<or> list_empty (filters s) then Inr (False, d)
           else
             let (s, wd) = replace_session (mySession d) s (d_world d)
             in bindR (verify_prowl x s (d_web d) wd) (\<lambda>(s, w, wd).
                  case statefile s of
                    None \<Rightarrow> Inl NullDeref
                  | Some f \<Rightarrow>
                      bindR (printSessionSettings x
                               (s\<lparr>downloads := snd (load_state f (downloads s) wd)\<rparr>) w wd)
                        (\<lambda>(s, w, wd).
                           Inr (True, d\<lparr>mySession := Some s, d_web := w, d_world := wd\<rparr>)))))"

section \<open>Signals\<close>

datatype signal = SIGINT | SIGTERM | SIGHUP

text \<open>A handle that could not be used is freed again, and nothing else has changed.\<close>

definition reload :: "('w, 'doc) ext \<Rightarrow> string \<Rightarrow> 'w daemon \<Rightarrow> 'w daemon res" where
  "reload x AutoConfigFile d =
     bindR (session_init (ext_env x)) (\<lambda>s.
     bindR (parse_config_file (ext_pcre x) (ext_env x) (fopen_r AutoConfigFile (d_world d)) s)
       (\<lambda>(r, s).
          if r \<noteq> 0 then Inr d
          else bindR (setupSession x (Some s) d) (\<lambda>(ok, d). Inr d)))"

definition signal_handler ::
  "('w, 'doc) ext \<Rightarrow> string \<Rightarrow> signal \<Rightarrow> 'w daemon \<Rightarrow> 'w daemon res" where
  "signal_handler x AutoConfigFile sig d =
     (case sig of
        SIGINT \<Rightarrow> Inr (d\<lparr>closing := True\<rparr>)
      | SIGTERM \<Rightarrow> Inr (d\<lparr>closing := True\<rparr>)
      | SIGHUP \<Rightarrow>
          (if isRunning d \<or> mySession d = None then Inr (d\<lparr>seenHUP := True\<rparr>)
           else bindR (reload x AutoConfigFile d) (\<lambda>d. Inr (d\<lparr>seenHUP := False\<rparr>))))"

text \<open>Of the dispositions only that of SIGCHLD matters to the rest of the program.\<close>

definition setup_signals :: "'w daemon \<Rightarrow> 'w daemon" where
  "setup_signals d = d\<lparr>d_world := (d_world d)\<lparr>sigchld_ignored := True\<rparr>\<rparr>"

section \<open>Start and end\<close>

definition shutdown_daemon :: "auto_handle option \<Rightarrow> 'w daemon \<Rightarrow> 'w daemon" where
  "shutdown_daemon as d =
     (let wd = (case as of
                  None \<Rightarrow> d_world d
                | Some s \<Rightarrow>
                    if bucket_changed s
                    then snd (save_state (statefile s) (map Some (downloads s)) (d_world d))
                    else d_world d)
      in d\<lparr>d_web := SessionID_free (d_web d), d_world := log_close (pid_close wd)\<rparr>)"

text \<open>The result of \<open>fork\<close>, an error with its \<open>errno\<close>.\<close>

datatype fork_result = Child | Parent | Failed int

text \<open>
  \<open>None\<close>: this process ends.  Otherwise the return value; the child writes the pid file.  The
  redirection of the standard streams to \<^verbatim>\<open>/dev/null\<close> and \<open>umask\<close> have no counterpart in \<open>world\<close>.
\<close>

definition daemonize ::
  "string \<Rightarrow> fork_result \<Rightarrow> int option \<Rightarrow> fork_result \<Rightarrow> int \<Rightarrow> string option \<Rightarrow> 'w world \<Rightarrow>
   int option \<times> 'w world" where
  "daemonize file fork1 setsid fork2 pid pidfile wd =
     (case fork1 of
        Parent \<Rightarrow> (None, wd)
      | Failed e \<Rightarrow> (Some e, wd)
      | Child \<Rightarrow>
          (case setsid of
             Some e \<Rightarrow> (Some e, wd)
           | None \<Rightarrow>
               (case fork2 of
                  Parent \<Rightarrow> (None, wd)
                | Failed e \<Rightarrow> (Some e, wd)
                | Child \<Rightarrow>
                    (Some 0,
                     if pidfile \<noteq> None \<and> pidfile \<noteq> Some [] \<and> pid \<noteq> 0
                     then snd (pid_create file pidfile pid wd) else wd))))"

text \<open>The state of \<open>main\<close>: where it is, and its locals.\<close>

datatype pc =
    Loop          \<comment> \<open>at the test of \<open>closing\<close>\<close>
  | Checking nat  \<comment> \<open>before the feed of that number\<close>
  | Checked       \<comment> \<open>behind the feeds\<close>
  | Deferred      \<comment> \<open>before the test of \<open>seenHUP\<close>\<close>
  | Sleeping
  | Done

record 'w system =
  sys_d :: "'w daemon"
  sys_pc :: pc
  sys_first_run :: bool
  sys_once :: bool

text \<open>What the operating system answers during the start.\<close>

record start_env =
  se_fork1 :: fork_result
  se_setsid :: "int option"
  se_fork2 :: fork_result
  se_pid :: int
  se_file :: string   \<comment> \<open>\<open>__FILE__\<close>\<close>

definition config_path :: "arguments \<Rightarrow> string" where
  "config_path a = (case arg_c_file a of None \<Rightarrow> AM_DEFAULT_CONFIGFILE | Some f \<Rightarrow> f)"

definition stopped :: "auto_handle option \<Rightarrow> 'w daemon \<Rightarrow> bool \<Rightarrow> 'w system" where
  "stopped as d o1 =
     \<lparr>sys_d = shutdown_daemon as d, sys_pc = Done, sys_first_run = True, sys_once = o1\<rparr>"

definition start_daemon ::
  "start_env \<Rightarrow> arguments \<Rightarrow> 'w daemon \<Rightarrow> 'w system" where
  "start_daemon se a d =
     (let run = \<lambda>d. \<lparr>sys_d = d, sys_pc = Loop, sys_first_run = True, sys_once = arg_once a\<rparr>
      in if arg_nofork a then run d
         else
           (case daemonize (se_file se) (se_fork1 se) (se_setsid se) (se_fork2 se) (se_pid se)
                   (arg_pidfile a) (d_world d) of
              (None, wd) \<Rightarrow> (run (d\<lparr>d_world := wd\<rparr>))\<lparr>sys_pc := Done\<rparr>
            | (Some r, wd) \<Rightarrow>
                (if r \<noteq> 0 then stopped (mySession d) (d\<lparr>d_world := wd\<rparr>) (arg_once a)
                 else run (d\<lparr>d_world := wd\<rparr>))))"

text \<open>\<open>main\<close> up to its loop; \<open>AutoConfigFile\<close> has \<open>MAXPATHLEN + 1\<close> bytes.\<close>

definition start_session ::
  "('w, 'doc) ext \<Rightarrow> start_env \<Rightarrow> arguments \<Rightarrow> 'w daemon \<Rightarrow> 'w system res" where
  "start_session x se a d =
     bindR (session_init (ext_env x)) (\<lambda>s.
     bindR (parse_config_file (ext_pcre x) (ext_env x) (fopen_r (config_path a) (d_world d))
              (s\<lparr>match_only := arg_match_only a\<rparr>)) (\<lambda>(r, s).
       if r \<noteq> 0 then Inr (stopped (Some s) d (arg_once a))
       else bindR (setupSession x (Some s) d) (\<lambda>(ok, d).
         if \<not> ok then Inr (stopped (Some s) d (arg_once a))
         else Inr (start_daemon se a (setup_signals d)))))"

definition main_init ::
  "('w, 'doc) ext \<Rightarrow> start_env \<Rightarrow> (char \<times> string) list \<Rightarrow> web \<Rightarrow> 'w world \<Rightarrow> 'w system option res" where
  "main_init x se argv w wd =
     (let wd = snd (log_init (se_file se) None (level P_MSG) False wd)
      in case readargs argv default_args of
           None \<Rightarrow> Inr None
         | Some a \<Rightarrow>
             (let wd = snd (log_init (se_file se) (arg_logfile a) (wrap_s 8 (arg_verbose a))
                         (arg_append_log a) wd);
                  d = \<lparr>mySession = None, closing = False, isRunning = False, seenHUP = False,
                       d_web = w, d_world = wd\<rparr>
              in if length (config_path a) > MAXPATHLEN then Inl BufferOverflow
                 else bindR (start_session x se a d) (\<lambda>sys. Inr (Some sys))))"

section \<open>The main loop\<close>

definition has_file :: "string option \<Rightarrow> bool" where
  "has_file f \<longleftrightarrow> f \<noteq> None \<and> f \<noteq> Some []"

definition enter_check ::
  "('w, 'doc) ext \<Rightarrow> string option \<Rightarrow> 'w system \<Rightarrow> 'w system res" where
  "enter_check x xml sys =
     (let d = (sys_d sys)\<lparr>isRunning := True\<rparr>
      in case mySession d of
           None \<Rightarrow> Inl NullDeref
         | Some s \<Rightarrow>
             (if has_file xml then
                bindR (processFile x s xml (d_web d) (d_world d)) (\<lambda>(n, s, w, wd).
                  Inr (sys\<lparr>sys_d := d\<lparr>mySession := Some s, d_web := w, d_world := wd\<rparr>,
                           sys_pc := Checked, sys_once := True\<rparr>))
              else Inr (sys\<lparr>sys_d := d, sys_pc := Checking 0\<rparr>)))"

definition check_feed :: "('w, 'doc) ext \<Rightarrow> nat \<Rightarrow> 'w system \<Rightarrow> 'w system res" where
  "check_feed x k sys =
     (let d = sys_d sys
      in case mySession d of
           None \<Rightarrow> Inl NullDeref
         | Some s \<Rightarrow>
             (if k < length (feeds s) then
                bindR (processFeed x s k (sys_first_run sys) (d_web d) (d_world d))
                  (\<lambda>(n, s, w, wd).
                     Inr (sys\<lparr>sys_d := d\<lparr>mySession := Some s, d_web := w, d_world := wd\<rparr>,
                              sys_pc := Checking (k + 1)\<rparr>))
              else Inr (sys\<lparr>sys_pc := Checked, sys_first_run := False\<rparr>)))"

definition main_step ::
  "('w, 'doc) ext \<Rightarrow> string \<Rightarrow> string option \<Rightarrow> 'w system \<Rightarrow> 'w system res" where
  "main_step x AutoConfigFile xml sys =
     (let d = sys_d sys
      in case sys_pc sys of
           Loop \<Rightarrow>
             (if closing d
              then Inr (sys\<lparr>sys_d := shutdown_daemon (mySession d) d, sys_pc := Done\<rparr>)
              else enter_check x xml sys)
         | Checking k \<Rightarrow> check_feed x k sys
         | Checked \<Rightarrow>
             (if sys_once sys
              then Inr (sys\<lparr>sys_d := shutdown_daemon (mySession d) d, sys_pc := Done\<rparr>)
              else Inr (sys\<lparr>sys_d := d\<lparr>isRunning := False\<rparr>, sys_pc := Deferred\<rparr>))
         | Deferred \<Rightarrow>
             (if seenHUP d
              then bindR (signal_handler x AutoConfigFile SIGHUP d)
                     (\<lambda>d. Inr (sys\<lparr>sys_d := d, sys_pc := Sleeping\<rparr>))
              else Inr (sys\<lparr>sys_pc := Sleeping\<rparr>))
         | Sleeping \<Rightarrow> Inr (sys\<lparr>sys_pc := Loop\<rparr>)
         | Done \<Rightarrow> Inr sys)"

text \<open>
  One step of the process: of \<open>main\<close>, or of a signal handler, which the kernel may run between
  any two steps of \<open>main\<close>.
\<close>

inductive step :: "('w, 'doc) ext \<Rightarrow> string \<Rightarrow> string option \<Rightarrow> 'w system \<Rightarrow> 'w system \<Rightarrow> bool"
  for x cfg xml where
  main: "sys_pc sys \<noteq> Done \<Longrightarrow> main_step x cfg xml sys = Inr sys' \<Longrightarrow> step x cfg xml sys sys'"
| signal: "sys_pc sys \<noteq> Done \<Longrightarrow> signal_handler x cfg sig (sys_d sys) = Inr d \<Longrightarrow>
    step x cfg xml sys (sys\<lparr>sys_d := d\<rparr>)"

inductive_cases stepE: "step x cfg xml sys sys'"

end
