(* ===== verification/Am_Session_Laws.thy ===== *)
theory Am_Session_Laws
  imports Am_Session Am_Process_Laws Am_Config_Inv Am_Config_Text
begin

text \<open>
  What holds of the running daemon: the invariant of its reachable states, the end of the main
  loop, and what a reload keeps and loses.
\<close>

section \<open>The parser leaves the running state alone\<close>

text \<open>The part of the handle no option sets.\<close>

definition runtime :: "auto_handle \<Rightarrow> bool \<times> nat \<times> string list \<times> bool \<times> bool" where
  "runtime s = (match_only s, max_bucket_items s, downloads s, bucket_changed s, prowl_key_valid s)"

lemma set_number_runtime: "runtime (set_number opt n s) = runtime s"
  by (simp add: set_number_def runtime_def)

lemma set_version_runtime: "runtime (set_version p s) = runtime s"
  by (simp add: set_version_def runtime_def)

text \<open>A computation that, if it returns, has kept that part.\<close>

definition kept :: "auto_handle \<Rightarrow> (int \<times> auto_handle) res \<Rightarrow> bool" where
  "kept s m \<longleftrightarrow> (\<forall>r s'. m = Inr (r, s') \<longrightarrow> runtime s' = runtime s)"

lemma kept_rules:
  "kept s a \<Longrightarrow> kept s b \<Longrightarrow> kept s (if c then a else b)"
  "(\<And>y. kept s (f y)) \<Longrightarrow> kept s (bindR m f)"
  "(\<And>u v. kept s (g u v)) \<Longrightarrow> kept s (case z of (u, v) \<Rightarrow> g u v)"
  "runtime s' = runtime s \<Longrightarrow> kept s (Inr (r, s'))"
  by (auto simp: kept_def bindR_Inr_iff split: prod.splits)

lemma am_set_option_kept: "kept s (am_set_option re e s opt param)"
  unfolding am_set_option_def
  by (intro kept_rules) (simp_all add: set_number_runtime set_version_runtime, simp_all add: runtime_def)

lemma am_set_option_runtime:
  "am_set_option re e s opt param = Inr (r, s') \<Longrightarrow> runtime s' = runtime s"
  using am_set_option_kept [of s re e opt param] by (simp add: kept_def)

interpretation kept_options: option_invariant re e "\<lambda>s. runtime s = c" for re e c
  by unfold_locales (simp add: am_set_option_runtime)

lemma parse_config_file_runtime:
  "parse_config_file re e file s = Inr (r, s') \<Longrightarrow> runtime s' = runtime s"
  by (rule kept_options.file_inv) simp_all

section \<open>Sessions that run\<close>

text \<open>What a session must have so that checks make sense, and what no check changes of it.\<close>

definition usable :: "auto_handle \<Rightarrow> bool" where
  "usable s \<longleftrightarrow> feeds s \<noteq> [] \<and> filters s \<noteq> []"

definition same_job :: "auto_handle \<Rightarrow> auto_handle \<Rightarrow> bool" where
  "same_job s s' \<longleftrightarrow> length (feeds s') = length (feeds s) \<and> filters s' = filters s \<and>
     match_only s' = match_only s"

lemma same_job_usable: "same_job s s' \<Longrightarrow> usable s \<Longrightarrow> usable s'"
  by (auto simp: same_job_def usable_def)

lemma list_empty_Nil [simp]: "list_empty []"
  by (simp add: list_empty_def)

lemma setupSession_cases:
  assumes "setupSession x (Some s) d = Inr (ok, d')"
  shows "if ok then \<exists>s'. mySession d' = Some s' \<and> same_job (fst (replace_session (mySession d) s (d_world d))) s'
             \<and> usable s' \<and> max_bucket_items s' = max_bucket_items s
             \<and> isRunning d' = isRunning d \<and> closing d' = closing d
         else d' = d"
proof (cases "list_empty (feeds s) \<or> list_empty (filters s)")
  case True
  with assms show ?thesis by (simp add: setupSession_def)
next
  case False
  obtain s1 wd where 1: "replace_session (mySession d) s (d_world d) = (s1, wd)" by force
  then have s1: "feeds s1 = feeds s" "filters s1 = filters s" "max_bucket_items s1 = max_bucket_items s"
    by (auto simp: replace_session_def split: option.splits)
  from False assms 1 obtain s2 w2 wd2 where 2: "verify_prowl x s1 (d_web d) wd = Inr (s2, w2, wd2)"
    and p: "(case statefile s2 of
                    None \<Rightarrow> Inl NullDeref
                  | Some f \<Rightarrow>
                      bindR (printSessionSettings x
                               (s2\<lparr>downloads := snd (load_state f (downloads s2) wd2)\<rparr>) w2 wd2)
                        (\<lambda>(s, w, wd).
                           Inr (True, d\<lparr>mySession := Some s, d_web := w, d_world := wd\<rparr>)))
      = Inr (ok, d')"
    by (auto simp: setupSession_def bindR_Inr_iff)
  from 2 have s2: "feeds s2 = feeds s1" "filters s2 = filters s1" "match_only s2 = match_only s1"
    "max_bucket_items s2 = max_bucket_items s1"
    by (auto simp: verify_prowl_def bindR_Inr_iff split: if_splits)
  from p obtain f s3 w3 wd3 where 3: "printSessionSettings x
        (s2\<lparr>downloads := snd (load_state f (downloads s2) wd2)\<rparr>) w2 wd2 = Inr (s3, w3, wd3)"
    "ok" "d' = d\<lparr>mySession := Some s3, d_web := w3, d_world := wd3\<rparr>"
    by (auto simp: bindR_Inr_iff split: option.splits)
  from 3(1) have s3: "feeds s3 = feeds s2" "filters s3 = filters s2" "match_only s3 = match_only s2"
    "max_bucket_items s3 = max_bucket_items s2"
    by (auto simp: printSessionSettings_def bindR_Inr_iff split: if_splits)
  from False have "feeds s \<noteq> []" "filters s \<noteq> []" by auto
  with s1 s2 s3 1 3(2,3) show ?thesis by (auto simp: usable_def same_job_def)
qed

lemma processRSSList_job:
  assumes "processRSSList x s c items feed w wd = Inr st"
  shows "same_job s (r_session st) \<and> (match_only s \<longrightarrow> downloads (r_session st) = downloads s)"
proof -
  obtain js where "subseq js (if match_only s then [] else filter (wanted x feed s) items)"
    "r_session st = remember_all js s"
    using processRSSList_session [OF assms] by blast
  then show ?thesis by (cases js) (auto simp: same_job_def)
qed

lemma processFeed_session:
  assumes "processFeed x s k fr w wd = Inr (n, s', w', wd')"
  shows "same_job s s' \<and> (match_only s \<longrightarrow> downloads s' = downloads s)"
proof -
  from assms consider "s' = s" | (p) st c items f wd0 w0 s0 where
    "processRSSList x s0 c items (Some f) w0 wd0 = Inr st" "s' = r_session st"
    "same_job s s0" "downloads s0 = downloads s"
    by (fastforce simp: processFeed_def bindR_Inr_iff Let_def same_job_def grow_bucket_def
        split: if_splits option.splits)
  then show ?thesis
  proof cases
    case p
    with processRSSList_job [OF p(1)] show ?thesis by (auto simp: same_job_def)
  qed (simp add: same_job_def)
qed

lemma processFile_session:
  assumes "processFile x s f w wd = Inr (n, s', w', wd')"
  shows "same_job s s' \<and> (match_only s \<longrightarrow> downloads s' = downloads s)"
proof -
  from assms consider "s' = s" | (p) st items wd0 w0 s0 where
    "processRSSList x s0 None items None w0 wd0 = Inr st" "s' = r_session st"
    "same_job s s0" "downloads s0 = downloads s"
    by (fastforce simp: processFile_def bindR_Inr_iff Let_def same_job_def grow_bucket_def
        split: if_splits option.splits)
  then show ?thesis
  proof cases
    case p
    with processRSSList_job [OF p(1)] show ?thesis by (auto simp: same_job_def)
  qed (simp add: same_job_def)
qed

section \<open>The invariant\<close>

text \<open>
  Until the process ends it has a usable session, in the mode of the command line, and it is
  inside a check exactly when \<open>isRunning\<close> says so.
\<close>

definition in_check :: "pc \<Rightarrow> bool" where
  "in_check p \<longleftrightarrow> p = Checked \<or> (\<exists>k. p = Checking k)"

definition good_pc :: "pc \<Rightarrow> auto_handle \<Rightarrow> bool" where
  "good_pc p s \<longleftrightarrow> (case p of Checking k \<Rightarrow> k \<le> length (feeds s) | _ \<Rightarrow> True)"

definition daemon_inv :: "bool \<Rightarrow> 'w system \<Rightarrow> bool" where
  "daemon_inv m sys \<longleftrightarrow> sys_pc sys = Done \<or>
     (\<exists>s. mySession (sys_d sys) = Some s \<and> usable s \<and> match_only s = m \<and> good_pc (sys_pc sys) s \<and>
        (isRunning (sys_d sys) \<longleftrightarrow> in_check (sys_pc sys)))"

definition started :: "('w, 'doc) ext \<Rightarrow> bool \<Rightarrow> 'w system \<Rightarrow> bool" where
  "started x m sys \<longleftrightarrow> (\<exists>se argv a w wd. readargs argv default_args = Some a \<and>
     m = arg_match_only a \<and> main_init x se argv w wd = Inr (Some sys))"

lemma in_check_simps [simp]:
  "in_check (Checking k)" "in_check Checked" "\<not> in_check Loop" "\<not> in_check Deferred"
  "\<not> in_check Sleeping"
  by (simp_all add: in_check_def)

lemma good_pc_simps [simp]:
  "good_pc (Checking k) s \<longleftrightarrow> k \<le> length (feeds s)" "good_pc Checked s" "good_pc Loop s"
  "good_pc Deferred s" "good_pc Sleeping s"
  by (simp_all add: good_pc_def)

lemma reload_cases:
  assumes "reload x cfg d = Inr d'"
  shows "d' = d \<or> (\<exists>s s'. mySession d' = Some s' \<and> usable s' \<and>
      same_job (fst (replace_session (mySession d) s (d_world d))) s' \<and>
      runtime s = (False, AM_DEFAULT_MAXBUCKET, [], False, False) \<and>
      max_bucket_items s' = AM_DEFAULT_MAXBUCKET \<and> setupSession x (Some s) d = Inr (True, d') \<and>
      isRunning d' = isRunning d \<and> closing d' = closing d)"
proof -
  from assms obtain s0 r s where 1: "session_init (ext_env x) = Inr s0"
    "parse_config_file (ext_pcre x) (ext_env x) (fopen_r cfg (d_world d)) s0 = Inr (r, s)"
    "(if r \<noteq> 0 then Inr d else bindR (setupSession x (Some s) d) (\<lambda>(ok, d). Inr d)) = Inr d'"
    by (auto simp: reload_def bindR_Inr_iff)
  from 1(1) have "runtime s0 = (False, AM_DEFAULT_MAXBUCKET, [], False, False)"
    by (auto simp: session_init_def bindR_Inr_iff runtime_def)
  with parse_config_file_runtime [OF 1(2)]
  have rt: "runtime s = (False, AM_DEFAULT_MAXBUCKET, [], False, False)" by simp
  show ?thesis
  proof (cases "r = 0")
    case False
    with 1(3) show ?thesis by simp
  next
    case True
    with 1(3) obtain ok where ok: "setupSession x (Some s) d = Inr (ok, d')"
      by (auto simp: bindR_Inr_iff)
    show ?thesis
    proof (cases ok)
      case False
      with setupSession_cases [OF ok] show ?thesis by simp
    next
      case True
      with setupSession_cases [OF ok] ok rt show ?thesis by (auto simp: runtime_def)
    qed
  qed
qed

lemma replace_session_mode:
  "mySession d = Some p \<Longrightarrow> match_only (fst (replace_session (mySession d) s wd)) = match_only p"
  by (simp add: replace_session_def)

lemma signal_handler_inv:
  assumes "signal_handler x cfg sig d = Inr d'" "mySession d = Some s" "usable s"
  shows "isRunning d' = isRunning d \<and> (closing d \<longrightarrow> closing d') \<and>
    (\<exists>s'. mySession d' = Some s' \<and> usable s' \<and> match_only s' = match_only s \<and>
       (isRunning d \<longrightarrow> s' = s))"
proof (cases "sig = SIGHUP \<and> \<not> isRunning d")
  case False
  with assms show ?thesis by (auto simp: signal_handler_def split: signal.splits)
next
  case True
  with assms obtain d1 where d1: "reload x cfg d = Inr d1" "d' = d1\<lparr>seenHUP := False\<rparr>"
    by (auto simp: signal_handler_def bindR_Inr_iff)
  from reload_cases [OF d1(1)] show ?thesis
  proof
    assume "d1 = d"
    with d1(2) assms(2,3) show ?thesis by simp
  next
    assume "\<exists>s s'. mySession d1 = Some s' \<and> usable s' \<and>
      same_job (fst (replace_session (mySession d) s (d_world d))) s' \<and>
      runtime s = (False, AM_DEFAULT_MAXBUCKET, [], False, False) \<and>
      max_bucket_items s' = AM_DEFAULT_MAXBUCKET \<and> setupSession x (Some s) d = Inr (True, d1) \<and>
      isRunning d1 = isRunning d \<and> closing d1 = closing d"
    then obtain s0 s' where s': "mySession d1 = Some s'" "usable s'"
      "same_job (fst (replace_session (mySession d) s0 (d_world d))) s'"
      "isRunning d1 = isRunning d" "closing d1 = closing d" by blast
    with replace_session_mode [OF assms(2)] have "match_only s' = match_only s"
      by (simp add: same_job_def)
    with s' d1(2) True show ?thesis by simp
  qed
qed

lemma daemon_inv_Done [simp]: "sys_pc sys = Done \<Longrightarrow> daemon_inv m sys"
  by (simp add: daemon_inv_def)

lemma enter_check_inv:
  assumes "enter_check x xml sys = Inr sys'" "mySession (sys_d sys) = Some s" "usable s"
  shows "daemon_inv (match_only s) sys'"
proof (cases "has_file xml")
  case True
  let ?d = "sys_d sys"
  from True assms(1,2) obtain n s1 w wd where
    "processFile x s xml (d_web ?d) (d_world ?d) = Inr (n, s1, w, wd)"
    "sys' = sys\<lparr>sys_d := ?d\<lparr>isRunning := True, mySession := Some s1, d_web := w, d_world := wd\<rparr>,
               sys_pc := Checked, sys_once := True\<rparr>"
    by (auto simp: enter_check_def Let_def bindR_Inr_iff)
  with processFile_session assms(3) show ?thesis
    by (fastforce simp: daemon_inv_def same_job_def usable_def)
next
  case False
  with assms show ?thesis by (auto simp: enter_check_def Let_def daemon_inv_def)
qed

lemma check_feed_inv:
  assumes "check_feed x k sys = Inr sys'" "mySession (sys_d sys) = Some s" "usable s"
    and "k \<le> length (feeds s)" "isRunning (sys_d sys)"
  shows "daemon_inv (match_only s) sys'"
proof (cases "k < length (feeds s)")
  case True
  let ?d = "sys_d sys"
  from True assms(1,2) obtain n s1 w wd where
    "processFeed x s k (sys_first_run sys) (d_web ?d) (d_world ?d) = Inr (n, s1, w, wd)"
    "sys' = sys\<lparr>sys_d := ?d\<lparr>mySession := Some s1, d_web := w, d_world := wd\<rparr>,
               sys_pc := Checking (k + 1)\<rparr>"
    by (auto simp: check_feed_def Let_def bindR_Inr_iff)
  with processFeed_session assms(3,5) True show ?thesis
    by (fastforce simp: daemon_inv_def same_job_def usable_def)
next
  case False
  with assms show ?thesis by (auto simp: check_feed_def Let_def daemon_inv_def)
qed

lemma main_step_inv:
  assumes "main_step x cfg xml sys = Inr sys'" "daemon_inv m sys" "sys_pc sys \<noteq> Done"
  shows "daemon_inv m sys'"
proof -
  let ?d = "sys_d sys"
  obtain s where s: "mySession ?d = Some s" "usable s" "match_only s = m" "good_pc (sys_pc sys) s"
    "isRunning ?d \<longleftrightarrow> in_check (sys_pc sys)"
    using assms(2,3) by (auto simp: daemon_inv_def)
  show ?thesis
  proof (cases "sys_pc sys")
    case Loop
    with assms(1) s enter_check_inv [of x xml sys sys' s] show ?thesis
      by (cases "closing ?d") (auto simp: main_step_def Let_def)
  next
    case (Checking k)
    with assms(1) s check_feed_inv [of x k sys sys' s] show ?thesis
      by (simp add: main_step_def Let_def)
  next
    case Checked
    with assms(1) s show ?thesis by (auto simp: main_step_def daemon_inv_def Let_def split: if_splits)
  next
    case Deferred
    show ?thesis
    proof (cases "seenHUP ?d")
      case True
      with Deferred assms(1) obtain d' where d': "signal_handler x cfg SIGHUP ?d = Inr d'"
        "sys' = sys\<lparr>sys_d := d', sys_pc := Sleeping\<rparr>"
        by (auto simp: main_step_def Let_def bindR_Inr_iff)
      from signal_handler_inv [OF d'(1) s(1,2)] d'(2) s(3,5) Deferred show ?thesis
        by (auto simp: daemon_inv_def)
    next
      case False
      with Deferred assms(1) s show ?thesis by (auto simp: main_step_def daemon_inv_def Let_def)
    qed
  next
    case Sleeping
    with assms(1) s show ?thesis by (auto simp: main_step_def daemon_inv_def Let_def)
  next
    case Done
    with assms(3) show ?thesis by simp
  qed
qed

lemma step_inv: "step x cfg xml sys sys' \<Longrightarrow> daemon_inv m sys \<Longrightarrow> daemon_inv m sys'"
proof (erule stepE)
  assume "daemon_inv m sys" "sys_pc sys \<noteq> Done" "main_step x cfg xml sys = Inr sys'"
  then show "daemon_inv m sys'" using main_step_inv by blast
next
  fix sig d
  assume i: "daemon_inv m sys" "sys_pc sys \<noteq> Done" and h: "signal_handler x cfg sig (sys_d sys) = Inr d"
    and s': "sys' = sys\<lparr>sys_d := d\<rparr>"
  from i obtain s where s: "mySession (sys_d sys) = Some s" "usable s" "match_only s = m"
    "good_pc (sys_pc sys) s" "isRunning (sys_d sys) \<longleftrightarrow> in_check (sys_pc sys)"
    by (auto simp: daemon_inv_def)
  from signal_handler_inv [OF h s(1,2)] obtain s1 where s1: "mySession d = Some s1" "usable s1"
    "match_only s1 = m" "isRunning d = isRunning (sys_d sys)" "isRunning (sys_d sys) \<longrightarrow> s1 = s"
    using s(3) by auto
  have "good_pc (sys_pc sys) s1"
    using s(4,5) s1(5) i(2) by (cases "sys_pc sys") auto
  with s1 s(5) s' show "daemon_inv m sys'" by (simp add: daemon_inv_def)
qed

text \<open>The state of the daemon before the session is set up.\<close>

lemma started_daemon:
  assumes "started x m sys"
  obtains se a d where "mySession d = None" "start_session x se a d = Inr sys" "\<not> isRunning d"
    "m = arg_match_only a"
proof -
  from assms obtain se argv a w wd where a: "readargs argv default_args = Some a" "m = arg_match_only a"
    and i: "main_init x se argv w wd = Inr (Some sys)"
    by (auto simp: started_def)
  define d where "d = \<lparr>mySession = None, closing = False, isRunning = False, seenHUP = False,
    d_web = w, d_world = snd (log_init (se_file se) (arg_logfile a) (wrap_s 8 (arg_verbose a))
      (arg_append_log a) (snd (log_init (se_file se) None (level P_MSG) False wd)))\<rparr>"
  from i a(1) have "mySession d = None" "\<not> isRunning d" "start_session x se a d = Inr sys"
    by (auto simp: main_init_def bindR_Inr_iff Let_def d_def split: if_splits)
  with a(2) that show thesis by blast
qed

lemma started_inv:
  assumes "started x m sys"
  shows "daemon_inv m sys"
proof (cases "sys_pc sys = Done")
  case False
  obtain se a d where d: "mySession d = None" "start_session x se a d = Inr sys" "\<not> isRunning d"
    and a: "m = arg_match_only a"
    using assms by (rule started_daemon)
  from d(2) False obtain s0 s r ok d1 where
    p: "parse_config_file (ext_pcre x) (ext_env x) (fopen_r (config_path a) (d_world d))
          (s0\<lparr>match_only := arg_match_only a\<rparr>) = Inr (r, s)"
    and s: "setupSession x (Some s) d = Inr (ok, d1)"
      "(if \<not> ok then Inr (stopped (Some s) d1 (arg_once a))
        else Inr (start_daemon se a (setup_signals d1))) = Inr sys"
    by (auto simp: start_session_def bindR_Inr_iff stopped_def split: if_splits)
  have st: "setupSession x (Some s) d = Inr (True, d1)" "sys = start_daemon se a (setup_signals d1)"
    using s False by (cases ok; auto simp: stopped_def)+
  from parse_config_file_runtime [OF p] have "match_only s = arg_match_only a"
    by (simp add: runtime_def)
  with setupSession_cases [OF st(1)] d obtain s1 where s1: "mySession d1 = Some s1" "usable s1"
    "match_only s1 = m" "\<not> isRunning d1"
    using a by (auto simp: replace_session_def same_job_def)
  with st(2) False show ?thesis
    by (auto simp: daemon_inv_def start_daemon_def setup_signals_def stopped_def Let_def
        split: prod.splits option.splits if_splits)
qed (simp add: daemon_inv_def)

interpretation daemon: machine "started x m" "step x cfg xml" "daemon_inv m" for x cfg xml m
  by unfold_locales (auto intro: started_inv step_inv)

section \<open>The end of the main loop\<close>

definition feeds_left :: "'w system \<Rightarrow> nat \<Rightarrow> nat" where
  "feeds_left sys k = (case mySession (sys_d sys) of None \<Rightarrow> 0 | Some s \<Rightarrow> length (feeds s) - k)"

definition steps_left :: "'w system \<Rightarrow> nat" where
  "steps_left sys =
     (case sys_pc sys of
        Done \<Rightarrow> 0 | Loop \<Rightarrow> 1 | Sleeping \<Rightarrow> 2 | Deferred \<Rightarrow> 3 | Checked \<Rightarrow> 4
      | Checking k \<Rightarrow> 5 + feeds_left sys k)"

lemma steps_left_pos: "sys_pc sys \<noteq> Done \<Longrightarrow> 0 < steps_left sys"
  by (simp add: steps_left_def split: pc.split)

lemma check_feed_left:
  assumes "check_feed x k sys = Inr sys'" "sys_pc sys = Checking k"
  shows "steps_left sys' < steps_left sys \<and> closing (sys_d sys') = closing (sys_d sys)"
proof -
  from assms(1) obtain s where s: "mySession (sys_d sys) = Some s"
    by (auto simp: check_feed_def Let_def split: option.splits)
  show ?thesis
  proof (cases "k < length (feeds s)")
    case True
    with assms(1) s obtain n s1 w wd where
      p: "processFeed x s k (sys_first_run sys) (d_web (sys_d sys)) (d_world (sys_d sys)) = Inr (n, s1, w, wd)"
      and "sys' = sys\<lparr>sys_d := (sys_d sys)\<lparr>mySession := Some s1, d_web := w, d_world := wd\<rparr>,
                 sys_pc := Checking (k + 1)\<rparr>"
      by (auto simp: check_feed_def Let_def bindR_Inr_iff)
    with processFeed_session [OF p] s True assms(2) show ?thesis
      by (simp add: steps_left_def feeds_left_def same_job_def)
  next
    case False
    with assms s show ?thesis by (auto simp: check_feed_def Let_def steps_left_def)
  qed
qed

lemma main_step_left:
  assumes "main_step x cfg xml sys = Inr sys'" "closing (sys_d sys)" "sys_pc sys \<noteq> Done"
    and "seenHUP (sys_d sys) \<Longrightarrow> \<exists>s. mySession (sys_d sys) = Some s \<and> usable s"
  shows "closing (sys_d sys') \<and> steps_left sys' < steps_left sys"
proof (cases "sys_pc sys")
  case (Checking k)
  with assms check_feed_left [of x k sys sys'] show ?thesis by (simp add: main_step_def Let_def)
next
  case Deferred
  show ?thesis
  proof (cases "seenHUP (sys_d sys)")
    case True
    then obtain s where s: "mySession (sys_d sys) = Some s" "usable s" using assms(4) by blast
    from True Deferred assms(1) obtain d' where d': "signal_handler x cfg SIGHUP (sys_d sys) = Inr d'"
      "sys' = sys\<lparr>sys_d := d', sys_pc := Sleeping\<rparr>"
      by (auto simp: main_step_def Let_def bindR_Inr_iff)
    from signal_handler_inv [OF d'(1) s] d'(2) assms(2) Deferred show ?thesis
      by (simp add: steps_left_def)
  next
    case False
    with Deferred assms show ?thesis by (auto simp: main_step_def Let_def steps_left_def)
  qed
qed (use assms in \<open>auto simp: main_step_def Let_def steps_left_def shutdown_daemon_def split: if_splits\<close>)

interpretation closing_down: terminating "main_step x cfg xml" "\<lambda>sys. sys_pc sys = Done"
    "\<lambda>sys. closing (sys_d sys) \<and> daemon_inv m sys" steps_left for x cfg xml m
proof unfold_locales
  fix sys sys'
  assume g: "closing (sys_d sys) \<and> daemon_inv m sys" "sys_pc sys \<noteq> Done"
    "main_step x cfg xml sys = Inr sys'"
  then have "\<exists>s. mySession (sys_d sys) = Some s \<and> usable s" by (auto simp: daemon_inv_def)
  with g main_step_left [OF g(3) _ g(2)] main_step_inv [OF g(3) _ g(2)]
  show "(closing (sys_d sys') \<and> daemon_inv m sys') \<and> steps_left sys' < steps_left sys" by blast
qed (auto simp: steps_left_pos main_step_def Let_def)

section \<open>Reloading\<close>

lemma on_net_frame: "on_net f wd = Inr (a, w, wd') \<Longrightarrow> \<exists>n. wd' = wd\<lparr>net := n\<rparr>"
  by (auto simp: on_net_def bindR_Inr_iff)

lemma load_state_net [simp]: "load_state f h (wd\<lparr>net := n\<rparr>) = load_state f h wd"
  by (simp add: load_state_def fopen_r_def)

text \<open>The history of a new session is what its state file holds.\<close>

lemma setupSession_history:
  assumes "setupSession x (Some s) d = Inr (True, d')"
  shows "\<exists>s' f. mySession d' = Some s' \<and> statefile s' = statefile s \<and> statefile s = Some f \<and>
    downloads s' = snd (load_state f (downloads s) (snd (replace_session (mySession d) s (d_world d))))"
proof -
  obtain s1 wd where 1: "replace_session (mySession d) s (d_world d) = (s1, wd)" by force
  then have s1: "statefile s1 = statefile s" "downloads s1 = downloads s"
    by (auto simp: replace_session_def split: option.splits)
  from assms 1 obtain s2 w2 wd2 where 2: "verify_prowl x s1 (d_web d) wd = Inr (s2, w2, wd2)"
    and p: "(case statefile s2 of
                    None \<Rightarrow> Inl NullDeref
                  | Some f \<Rightarrow>
                      bindR (printSessionSettings x
                               (s2\<lparr>downloads := snd (load_state f (downloads s2) wd2)\<rparr>) w2 wd2)
                        (\<lambda>(s, w, wd).
                           Inr (True, d\<lparr>mySession := Some s, d_web := w, d_world := wd\<rparr>)))
      = Inr (True, d')"
    by (auto simp: setupSession_def bindR_Inr_iff split: if_splits)
  from 2 have s2: "statefile s2 = statefile s1" "downloads s2 = downloads s1" "wd2 = wd \<or> (\<exists>n. wd2 = wd\<lparr>net := n\<rparr>)"
    by (auto simp: verify_prowl_def bindR_Inr_iff dest!: on_net_frame split: if_splits)
  from p obtain f s3 w3 wd3 where 3: "statefile s2 = Some f" "printSessionSettings x
        (s2\<lparr>downloads := snd (load_state f (downloads s2) wd2)\<rparr>) w2 wd2 = Inr (s3, w3, wd3)"
    "d' = d\<lparr>mySession := Some s3, d_web := w3, d_world := wd3\<rparr>"
    by (auto simp: bindR_Inr_iff split: option.splits)
  from 3(2) have "statefile s3 = statefile s2" "downloads s3 = snd (load_state f (downloads s2) wd2)"
    by (auto simp: printSessionSettings_def bindR_Inr_iff split: if_splits)
  moreover have "statefile s = Some f" using 3(1) s1 s2 by simp
  ultimately show ?thesis using s1 s2 3(3) 1
    by (intro exI [of _ s3] exI [of _ f]) auto
qed

section \<open>An example\<close>

text \<open>A machine with a configuration file, started in the foreground.\<close>

definition lab_config :: "entry list" where
  "lab_config =
     [(''feed'', Braced, feed_text ''http://x/rss'' ''1'' ''a=b''),
      (''filter'', Braced, filter_text ''linux'' ''1''),
      (''use-transmission'', Quoted, ''no'')]"

definition lab_env :: env where
  "lab_env = \<lparr>getenv = (\<lambda>n. if n = ''HOME'' then Some ''/h'' else None), pw_dir = None\<rparr>"

definition lab_ext2 :: "(unit, unit) ext" where
  "lab_ext2 = lab_ext\<lparr>ext_env := lab_env\<rparr>"

definition lab_disk :: "unit world" where
  "lab_disk = disk1\<lparr>files := [''/c'' \<mapsto> config_text lab_config], room := 1000\<rparr>"

lemma lab_config_ok: "lab_config \<noteq> []" "\<forall>x \<in> set lab_config. entry_ok x"
proof -
  have v: "value_ok ''http://x/rss''" "value_ok ''1''" "value_ok ''a=b''" "value_ok ''linux''"
    by (simp_all add: value_ok_def clean_def isspace_def isquote_def char_defs)
  have n: "name_ok ''feed''" "name_ok ''filter''" "name_ok ''use-transmission''"
    by (simp_all add: name_ok_def opt_char_def isprint_def code_def MAX_OPT_LEN_def)
  have "entry_ok (''feed'', Braced, feed_text ''http://x/rss'' ''1'' ''a=b'')"
    "entry_ok (''filter'', Braced, filter_text ''linux'' ''1'')"
    unfolding feed_text_def filter_text_def
    by (rule subopts_text_ok; use v n short_names in simp)+
  with n(3) show "\<forall>x \<in> set lab_config. entry_ok x"
    by (simp add: lab_config_def MAX_PARAM_LEN_def char_defs)
qed (simp add: lab_config_def)

definition lab_handle :: auto_handle where
  "lab_handle = lab_session\<lparr>
     transmission_path := Some ''/h/.config/transmission'', statefile := Some ''/h/.automatic.state'',
     use_transmission := False,
     feeds := [feed_new\<lparr>feed_url := Some ''http://x/rss'', feed_cookies := Some ''a=b'', feed_id := Some ''1''\<rparr>],
     filters := [\<lparr>f_pattern = Some ''linux'', f_folder = None, f_feedID = Some ''1''\<rparr>]\<rparr>"

lemma lab_init: "session_init lab_env = Inr (lab_handle\<lparr>use_transmission := True, feeds := [], filters := []\<rparr>)"
  by (simp add: session_init_def get_tr_folder_def state_path_def get_home_folder_def get_temp_folder_def
      lab_env_def am_strdup_def am_strndup_def MAXPATHLEN_def NUL_def lab_handle_def lab_session_def
      am_consts)

lemma lab_parse:
  "parse_config_file re e (Some (config_text lab_config))
     (lab_handle\<lparr>use_transmission := True, feeds := [], filters := []\<rparr>) = Inr (0, lab_handle)"
proof -
  have v: "value_ok ''http://x/rss''" "value_ok ''1''" "value_ok ''a=b''" "value_ok ''linux''"
    by (simp_all add: value_ok_def clean_def isspace_def isquote_def char_defs)
  show ?thesis
    unfolding parse_config_file_text [OF lab_config_ok] unfolding lab_config_def
    by (simp add: am_set_option_def parseFeed_text parseFilter_text v SUCCESS_def FAILURE_def
        yes_no_def strncmp_eq_def numeral_eq_Suc) (simp add: lab_handle_def lab_session_def)
qed

definition lab_daemon :: "unit daemon" where
  "lab_daemon = \<lparr>mySession = Some lab_handle, closing = False, isRunning = False, seenHUP = False,
     d_web = web0, d_world = lab_disk\<rparr>"

lemma lab_setup:
  "setupSession lab_ext2 (Some lab_handle) (lab_daemon\<lparr>mySession := None\<rparr>) = Inr (True, lab_daemon)"
  by (simp add: setupSession_def list_empty_def lab_daemon_def replace_session_def verify_prowl_def
      printSessionSettings_def load_state_def fopen_r_def lab_disk_def lab_handle_def disk1_def
      lab_session_def)

text \<open>The arguments \<^verbatim>\<open>-c /c -f\<close>, and the state the loop starts in.\<close>

definition lab_argv :: "(char \<times> string) list" where
  "lab_argv = [(CHR ''c'', ''/c''), (CHR ''f'', [])]"

definition lab_system :: "unit system" where
  "lab_system = \<lparr>sys_d = lab_daemon, sys_pc = Loop, sys_first_run = True, sys_once = False\<rparr>"

lemma lab_started: "started lab_ext2 False lab_system"
proof -
  let ?a = "default_args\<lparr>arg_c_file := Some ''/c'', arg_nofork := True\<rparr>"
  have cfg: "fopen_r ''/c'' lab_disk = Some (config_text lab_config)"
    by (simp add: fopen_r_def lab_disk_def disk1_def)
  have pre: "(lab_handle\<lparr>use_transmission := True, feeds := [], filters := []\<rparr>)\<lparr>match_only := False\<rparr> =
      lab_handle\<lparr>use_transmission := True, feeds := [], filters := []\<rparr>"
    by (simp add: lab_handle_def lab_session_def)
  have "start_session lab_ext2 se ?a (lab_daemon\<lparr>mySession := None\<rparr>) =
      Inr (start_daemon se ?a (setup_signals lab_daemon))" for se
    using lab_parse [of lab_pcre lab_env] lab_init lab_setup cfg pre
    by (simp add: start_session_def lab_ext2_def config_path_def lab_daemon_def default_args_def)
  then have start: "start_session lab_ext2 se ?a (lab_daemon\<lparr>mySession := None\<rparr>) = Inr lab_system" for se
    by (simp add: start_daemon_def setup_signals_def lab_system_def lab_daemon_def lab_disk_def
        disk1_def default_args_def)
  have "lab_disk\<lparr>gMsglevel := 1\<rparr> = lab_disk" by (simp add: lab_disk_def disk1_def)
  then have log: "snd (log_init f None 1 b lab_disk) = lab_disk" for f b by (simp add: log_init_def)
  have a: "arg_logfile default_args = None" "wrap_s 8 (arg_verbose default_args) = 1"
    by (simp_all add: default_args_def wrap_s_def)
  have args: "readargs lab_argv default_args = Some ?a" by (simp add: lab_argv_def)
  have "main_init lab_ext2 se lab_argv web0 lab_disk = Inr (Some lab_system)" for se
    using start [of se]
    by (simp add: main_init_def args log a config_path_def MAXPATHLEN_def lab_daemon_def)
  moreover have "\<not> arg_match_only ?a" by (simp add: default_args_def)
  ultimately show ?thesis unfolding started_def using args by blast
qed

section \<open>Properties\<close>

lemma lab_reach: "reach (started lab_ext2 False) st lab_system"
  by (rule reach.start) (rule lab_started)

text \<open>C3: in every state the daemon can reach, by steps of \<open>main\<close> and signals in any order, it has a
  session with at least one feed and one filter, still in the mode of the command line
  (\<open>--match-only\<close> survives every reload), and \<open>isRunning\<close> is set exactly inside a check.\<close>

theorem daemon_invariant:
  assumes "reach (started x m) (step x cfg xml) sys" "sys_pc sys \<noteq> Done"
  shows "\<exists>s. mySession (sys_d sys) = Some s \<and> feeds s \<noteq> [] \<and> filters s \<noteq> [] \<and> match_only s = m \<and>
    (isRunning (sys_d sys) \<longleftrightarrow> sys_pc sys = Checked \<or> (\<exists>k. sys_pc sys = Checking k))"
  using daemon.reach_inv [OF assms(1)] assms(2)
  by (auto simp: daemon_inv_def usable_def in_check_def)

theorem daemon_invariant_witness:
  "\<exists>s. mySession (sys_d lab_system) = Some s \<and> feeds s \<noteq> [] \<and> filters s \<noteq> [] \<and>
    match_only s = False \<and> (isRunning (sys_d lab_system) \<longleftrightarrow>
      sys_pc lab_system = Checked \<or> (\<exists>k. sys_pc lab_system = Checking k))"
  by (rule daemon_invariant [OF lab_reach [of "step lab_ext2 ''/c'' None"]])
    (simp add: lab_system_def)

text \<open>After SIGTERM or SIGINT the main loop ends: from any reachable state in which \<open>closing\<close> is
  set, \<open>main\<close> arrives at the end of the program after at most \<open>steps_left\<close> steps (one for each
  feed still to be checked, and at most five more), unless a step leaves defined behaviour.\<close>

theorem daemon_ends:
  assumes "reach (started x m) (step x cfg xml) sys" "closing (sys_d sys)" "steps_left sys \<le> n"
  shows "case iterate (main_step x cfg xml) n sys of Inl _ \<Rightarrow> True | Inr sys' \<Rightarrow> sys_pc sys' = Done"
proof (cases "iterate (main_step x cfg xml) n sys")
  case (Inr sys')
  have "closing (sys_d sys) \<and> daemon_inv m sys" using assms(2) daemon.reach_inv [OF assms(1)] by simp
  from closing_down.iterate_ends [OF this assms(3) Inr] Inr show ?thesis by simp
qed simp

lemma lab_terminated:
  "reach (started lab_ext2 False) (step lab_ext2 ''/c'' None)
     (lab_system\<lparr>sys_d := lab_daemon\<lparr>closing := True\<rparr>\<rparr>)"
proof (rule reach.more [OF lab_reach])
  show "step lab_ext2 ''/c'' None lab_system (lab_system\<lparr>sys_d := lab_daemon\<lparr>closing := True\<rparr>\<rparr>)"
    by (rule step.signal [where sig = SIGTERM]) (simp_all add: lab_system_def signal_handler_def)
qed

theorem daemon_ends_witness:
  "case iterate (main_step lab_ext2 ''/c'' None) 1 (lab_system\<lparr>sys_d := lab_daemon\<lparr>closing := True\<rparr>\<rparr>) of
     Inl _ \<Rightarrow> True | Inr sys' \<Rightarrow> sys_pc sys' = Done"
  by (rule daemon_ends [OF lab_terminated]) (simp_all add: lab_system_def steps_left_def)

text \<open>A signal during a check only leaves a note: the session, the world and the connection state
  stay as they are, SIGHUP sets \<open>seenHUP\<close> and the other two set \<open>closing\<close>.\<close>

theorem signal_during_check:
  assumes "isRunning d"
  shows "signal_handler x cfg sig d =
    Inr (d\<lparr>closing := (closing d \<or> sig \<noteq> SIGHUP), seenHUP := (seenHUP d \<or> sig = SIGHUP)\<rparr>)"
  using assms by (cases sig) (simp_all add: signal_handler_def)

theorem signal_during_check_witness:
  "signal_handler lab_ext2 ''/c'' SIGHUP (lab_daemon\<lparr>isRunning := True\<rparr>) =
    Inr (lab_daemon\<lparr>isRunning := True, closing := (closing (lab_daemon\<lparr>isRunning := True\<rparr>) \<or> SIGHUP \<noteq> SIGHUP),
      seenHUP := (seenHUP (lab_daemon\<lparr>isRunning := True\<rparr>) \<or> SIGHUP = SIGHUP)\<rparr>)"
  by (rule signal_during_check) simp

text \<open>C21: a reload is all or nothing: either the daemon is exactly as before (an unreadable or wrong file,
  a configuration without feeds or filters), or it has a usable session in the old mode.  The new
  session starts with the default bound of 30 entries, whatever the old one had grown to, and
  only the first check after the start of the program extends it.\<close>

theorem reload_outcome:
  "case reload x cfg d of
     Inl _ \<Rightarrow> True
   | Inr d' \<Rightarrow> d' = d \<or> (\<exists>s. mySession d' = Some s \<and> feeds s \<noteq> [] \<and> filters s \<noteq> [] \<and>
       match_only s = (case mySession d of None \<Rightarrow> False | Some p \<Rightarrow> match_only p) \<and>
       max_bucket_items s = AM_DEFAULT_MAXBUCKET)"
proof (cases "reload x cfg d")
  case (Inr d')
  have "match_only (fst (replace_session (mySession d) s wd)) =
      (case mySession d of None \<Rightarrow> match_only s | Some p \<Rightarrow> match_only p)" for s wd
    by (simp add: replace_session_def split: option.splits)
  with reload_cases [OF Inr] Inr show ?thesis
    by (fastforce simp: usable_def same_job_def runtime_def split: option.splits)
qed simp

text \<open>C19: a reload with an unchanged state file keeps an unsaved history: it is written before the old
  session goes and read back, entry by entry, into the new one.\<close>

theorem reload_keeps_history:
  assumes "reload x cfg d = Inr d'" "mySession d = Some p" "bucket_changed p" "statefile p = Some f"
    and "may_write (d_world d) f" "may_read (d_world d) f"
    and "length (state_text (downloads p)) \<le> room (d_world d)" "\<forall>e \<in> set (downloads p). storable e"
    and "d' \<noteq> d" "map_option statefile (mySession d') = Some (Some f)"
  shows "map_option downloads (mySession d') = Some (downloads p)"
proof -
  from reload_cases [OF assms(1)] assms(9) obtain s where
    s: "setupSession x (Some s) d = Inr (True, d')" "downloads s = []"
    by (auto simp: runtime_def)
  from setupSession_history [OF s(1)] obtain s' g where s': "mySession d' = Some s'"
    "statefile s' = statefile s" "statefile s = Some g"
    "downloads s' = snd (load_state g [] (snd (replace_session (mySession d) s (d_world d))))"
    using s(2) by auto
  with assms(10) have g: "g = f" by simp
  obtain wd' where w: "save_state (Some f) (map Some (downloads p)) (d_world d) = (0, wd')"
    "files wd' f = Some (state_text (downloads p))" "same_machine (d_world d) wd'"
    using save_state_text [OF assms(5,7)] by blast
  have "snd (replace_session (mySession d) s (d_world d)) = wd'"
    using assms(2-4) w(1) by (simp add: replace_session_def)
  with s' g w(2,3) assms(6,8) show ?thesis
    by (simp add: load_state_def fopen_r_def same_machine_def load_loop_text)
qed

theorem reload_keeps_history_witness:
  "\<exists>d'. reload lab_ext2 ''/c''
      (lab_daemon\<lparr>mySession := Some (lab_handle\<lparr>downloads := [''u''], bucket_changed := True\<rparr>)\<rparr>) = Inr d' \<and>
    map_option downloads (mySession d') =
      Some (downloads (lab_handle\<lparr>downloads := [''u''], bucket_changed := True\<rparr>))"
proof -
  let ?p = "lab_handle\<lparr>downloads := [''u''], bucket_changed := True\<rparr>"
  let ?d = "lab_daemon\<lparr>mySession := Some ?p\<rparr>" and ?f = "''/h/.automatic.state''"
  have fs: "files lab_disk = [''/c'' \<mapsto> config_text lab_config]" "may_write lab_disk = (\<lambda>_. True)"
    "may_read lab_disk = (\<lambda>_. True)" "room lab_disk = 1000"
    by (simp_all add: lab_disk_def disk1_def)
  have st: "storable ''u''" by (simp add: storable_def NL_def NUL_def MAX_LINE_LEN_def)
  obtain wd' where w: "save_state (Some ?f) (map Some [''u'']) lab_disk = (0, wd')"
    "files wd' ?f = Some (state_text [''u''])" "same_machine lab_disk wd'"
    using save_state_text [of lab_disk ?f "[''u'']"] fs by auto
  let ?d' = "?d\<lparr>mySession := Some (lab_handle\<lparr>downloads := [''u'']\<rparr>), d_world := wd'\<rparr>"
  have h: "statefile lab_handle = Some ?f" "prowl_key lab_handle = None" "\<not> use_transmission lab_handle"
    "\<not> list_empty (feeds lab_handle)" "\<not> list_empty (filters lab_handle)" "downloads lab_handle = []"
    "lab_handle\<lparr>match_only := match_only lab_handle\<rparr> = lab_handle"
    by (simp_all add: lab_handle_def lab_session_def list_empty_def)
  have "load_state ?f [] wd' = (0, [''u''])"
    using w(2,3) fs(3) load_loop_text [of "[''u'']" "[]"] st
    by (simp add: load_state_def fopen_r_def same_machine_def del: state_text_simps)
  then have "setupSession lab_ext2 (Some lab_handle) ?d = Inr (True, ?d')"
    using w(1) h
    by (simp add: setupSession_def replace_session_def lab_daemon_def verify_prowl_def
        printSessionSettings_def)
  moreover have "fopen_r ''/c'' lab_disk = Some (config_text lab_config)"
    using fs by (simp add: fopen_r_def)
  ultimately have r: "reload lab_ext2 ''/c'' ?d = Inr ?d'"
    using lab_init lab_parse [of lab_pcre lab_env]
    by (simp add: reload_def lab_ext2_def lab_daemon_def)
  have "lab_handle\<lparr>downloads := [''u'']\<rparr> \<noteq> ?p" by (simp add: lab_handle_def lab_session_def)
  then have "?d' \<noteq> ?d" by (simp add: lab_daemon_def)
  then have "map_option downloads (mySession ?d') = Some (downloads ?p)"
    by (rule reload_keeps_history [OF r, where p = ?p and f = ?f, rotated -2])
      (use h fs st in \<open>simp_all add: lab_daemon_def\<close>)
  with r show ?thesis by blast
qed

end
