(* ===== verification/Am_Width_Laws.thy ===== *)
theory Am_Width_Laws
  imports Am_Session_Laws
begin

text \<open>
  The type invariant of the running session: every numeric field stays in the range of its C
  type and of the values the code distinguishes, and the session has a state file.
\<close>

definition well_typed :: "auto_handle \<Rightarrow> bool" where
  "well_typed s \<longleftrightarrow> in_width s \<and> statefile s \<noteq> None"

lemma remember_all_typed: "well_typed s \<Longrightarrow> well_typed (remember_all js s)"
  by (induction js arbitrary: s) (auto simp: well_typed_def remembered_def)

lemma processRSSList_typed:
  "processRSSList x s c items feed w wd = Inr st \<Longrightarrow> well_typed s \<Longrightarrow> well_typed (r_session st)"
  using processRSSList_session remember_all_typed by metis

lemma grow_bucket_typed: "well_typed s \<Longrightarrow> well_typed (grow_bucket n s)"
  by (simp add: well_typed_def in_width_def grow_bucket_def)

lemma processFeed_typed:
  assumes "processFeed x s k fr w wd = Inr (n, s', w', wd')" "well_typed s"
  shows "well_typed s'"
proof -
  from assms(1) consider "s' = s" | (p) st c items f wd0 w0 s0 where
    "processRSSList x s0 c items (Some f) w0 wd0 = Inr st" "s' = r_session st"
    "s0 = s\<lparr>feeds := (feeds s)[k := f]\<rparr> \<or> (\<exists>m. s0 = grow_bucket m (s\<lparr>feeds := (feeds s)[k := f]\<rparr>))"
    by (fastforce simp: processFeed_def bindR_Inr_iff Let_def split: if_splits option.splits)
  then show ?thesis
  proof cases
    case p
    have "well_typed (s\<lparr>feeds := (feeds s)[k := f]\<rparr>)" using assms(2) by (simp add: well_typed_def)
    with p(3) have "well_typed s0" using grow_bucket_typed by blast
    with p(1,2) processRSSList_typed show ?thesis by blast
  qed (use assms(2) in simp)
qed

lemma processFile_typed:
  assumes "processFile x s f w wd = Inr (n, s', w', wd')" "well_typed s"
  shows "well_typed s'"
proof -
  from assms(1) consider "s' = s" | (p) st items wd0 w0 m where
    "processRSSList x (grow_bucket m s) None items None w0 wd0 = Inr st" "s' = r_session st"
    by (fastforce simp: processFile_def bindR_Inr_iff Let_def split: if_splits option.splits)
  then show ?thesis
  proof cases
    case p
    with processRSSList_typed grow_bucket_typed assms(2) show ?thesis by blast
  qed (use assms(2) in simp)
qed

section \<open>A new session\<close>

text \<open>An \<open>int8_t\<close> as the first component of a result.\<close>

definition int8_result :: "(int \<times> 'a) res \<Rightarrow> bool" where
  "int8_result m \<longleftrightarrow> (\<forall>v y. m = Inr (v, y) \<longrightarrow> - 128 \<le> v \<and> v < 128)"

lemma int8_rules:
  "(\<And>y. int8_result (f y)) \<Longrightarrow> int8_result (bindR m f)"
  "int8_result u \<Longrightarrow> (\<And>y. int8_result (g y)) \<Longrightarrow> int8_result (case z of None \<Rightarrow> u | Some y \<Rightarrow> g y)"
  "int8_result u \<Longrightarrow> int8_result v \<Longrightarrow> int8_result (if c then u else v)"
  "(\<And>i j. int8_result (h i j)) \<Longrightarrow> int8_result (case p of (i, j) \<Rightarrow> h i j)"
  "int8_result (Inr (0, y))"
  by (auto simp: int8_result_def bindR_Inr_iff split: option.splits prod.splits)

lemma parseRPCVersion_int8: "int8_result (bindR (parseRPCVersion re r) (\<lambda>v. Inr (v, y)))"
  using wrap_s_range [of 8]
  by (auto simp: int8_result_def parseRPCVersion_def bindR_Inr_iff split: option.split)

lemma getRPCVersion_int8: "int8_result (getRPCVersion re lib h port a w n)"
  unfolding getRPCVersion_def by (intro int8_rules parseRPCVersion_int8)

lemma printSessionSettings_typed:
  assumes "printSessionSettings x s w wd = Inr (s', w', wd')" "well_typed s"
  shows "well_typed s'"
proof (cases "use_transmission s \<and> transmission_version s = AM_TRANSMISSION_1_3")
  case True
  with assms(1) obtain v y where "getRPCVersion (ext_pcre x) (ext_curl x) (Some (rpc_host s)) (rpc_port s)
      (auth s) w (net wd) = Inr (v, y)" "s' = s\<lparr>rpc_version := v\<rparr>"
    by (auto simp: printSessionSettings_def on_net_def bindR_Inr_iff)
  moreover from this(1) have "- 128 \<le> v" "v < 128"
    using getRPCVersion_int8 [of "ext_pcre x" "ext_curl x" "Some (rpc_host s)" "rpc_port s" "auth s" w "net wd"]
    by (simp_all add: int8_result_def)
  ultimately show ?thesis using assms(2) by (simp add: well_typed_def in_width_def)
qed (use assms in \<open>auto simp: printSessionSettings_def split: if_splits\<close>)

lemma setupSession_typed:
  assumes "setupSession x (Some s) d = Inr (True, d')" "in_width s"
  shows "\<exists>s'. mySession d' = Some s' \<and> well_typed s'"
proof -
  obtain s1 wd where 1: "replace_session (mySession d) s (d_world d) = (s1, wd)" by force
  with assms(2) have s1: "in_width s1" by (auto simp: replace_session_def split: option.splits)
  from assms(1) 1 obtain s2 w2 wd2 where 2: "verify_prowl x s1 (d_web d) wd = Inr (s2, w2, wd2)"
    and p: "(case statefile s2 of
                    None \<Rightarrow> Inl NullDeref
                  | Some f \<Rightarrow>
                      bindR (printSessionSettings x
                               (s2\<lparr>downloads := snd (load_state f (downloads s2) wd2)\<rparr>) w2 wd2)
                        (\<lambda>(s, w, wd).
                           Inr (True, d\<lparr>mySession := Some s, d_web := w, d_world := wd\<rparr>)))
      = Inr (True, d')"
    by (auto simp: setupSession_def bindR_Inr_iff split: if_splits)
  from 2 s1 have s2: "in_width s2" by (auto simp: verify_prowl_def bindR_Inr_iff split: if_splits)
  from p obtain f s3 w3 wd3 where "statefile s2 = Some f" and 3: "printSessionSettings x
        (s2\<lparr>downloads := snd (load_state f (downloads s2) wd2)\<rparr>) w2 wd2 = Inr (s3, w3, wd3)"
    "d' = d\<lparr>mySession := Some s3, d_web := w3, d_world := wd3\<rparr>"
    by (auto simp: bindR_Inr_iff split: option.splits)
  with s2 printSessionSettings_typed [OF 3(1)] show ?thesis by (simp add: well_typed_def)
qed

section \<open>The reachable states\<close>

definition typed_session :: "'w daemon \<Rightarrow> bool" where
  "typed_session d \<longleftrightarrow> (\<forall>s. mySession d = Some s \<longrightarrow> well_typed s)"

lemma reload_typed:
  assumes "reload x cfg d = Inr d'" "typed_session d"
  shows "typed_session d'"
proof -
  from assms(1) obtain s0 r s where 1: "session_init (ext_env x) = Inr s0"
    "parse_config_file (ext_pcre x) (ext_env x) (fopen_r cfg (d_world d)) s0 = Inr (r, s)"
    "(if r \<noteq> 0 then Inr d else bindR (setupSession x (Some s) d) (\<lambda>(ok, d). Inr d)) = Inr d'"
    by (auto simp: reload_def bindR_Inr_iff)
  have "in_width s" using widths.file_inv [OF 1(2)] session_init_width [OF 1(1)] by simp
  show ?thesis
  proof (cases "d' = d")
    case False
    with 1(3) obtain ok where ok: "setupSession x (Some s) d = Inr (ok, d')"
      by (auto simp: bindR_Inr_iff split: if_splits)
    with setupSession_cases [OF ok] False have "ok" by (cases ok) auto
    with setupSession_typed ok \<open>in_width s\<close> show ?thesis by (fastforce simp: typed_session_def)
  qed (use assms(2) in simp)
qed

lemma signal_handler_typed:
  "signal_handler x cfg sig d = Inr d' \<Longrightarrow> typed_session d \<Longrightarrow> typed_session d'"
  using reload_typed [of x cfg d]
  by (auto simp: signal_handler_def bindR_Inr_iff typed_session_def split: signal.splits if_splits)

lemma main_step_typed:
  assumes "main_step x cfg xml sys = Inr sys'" "typed_session (sys_d sys)"
  shows "typed_session (sys_d sys')"
proof (cases "sys_pc sys")
  case Loop
  with assms show ?thesis
    by (auto simp: main_step_def Let_def enter_check_def typed_session_def bindR_Inr_iff shutdown_daemon_def
        dest: processFile_typed split: if_splits option.splits)
next
  case (Checking k)
  with assms show ?thesis
    by (auto simp: main_step_def Let_def check_feed_def typed_session_def bindR_Inr_iff
        dest: processFeed_typed split: if_splits option.splits)
next
  case Deferred
  with assms signal_handler_typed show ?thesis
    by (auto simp: main_step_def Let_def bindR_Inr_iff split: if_splits)
qed (use assms in \<open>auto simp: main_step_def Let_def typed_session_def shutdown_daemon_def split: if_splits\<close>)

lemma step_typed: "step x cfg xml sys sys' \<Longrightarrow> typed_session (sys_d sys) \<Longrightarrow> typed_session (sys_d sys')"
  by (erule stepE) (auto dest: main_step_typed signal_handler_typed)

lemma started_typed:
  fixes sys :: "'w system"
  assumes "started x m sys"
  shows "typed_session (sys_d sys)"
proof -
  obtain se a and d :: "'w daemon" where d: "mySession d = None" "start_session x se a d = Inr sys"
    using assms by (rule started_daemon)
  then obtain s0 s1 r where 1: "session_init (ext_env x) = Inr s0"
    "parse_config_file (ext_pcre x) (ext_env x) (fopen_r (config_path a) (d_world d))
       (s0\<lparr>match_only := arg_match_only a\<rparr>) = Inr (r, s1)"
    "(if r \<noteq> 0 then Inr (stopped (Some s1) d (arg_once a))
       else bindR (setupSession x (Some s1) d) (\<lambda>(ok, d).
         if \<not> ok then Inr (stopped (Some s1) d (arg_once a))
         else Inr (start_daemon se a (setup_signals d)))) = Inr sys"
    by (auto simp: start_session_def bindR_Inr_iff)
  have w: "in_width s1" using widths.file_inv [OF 1(2)] session_init_width [OF 1(1)] by simp
  have stop: "typed_session (sys_d (stopped p d b))" for p b
    using d(1) by (simp add: typed_session_def stopped_def shutdown_daemon_def)
  show ?thesis
  proof (cases "r = 0")
    case False
    then have "sys = stopped (Some s1) d (arg_once a)" using 1(3) by simp
    then show ?thesis by (simp only: stop)
  next
    case True
    with 1(3) obtain ok e where s: "setupSession x (Some s1) d = Inr (ok, e)"
      "sys = (if ok then start_daemon se a (setup_signals e) else stopped (Some s1) e (arg_once a))"
      by (auto simp: bindR_Inr_iff split: if_splits)
    show ?thesis
    proof (cases ok)
      case False
      with setupSession_cases [OF s(1)] s(2) show ?thesis by (simp add: stop)
    next
      case True
      with setupSession_typed s(1) w have "typed_session e" by (fastforce simp: typed_session_def)
      with True s(2) show ?thesis
        by (auto simp: start_daemon_def setup_signals_def Let_def typed_session_def stopped_def
            shutdown_daemon_def split: prod.splits option.splits if_splits)
    qed
  qed
qed

interpretation typed: machine "started x m" "step x cfg xml" "\<lambda>sys. typed_session (sys_d sys)" for x cfg xml m
  by unfold_locales (auto intro: started_typed step_typed)

text \<open>C12: the type invariant: in every state the daemon can reach, by steps of \<open>main\<close> and signals in any
  order and whatever the servers and the configuration file say, each numeric field of the session
  is in the range of its C type, the interval fits into its byte, the RPC port is one the
  configuration accepts, the version of Transmission is one of the three that \<open>addTorrentToTM\<close>
  distinguishes, and there is a state file.\<close>

theorem session_types:
  assumes "reach (started x m) (step x cfg xml) sys" "mySession (sys_d sys) = Some s"
  shows "- 128 \<le> rpc_version s \<and> rpc_version s < 128 \<and> max_bucket_items s < 2 ^ 16 \<and>
    0 \<le> check_interval s \<and> check_interval s < 256 \<and> 1024 < rpc_port s \<and> rpc_port s < 65535 \<and>
    - (2 ^ 15) \<le> upspeed s \<and> upspeed s < 2 ^ 15 \<and>
    transmission_version s \<in> {AM_TRANSMISSION_EXTERNAL, AM_TRANSMISSION_1_2, AM_TRANSMISSION_1_3} \<and>
    statefile s \<noteq> None"
  using typed.reach_inv [OF assms(1)] assms(2)
  by (simp add: typed_session_def well_typed_def in_width_def)

theorem session_types_witness:
  "- 128 \<le> rpc_version lab_handle \<and> rpc_version lab_handle < 128 \<and> max_bucket_items lab_handle < 2 ^ 16 \<and>
    0 \<le> check_interval lab_handle \<and> check_interval lab_handle < 256 \<and> 1024 < rpc_port lab_handle \<and>
    rpc_port lab_handle < 65535 \<and>
    - (2 ^ 15) \<le> upspeed lab_handle \<and> upspeed lab_handle < 2 ^ 15 \<and>
    transmission_version lab_handle \<in> {AM_TRANSMISSION_EXTERNAL, AM_TRANSMISSION_1_2, AM_TRANSMISSION_1_3} \<and>
    statefile lab_handle \<noteq> None"
  by (rule session_types [OF lab_reach [of "step lab_ext2 ''/c'' None"]])
    (simp add: lab_system_def lab_daemon_def)

end
