(* ===== verification/Am_Web_Total.thy ===== *)
theory Am_Web_Total
  imports Am_Torrent Am_Notify
begin

text \<open>
  Total correctness of the HTTP component and of everything that sends requests: under the
  contract below, which is what PCRE and libcurl document and what a server in its senses sends,
  no function leaves defined behaviour.
\<close>

section \<open>The contract\<close>

text \<open>The groups of a match are substrings of the subject.\<close>

definition good_pcre :: "pcre \<Rightarrow> bool" where
  "good_pcre re \<longleftrightarrow> pcre_lists re \<and>
     (\<forall>p s count l g. pcre_substrings re p s count = Some l \<longrightarrow> g \<in> set l \<longrightarrow> length g \<le> length s)"

text \<open>
  A header line is shorter than a path, and a session identifier ends with white space (libcurl
  delivers whole lines) and is short (Transmission sends 48 characters).
\<close>

definition good_line :: "string \<Rightarrow> bool" where
  "good_line h \<longleftrightarrow> length h < PATH_MAX \<and>
     (starts_with session_key h \<longrightarrow>
        (let b = drop (length session_key) h; n = length (takeWhile (\<lambda>c. \<not> isspace c) b)
         in n < length b \<and> n < 173))"

definition announces :: "pcre \<Rightarrow> string \<Rightarrow> bool" where
  "announces re h \<longleftrightarrow> starts_with ''Content-Length:'' h \<and>
     (case getRegExMatch re (Some length_regex) (Some h) 1 of
        Inr (Some t) \<Rightarrow> 0 < atoi t
      | _ \<Rightarrow> False)"

text \<open>
  No header announces two gigabytes.  A transfer that succeeds delivers the headers and then the
  body; a body that was announced is delivered (otherwise libcurl reports a partial file), and a
  status of 200 comes with a text: an empty one, or one that begins with a NUL, aborts the daemon.
\<close>

definition MAX_BODY :: nat where "MAX_BODY = 2 ^ 30 - 2 ^ 20"

definition good_transfer :: "pcre \<Rightarrow> transfer \<Rightarrow> bool" where
  "good_transfer re t \<longleftrightarrow>
     (\<forall>h. Header h \<in> set (t_events t) \<longrightarrow> good_line h \<and> modest re h) \<and>
     (t_result t = 0 \<longrightarrow>
       (\<exists>hs bs. t_events t = map Header hs @ map Body bs \<and>
          (bs = [] \<longrightarrow> list_all (\<lambda>h. \<not> announces re h) hs) \<and>
          (t_status t = 200 \<longrightarrow>
             concat bs \<noteq> [] \<and> hd (concat bs) \<noteq> NUL \<and> length (concat bs) < MAX_BODY)))"

definition good_server :: "pcre \<Rightarrow> 'w curl_lib \<Rightarrow> bool" where
  "good_server re lib \<longleftrightarrow> (\<forall>c n. good_transfer re (fst (curl_easy_perform lib c n)))"

text \<open>What the rest of the program may rely on in an answer.\<close>

definition good_response :: "HTTPResponse \<Rightarrow> bool" where
  "good_response r \<longleftrightarrow>
     (hr_code r = 200 \<longrightarrow>
       (\<exists>d. hr_data r = Some d \<and> d \<noteq> [] \<and> hr_size r = length d \<and> length d < MAX_BODY)) \<and>
     (\<forall>f. hr_filename r = Some f \<longrightarrow> length f < PATH_MAX)"

section \<open>Callbacks\<close>

lemma strip_ref_length: "length (strip_ref s) \<le> length s"
  unfolding strip_ref_def
  by (metis (no_types, lifting) le_trans length_dropWhile_le length_rev)

lemma getRegExMatch_returns:
  assumes "good_pcre re" "1 \<le> k"
  shows "returns (getRegExMatch re p s k)
    (\<lambda>r. \<forall>t. r = Some t \<longrightarrow> (\<exists>u. s = Some u \<and> length t \<le> length u))"
proof -
  have pl: "pcre_lists re" using assms(1) by (simp add: good_pcre_def)
  obtain r where r: "getRegExMatch re p s k = Inr r" using getRegExMatch_safe [OF pl assms(2)] by blast
  have "\<exists>u. s = Some u \<and> length t \<le> length u" if t: "r = Some t" for t
  proof -
    obtain count l where g: "getRegExCaptureGroups re p s = (count, l)" by force
    with r t obtain xs where x: "l = Some xs" "k < length xs"
      "am_strstrip (am_strdup (Some (xs ! k))) = Some t"
      by (auto simp: getRegExMatch_def split: if_splits option.splits)
    from g x(1) obtain q u where u: "s = Some u" "pcre_substrings re q u count = Some xs"
      by (auto simp: getRegExCaptureGroups_def Let_def split: option.splits if_splits)
    with assms(1) x(2) have "length (xs ! k) \<le> length u" unfolding good_pcre_def by (metis nth_mem)
    moreover from x(3) obtain v where "am_strdup (Some (xs ! k)) = Some v" "t = strip_ref v"
      by (cases "am_strdup (Some (xs ! k))") (auto simp: am_strstrip_eq)
    then have "length t \<le> length (xs ! k)"
      using strip_ref_length [of v] am_strdup_eq_Some [of "Some (xs ! k)" v] by simp
    ultimately show ?thesis using u(1) by simp
  qed
  with r show ?thesis by (simp add: returns_def)
qed

lemma am_strndup_length: "am_strndup p n = Some t \<Longrightarrow> length t \<le> n"
  by (auto simp: am_strndup_def split: option.splits list.splits if_splits)

lemma length_header:
  assumes "good_pcre re"
  obtains a where "getRegExMatch re (Some length_regex) (Some h) 1 = Inr a"
  using getRegExMatch_returns [OF assms order_refl] by (rule returns_obtain)

text \<open>The state the callbacks work on.\<close>

definition cb_ok :: "WebData \<times> web \<Rightarrow> bool" where
  "cb_ok st \<longleftrightarrow> buffer_ok (fst st) \<and> session_short (snd st) \<and>
     (\<forall>f. w_filename (fst st) = Some f \<longrightarrow> length f < PATH_MAX)"

text \<open>What a callback for header lines promises.\<close>

definition cb_post :: "pcre \<Rightarrow> string \<Rightarrow> WebData \<times> web \<Rightarrow> WebData \<times> web \<Rightarrow> bool" where
  "cb_post re h st st' \<longleftrightarrow> cb_ok st' \<and> w_url (fst st') = w_url (fst st) \<and>
     hd_pos (w_resp (fst st')) = hd_pos (w_resp (fst st)) \<and>
     (hd_data (w_resp (fst st)) = None \<longrightarrow> \<not> announces re h \<longrightarrow> hd_data (w_resp (fst st')) = None)"

lemma cb_post_refl [simp]: "cb_ok st \<Longrightarrow> cb_post re h st st"
  by (simp add: cb_post_def)

lemma cb_post_length:
  "cb_ok (mem, w) \<Longrightarrow> announces re h \<Longrightarrow> cb_post re h (mem, w) (set_content_length n mem, w)"
  by (simp add: cb_post_def cb_ok_def buffer_ok_set_content_length)
    (simp add: set_content_length_def Let_def)

text \<open>What both callbacks do with a length they have found.\<close>

lemma announced_returns:
  assumes "modest re h" "starts_with ''Content-Length:'' h" "cb_ok (mem, w)"
    and "getRegExMatch re (Some length_regex) (Some h) 1 = Inr (Some t)" "0 < atoi t"
  shows "returns (bindR (announce_length (atoi t) mem) (\<lambda>mem. Inr (mem, w))) (cb_post re h (mem, w))"
  using assms cb_post_length [OF assms(3), of re h] by (simp add: modest_def announce_length_def announces_def)

lemma write_header_callback_returns:
  assumes "good_pcre re" "good_line h \<and> modest re h" "cb_ok st"
  shows "returns (write_header_callback re h st) (cb_post re h st)"
proof -
  obtain mem w where st: "st = (mem, w)" by force
  obtain a where a: "getRegExMatch re (Some length_regex) (Some h) 1 = Inr a"
    using assms(1) by (rule length_header)
  obtain b where b: "getRegExMatch re (Some filename_regex) (Some h) 2 = Inr b"
    "\<And>f. b = Some f \<Longrightarrow> length f \<le> length h"
    using getRegExMatch_returns [OF assms(1), of 2 "Some filename_regex" "Some h"]
    by (auto simp: returns_def)
  have "cb_post re h st (mem\<lparr>w_length := 0, w_resp := (w_resp mem)\<lparr>hd_data := None, hd_size := 0\<rparr>\<rparr>, w\<lparr>isMoveHeader := m\<rparr>)"
    "cb_post re h st (mem, w\<lparr>isMoveHeader := m\<rparr>)" for m
    using assms(3) by (simp_all add: st cb_post_def cb_ok_def buffer_ok_def session_short_def)
  moreover have "cb_post re h st (mem\<lparr>w_filename := Some f\<rparr>, w)" if "b = Some f" for f
    using assms(2,3) b(2) [OF that] by (simp add: st cb_post_def cb_ok_def buffer_ok_def good_line_def split: option.splits)
  moreover have "returns (bindR (announce_length (atoi t) mem) (\<lambda>mem. Inr (mem, w))) (cb_post re h st)"
    if "a = Some t" "starts_with ''Content-Length:'' h" "0 < atoi t" for t
    using announced_returns [of re h mem w t] assms(2,3) a that by (simp add: st)
  moreover define cd where
    "cd \<longleftrightarrow> 19 \<le> length h \<and> map tolower (take 20 h) = map tolower ''Content-Disposition:''"
  ultimately show ?thesis
    using assms(3) unfolding st write_header_callback_def prod.case a b(1) cd_def [symmetric]
    by (auto split: option.split)
qed

lemma parse_Transmission_response_returns:
  assumes "good_pcre re" "good_line h \<and> modest re h" "cb_ok st"
  shows "returns (parse_Transmission_response re h st) (cb_post re h st)"
proof -
  obtain mem w where st: "st = (mem, w)" by force
  obtain a where a: "getRegExMatch re (Some length_regex) (Some h) 1 = Inr a"
    using assms(1) by (rule length_header)
  show ?thesis
  proof (cases "starts_with session_key h")
    case True
    let ?b = "drop (length session_key) h"
    let ?n = "length (takeWhile (\<lambda>c. \<not> isspace c) ?b)"
    have n: "?n < length ?b" "?n < 173" using assms(2) True by (simp_all add: good_line_def Let_def)
    have "cb_post re h st (mem, w\<lparr>gSessionID := am_strndup (Some ?b) ?n\<rparr>)"
      using assms(3) am_strndup_length [of "Some ?b" ?n] n(2)
      by (fastforce simp: st cb_post_def cb_ok_def session_short_def split: option.split)
    with n(1) True show ?thesis
      unfolding st parse_Transmission_response_def prod.case if_P [OF True] Let_def by simp
  next
    case False
    show ?thesis
    proof (cases "starts_with ''Content-Length:'' h")
      case True
      have "returns (case a of None \<Rightarrow> Inr (mem, w)
          | Some t \<Rightarrow> if 0 < atoi t then bindR (announce_length (atoi t) mem) (\<lambda>mem. Inr (mem, w))
                     else Inr (mem, w)) (cb_post re h st)"
        using assms(2,3) a True announced_returns [of re h mem w]
        by (auto simp: st split: option.split)
      with True show ?thesis
        unfolding st parse_Transmission_response_def prod.case if_not_P [OF False] if_P [OF True] a by simp
    next
      case no: False
      show ?thesis
        using assms(3) unfolding st parse_Transmission_response_def prod.case if_not_P [OF False] if_not_P [OF no]
        by simp
    qed
  qed
qed

text \<open>The interface the transfer relies on; both callbacks provide it.\<close>

locale header_callback =
  fixes cb :: "pcre \<Rightarrow> string \<Rightarrow> WebData \<times> web \<Rightarrow> (WebData \<times> web) res"
  assumes line: "good_pcre re \<Longrightarrow> good_line h \<and> modest re h \<Longrightarrow> cb_ok st \<Longrightarrow> returns (cb re h st) (cb_post re h st)"
begin

lemma deliver_returns:
  assumes "good_pcre re"
  shows "\<forall>h. Header h \<in> set es \<longrightarrow> good_line h \<and> modest re h \<Longrightarrow> cb_ok st \<Longrightarrow>
    returns (deliver (cb re) es st) (\<lambda>st'. cb_ok st' \<and> w_url (fst st') = w_url (fst st))"
proof (induction es arbitrary: st)
  case (Cons ev es)
  show ?case
  proof (cases ev)
    case (Header h)
    with Cons.prems line [OF assms, of h st] obtain st1 where st1: "cb re h st = Inr st1" "cb_post re h st st1"
      by (auto elim: returns_obtain)
    with Cons.IH [of st1] Cons.prems Header show ?thesis by (auto simp: cb_post_def returns_def)
  next
    case (Body b)
    have "buffer_ok (fst st)" using Cons.prems(2) by (simp add: cb_ok_def)
    then obtain m1 where m1: "write_data_callback b (fst st) = Inr m1" "buffer_ok m1"
      "w_url m1 = w_url (fst st)" "w_filename m1 = w_filename (fst st)"
      by (rule write_data_callback_ok [of "fst st" b])
    then have "cb_ok (m1, snd st)" using Cons.prems(2) by (simp add: cb_ok_def)
    with Cons.IH [of "(m1, snd st)"] Cons.prems(1) m1 Body show ?thesis by (auto simp: returns_def)
  qed
qed simp

lemma headers_return:
  assumes "good_pcre re"
  shows "\<forall>h \<in> set hs. good_line h \<and> modest re h \<Longrightarrow> cb_ok st \<Longrightarrow>
    returns (deliver (cb re) (map Header hs) st) (\<lambda>st'. cb_ok st' \<and>
      hd_pos (w_resp (fst st')) = hd_pos (w_resp (fst st)) \<and>
      (hd_data (w_resp (fst st)) = None \<longrightarrow> list_all (\<lambda>h. \<not> announces re h) hs \<longrightarrow>
         hd_data (w_resp (fst st')) = None))"
proof (induction hs arbitrary: st)
  case (Cons h hs)
  with line [OF assms, of h st] obtain st1 where st1: "cb re h st = Inr st1" "cb_post re h st st1"
    by (auto elim: returns_obtain)
  with Cons.IH [of st1] Cons.prems show ?case by (auto simp: cb_post_def returns_def)
qed simp

end

interpretation download: header_callback write_header_callback
  by unfold_locales (rule write_header_callback_returns)

interpretation upload: header_callback parse_Transmission_response
  by unfold_locales (rule parse_Transmission_response_returns)

text \<open>Where something has been received, the answer is the bytes received.\<close>

lemma copy_body_returns:
  "returns (copy_body (map Some body @ Some NUL # rest) (length body))
     (\<lambda>b. body \<noteq> [] \<longrightarrow> hd body \<noteq> NUL \<longrightarrow> b = Some body)"
proof (cases "body = [] \<or> hd body = NUL")
  case True
  then show ?thesis by (cases body) (auto simp: copy_body_def)
next
  case False
  then show ?thesis using copy_body_whole [of body "Some NUL # rest"] by simp
qed

lemma make_response_none:
  "cb_ok (mem, w) \<Longrightarrow> hd_data (w_resp mem) = None \<Longrightarrow> status \<noteq> 200 \<Longrightarrow>
   returns (make_response mem status) good_response"
  by (auto simp: make_response_def good_response_def cb_ok_def HTTPResponse_new_def Let_def
      dest!: am_strdup_eq_Some)

lemma make_response_body:
  assumes "cb_ok (mem, w)" "hd_data (w_resp mem) = Some (map Some body @ Some NUL # rest)"
    and "hd_pos (w_resp mem) = length body"
    and "status = 200 \<Longrightarrow> body \<noteq> [] \<and> hd body \<noteq> NUL \<and> length body < MAX_BODY"
  shows "returns (make_response mem status) good_response"
proof -
  obtain b where b: "copy_body (map Some body @ Some NUL # rest) (length body) = Inr b"
    "body \<noteq> [] \<Longrightarrow> hd body \<noteq> NUL \<Longrightarrow> b = Some body"
    using copy_body_returns by (rule returns_obtain) blast
  show ?thesis
    using assms b
    by (auto simp: make_response_def good_response_def cb_ok_def HTTPResponse_new_def Let_def
        dest!: am_strdup_eq_Some)
qed

context header_callback
begin

lemma received:
  assumes re: "good_pcre re" and t: "good_transfer re t" "t_result t = 0"
    and st: "cb_ok st" "hd_data (w_resp (fst st)) = None" "hd_pos (w_resp (fst st)) = 0"
  shows "returns (deliver (cb re) (t_events t) st) (\<lambda>st'. cb_ok st' \<and> w_url (fst st') = w_url (fst st) \<and>
    returns (make_response (fst st') (t_status t)) good_response)"
proof -
  from t obtain hs bs where es: "t_events t = map Header hs @ map Body bs"
    "bs = [] \<Longrightarrow> list_all (\<lambda>h. \<not> announces re h) hs"
    "t_status t = 200 \<Longrightarrow> concat bs \<noteq> [] \<and> hd (concat bs) \<noteq> NUL \<and> length (concat bs) < MAX_BODY"
    by (auto simp: good_transfer_def)
  have line: "\<forall>h. Header h \<in> set (t_events t) \<longrightarrow> good_line h \<and> modest re h" using t(1) by (simp add: good_transfer_def)
  then have "\<forall>h \<in> set hs. good_line h \<and> modest re h" by (auto simp: es(1))
  then obtain m w where h: "deliver (cb re) (map Header hs) st = Inr (m, w)" "cb_ok (m, w)"
    "hd_pos (w_resp m) = 0" "list_all (\<lambda>h. \<not> announces re h) hs \<Longrightarrow> hd_data (w_resp m) = None"
    using headers_return [OF re, of hs st] st by (auto simp: returns_def)
  have "buffer_ok m" using h(2) by (simp add: cb_ok_def)
  with h(3) have "\<exists>m'. deliver (cb re) (map Body bs) (m, w) = Inr (m', w) \<and> buffer_ok m' \<and>
     w_filename m' = w_filename m \<and> hd_pos (w_resp m') = length ([] @ concat bs) \<and>
     (if bs = [] then m' = m
      else \<exists>rest. hd_data (w_resp m') = Some (map Some ([] @ concat bs) @ Some NUL # rest))"
    by (intro deliver_bodies) simp_all
  then obtain m' where b: "deliver (cb re) (map Body bs) (m, w) = Inr (m', w)"
    "hd_pos (w_resp m') = length (concat bs)"
    "if bs = [] then m' = m
     else \<exists>rest. hd_data (w_resp m') = Some (map Some (concat bs) @ Some NUL # rest)"
    unfolding append_Nil by blast
  have d: "deliver (cb re) (t_events t) st = Inr (m', w)" by (simp add: es(1) deliver_append h(1) b(1))
  with deliver_returns [OF re line st(1)] have ok: "cb_ok (m', w)" "w_url m' = w_url (fst st)" by simp_all
  have "returns (make_response m' (t_status t)) good_response"
  proof (cases "bs = []")
    case True
    with b(3) have m': "m' = m" by simp
    from True es(3) have "t_status t \<noteq> 200" by auto
    moreover have "hd_data (w_resp m') = None" unfolding m' using es(2) [OF True] by (rule h(4))
    ultimately show ?thesis using make_response_none [OF ok(1)] by blast
  next
    case False
    with b(3) obtain rest where "hd_data (w_resp m') = Some (map Some (concat bs) @ Some NUL # rest)"
      unfolding if_not_P [OF False] by blast
    from make_response_body [OF ok(1) this b(2)] es(3) show ?thesis by blast
  qed
  with d ok show ?thesis by simp
qed

end

section \<open>Requests\<close>

definition answered :: "HTTPResponse option \<Rightarrow> web \<Rightarrow> bool" where
  "answered resp w \<longleftrightarrow> session_short w \<and> (\<forall>r. resp = Some r \<longrightarrow> good_response r)"

lemma cb_ok_new [simp]:
  "cb_ok (WebData_new url, w) \<longleftrightarrow> session_short w" "cb_ok (WebData_clear mem, w) \<longleftrightarrow> session_short w"
  by (simp_all add: cb_ok_def WebData_clear_def buffer_ok_def WebData_new_def HTTPData_new_def)

lemma session_short_init [simp]: "session_short (w\<lparr>gbGlobalInitDone := b\<rparr>) \<longleftrightarrow> session_short w"
  by (simp add: session_short_def)

lemma fresh_buffer [simp]:
  "hd_data (w_resp (WebData_new url)) = None" "hd_pos (w_resp (WebData_new url)) = 0"
  "hd_data (w_resp (WebData_clear mem)) = None" "hd_pos (w_resp (WebData_clear mem)) = 0"
  "w_url (WebData_clear mem) = w_url mem" "w_url (WebData_new url) = am_strdup url"
  by (simp_all add: WebData_clear_def WebData_new_def HTTPData_new_def)

lemma good_transfer_lines:
  "good_transfer re t \<Longrightarrow> \<forall>h. Header h \<in> set (t_events t) \<longrightarrow> good_line h \<and> modest re h"
  by (simp add: good_transfer_def)

text \<open>A transfer as both functions use it, with either callback.\<close>

context header_callback
begin

lemma transfer_returns:
  assumes "good_pcre re" "good_transfer re t" "cb_ok (mem, w)" "hd_data (w_resp mem) = None"
    and "hd_pos (w_resp mem) = 0"
  shows "returns (deliver (cb re) (t_events t) (mem, w)) (\<lambda>(mem', w'). session_short w' \<and>
    w_url mem' = w_url mem \<and>
    (t_result t = 0 \<longrightarrow> returns (make_response mem' (t_status t)) good_response))"
proof (cases "t_result t = 0")
  case True
  from received [OF assms(1,2) True assms(3)] assms(4,5) show ?thesis
    by (auto elim!: returns_weaken simp: cb_ok_def)
next
  case False
  from deliver_returns [OF assms(1) good_transfer_lines [OF assms(2)] assms(3)] False show ?thesis
    by (auto elim!: returns_weaken simp: cb_ok_def)
qed

end

lemma getHTTPData_returns:
  assumes re: "good_pcre re" and lib: "good_server re lib" and w: "session_short w"
  shows "returns (getHTTPData re lib url cookies curl_session w wd)
    (\<lambda>(resp, c, w', wd'). answered resp w' \<and> (resp \<noteq> None \<longrightarrow> c \<noteq> None))"
proof (cases url)
  case None
  then show ?thesis using w by (simp add: getHTTPData_def answered_def)
next
  case (Some u)
  define session where "session = (case curl_session of
      None \<Rightarrow> (am_curl_init lib None False wd, w\<lparr>gbGlobalInitDone := True\<rparr>) | Some c \<Rightarrow> (Some c, w))"
  obtain c w1 where s: "session = (c, w1)" by force
  then have w1: "session_short w1" using w by (auto simp: session_def split: option.splits)
  show ?thesis
  proof (cases c)
    case None
    with s w1 show ?thesis by (simp add: getHTTPData_def Some session_def answered_def)
  next
    case (Some c1)
    let ?c = "get_request u cookies c1"
    obtain t wd1 where t: "curl_easy_perform lib ?c wd = (t, wd1)" by force
    then have "good_transfer re t" using lib by (metis good_server_def fst_conv)
    from download.transfer_returns [OF re this, of "WebData_new (Some u)" w1] w1
    obtain m w2 where d: "deliver (write_header_callback re) (t_events t) (WebData_new (Some u), w1) =
        Inr (m, w2)" "session_short w2"
      "t_result t = 0 \<Longrightarrow> returns (make_response m (t_status t)) good_response"
      by (auto simp: returns_def)
    have "getHTTPData re lib url cookies curl_session w wd =
        (if t_result t \<noteq> 0 then Inr (None, Some ?c, w2, wd1)
         else bindR (make_response m (t_status t)) (\<lambda>resp. Inr (Some resp, Some ?c, w2, wd1)))"
      using s t d(1) by (simp add: getHTTPData_def \<open>url = Some u\<close> Some session_def [symmetric] Let_def)
    then show ?thesis using d(2,3)
      by (auto simp: answered_def intro: returns_bind)
  qed
qed

lemma post_request_returns:
  assumes "session_short w"
  shows "returns (post_request lib (Some u) auth data w wd) (\<lambda>_. True)"
proof (cases "gSessionID w")
  case None
  then show ?thesis by (simp add: post_request_def Let_def split: option.split)
next
  case (Some sid)
  with assms have "length (session_key @ sid) < MAXLEN"
    by (simp add: session_short_def session_key_def MAXLEN_def)
  then show ?thesis
    using Some by (simp add: post_request_def session_header_def Let_def split: option.split)
qed

lemma send_loop_returns:
  assumes re: "good_pcre re" and lib: "good_server re lib"
  shows "session_short w \<Longrightarrow> w_url mem \<noteq> None \<Longrightarrow>
    returns (send_loop re lib auth data n mem w wd) (\<lambda>(resp, w', wd'). answered resp w')"
proof (induction n arbitrary: mem w wd)
  case 0
  then show ?case by (simp add: answered_def)
next
  case (Suc n)
  let ?w = "w\<lparr>gbGlobalInitDone := True\<rparr>"
  from Suc.prems(2) obtain u where u: "w_url mem = Some u" by blast
  obtain handle where h: "post_request lib (Some u) auth data ?w wd = Inr handle"
    using post_request_returns [of ?w lib u auth data wd] Suc.prems(1) by (auto simp: returns_def)
  show ?case
  proof (cases handle)
    case None
    with h u Suc.prems(1) show ?thesis by (simp add: answered_def)
  next
    case (Some c)
    obtain t wd1 where t: "curl_easy_perform lib c wd = (t, wd1)" by force
    then have g: "good_transfer re t" using lib by (metis good_server_def fst_conv)
    define cb where "cb = (if opt_transmission c then parse_Transmission_response re
                          else write_header_callback re)"
    obtain m w2 where d: "deliver cb (t_events t) (WebData_clear mem, ?w) = Inr (m, w2)"
      "session_short w2" "w_url m = Some u"
      "t_result t = 0 \<Longrightarrow> returns (make_response m (t_status t)) good_response"
      using download.transfer_returns [OF re g, of "WebData_clear mem" ?w]
        upload.transfer_returns [OF re g, of "WebData_clear mem" ?w] Suc.prems(1) u
      by (cases "opt_transmission c") (auto simp: returns_def cb_def)
    have "send_loop re lib auth data (Suc n) mem w wd =
        (if t_result t \<noteq> 0 then Inr (None, w2, wd1)
         else if t_status t = 409 then send_loop re lib auth data n m w2 wd1
         else bindR (make_response m (t_status t)) (\<lambda>resp. Inr (Some resp, w2, wd1)))"
      using h u Some t d(1) by (simp add: cb_def [symmetric] Let_def)
    then show ?thesis using d(2-4) Suc.IH [of w2 m wd1]
      by (auto simp: answered_def intro: returns_bind)
  qed
qed

lemma sendHTTPData_returns:
  assumes "good_pcre re" "good_server re lib" "session_short w"
    and "\<And>u. url = Some u \<Longrightarrow> am_strdup (Some u) \<noteq> None"
  shows "returns (sendHTTPData re lib url auth data n w wd) (\<lambda>(resp, w', wd'). answered resp w')"
  using assms send_loop_returns [OF assms(1,2,3)]
  by (auto simp: sendHTTPData_def answered_def split: option.splits)

end
