(* ===== verification/Am_Rpc_Total.thy ===== *)
theory Am_Rpc_Total
  imports Am_Web_Total
begin

text \<open>
  Total correctness, continued: the requests to Transmission and to the notification services,
  the rewriting of addresses and the choice of a file name return under the contract of
  \<open>Am_Web_Total\<close> and the bounds each lemma states.
\<close>

section \<open>Transmission and the notifications\<close>

text \<open>The promise of everything below: the static variables stay as they must be.\<close>

definition steady :: "'a \<times> web \<times> 'w \<Rightarrow> bool" where
  "steady r \<longleftrightarrow> session_short (fst (snd r))"

lemma steady_simp [simp]: "steady (a, w, wd) \<longleftrightarrow> session_short w"
  by (simp add: steady_def)

lemma matches_return:
  assumes "good_pcre re"
  shows "returns (parseResponse re t) (\<lambda>_. True)" "returns (parseTorrentID re t) (\<lambda>_. True)"
    "returns (parseRPCVersion re t) (\<lambda>_. True)"
proof -
  have "returns (getRegExMatch re p t 1) (\<lambda>_. True)" for p
    using getRegExMatch_returns [OF assms order_refl] by (rule returns_weaken) simp
  then show "returns (parseResponse re t) (\<lambda>_. True)" "returns (parseTorrentID re t) (\<lambda>_. True)"
    "returns (parseRPCVersion re t) (\<lambda>_. True)"
    unfolding parseResponse_def parseTorrentID_def parseRPCVersion_def
    by (auto intro!: returns_bind)
qed

lemma sendTransmissionRPC_returns:
  assumes "good_pcre re" "good_server re lib" "session_short w" "url \<noteq> []" "NUL \<notin> set url"
    and "packet \<noteq> None" "0 < n"
  shows "returns (sendTransmissionRPC re lib packet n (Some url) auth w wd) steady"
proof -
  have "am_strdup (Some url) \<noteq> None" using assms(4,5) by (simp add: am_strdup_Some)
  then have "returns (sendHTTPData re lib (Some url) auth packet n w wd)
      (\<lambda>(resp, w', wd'). answered resp w')"
    by (intro sendHTTPData_returns [OF assms(1-3)]) simp
  moreover have "returns (case res of None \<Rightarrow> Inr (- 1, w, wd)
      | Some r \<Rightarrow>
          (if hr_code r = 200 then
             bindR (parseResponse re (response_text r)) (\<lambda>response.
               case response of
                 None \<Rightarrow> Inr (- 1, w, wd)
               | Some t \<Rightarrow>
                   (if strncmp_eq 7 t ''success'' then
                      bindR (parseTorrentID re (response_text r)) (\<lambda>i. Inr (i, w, wd))
                    else if strncmp_eq 17 t ''duplicate torrent'' then Inr (0, w, wd)
                    else Inr (- 1, w, wd)))
           else Inr (- 1, w, wd))) steady" if "answered res w" for res w and wd :: 'a
    using that matches_return [OF assms(1)]
    by (auto simp: answered_def split: option.split intro!: returns_bind returns_if)
  ultimately show ?thesis
    using assms(6,7) unfolding sendTransmissionRPC_def by (auto intro: returns_bind)
qed

lemma uploadMagnet_returns:
  assumes "good_pcre re" "good_server re lib" "session_short w" "url \<noteq> []" "NUL \<notin> set url"
    and "length uri + folder_size folder + 200 < 2 ^ 31"
  shows "returns (uploadMagnet re lib uri (Some url) auth start folder w wd) steady"
  unfolding uploadMagnet_def makeTorrentAddFilenameJSON_ok [OF assms(6)] bindR_simps prod.case
  by (rule sendTransmissionRPC_returns [OF assms(1-5)]) (simp_all only: torrent_add_nonempty, simp)

lemma uploadTorrent_returns:
  assumes "good_pcre re" "good_server re lib" "session_short w" "url \<noteq> []" "NUL \<notin> set url"
    and "d \<noteq> []" "length d + folder_size folder < 2 ^ 30"
  shows "returns (uploadTorrent re lib (Some d) (length d) (Some url) auth start folder w wd) steady"
proof -
  have "0 < length d" using assms(6) by simp
  note p = makeTorrentAddMetaInfoJSON_ok [OF this assms(7)]
  show ?thesis
    unfolding uploadTorrent_def p bindR_simps prod.case
    by (rule sendTransmissionRPC_returns [OF assms(1-5)]) (simp_all only: torrent_add_nonempty, simp)
qed

lemma changeUploadSpeed_returns:
  assumes "good_pcre re" "good_server re lib" "session_short w" "url \<noteq> []" "NUL \<notin> set url"
  shows "returns (changeUploadSpeed re lib (Some url) auth i n v w wd) steady"
proof -
  have "am_strdup (Some url) \<noteq> None" using assms(4,5) by (simp add: am_strdup_Some)
  then have "returns (sendHTTPData re lib (Some url) auth packet k w wd)
      (\<lambda>(resp, w', wd'). answered resp w')" for packet k
    by (intro sendHTTPData_returns [OF assms(1-3)]) simp
  moreover have "returns (case res of None \<Rightarrow> Inr (0, w, wd)
      | Some r \<Rightarrow>
          (if hr_code r = 200 then
             bindR (parseResponse re (response_text r)) (\<lambda>response.
               case response of
                 None \<Rightarrow> Inr (0, w, wd)
               | Some t \<Rightarrow> Inr (if strncmp_eq 7 t ''success'' then 1 else 0, w, wd))
           else Inr (0, w, wd))) steady" if "answered res w" for res w and wd :: 'a
    using that matches_return [OF assms(1)]
    by (auto simp: answered_def split: option.split intro!: returns_bind)
  ultimately show ?thesis
    using assms(3) unfolding changeUploadSpeed_def
    by (auto simp: case_prod_beta intro!: returns_if returns_bind)
qed

lemma getRPCVersion_returns:
  assumes "good_pcre re" "good_server re lib" "session_short w" "length h < 900" "port < 65536"
    and "NUL \<notin> set h"
  shows "returns (getRPCVersion re lib (Some h) port auth w wd) steady"
proof -
  have "am_strdup (Some (rpc_url h port)) \<noteq> None"
    using rpc_url_ok [OF assms(4-6)] by (simp add: am_strdup_Some)
  then have "returns (sendHTTPData re lib (Some (rpc_url h port)) auth packet k w wd)
      (\<lambda>(resp, w', wd'). answered resp w')" for packet k
    by (intro sendHTTPData_returns [OF assms(1-3)]) simp
  moreover have "returns (case res of None \<Rightarrow> Inr (0, w, wd)
      | Some r \<Rightarrow>
          (if hr_code r = 200 then
             bindR (parseResponse re (response_text r)) (\<lambda>response.
               case response of
                 None \<Rightarrow> Inr (0, w, wd)
               | Some t \<Rightarrow>
                   (if strncmp_eq 7 t ''success'' then
                      bindR (parseRPCVersion re (response_text r)) (\<lambda>v. Inr (v, w, wd))
                    else Inr (0, w, wd)))
           else Inr (0, w, wd))) steady" if "answered res w" for res w and wd :: 'a
    using that matches_return [OF assms(1)]
    by (auto simp: answered_def split: option.split intro!: returns_bind)
  ultimately show ?thesis
    by (auto simp: getRPCVersion_def intro!: returns_bind [where P = "\<lambda>(resp, w', wd'). answered resp w'"])
qed

lemma url_texts:
  "am_strdup (Some prowl_add_url) \<noteq> None" "am_strdup (Some pushover_url) \<noteq> None"
  by (simp_all add: prowl_add_url_def pushover_url_def snprintf_buf_def am_strdup_def am_strndup_def NUL_def)

lemma status_returns:
  "returns m (\<lambda>(resp, w', wd'). answered resp w') \<Longrightarrow>
   returns (bindR m (\<lambda>(response, w, wd). Inr (f response, w, wd))) steady"
  by (erule returns_bind) (auto simp: answered_def)

lemma prowl_sendNotification_returns:
  assumes "good_pcre re" "good_server re lib" "session_short w"
  shows "returns (prowl_sendNotification re lib event apikey nm w wd) steady"
proof -
  have "returns (sendHTTPData re lib (Some prowl_add_url) None d n w wd)
      (\<lambda>(resp, w', wd'). answered resp w')" for d n
    using url_texts(1) by (intro sendHTTPData_returns [OF assms]) simp
  from status_returns [OF this] have "returns (sendProwlNotification re lib apikey e d w wd) steady" for e d
    using assms(3) unfolding sendProwlNotification_def by (auto simp: case_prod_beta)
  then show ?thesis using assms(3)
    by (auto simp: prowl_sendNotification_def split: option.split intro!: returns_bind [where P = steady])
qed

lemma pushover_sendNotification_returns:
  assumes "good_pcre re" "good_server re lib" "session_short w"
  shows "returns (pushover_sendNotification re lib event apikey nm w wd) steady"
proof -
  have "returns (sendHTTPData re lib (Some pushover_url) None d n w wd)
      (\<lambda>(resp, w', wd'). answered resp w')" for d n
    using url_texts(2) by (intro sendHTTPData_returns [OF assms]) simp
  from status_returns [OF this] have "returns (sendPushoverNotification re lib apikey e d w wd) steady" for e d
    using assms(3) unfolding sendPushoverNotification_def by (auto simp: case_prod_beta)
  then show ?thesis using assms(3)
    by (auto simp: pushover_sendNotification_def split: option.split intro!: returns_bind [where P = steady])
qed

lemma verifyProwlAPIKey_returns:
  assumes "good_pcre re" "good_server re lib" "session_short w"
  shows "returns (verifyProwlAPIKey re lib apikey w wd) steady"
  unfolding verifyProwlAPIKey_def using assms(3)
  by (auto split: option.split simp: answered_def
      intro!: returns_bind [OF getHTTPData_returns [OF assms]])

section \<open>Rewriting and file names\<close>

text \<open>
  Each step of the expansion writes a character of the template or a group, so its length is
  bounded by the product of the two lengths.
\<close>

lemma read_index_shorter:
  assumes "isdigit d" "read_index (d # r) = (idx, toolong, rest)"
  shows "length rest \<le> length r"
  using assms by (auto simp: read_index_def MAX_IDX_LEN_def Let_def numeral_eq_Suc)

lemma replace_template_returns:
  assumes l: "\<forall>g \<in> set l. length g \<le> m" "mc \<le> int (length l)"
  shows "length acc + length r * (m + 1) + 1 < MAX_SUBST_LEN \<Longrightarrow>
    returns (replace_template mc (Some l) r acc fail) (\<lambda>(acc', fail'). length acc' < MAX_SUBST_LEN)"
proof (induction "length r" arbitrary: r acc fail rule: less_induct)
  case less
  have go: "returns (bindR (put acc xs) (\<lambda>acc. replace_template mc (Some l) r2 acc f))
      (\<lambda>(acc', fail'). length acc' < MAX_SUBST_LEN)"
    if "length r2 < length r" "length acc + length xs + length r2 * (m + 1) + 1 < MAX_SUBST_LEN" for acc xs r2 f
    using that less.hyps [of r2 "acc @ xs" f] by (simp add: put_ok)
  show ?case
  proof (cases r)
    case Nil
    with less.prems show ?thesis by simp
  next
    case (Cons c r1)
    show ?thesis
    proof (cases "c = BSL \<and> r1 \<noteq> []")
      case False
      then show ?thesis
      proof (cases "c = BSL")
        case True
        with False Cons less.prems show ?thesis by (simp add: replace_template.simps put_ok)
      next
        case no: False
        with less.prems Cons go [of r1 acc "[c]" fail] show ?thesis by (simp add: replace_template_Lit)
      qed
    next
      case True
      then obtain d r2 where r1: "r1 = d # r2" by (cases r1) auto
      show ?thesis
      proof (cases "isdigit d")
        case False
        with less.prems Cons True r1 go [of r2 acc "[BSL, d]" fail] show ?thesis
          by (simp add: replace_template.simps)
      next
        case digit: True
        obtain idx toolong rest where i: "read_index (d # r2) = (idx, toolong, rest)"
          using prod_cases3 by blast
        then have rest: "length rest \<le> length r2" using read_index_shorter [OF digit] by blast
        then have "length rest * (m + 1) \<le> length r2 * (m + 1)" by (rule mult_le_mono1)
        then have room: "length acc + m + 2 + length rest * (m + 1) + 1 < MAX_SUBST_LEN"
          using less.prems by (simp add: Cons r1)
        let ?n = "atoi idx"
        have "returns (bindR (put acc (l ! nat ?n)) (\<lambda>acc.
            (case rest of
               [] \<Rightarrow> bindR (put acc [NUL]) (\<lambda>acc. Inr (acc, f))
             | x # rest' \<Rightarrow> bindR (put acc [x]) (\<lambda>acc. replace_template mc (Some l) rest' acc f))))
            (\<lambda>(acc', fail'). length acc' < MAX_SUBST_LEN)" if "1 \<le> ?n" "?n < mc" for f
        proof -
          have "nat ?n < length l" using that l(2) by simp
          then have g: "length (l ! nat ?n) \<le> m" using l(1) by simp
          with room have p: "put acc (l ! nat ?n) = Inr (acc @ l ! nat ?n)" by (intro put_ok) simp
          show ?thesis
          proof (cases rest)
            case Nil
            with g room p show ?thesis by (simp add: put_ok)
          next
            case (Cons x rest')
            with g room p rest go [of rest' "acc @ l ! nat ?n" "[x]" f] show ?thesis
              by (simp add: \<open>r = c # r1\<close> r1)
          qed
        qed
        then show ?thesis
          using True Cons r1 digit i less.prems l(2)
            by (auto simp: replace_template.simps Let_def)
      qed
    qed
  qed
qed

lemma performRegexReplace_returns:
  assumes re: "good_pcre re"
    and fit: "\<And>s t. str = Some s \<Longrightarrow> template = Some t \<Longrightarrow> length t * (length s + 1) + 1 < 1024"
  shows "returns (performRegexReplace re str pattern template) (\<lambda>_. True)"
proof -
  obtain count l where g: "getRegExCaptureGroups re pattern str = (count, l)" by force
  have "returns (bindR (replace_template count l t [] False) (\<lambda>(acc, fail).
      if length acc < MAX_SUBST_LEN then Inr (if fail then None else am_strdup (Some (cstr acc)))
      else Inl BufferOverflow)) (\<lambda>_. True)" if "1 < count" "template = Some t" for t
  proof -
    have "pcre_lists re" using re by (simp add: good_pcre_def)
    from getRegExCaptureGroups_list [OF this g that(1)]
    obtain xs where xs: "l = Some xs" "length xs = nat count" by blast
    from g xs(1) obtain q u where u: "str = Some u" "pcre_substrings re q u count = Some xs"
      by (auto simp: getRegExCaptureGroups_def Let_def split: option.splits if_splits)
    with re have "\<forall>g \<in> set xs. length g \<le> length u" unfolding good_pcre_def by blast
    moreover have "count \<le> int (length xs)" using xs(2) by simp
    moreover have "length ([] :: string) + length t * (length u + 1) + 1 < MAX_SUBST_LEN"
      using fit [OF u(1) that(2)] by (simp add: MAX_SUBST_LEN_def)
    ultimately have "returns (replace_template count (Some xs) t [] False)
        (\<lambda>(acc', fail'). length acc' < MAX_SUBST_LEN)"
      by (rule replace_template_returns)
    then show ?thesis unfolding xs(1) by (rule returns_bind) auto
  qed
  with g show ?thesis by (auto simp: performRegexReplace_def split: option.split)
qed

text \<open>A path has a last component unless it consists of slashes.\<close>

definition names_file :: "string \<Rightarrow> bool" where
  "names_file u \<longleftrightarrow> length u + 1 \<le> PATH_MAX \<and> (\<exists>c \<in> set u. c \<noteq> CHR ''/'')"

lemma get_filename_returns:
  assumes "\<And>f. cf = Some f \<Longrightarrow> length f < PATH_MAX" "url = Some u" "names_file u"
  shows "returns (get_filename cf url folder) (\<lambda>_. True)"
proof -
  from assms(3) obtain c where "c \<in> set u" "c \<noteq> CHR ''/''" by (auto simp: names_file_def)
  then have "dropWhile (\<lambda>c. c = CHR ''/'') u \<noteq> []" by (auto simp: dropWhile_eq_Nil_conv)
  then have "strtok_tokens (CHR ''/'') u \<noteq> []" by (subst strtok_tokens.simps) (simp add: Let_def)
  then obtain t ts where "strtok_tokens (CHR ''/'') u = t # ts" by (cases "strtok_tokens (CHR ''/'') u") auto
  with assms show ?thesis
    by (cases cf) (auto simp: get_filename_def names_file_def)
qed

end
