(* ===== verification/Am_Check_Total.thy ===== *)
theory Am_Check_Total
  imports Am_Rpc_Total Am_Check_Laws Am_Session_Laws
begin

text \<open>
  Total correctness of a check: with Transmission addressed by RPC, a configuration within the
  sizes the code reserves, and servers, PCRE and libxml2 that keep their contracts, no check of a
  feed leaves defined behaviour.
\<close>

section \<open>The contract\<close>

text \<open>
  The address of an item: a path with a last component, short enough to be copied, and rewritten
  to something that fits.
\<close>

definition good_item :: "rss_feed option \<Rightarrow> feed_item \<Rightarrow> bool" where
  "good_item feed i \<longleftrightarrow>
     (\<exists>u. item_url i = Some u \<and> names_file u \<and>
        (\<forall>f t. feed = Some f \<longrightarrow> feed_url_replace f = Some t \<longrightarrow> length t * (length u + 1) + 1 < 1024))"

text \<open>What libxml2 makes of a document: well-formed nodes, a TTL with a text, and good items.\<close>

definition good_nodes :: "rss_feed option \<Rightarrow> xml_node list \<Rightarrow> bool" where
  "good_nodes feed ns \<longleftrightarrow> (\<forall>n \<in> set ns. list_all child_ok (node_children n)) \<and>
     (\<forall>i \<in> set (items_of ns). good_item feed i)"

definition good_ttl :: "xml_node list option \<Rightarrow> bool" where
  "good_ttl obj \<longleftrightarrow>
     (case obj of None \<Rightarrow> False | Some ns \<Rightarrow> \<forall>n \<in> set ns. is_element n \<longrightarrow> node_text n \<noteq> None)"

definition good_xml :: "'doc xml_lib \<Rightarrow> rss_feed option \<Rightarrow> bool" where
  "good_xml lib feed \<longleftrightarrow>
     (\<forall>doc ns. xpath lib ''//item'' doc = Some (Some ns) \<longrightarrow> good_nodes feed ns) \<and>
     (\<forall>doc obj. xpath lib ''//channel/ttl'' doc = Some obj \<longrightarrow> good_ttl obj)"

definition good_ext :: "('w, 'doc) ext \<Rightarrow> bool" where
  "good_ext x \<longleftrightarrow> good_pcre (ext_pcre x) \<and> good_server (ext_pcre x) (ext_curl x)"

definition good_session :: "auto_handle \<Rightarrow> bool" where
  "good_session s \<longleftrightarrow> use_transmission s \<and> transmission_version s = AM_TRANSMISSION_1_3 \<and>
     length (rpc_host s) < 900 \<and> NUL \<notin> set (rpc_host s) \<and> rpc_port s < 65536 \<and>
     (\<forall>f \<in> set (filters s). folder_size (f_folder f) < 2 ^ 20)"

definition good_run :: "'w run \<Rightarrow> bool" where
  "good_run st \<longleftrightarrow> session_short (r_web st) \<and> good_session (r_session st) \<and>
     folder_size (r_folder st) < 2 ^ 20"

section \<open>One item\<close>

lemma on_net_returns:
  "returns (f (net wd)) steady \<Longrightarrow> returns (on_net f wd) steady"
  unfolding on_net_def by (erule returns_bind) auto

lemma good_url:
  assumes "good_session s"
  shows "rpc_url (rpc_host s) (rpc_port s) \<noteq> []" "NUL \<notin> set (rpc_url (rpc_host s) (rpc_port s))"
  using rpc_url_ok [of "rpc_host s" "rpc_port s"] assms by (simp_all add: good_session_def)

lemma after_upload_returns:
  assumes "good_ext x" "session_short w" "url \<noteq> []" "NUL \<notin> set url"
  shows "returns (after_upload x ah url tid w wd) steady"
proof -
  from assms have "returns (on_net (changeUploadSpeed (ext_pcre x) (ext_curl x) (Some url) (auth ah) tid
      n v w) wd) steady" for n v
    by (intro on_net_returns changeUploadSpeed_returns) (simp_all add: good_ext_def)
  then show ?thesis using assms(2) unfolding after_upload_def
    by (intro returns_if returns_bind [where P = steady]) auto
qed

lemma addTorrentToTM_returns:
  assumes "good_ext x" "good_session s" "session_short w"
    and "d \<noteq> []" "length d < MAX_BODY" "folder_size folder < 2 ^ 20"
  shows "returns (addTorrentToTM x s (Some d) (length d) fname folder w wd) steady"
proof -
  note url = good_url [OF assms(2)]
  have "length d + folder_size folder < 2 ^ 30" using assms(5,6) by (simp add: MAX_BODY_def)
  with assms(1,3,4) url have "returns (on_net (uploadTorrent (ext_pcre x) (ext_curl x) (Some d) (length d)
      (Some (rpc_url (rpc_host s) (rpc_port s))) (auth s) (start_torrent s) folder w) wd) steady"
    by (intro on_net_returns uploadTorrent_returns) (simp_all add: good_ext_def)
  then have "returns (bindR (on_net (uploadTorrent (ext_pcre x) (ext_curl x) (Some d) (length d)
      (Some (rpc_url (rpc_host s) (rpc_port s))) (auth s) (start_torrent s) folder w) wd)
      (\<lambda>(tid, w, wd). after_upload x s (rpc_url (rpc_host s) (rpc_port s)) tid w wd)) steady"
    by (rule returns_bind) (auto intro: after_upload_returns [OF assms(1) _ url])
  with assms(2) show ?thesis
    by (simp add: addTorrentToTM_def good_session_def AM_TRANSMISSION_EXTERNAL_def
        AM_TRANSMISSION_1_2_def AM_TRANSMISSION_1_3_def Let_def)
qed

lemma addMagnetToTM_returns:
  assumes "good_ext x" "good_session s" "session_short w"
    and "length uri < PATH_MAX" "folder_size folder < 2 ^ 20"
  shows "returns (addMagnetToTM x s uri folder w wd) steady"
proof -
  note url = good_url [OF assms(2)]
  have "length uri + folder_size folder + 200 < 2 ^ 31" using assms(4,5) by (simp add: PATH_MAX_def)
  with assms(1,3) url have "returns (on_net (uploadMagnet (ext_pcre x) (ext_curl x) uri
      (Some (rpc_url (rpc_host s) (rpc_port s))) (auth s) (start_torrent s) folder w) wd) steady"
    by (intro on_net_returns uploadMagnet_returns) (simp_all add: good_ext_def)
  then have "returns (bindR (on_net (uploadMagnet (ext_pcre x) (ext_curl x) uri
      (Some (rpc_url (rpc_host s) (rpc_port s))) (auth s) (start_torrent s) folder w) wd)
      (\<lambda>(tid, w, wd). after_upload x s (rpc_url (rpc_host s) (rpc_port s)) tid w wd)) steady"
    by (rule returns_bind) (auto intro: after_upload_returns [OF assms(1) _ url])
  with assms(2) show ?thesis by (simp add: addMagnetToTM_def good_session_def Let_def)
qed

lemma downloadTorrent_returns:
  assumes "good_ext x" "session_short w"
  shows "returns (downloadTorrent x c url w wd)
    (\<lambda>((t, c'), w', wd'). session_short w' \<and> (\<forall>r. t = Some r \<longrightarrow> good_response r \<and> hr_code r = 200))"
proof -
  have "returns (getHTTPData (ext_pcre x) (ext_curl x) url None c w (net wd))
      (\<lambda>(resp, c, w', wd'). answered resp w' \<and> (resp \<noteq> None \<longrightarrow> c \<noteq> None))"
    using assms by (intro getHTTPData_returns) (simp_all add: good_ext_def)
  then obtain resp c' w' n where "getHTTPData (ext_pcre x) (ext_curl x) url None c w (net wd) =
      Inr (resp, c', w', n)" "answered resp w'"
    by (auto simp: returns_def)
  then show ?thesis by (auto simp: downloadTorrent_def on_net_def answered_def split: option.splits)
qed

lemma notify_returns:
  assumes "good_ext x" "good_run st"
  shows "returns (notify x p q nm st) good_run"
proof -
  have ext: "good_pcre (ext_pcre x)" "good_server (ext_pcre x) (ext_curl x)"
    using assms(1) by (simp_all add: good_ext_def)
  let ?s = "r_session st"
  have keep: "good_run (st1\<lparr>r_web := w, r_world := wd\<rparr>)" if "good_run st1" "session_short w"
    for st1 :: "'a run" and w wd using that by (simp add: good_run_def)
  have 1: "returns (if prowl_key_valid ?s then
        bindR (on_net (prowl_sendNotification (ext_pcre x) (ext_curl x) p (prowl_key ?s)
                 nm (r_web st)) (r_world st))
          (\<lambda>(_, w, wd). Inr (st\<lparr>r_web := w, r_world := wd\<rparr>))
      else Inr st) good_run"
    using assms(2) keep [OF assms(2)]
    by (intro returns_if returns_bind [OF on_net_returns [OF prowl_sendNotification_returns [OF ext]]])
      (auto simp: good_run_def)
  have 2: "returns (if pushover_key ?s \<noteq> None then
        bindR (on_net (pushover_sendNotification (ext_pcre x) (ext_curl x) q (pushover_key ?s)
                 nm (r_web st1)) (r_world st1))
          (\<lambda>(_, w, wd). Inr (st1\<lparr>r_web := w, r_world := wd\<rparr>))
      else Inr st1) good_run" if "good_run st1" for st1
    using that keep [OF that]
    by (intro returns_if returns_bind [OF on_net_returns [OF pushover_sendNotification_returns [OF ext]]])
      (auto simp: good_run_def)
  show ?thesis unfolding notify_def Let_def using 1 2 by (rule returns_bind)
qed

lemma torrent_address_returns:
  assumes "good_ext x" "good_item feed i"
  shows "returns (torrent_address x feed i) (\<lambda>_. True)"
proof -
  from assms(2) obtain u where u: "item_url i = Some u"
    "\<And>f t. feed = Some f \<Longrightarrow> feed_url_replace f = Some t \<Longrightarrow> length t * (length u + 1) + 1 < 1024"
    by (auto simp: good_item_def)
  have "returns (rewriteURL (ext_pcre x) (Some u) (feed_url_pattern f) (feed_url_replace f)) (\<lambda>_. True)"
    if "feed = Some f" for f
    unfolding rewriteURL_def using assms(1) u(2) [OF that]
    by (intro performRegexReplace_returns) (simp_all add: good_ext_def)
  then show ?thesis
    unfolding torrent_address_def u(1)
    by (intro returns_bind [where P = "\<lambda>_. True"] returns_option returns_if) simp_all
qed

lemma add_item_returns:
  assumes x: "good_ext x" and st: "good_run st" and i: "good_item feed i"
  shows "returns (add_item x feed i st) (\<lambda>(r, st'). good_run st')"
proof -
  from i obtain u where u: "item_url i = Some u" "names_file u" by (auto simp: good_item_def)
  from st have s: "good_session (r_session st)" "folder_size (r_folder st) < 2 ^ 20"
    "session_short (r_web st)" by (simp_all add: good_run_def)
  have keep: "good_run (st\<lparr>r_curl := c, r_web := w, r_world := wd\<rparr>)"
    "good_run (st\<lparr>r_web := w, r_world := wd\<rparr>)" if "session_short w" for c w wd
    using st that by (simp_all add: good_run_def)
  show ?thesis
  proof (cases "isMagnetURI (item_url i)")
    case True
    have "length u < PATH_MAX" using u(2) by (simp add: names_file_def)
    note magnet = addMagnetToTM_returns [OF x s(1,3) this s(2)]
    show ?thesis
      unfolding add_item_def u(1) if_P [OF True [unfolded u(1)]] option.sel
      using keep(2) by (intro returns_bind [OF magnet]) auto
  next
    case False
    obtain url where url: "torrent_address x feed i = Inr url"
      using torrent_address_returns [OF x i] by (rule returns_obtain)
    obtain t c w wd where t: "downloadTorrent x (r_curl st) url (r_web st) (r_world st) = Inr ((t, c), w, wd)"
      "session_short w" "\<And>r. t = Some r \<Longrightarrow> good_response r \<and> hr_code r = 200"
      using downloadTorrent_returns [OF x s(3), of "r_curl st" url "r_world st"] by (auto simp: returns_def)
    let ?st = "st\<lparr>r_curl := c, r_web := w, r_world := wd\<rparr>"
    have "returns (case t of
        None \<Rightarrow> Inr (- 1, ?st)
      | Some t \<Rightarrow>
          bindR (get_filename (hr_filename t) (item_url i) (torrent_folder (r_session ?st))) (\<lambda>fname.
          bindR (addTorrentToTM x (r_session ?st) (hr_data t) (hr_size t mod 2 ^ 32) fname
                   (r_folder ?st) w wd)
            (\<lambda>(r, w, wd). Inr (r, ?st\<lparr>r_web := w, r_world := wd\<rparr>)))) (\<lambda>(r, st'). good_run st')"
    proof (rule returns_option)
      show "returns (Inr (- 1, ?st)) (\<lambda>(r, st'). good_run st')" using keep(1) t(2) by simp
    next
      fix r assume r: "t = Some r"
      with t(3) obtain d where d: "hr_data r = Some d" "d \<noteq> []" "hr_size r = length d" "length d < MAX_BODY"
        and f: "\<And>f. hr_filename r = Some f \<Longrightarrow> length f < PATH_MAX"
        by (auto simp: good_response_def)
      from d(4) have sz: "hr_size r mod 2 ^ 32 = length d" by (simp add: d(3) MAX_BODY_def)
      obtain fname where fname: "get_filename (hr_filename r) (item_url i) (torrent_folder (r_session ?st)) =
          Inr fname" using get_filename_returns [OF f u] by (auto simp: returns_def)
      have "returns (addTorrentToTM x (r_session st) (Some d) (length d) fname (r_folder st) w wd) steady"
        by (rule addTorrentToTM_returns [OF x s(1) t(2) d(2,4) s(2)])
      with keep(1) show "returns (bindR (get_filename (hr_filename r) (item_url i)
            (torrent_folder (r_session ?st))) (\<lambda>fname.
          bindR (addTorrentToTM x (r_session ?st) (hr_data r) (hr_size r mod 2 ^ 32) fname
                   (r_folder ?st) w wd)
            (\<lambda>(r, w, wd). Inr (r, ?st\<lparr>r_web := w, r_world := wd\<rparr>)))) (\<lambda>(r, st'). good_run st')"
        unfolding fname bindR_simps sz d(1) by (auto intro!: returns_bind [where P = steady])
    qed
    then show ?thesis
      unfolding add_item_def if_not_P [OF False] url t(1) bindR_simps prod.case Let_def .
  qed
qed

lemma good_session_remembered: "good_session (remembered i s) \<longleftrightarrow> good_session s"
  by (simp add: good_session_def remembered_def rpc_host_def)

lemma good_run_remember: "good_run st \<Longrightarrow> good_run (remember_item i st)"
  by (simp add: good_run_def remember_item_session good_session_remembered)
    (simp add: remember_item_def Let_def)

lemma process_item_returns:
  assumes x: "good_ext x" and st: "good_run st" and i: "good_item feed i"
  shows "returns (process_item x feed i st) good_run"
proof -
  let ?id = "case feed of None \<Rightarrow> None | Some f \<Rightarrow> feed_id f"
  obtain m folder where m: "isMatch (ext_pcre x) (filters (r_session st)) (item_name i) ?id (r_folder st) =
      (m, folder)" by force
  then have "folder = r_folder st \<or> folder \<in> f_folder ` set (filters (r_session st))"
    by (auto simp: isMatch_find find_Some_iff split: option.splits)
  with st have st1: "good_run (st\<lparr>r_folder := folder\<rparr>)"
    by (auto simp: good_run_def good_session_def)
  have "returns (item_result x i (r, st2)) good_run" if "good_run st2" for r st2
    using that notify_returns [OF x that] good_run_remember
    by (auto simp: item_result_def intro!: returns_if returns_bind [where P = good_run])
  then have "returns (bindR (add_item x feed i (st\<lparr>r_folder := folder\<rparr>)) (item_result x i)) good_run"
    by (intro returns_bind [OF add_item_returns [OF x st1 i]]) auto
  with st1 show ?thesis by (simp add: process_item_def Let_def m)
qed

lemma process_items_returns:
  "good_ext x \<Longrightarrow> good_run st \<Longrightarrow> \<forall>i \<in> set items. good_item feed i \<Longrightarrow>
   returns (process_items x feed items st) good_run"
  by (induction items arbitrary: st) (auto intro!: returns_bind [OF process_item_returns])

lemma processRSSList_returns:
  assumes "good_ext x" "good_session s" "session_short w" "\<forall>i \<in> set items. good_item feed i"
  shows "returns (processRSSList x s c items feed w wd) good_run"
  unfolding processRSSList_def using assms
  by (intro process_items_returns) (simp_all add: good_run_def folder_size_def)

section \<open>One feed\<close>

lemma parse_ttl_returns:
  "(\<And>ns. obj = Some ns \<Longrightarrow> good_ttl ns) \<Longrightarrow> returns (parse_ttl obj t) (\<lambda>_. True)"
  by (fastforce simp: parse_ttl_def good_ttl_def split: option.split)

lemma extract_feed_items_returns:
  "(\<And>l. ns = Some l \<Longrightarrow> good_nodes feed l) \<Longrightarrow>
   returns (extract_feed_items ns) (\<lambda>items. \<forall>i \<in> set items. good_item feed i)"
  by (auto simp: extract_feed_items_def good_nodes_def extract_loop_ok split: option.split)

lemma parse_xmldata_returns:
  assumes "good_xml lib feed"
  shows "returns (parse_xmldata lib data sz ttl)
    (\<lambda>(items, cnt, ttl'). (\<forall>i \<in> set items. good_item feed i) \<and> (ttl \<noteq> None \<longrightarrow> ttl' \<noteq> None))"
proof -
  have ttl: "returns (case ttl of None \<Rightarrow> Inr None
      | Some t \<Rightarrow> bindR (parse_ttl (xpath lib ''//channel/ttl'' doc) t) (\<lambda>t. Inr (Some t)))
      (\<lambda>t. ttl \<noteq> None \<longrightarrow> t \<noteq> None)" for doc
    using assms by (auto simp: good_xml_def split: option.split intro!: returns_bind [OF parse_ttl_returns])
  have items: "returns (case xpath lib ''//item'' doc of None \<Rightarrow> Inr ([], 0, t)
      | Some nodes \<Rightarrow> bindR (extract_feed_items nodes) (\<lambda>items.
          Inr (items, case nodes of None \<Rightarrow> 0 | Some ns \<Rightarrow> length ns mod 2 ^ 32, t)))
      (\<lambda>(items, cnt, ttl'). (\<forall>i \<in> set items. good_item feed i) \<and> (ttl \<noteq> None \<longrightarrow> ttl' \<noteq> None))"
    if "ttl \<noteq> None \<longrightarrow> t \<noteq> None" for doc t
    using assms that
    by (auto simp: good_xml_def split: option.split
        intro!: returns_bind [OF extract_feed_items_returns [where feed = feed]])
  show ?thesis
    unfolding parse_xmldata_def Let_def
    by (intro returns_option returns_if returns_bind [OF ttl] items) simp_all
qed

lemma good_item_ttl: "good_item (Some (f\<lparr>feed_ttl := t\<rparr>)) = good_item (Some f)"
  by (simp add: good_item_def fun_eq_iff)

lemma good_xml_ttl: "good_xml lib (Some (f\<lparr>feed_ttl := t\<rparr>)) = good_xml lib (Some f)"
  by (simp add: good_xml_def good_nodes_def good_item_ttl)

lemma good_session_frame [simp]:
  "good_session (s\<lparr>feeds := fs\<rparr>) = good_session s" "good_session (grow_bucket n s) = good_session s"
  by (simp_all add: good_session_def grow_bucket_def rpc_host_def)

text \<open>A session all of whose feeds, and a file given on the command line, keep the contract.\<close>

definition good_state :: "('w, 'doc) ext \<Rightarrow> auto_handle \<Rightarrow> web \<Rightarrow> bool" where
  "good_state x s w \<longleftrightarrow> good_ext x \<and> good_session s \<and> session_short w \<and> good_xml (ext_xml x) None \<and>
     (\<forall>f \<in> set (feeds s). good_xml (ext_xml x) (Some f))"

lemma good_run_state:
  assumes "good_state x s w" "good_run st" "feeds (r_session st) = feeds s"
  shows "good_state x (r_session st) (r_web st)"
  using assms by (simp add: good_state_def good_run_def)

lemma good_state_ttl:
  assumes "good_state x s w" "k < length (feeds s)"
  shows "good_state x (s\<lparr>feeds := (feeds s)[k := (feeds s ! k)\<lparr>feed_ttl := t\<rparr>]\<rparr>) w"
  using assms by (auto simp: good_state_def good_xml_ttl dest!: set_update_subset_insert [THEN subsetD])

lemma processRSSList_state:
  assumes "good_state x s w0" "session_short w" "\<forall>i \<in> set items. good_item feed i"
  shows "returns (processRSSList x s c items feed w wd) (\<lambda>st. good_state x (r_session st) (r_web st))"
proof -
  from assms have "returns (processRSSList x s c items feed w wd) good_run"
    by (intro processRSSList_returns) (simp_all add: good_state_def)
  then obtain st where st: "processRSSList x s c items feed w wd = Inr st" "good_run st"
    by (rule returns_obtain)
  from processRSSList_session [OF st(1)] have "feeds (r_session st) = feeds s" by auto
  with st assms(1,2) show ?thesis by (simp add: good_state_def good_run_def)
qed

lemma good_state_grow [simp]: "good_state x (grow_bucket n s) w = good_state x s w"
  by (simp add: good_state_def) (simp add: grow_bucket_def)

lemma processFeed_returns:
  assumes s: "good_state x s w" and k: "k < length (feeds s)"
  shows "returns (processFeed x s k firstrun w wd) (\<lambda>(n, s', w', wd'). good_state x s' w')"
proof -
  let ?f = "feeds s ! k"
  have "good_ext x" "session_short w" using s by (simp_all add: good_state_def)
  then obtain resp c w1 n where get: "getHTTPData (ext_pcre x) (ext_curl x) (feed_url ?f) (feed_cookies ?f)
      None w (net wd) = Inr (resp, c, w1, n)" "answered resp w1" "resp \<noteq> None \<Longrightarrow> c \<noteq> None"
    using getHTTPData_returns [of "ext_pcre x" "ext_curl x" w "feed_url ?f" "feed_cookies ?f" None "net wd"]
    by (auto simp: returns_def good_ext_def)
  from get(2) have w1: "session_short w1" by (simp add: answered_def)
  with s have s1: "good_state x s w1" by (simp add: good_state_def)
  have feed: "getRSSFeed x ?f w wd = Inr ((resp, c), w1, wd\<lparr>net := n\<rparr>)"
    by (simp add: getRSSFeed_def on_net_def get(1))
  have "good_xml (ext_xml x) (Some ?f)" using s k by (simp add: good_state_def)
  note parse = parse_xmldata_returns [OF this]
  have run: "returns (let feed = ?f\<lparr>feed_ttl := t\<rparr>;
        session = s\<lparr>feeds := (feeds s)[k := feed]\<rparr>;
        session = (if firstrun then grow_bucket item_count session else session)
      in bindR (processRSSList x session c items (Some feed) w1 wd1) (\<lambda>st.
           Inr (item_count mod 2 ^ 16, r_session st, r_web st, r_world st)))
      (\<lambda>(n, s', w', wd'). good_state x s' w')"
    if "\<forall>i \<in> set items. good_item (Some ?f) i" for items item_count t c wd1
    unfolding Let_def using that good_state_ttl [OF s1 k] w1
    by (intro returns_bind [OF processRSSList_state [where ?w0.0 = w1]]) (auto simp: good_item_ttl)
  show ?thesis
    unfolding processFeed_def Let_def feed bindR_simps prod.case
    using get(3) s1 parse run [unfolded Let_def]
    by (intro returns_if returns_option returns_bind [OF parse]) auto
qed

lemma processFile_returns:
  assumes s: "good_state x s w" and f: "has_file xml"
  shows "returns (processFile x s xml w wd) (\<lambda>(n, s', w', wd'). good_state x s' w')"
proof -
  from f obtain g where g: "xml = Some g" "g \<noteq> []" by (auto simp: has_file_def)
  have "good_xml (ext_xml x) None" "session_short w" using s by (simp_all add: good_state_def)
  note parse = parse_xmldata_returns [OF this(1)] and w = this(2)
  have run: "returns (bindR (processRSSList x (grow_bucket item_count s) None items None w wd) (\<lambda>st.
      Inr (item_count mod 2 ^ 16, r_session st, r_web st, r_world st)))
      (\<lambda>(n, s', w', wd'). good_state x s' w')"
    if "\<forall>i \<in> set items. good_item None i" for items item_count
    using that s w by (intro returns_bind [OF processRSSList_state [where ?w0.0 = w]]) auto
  show ?thesis
    unfolding processFile_def g(1) option.case Let_def
    using g(2) s run
    by (auto split: option.split intro!: returns_bind [OF parse])
qed

section \<open>An example\<close>

text \<open>Every expression matches the whole subject; the server and the feed are those of \<open>lab_ext\<close>.\<close>

definition whole_pcre :: pcre where
  "whole_pcre = \<lparr>pcre_compile = (\<lambda>p. True), pcre_fullinfo = (\<lambda>p. (0, 1)),
     pcre_exec = (\<lambda>p s n. if n = 0 then 0 else 2),
     pcre_substrings = (\<lambda>p s n. Some (replicate (nat n) s))\<rparr>"

definition calm_ext :: "(unit, unit) ext" where
  "calm_ext = lab_ext\<lparr>ext_pcre := whole_pcre, ext_xml := lab_feed_xml\<rparr>"

lemma whole_good: "good_pcre whole_pcre"
  by (auto simp: good_pcre_def pcre_lists_def whole_pcre_def)

lemma lab_curl_good: "good_server re lab_curl"
proof -
  have "good_transfer re \<lparr>t_events = [Body b], t_result = 0, t_status = 200\<rparr>"
    if "b \<noteq> []" "hd b \<noteq> NUL" "length b < MAX_BODY" for b
    unfolding good_transfer_def using that
    by (intro conjI impI exI [of _ "[]"] exI [of _ "[b]"]) simp_all
  then show ?thesis by (simp add: good_server_def lab_curl_def NUL_def MAX_BODY_def)
qed

lemma lab_nodes_good:
  assumes "case feed of None \<Rightarrow> True | Some f \<Rightarrow> feed_url_replace f = None"
  shows "good_xml lab_feed_xml feed"
proof -
  let ?cs = "[\<lparr>child_name = Some ''title'', child_text = Some ''linux.iso'', child_attrs = []\<rparr>,
      \<lparr>child_name = Some ''link'', child_text = Some ''magnet:?x'', child_attrs = []\<rparr>]"
  have "item_url (item_of ?cs) = Some ''magnet:?x''"
    by (simp add: item_of_def best_url_def torrent_urls_def torrent_url_def opt_list_def)
  moreover have "names_file ''magnet:?x''" by (simp add: names_file_def PATH_MAX_def)
  ultimately have "good_item feed (item_of ?cs)" using assms by (auto simp: good_item_def)
  moreover have "list_all child_ok ?cs" by (simp add: child_ok_def text_ok_def NUL_def)
  ultimately have "good_nodes feed [\<lparr>is_element = True, node_children = ?cs, node_text = None\<rparr>]"
    by (simp add: good_nodes_def items_of_def)
  then show ?thesis
    by (auto simp: good_xml_def lab_feed_xml_def good_ttl_def good_nodes_def items_of_def)
qed

lemma calm_state: "good_state calm_ext lab_session web0"
proof -
  have "good_session lab_session"
    by (simp add: good_session_def NUL_def)
      (simp add: lab_session_def folder_size_def)
  moreover have "good_ext calm_ext" using whole_good lab_curl_good by (simp add: good_ext_def calm_ext_def)
  moreover have "good_xml (ext_xml calm_ext) None" "\<forall>f \<in> set (feeds lab_session). good_xml (ext_xml calm_ext) (Some f)"
    using lab_nodes_good by (simp_all add: calm_ext_def lab_session_def feed_new_def)
  ultimately show ?thesis by (simp add: good_state_def session_short_def web0_def)
qed

section \<open>Property\<close>

text \<open>C4: under the contract \<open>good_state\<close> a check of a feed does not leave defined behaviour: \<open>processFeed\<close>
  returns, and the session still keeps the contract afterwards.  Of the servers the contract asks,
  for every request: header lines of fewer than 4096 characters, a session identifier that ends
  before its 173rd character, no announced length of 2^31 - 1, and with status 200 a body that is
  not empty, does not begin with a NUL, is shorter than \<open>MAX_BODY\<close>, and arrives when it has been
  announced.  The session uses Transmission by RPC, documents are well-formed, and the addresses of
  items fit the buffers.  Within these bounds the answers, the items and the outcome of each upload
  are arbitrary.  The excluded answers include those on which the code aborts or overruns a buffer
  (an empty torrent ends in the assertion of \<open>sendTransmissionRPC\<close>).\<close>

theorem check_is_total:
  assumes "good_state x s w" "k < length (feeds s)"
  shows "\<exists>n s' w' wd'. processFeed x s k firstrun w wd = Inr (n, s', w', wd') \<and> good_state x s' w'"
  using processFeed_returns [OF assms, of firstrun wd] by (auto simp: returns_def)

theorem check_is_total_witness:
  "\<exists>n s' w' wd'. processFeed calm_ext lab_session 0 True web0 disk1 = Inr (n, s', w', wd') \<and>
    good_state calm_ext s' w'"
  by (rule check_is_total [OF calm_state]) (simp add: lab_session_def)

end
