(* ===== verification/Am_Daemon_Total.thy ===== *)
theory Am_Daemon_Total
  imports Am_Check_Total
begin

text \<open>
  Total correctness of the daemon.  What \<open>Am_Check_Total\<close> shows of a check is carried through the
  main loop and through every reload: the configuration file keeps its text, since a check writes
  no file but the state file, and so the session a reload installs keeps the contract again.
\<close>

section \<open>Files a check leaves alone\<close>

text \<open>The file \<open>g\<close> is as it was, and so is the log the process writes to.\<close>

definition same_file :: "string \<Rightarrow> 'w world \<Rightarrow> 'w world \<Rightarrow> bool" where
  "same_file g wd wd' \<longleftrightarrow> may_read wd' g = may_read wd g \<and> files wd' g = files wd g \<and>
     gLogFP wd' = gLogFP wd"

lemma same_file_simps [simp]:
  "same_file g wd wd" "same_file g wd (wd\<lparr>net := n\<rparr>)"
  by (simp_all add: same_file_def)

lemma same_file_trans: "same_file g a b \<Longrightarrow> same_file g b c \<Longrightarrow> same_file g a c"
  by (simp add: same_file_def)

lemma same_file_fopen_r: "same_file g wd wd' \<Longrightarrow> fopen_r g wd' = fopen_r g wd"
  by (simp add: same_file_def fopen_r_def)

lemma same_file_on_net: "on_net f wd = Inr (a, w, wd') \<Longrightarrow> same_file g wd wd'"
  by (auto dest: on_net_frame)

lemma same_file_fput: "f \<noteq> g \<Longrightarrow> same_file g wd (snd (fput f s wd))"
  by (simp add: fput_def same_file_def Let_def)

lemma same_file_save_loop: "f \<noteq> g \<Longrightarrow> same_file g wd (snd (save_loop f ds wd))"
proof (induction f ds wd rule: save_loop.induct)
  case (3 f e es wd)
  obtain ok1 wd1 where 1: "fput f e wd = (ok1, wd1)" by force
  obtain ok2 wd2 where 2: "(if ok1 then fput f [NL] wd1 else (ok1, wd1)) = (ok2, wd2)" by force
  have "same_file g wd wd1" using 1 same_file_fput [OF 3(2), of wd e] by simp
  moreover have "same_file g wd1 wd2"
    using 2 same_file_fput [OF 3(2), of wd1 "[NL]"] by (cases ok1) auto
  ultimately have 12: "same_file g wd wd2" by (rule same_file_trans)
  show ?case
  proof (cases ok2)
    case True
    with 1 2 3 have "same_file g wd2 (snd (save_loop f es wd2))" by (cases ok1) auto
    with 12 have "same_file g wd (snd (save_loop f es wd2))" by (rule same_file_trans)
    with 1 2 True show ?thesis by (simp add: Let_def)
  next
    case False
    with 1 2 12 show ?thesis by (simp add: Let_def)
  qed
qed simp_all

lemma same_file_save:
  assumes "f \<noteq> Some g"
  shows "same_file g wd (snd (save_state f ds wd))"
proof (cases "\<exists>p wd1. f = Some p \<and> fopen_w p wd = Some wd1")
  case True
  then obtain p wd1 where p: "f = Some p" "fopen_w p wd = Some wd1" by blast
  with assms have "same_file g wd wd1" by (auto simp: fopen_w_def same_file_def split: if_splits)
  moreover have "same_file g wd1 (snd (save_loop p ds wd1))" using assms p(1) by (intro same_file_save_loop) simp
  ultimately show ?thesis using p by (auto simp: save_state_def intro: same_file_trans)
qed (auto simp: save_state_def split: option.split)

text \<open>A computation on the network and the machine that leaves the file as it is.\<close>

lemma after_upload_file: "after_upload x s url tid w wd = Inr (r, w', wd') \<Longrightarrow> same_file g wd wd'"
  by (auto simp: after_upload_def bindR_Inr_iff dest: same_file_on_net split: if_splits)

lemma upload_file:
  assumes "bindR (on_net f wd) (\<lambda>(tid, w, wd). after_upload x s url tid w wd) = Inr (r, w', wd')"
  shows "same_file g wd wd'"
  using assms by (auto simp: bindR_Inr_iff dest!: after_upload_file [where g = g]
      same_file_on_net [where g = g] intro: same_file_trans)

lemma addTorrentToTM_file:
  assumes "good_session s" "addTorrentToTM x s d n fname folder w wd = Inr (r, w', wd')"
  shows "same_file g wd wd'"
  using assms by (auto simp: addTorrentToTM_def good_session_def AM_TRANSMISSION_EXTERNAL_def
      AM_TRANSMISSION_1_2_def AM_TRANSMISSION_1_3_def Let_def intro: upload_file)

lemma addMagnetToTM_file:
  assumes "good_session s" "addMagnetToTM x s uri folder w wd = Inr (r, w', wd')"
  shows "same_file g wd wd'"
  using assms by (auto simp: addMagnetToTM_def good_session_def Let_def intro: upload_file)

lemma notify_file:
  assumes "notify x p q nm st = Inr st'"
  shows "same_file g (r_world st) (r_world st')"
proof -
  let ?s = "r_session st"
  from assms obtain st1 where 1: "(if prowl_key_valid ?s then
        bindR (on_net (prowl_sendNotification (ext_pcre x) (ext_curl x) p (prowl_key ?s)
                 nm (r_web st)) (r_world st))
          (\<lambda>(_, w, wd). Inr (st\<lparr>r_web := w, r_world := wd\<rparr>))
      else Inr st) = Inr st1"
    and 2: "(if pushover_key ?s \<noteq> None then
        bindR (on_net (pushover_sendNotification (ext_pcre x) (ext_curl x) q (pushover_key ?s)
                 nm (r_web st1)) (r_world st1))
          (\<lambda>(_, w, wd). Inr (st1\<lparr>r_web := w, r_world := wd\<rparr>))
      else Inr st1) = Inr st'"
    by (auto simp: notify_def Let_def bindR_Inr_iff)
  from 1 have "same_file g (r_world st) (r_world st1)"
    by (auto simp: bindR_Inr_iff dest: same_file_on_net split: if_splits)
  moreover from 2 have "same_file g (r_world st1) (r_world st')"
    by (auto simp: bindR_Inr_iff dest: same_file_on_net split: if_splits)
  ultimately show ?thesis by (rule same_file_trans)
qed

lemma downloadTorrent_file:
  "downloadTorrent x c url w wd = Inr (tc, w', wd') \<Longrightarrow> same_file g wd wd'"
  by (auto simp: downloadTorrent_def bindR_Inr_iff dest!: same_file_on_net [where g = g] split: option.splits)

lemma add_item_file:
  assumes s: "good_session (r_session st)" and r: "add_item x feed i st = Inr (r, st')"
  shows "same_file g (r_world st) (r_world st') \<and> r_session st' = r_session st"
proof (cases "isMagnetURI (item_url i)")
  case True
  with r addMagnetToTM_file [OF s] show ?thesis by (auto simp: add_item_def bindR_Inr_iff)
next
  case False
  from r obtain url t c w wd where d: "downloadTorrent x (r_curl st) url (r_web st) (r_world st) = Inr ((t, c), w, wd)"
    and t: "(case t of
               None \<Rightarrow> Inr (- 1, st\<lparr>r_curl := c, r_web := w, r_world := wd\<rparr>)
             | Some t \<Rightarrow>
                 bindR (get_filename (hr_filename t) (item_url i) (torrent_folder (r_session st)))
                   (\<lambda>fname.
                 bindR (addTorrentToTM x (r_session st) (hr_data t) (hr_size t mod 2 ^ 32) fname
                          (r_folder st) w wd)
                   (\<lambda>(r, w', wd'). Inr (r, st\<lparr>r_curl := c, r_web := w', r_world := wd'\<rparr>)))) = Inr (r, st')"
    unfolding add_item_def if_not_P [OF False] by (auto simp: bindR_Inr_iff Let_def split: option.splits)
  note d = downloadTorrent_file [OF d, of g]
  show ?thesis
  proof (cases t)
    case None
    with d t show ?thesis by auto
  next
    case (Some y)
    with t obtain fname w' wd' where "addTorrentToTM x (r_session st) (hr_data y) (hr_size y mod 2 ^ 32) fname
        (r_folder st) w wd = Inr (r, w', wd')" "st' = st\<lparr>r_curl := c, r_web := w', r_world := wd'\<rparr>"
      by (auto simp: bindR_Inr_iff)
    with addTorrentToTM_file [OF s, of x _ _ _ _ w wd r w' wd' g] same_file_trans [OF d] show ?thesis by auto
  qed
qed

lemma remember_item_file:
  "statefile (r_session st) \<noteq> Some g \<Longrightarrow> same_file g (r_world st) (r_world (remember_item i st))"
  by (simp add: remember_item_def Let_def same_file_save)

lemma item_result_file:
  assumes "statefile (r_session st) \<noteq> Some g" "item_result x i (r, st) = Inr st'"
  shows "same_file g (r_world st) (r_world st')"
proof -
  have remembers: "same_file g (r_world st) (r_world (remember_item i st1))"
    if "st1 = st \<or> (\<exists>p q. notify x p q (item_name i) st = Inr st1)" for st1
  proof -
    from that have "same_file g (r_world st) (r_world st1)" "r_session st1 = r_session st"
      using notify_file [of x _ _ "item_name i" st st1 g] notify_session [of x _ _ "item_name i" st st1] by auto
    with assms(1) remember_item_file [of st1 g i] show ?thesis by (auto intro: same_file_trans)
  qed
  from assms(2) show ?thesis
    by (auto simp: item_result_def bindR_Inr_iff intro: remembers notify_file split: if_splits)
qed

lemma process_item_file:
  assumes "good_session (r_session st)" "statefile (r_session st) \<noteq> Some g" "process_item x feed i st = Inr st'"
  shows "same_file g (r_world st) (r_world st')"
proof -
  let ?id = "case feed of None \<Rightarrow> None | Some f \<Rightarrow> feed_id f"
  obtain m folder where m: "isMatch (ext_pcre x) (filters (r_session st)) (item_name i) ?id (r_folder st) =
      (m, folder)" by force
  from assms(3) m consider "st' = st\<lparr>r_folder := folder\<rparr>"
    | r st1 where "add_item x feed i (st\<lparr>r_folder := folder\<rparr>) = Inr (r, st1)" "item_result x i (r, st1) = Inr st'"
    by (auto simp: process_item_def Let_def bindR_Inr_iff split: if_splits)
  then show ?thesis
  proof cases
    case (2 r st1)
    from add_item_file [OF _ 2(1), of g] assms(1)
    have 1: "same_file g (r_world st) (r_world st1)" "r_session st1 = r_session st" by simp_all
    from item_result_file [OF _ 2(2), of g] assms(2) 1(2)
    have "same_file g (r_world st1) (r_world st')" by simp
    with 1(1) show ?thesis by (rule same_file_trans)
  qed simp
qed

lemma process_items_file:
  "good_session (r_session st) \<Longrightarrow> statefile (r_session st) \<noteq> Some g \<Longrightarrow>
   process_items x feed items st = Inr st' \<Longrightarrow>
   same_file g (r_world st) (r_world st') \<and> statefile (r_session st') = statefile (r_session st)"
proof (induction items arbitrary: st)
  case (Cons i js)
  from Cons.prems(3) obtain st1 where 1: "process_item x feed i st = Inr st1"
    "process_items x feed js st1 = Inr st'" by (auto simp: bindR_Inr_iff)
  from process_item_session [OF 1(1)] Cons.prems(1)
  have s1: "good_session (r_session st1)" "statefile (r_session st1) = statefile (r_session st)"
    by (auto simp: good_session_remembered) (simp add: remembered_def)
  with Cons.IH [OF _ _ 1(2)] Cons.prems process_item_file [OF Cons.prems(1,2) 1(1)]
  show ?case by (auto intro: same_file_trans)
qed simp

lemma processRSSList_file:
  assumes "good_session s" "statefile s \<noteq> Some g" "processRSSList x s c items feed w wd = Inr st"
  shows "same_file g wd (r_world st) \<and> statefile (r_session st) = statefile s"
  using process_items_file [of "\<lparr>r_session = s, r_curl = c, r_folder = None, r_web = w, r_world = wd\<rparr>"
      g x feed items st] assms by (simp add: processRSSList_def)

lemma processFeed_file:
  assumes "good_session s" "statefile s \<noteq> Some g" "processFeed x s k fr w wd = Inr (n, s', w', wd')"
  shows "same_file g wd wd' \<and> statefile s' = statefile s"
proof -
  obtain r c w1 wd1 where get: "getRSSFeed x (feeds s ! k) w wd = Inr ((r, c), w1, wd1)"
    using assms(3) by (auto simp: processFeed_def bindR_Inr_iff Let_def)
  then have 1: "same_file g wd wd1" by (auto simp: getRSSFeed_def bindR_Inr_iff dest: same_file_on_net)
  show ?thesis
  proof (cases "\<exists>y. r = Some y \<and> hr_code y = 200 \<and> hr_data y \<noteq> None")
    case False
    with assms(3) get 1 show ?thesis
      by (cases r) (auto simp: processFeed_def Let_def split: if_splits)
  next
    case True
    then obtain y where y: "r = Some y" "hr_code y = 200" "hr_data y \<noteq> None" by blast
    with assms(3) get obtain items cnt ttl st where
      st: "processRSSList x (if fr then grow_bucket cnt (s\<lparr>feeds := (feeds s)[k := (feeds s ! k)\<lparr>feed_ttl := the ttl\<rparr>]\<rparr>)
          else s\<lparr>feeds := (feeds s)[k := (feeds s ! k)\<lparr>feed_ttl := the ttl\<rparr>]\<rparr>) c items
          (Some ((feeds s ! k)\<lparr>feed_ttl := the ttl\<rparr>)) w1 wd1 = Inr st" "s' = r_session st" "wd' = r_world st"
      by (cases fr) (auto simp: processFeed_def Let_def bindR_Inr_iff split: if_splits)
    let ?s = "s\<lparr>feeds := (feeds s)[k := (feeds s ! k)\<lparr>feed_ttl := the ttl\<rparr>]\<rparr>"
    have "good_session (if fr then grow_bucket cnt ?s else ?s)"
      "statefile (if fr then grow_bucket cnt ?s else ?s) = statefile s"
      using assms(1) by simp_all (simp add: grow_bucket_def)
    with processRSSList_file [OF _ _ st(1), of g] assms(2) st(2,3) same_file_trans [OF 1] show ?thesis by auto
  qed
qed

lemma processFile_file:
  assumes "good_session s" "statefile s \<noteq> Some g" "processFile x s f w wd = Inr (n, s', w', wd')"
  shows "same_file g wd wd' \<and> statefile s' = statefile s"
proof -
  from assms(3) have "(s' = s \<and> wd' = wd) \<or> (\<exists>st c items f s0.
      processRSSList x s0 c items f w wd = Inr st \<and> s' = r_session st \<and> wd' = r_world st \<and>
      good_session s0 = good_session s \<and> statefile s0 = statefile s)"
    by (fastforce simp: processFile_def bindR_Inr_iff Let_def grow_bucket_def good_session_def rpc_host_def
        split: if_splits option.splits)
  with assms(1,2) show ?thesis by (auto dest!: processRSSList_file [where g = g])
qed

section \<open>Sessions and reloads\<close>

text \<open>A session the daemon may install: it keeps the contract, and its history goes to another file.\<close>

definition good_settings :: "('w, 'doc) ext \<Rightarrow> string \<Rightarrow> auto_handle \<Rightarrow> bool" where
  "good_settings x cfg s \<longleftrightarrow> good_session s \<and> (\<exists>f. statefile s = Some f \<and> f \<noteq> cfg) \<and>
     (\<forall>f \<in> set (feeds s). good_xml (ext_xml x) (Some f))"

text \<open>A configuration file the parser gets through, to an error or to such a session.\<close>

definition reloadable :: "('w, 'doc) ext \<Rightarrow> string \<Rightarrow> char list option \<Rightarrow> bool" where
  "reloadable x cfg file \<longleftrightarrow>
     (\<exists>s0. session_init (ext_env x) = Inr s0 \<and>
        (\<forall>m. returns (parse_config_file (ext_pcre x) (ext_env x) file (s0\<lparr>match_only := m\<rparr>))
           (\<lambda>(r, s). r = 0 \<longrightarrow> good_settings x cfg s)))"

definition good_machine :: "('w, 'doc) ext \<Rightarrow> web \<Rightarrow> bool" where
  "good_machine x w \<longleftrightarrow> good_ext x \<and> good_xml (ext_xml x) None \<and> session_short w"

definition sound_state :: "('w, 'doc) ext \<Rightarrow> string \<Rightarrow> auto_handle \<Rightarrow> web \<Rightarrow> 'w world \<Rightarrow> bool" where
  "sound_state x cfg s w wd \<longleftrightarrow> good_machine x w \<and> good_settings x cfg s \<and> usable s \<and>
     reloadable x cfg (fopen_r cfg wd)"

lemma sound_good: "sound_state x cfg s w wd \<Longrightarrow> good_state x s w"
  by (simp add: sound_state_def good_state_def good_machine_def good_settings_def)

lemma sound_statefile: "sound_state x cfg s w wd \<Longrightarrow> good_session s \<and> statefile s \<noteq> Some cfg"
  by (auto simp: sound_state_def good_settings_def)

lemma sound_next:
  assumes "sound_state x cfg s w wd" "good_state x s' w'" "same_job s s'" "same_file cfg wd wd'"
    and "statefile s' = statefile s"
  shows "sound_state x cfg s' w' wd'"
  using assms same_job_usable [OF assms(3)] same_file_fopen_r [OF assms(4)]
  by (simp add: sound_state_def good_state_def good_machine_def good_settings_def)

lemma processFeed_sound:
  assumes "sound_state x cfg s w wd" "k < length (feeds s)"
  shows "returns (processFeed x s k fr w wd) (\<lambda>(n, s', w', wd'). sound_state x cfg s' w' wd')"
proof -
  obtain n s' w' wd' where 1: "processFeed x s k fr w wd = Inr (n, s', w', wd')" "good_state x s' w'"
    using processFeed_returns [OF sound_good [OF assms(1)] assms(2), of fr wd] by (auto simp: returns_def)
  from processFeed_session [OF 1(1)] processFeed_file [OF _ _ 1(1), of cfg] sound_statefile [OF assms(1)]
  have "sound_state x cfg s' w' wd'" by (intro sound_next [OF assms(1) 1(2)]) simp_all
  with 1(1) show ?thesis by simp
qed

lemma processFile_sound:
  assumes "sound_state x cfg s w wd" "has_file xml"
  shows "returns (processFile x s xml w wd) (\<lambda>(n, s', w', wd'). sound_state x cfg s' w' wd')"
proof -
  obtain n s' w' wd' where 1: "processFile x s xml w wd = Inr (n, s', w', wd')" "good_state x s' w'"
    using processFile_returns [OF sound_good [OF assms(1)] assms(2), of wd] by (auto simp: returns_def)
  from processFile_session [OF 1(1)] processFile_file [OF _ _ 1(1), of cfg] sound_statefile [OF assms(1)]
  have "sound_state x cfg s' w' wd'" by (intro sound_next [OF assms(1) 1(2)]) simp_all
  with 1(1) show ?thesis by simp
qed

lemma on_net_steady:
  assumes "returns (f (net wd)) steady"
  shows "returns (on_net f wd) (\<lambda>(a, w', wd'). session_short w' \<and> same_file g wd wd')"
  using assms unfolding on_net_def by (elim returns_bind) auto

lemma verify_prowl_sound:
  assumes "good_machine x w"
  shows "returns (verify_prowl x s w wd)
    (\<lambda>(s', w', wd'). (s' = s \<or> s' = s\<lparr>prowl_key_valid := True\<rparr>) \<and> session_short w' \<and> same_file g wd wd')"
proof -
  from assms have "good_pcre (ext_pcre x)" "good_server (ext_pcre x) (ext_curl x)" "session_short w"
    by (simp_all add: good_machine_def good_ext_def)
  then show ?thesis unfolding verify_prowl_def
    by (intro returns_if returns_bind [OF on_net_steady [OF verifyProwlAPIKey_returns, where g = g]]) auto
qed

lemma printSessionSettings_sound:
  assumes "good_machine x w" "good_session s"
  shows "returns (printSessionSettings x s w wd)
    (\<lambda>(s', w', wd'). (\<exists>v. s' = s\<lparr>rpc_version := v\<rparr>) \<and> session_short w' \<and> same_file g wd wd')"
proof -
  from assms have "good_pcre (ext_pcre x)" "good_server (ext_pcre x) (ext_curl x)" "session_short w"
    "length (rpc_host s) < 900" "rpc_port s < 65536" "NUL \<notin> set (rpc_host s)"
    by (simp_all add: good_machine_def good_ext_def good_session_def)
  moreover have "\<exists>v. s = s\<lparr>rpc_version := v\<rparr>" by (rule exI [of _ "rpc_version s"]) simp
  ultimately show ?thesis unfolding printSessionSettings_def
    by (intro returns_if returns_bind [OF on_net_steady [OF getRPCVersion_returns, where g = g]]) auto
qed

lemma good_settings_fields [simp]:
  "good_settings x cfg (s\<lparr>prowl_key_valid := b\<rparr>) = good_settings x cfg s"
  "good_settings x cfg (s\<lparr>downloads := ds\<rparr>) = good_settings x cfg s"
  "good_settings x cfg (s\<lparr>rpc_version := v\<rparr>) = good_settings x cfg s"
  "good_settings x cfg (s\<lparr>match_only := m\<rparr>) = good_settings x cfg s"
  by (simp_all add: good_settings_def good_session_def rpc_host_def)

lemma setupSession_sound:
  assumes m: "good_machine x (d_web d)" and s: "good_settings x cfg s"
    and old: "\<And>p. mySession d = Some p \<Longrightarrow> statefile p \<noteq> Some cfg"
  shows "returns (setupSession x (Some s) d) (\<lambda>(ok, d').
    if ok then good_machine x (d_web d') \<and> same_file cfg (d_world d) (d_world d') \<and> seenHUP d' = seenHUP d \<and>
      (\<exists>s'. mySession d' = Some s' \<and> good_settings x cfg s' \<and> usable s')
    else d' = d)"
proof (cases "list_empty (feeds s) \<or> list_empty (filters s)")
  case True
  then show ?thesis by (simp add: setupSession_def)
next
  case False
  obtain s1 wd1 where 1: "replace_session (mySession d) s (d_world d) = (s1, wd1)" by force
  have s1: "good_settings x cfg s1" "same_file cfg (d_world d) wd1"
    using 1 s old by (auto simp: replace_session_def same_file_save split: option.splits if_splits)
  obtain s2 w2 wd2 where 2: "verify_prowl x s1 (d_web d) wd1 = Inr (s2, w2, wd2)"
    "s2 = s1 \<or> s2 = s1\<lparr>prowl_key_valid := True\<rparr>" "session_short w2" "same_file cfg wd1 wd2"
    using verify_prowl_sound [OF m, of s1 wd1 cfg] by (auto simp: returns_def)
  have s2: "good_settings x cfg s2" using 2(2) s1(1) by auto
  then obtain f where f: "statefile s2 = Some f" by (auto simp: good_settings_def)
  let ?s3 = "s2\<lparr>downloads := snd (load_state f (downloads s2) wd2)\<rparr>"
  have m2: "good_machine x w2" using m 2(3) by (simp add: good_machine_def)
  have "good_session ?s3" using good_settings_fields(2) s2 unfolding good_settings_def by blast
  from printSessionSettings_sound [OF m2 this, of wd2 cfg]
  obtain v w3 wd3 where 3: "printSessionSettings x ?s3 w2 wd2 = Inr (?s3\<lparr>rpc_version := v\<rparr>, w3, wd3)"
    "session_short w3" "same_file cfg wd2 wd3" by (auto simp: returns_def)
  let ?d = "d\<lparr>mySession := Some (?s3\<lparr>rpc_version := v\<rparr>), d_web := w3, d_world := wd3\<rparr>"
  have set: "setupSession x (Some s) d = Inr (True, ?d)"
    unfolding setupSession_def option.case if_not_P [OF False] 1 Let_def prod.case
    by (simp add: 2(1) f 3(1))
  have "usable (?s3\<lparr>rpc_version := v\<rparr>)" using setupSession_cases [OF set] by simp
  moreover have "good_machine x w3" using m2 3(2) by (simp add: good_machine_def)
  moreover have "same_file cfg (d_world d) wd3"
    using same_file_trans [OF same_file_trans [OF s1(2) 2(4)] 3(3)] .
  ultimately show ?thesis using set s2 by simp
qed

section \<open>The daemon\<close>

definition sound_daemon :: "('w, 'doc) ext \<Rightarrow> string \<Rightarrow> 'w daemon \<Rightarrow> bool" where
  "sound_daemon x cfg d \<longleftrightarrow> (\<exists>s. mySession d = Some s \<and> sound_state x cfg s (d_web d) (d_world d))"

lemma reload_sound:
  assumes "sound_daemon x cfg d"
  shows "returns (reload x cfg d) (sound_daemon x cfg)"
proof -
  from assms obtain p where p: "mySession d = Some p" "sound_state x cfg p (d_web d) (d_world d)"
    by (auto simp: sound_daemon_def)
  from p(2) have m: "good_machine x (d_web d)" by (simp add: sound_state_def)
  have old: "statefile q \<noteq> Some cfg" if "mySession d = Some q" for q
    using sound_statefile [OF p(2)] p(1) that by simp
  from p(2) have rl: "reloadable x cfg (fopen_r cfg (d_world d))" by (simp add: sound_state_def)
  then obtain s0 where s0: "session_init (ext_env x) = Inr s0"
    "\<And>m. returns (parse_config_file (ext_pcre x) (ext_env x) (fopen_r cfg (d_world d)) (s0\<lparr>match_only := m\<rparr>))
           (\<lambda>(r, s). r = 0 \<longrightarrow> good_settings x cfg s)"
    by (auto simp: reloadable_def)
  from s0(2) [of "match_only s0"]
  obtain r s where rs: "parse_config_file (ext_pcre x) (ext_env x) (fopen_r cfg (d_world d)) s0 = Inr (r, s)"
    "r = 0 \<longrightarrow> good_settings x cfg s" by (auto simp: returns_def)
  have installed: "sound_daemon x cfg d'" if "good_machine x (d_web d')" "same_file cfg (d_world d) (d_world d')"
    "mySession d' = Some s'" "good_settings x cfg s'" "usable s'" for d' s'
    using that rl same_file_fopen_r [OF that(2)] by (simp add: sound_daemon_def sound_state_def)
  show ?thesis
  proof (cases "r = 0")
    case True
    with rs(2) have "good_settings x cfg s" by simp
    from setupSession_sound [OF m this old] have "returns (bindR (setupSession x (Some s) d) (\<lambda>(ok, d). Inr d))
        (sound_daemon x cfg)"
      by (rule returns_bind) (use assms installed in \<open>auto split: if_splits\<close>)
    with s0(1) rs(1) True show ?thesis by (simp add: reload_def)
  next
    case False
    with s0(1) rs(1) assms show ?thesis by (simp add: reload_def)
  qed
qed

lemma sound_flags [simp]:
  "sound_daemon x cfg (d\<lparr>seenHUP := b\<rparr>) = sound_daemon x cfg d"
  "sound_daemon x cfg (d\<lparr>closing := b\<rparr>) = sound_daemon x cfg d"
  "sound_daemon x cfg (d\<lparr>isRunning := b\<rparr>) = sound_daemon x cfg d"
  by (simp_all add: sound_daemon_def)

lemma signal_handler_sound:
  assumes "sound_daemon x cfg d"
  shows "returns (signal_handler x cfg sig d) (sound_daemon x cfg)"
  using assms reload_sound [OF assms]
  by (cases sig) (auto simp: signal_handler_def intro!: returns_if returns_bind)

definition sound_system :: "('w, 'doc) ext \<Rightarrow> string \<Rightarrow> 'w system \<Rightarrow> bool" where
  "sound_system x cfg sys \<longleftrightarrow> sys_pc sys = Done \<or> sound_daemon x cfg (sys_d sys)"

lemma enter_check_sound:
  assumes "sound_daemon x cfg (sys_d sys)"
  shows "returns (enter_check x xml sys) (sound_system x cfg)"
proof -
  from assms obtain s where "mySession (sys_d sys) = Some s"
    "sound_state x cfg s (d_web (sys_d sys)) (d_world (sys_d sys))" by (auto simp: sound_daemon_def)
  then show ?thesis
    by (auto simp: enter_check_def Let_def sound_system_def sound_daemon_def
        intro!: returns_bind [OF processFile_sound])
qed

lemma check_feed_sound:
  assumes "sound_daemon x cfg (sys_d sys)"
  shows "returns (check_feed x k sys) (sound_system x cfg)"
proof -
  from assms obtain s where "mySession (sys_d sys) = Some s"
    "sound_state x cfg s (d_web (sys_d sys)) (d_world (sys_d sys))" by (auto simp: sound_daemon_def)
  then show ?thesis
    by (auto simp: check_feed_def Let_def sound_system_def sound_daemon_def
        intro!: returns_bind [OF processFeed_sound])
qed

lemma main_step_sound:
  assumes "sound_system x cfg sys"
  shows "returns (main_step x cfg xml sys) (sound_system x cfg)"
proof (cases "sys_pc sys = Done")
  case False
  with assms have d: "sound_daemon x cfg (sys_d sys)" by (simp add: sound_system_def)
  show ?thesis
  proof (cases "sys_pc sys")
    case Loop
    with d enter_check_sound [OF d] show ?thesis by (simp add: main_step_def Let_def sound_system_def)
  next
    case (Checking k)
    with check_feed_sound [OF d] show ?thesis by (simp add: main_step_def Let_def)
  next
    case Deferred
    with d show ?thesis
      by (auto simp: main_step_def Let_def sound_system_def intro!: returns_bind [OF signal_handler_sound])
  qed (use d in \<open>simp_all add: main_step_def Let_def sound_system_def\<close>)
qed (use assms in \<open>simp add: main_step_def\<close>)

lemma signal_step_sound:
  "sys_pc sys \<noteq> Done \<Longrightarrow> sound_system x cfg sys \<Longrightarrow> signal_handler x cfg sig (sys_d sys) = Inr d \<Longrightarrow>
   sound_system x cfg (sys\<lparr>sys_d := d\<rparr>)"
  using signal_handler_sound [of x cfg "sys_d sys" sig] by (simp add: sound_system_def)

lemma step_sound: "step x cfg xml sys sys' \<Longrightarrow> sound_system x cfg sys \<Longrightarrow> sound_system x cfg sys'"
proof (induction rule: step.induct)
  case (main sys sys')
  with main_step_sound [of x cfg sys xml] show ?case by simp
qed (rule signal_step_sound)

lemma sound_usable: "sound_daemon x cfg d \<Longrightarrow> \<exists>s. mySession d = Some s \<and> usable s"
  by (auto simp: sound_daemon_def sound_state_def)

interpretation sound_end: total_machine "main_step x cfg xml" "\<lambda>sys. sys_pc sys = Done"
    "\<lambda>sys. closing (sys_d sys) \<and> sound_system x cfg sys" steps_left for x cfg xml
proof unfold_locales
  fix sys sys'
  assume g: "closing (sys_d sys) \<and> sound_system x cfg sys" "sys_pc sys \<noteq> Done"
    "main_step x cfg xml sys = Inr sys'"
  then have "\<exists>s. mySession (sys_d sys) = Some s \<and> usable s"
    by (intro sound_usable [of x cfg]) (simp add: sound_system_def)
  with g main_step_left [OF g(3) _ g(2)] main_step_sound [of x cfg sys xml]
  show "(closing (sys_d sys') \<and> sound_system x cfg sys') \<and> steps_left sys' < steps_left sys" by simp
next
  fix sys
  assume "closing (sys_d sys) \<and> sound_system x cfg sys" "sys_pc sys \<noteq> Done"
  then show "returns (main_step x cfg xml sys) (\<lambda>_. True)"
    using main_step_sound [of x cfg sys xml] by (auto elim: returns_weaken)
qed (auto simp: steps_left_pos main_step_def Let_def)

section \<open>The start\<close>

text \<open>The start writes the log and the pid file, which must not be the configuration file either.\<close>

lemma log_put_file:
  "gLogFP wd \<noteq> Some g \<Longrightarrow> same_file g wd (log_put s wd) \<and> gLogFP (log_put s wd) = gLogFP wd"
  by (auto simp: log_put_def same_file_def fput_def Let_def split: option.splits)

lemma am_printf_file:
  assumes "gLogFP wd \<noteq> Some g"
  shows "same_file g wd (am_printf file n ty t msg wd) \<and> gLogFP (am_printf file n ty t msg wd) = gLogFP wd"
proof -
  define wd1 where "wd1 = (case t of Some t \<Rightarrow> log_put (''['' @ getlogtime_str t @ ''] '') wd | None \<Rightarrow> wd)"
  have 1: "same_file g wd wd1" "gLogFP wd1 = gLogFP wd"
    using log_put_file [OF assms] by (simp_all add: wd1_def split: option.split)
  then have "gLogFP wd1 \<noteq> Some g" using assms by simp
  from log_put_file [OF this] 1 same_file_trans [OF 1(1)] show ?thesis
    by (auto simp: am_printf_def Let_def wd1_def [symmetric])
qed

lemma log_init_file:
  assumes "gLogFP wd \<noteq> Some g" "logfile \<noteq> Some g"
  shows "fopen_r g (snd (log_init file logfile l b wd)) = fopen_r g wd \<and>
    gLogFP (snd (log_init file logfile l b wd)) \<noteq> Some g"
proof (cases "logfile = None \<or> logfile = Some []")
  case True
  with assms show ?thesis by (auto simp: log_init_def fopen_r_def)
next
  case False
  then obtain f where f: "logfile = Some f" "f \<noteq> []" by auto
  let ?wd = "log_close (wd\<lparr>gMsglevel := l\<rparr>)"
  have c: "fopen_r g ?wd = fopen_r g wd" "gLogFP ?wd = None"
    by (simp_all add: log_close_def fopen_r_def split: option.split)
  have opened: "fopen_r g (wd'\<lparr>gLogFP := l\<rparr>) = fopen_r g wd"
    if "(if b then fopen_a f ?wd else fopen_w f ?wd) = Some wd'" for wd' l
    using that c(1) f(1) assms(2)
    by (auto simp: fopen_a_def fopen_w_def fopen_r_def split: if_splits)
  have "same_file g ?wd (am_printf file n ty t msg ?wd)" for n ty t msg
    using am_printf_file [of ?wd g] c(2) by simp
  then have failed: "fopen_r g (am_printf file n ty t msg ?wd) = fopen_r g wd"
    "gLogFP (am_printf file n ty t msg ?wd) = None" for n ty t msg
    using same_file_fopen_r c by (metis, simp add: same_file_def)
  from opened failed f assms(2) show ?thesis
    by (auto simp: log_init_def Let_def split: option.split)
qed

lemma pid_create_file:
  assumes "gLogFP wd \<noteq> Some g" "pidfile \<noteq> Some g"
  shows "same_file g wd (snd (pid_create file pidfile pid wd))"
proof (cases "pidfile = None \<or> pidfile = Some []")
  case True
  then show ?thesis by (auto simp: pid_create_def)
next
  case False
  then obtain f where f: "pidfile = Some f" "f \<noteq> []" by auto
  show ?thesis
  proof (cases "fopen_w f wd")
    case None
    with f am_printf_file [OF assms(1)] show ?thesis by (simp add: pid_create_def)
  next
    case (Some wd1)
    then have 1: "same_file g wd wd1" "gLogFP wd1 \<noteq> Some g"
      using f(1) assms by (auto simp: fopen_w_def same_file_def split: if_splits)
    let ?wd2 = "am_printf file 82 P_MSG None (pid_msg f pid) wd1"
    have "same_file g wd ?wd2" using am_printf_file [OF 1(2)] same_file_trans [OF 1(1)] by blast
    moreover have "same_file g ?wd2 (snd (fput f (show_int pid @ [NL]) ?wd2))"
      using f(1) assms(2) by (intro same_file_fput) auto
    ultimately have "same_file g wd (snd (fput f (show_int pid @ [NL]) ?wd2))" by (rule same_file_trans)
    with f Some show ?thesis by (simp add: pid_create_def Let_def same_file_def)
  qed
qed

lemma daemonize_file:
  assumes "gLogFP wd \<noteq> Some g" "pidfile \<noteq> Some g"
  shows "same_file g wd (snd (daemonize file f1 sid f2 pid pidfile wd))"
  using pid_create_file [OF assms] by (auto simp: daemonize_def split: fork_result.split option.split)

text \<open>What the command line and the machine must be like.\<close>

definition good_launch :: "('w, 'doc) ext \<Rightarrow> arguments \<Rightarrow> web \<Rightarrow> 'w world \<Rightarrow> bool" where
  "good_launch x a w wd \<longleftrightarrow> good_machine x w \<and> length (config_path a) \<le> MAXPATHLEN \<and>
     arg_logfile a \<noteq> Some (config_path a) \<and> arg_pidfile a \<noteq> Some (config_path a) \<and>
     gLogFP wd \<noteq> Some (config_path a) \<and> reloadable x (config_path a) (fopen_r (config_path a) wd)"

lemma start_daemon_sound:
  assumes "sound_daemon x cfg d" "gLogFP (d_world d) \<noteq> Some cfg" "arg_pidfile a \<noteq> Some cfg"
  shows "sound_system x cfg (start_daemon se a d)"
proof (cases "arg_nofork a")
  case True
  with assms(1) show ?thesis by (simp add: start_daemon_def sound_system_def)
next
  case False
  obtain r wd where r: "daemonize (se_file se) (se_fork1 se) (se_setsid se) (se_fork2 se) (se_pid se)
      (arg_pidfile a) (d_world d) = (r, wd)" by force
  with daemonize_file [OF assms(2,3)] have "same_file cfg (d_world d) wd" by (metis snd_conv)
  from same_file_fopen_r [OF this] assms(1) have "sound_daemon x cfg (d\<lparr>d_world := wd\<rparr>)"
    by (auto simp: sound_daemon_def sound_state_def)
  with False r show ?thesis
    by (auto simp: start_daemon_def sound_system_def stopped_def split: option.split)
qed

lemma setup_signals_sound: "sound_daemon x cfg d \<Longrightarrow> sound_daemon x cfg (setup_signals d)"
  by (auto simp: sound_daemon_def sound_state_def setup_signals_def fopen_r_def)

text \<open>\<open>main\<close> up to its loop: either the process has ended, or the daemon runs.\<close>

lemma start_session_sound:
  assumes d: "mySession d = None" "good_machine x (d_web d)" "gLogFP (d_world d) \<noteq> Some (config_path a)"
    and rl: "reloadable x (config_path a) (fopen_r (config_path a) (d_world d))"
    and pid: "arg_pidfile a \<noteq> Some (config_path a)"
  shows "returns (start_session x se a d) (sound_system x (config_path a))"
proof -
  let ?cfg = "config_path a"
  from rl obtain s0 where s0: "session_init (ext_env x) = Inr s0"
    and parse: "\<And>m. returns (parse_config_file (ext_pcre x) (ext_env x) (fopen_r ?cfg (d_world d))
      (s0\<lparr>match_only := m\<rparr>)) (\<lambda>(r, s). r = 0 \<longrightarrow> good_settings x ?cfg s)"
    by (auto simp: reloadable_def)
  obtain r s where s: "r = 0 \<longrightarrow> good_settings x ?cfg s"
    "parse_config_file (ext_pcre x) (ext_env x) (fopen_r ?cfg (d_world d)) (s0\<lparr>match_only := arg_match_only a\<rparr>) = Inr (r, s)"
    using parse [of "arg_match_only a"] by (auto simp: returns_def)
  have stop: "sound_system x ?cfg (stopped p e once)" for p e once by (simp add: sound_system_def stopped_def)
  have start: "sound_system x ?cfg (start_daemon se a (setup_signals e))"
    if "good_machine x (d_web e)" "same_file ?cfg (d_world d) (d_world e)"
      "mySession e = Some s'" "good_settings x ?cfg s'" "usable s'" for e s'
  proof (rule start_daemon_sound [OF setup_signals_sound _ pid])
    show "sound_daemon x ?cfg e"
      using that rl same_file_fopen_r [OF that(2)] by (simp add: sound_daemon_def sound_state_def)
    show "gLogFP (d_world (setup_signals e)) \<noteq> Some ?cfg"
      using that(2) d(3) by (simp add: setup_signals_def same_file_def)
  qed
  show ?thesis
  proof (cases "r = 0")
    case True
    with s(1) have "good_settings x ?cfg s" by simp
    note session = setupSession_sound [OF d(2) this]
    have "returns (bindR (setupSession x (Some s) d) (\<lambda>(ok, d).
        if \<not> ok then Inr (stopped (Some s) d (arg_once a)) else Inr (start_daemon se a (setup_signals d))))
        (sound_system x ?cfg)"
      by (rule returns_bind [OF session]) (use start stop d(1) in \<open>auto split: if_splits\<close>)
    with s0 s(2) True show ?thesis by (simp add: start_session_def)
  next
    case False
    with s0 s(2) stop show ?thesis by (simp add: start_session_def)
  qed
qed

lemma main_init_sound:
  assumes a: "readargs argv default_args = Some a" and g: "good_launch x a w wd"
  shows "returns (main_init x se argv w wd) (\<lambda>sys. \<exists>s. sys = Some s \<and> sound_system x (config_path a) s)"
proof -
  let ?cfg = "config_path a"
  define wd1 where "wd1 = snd (log_init (se_file se) None (level P_MSG) False wd)"
  define wd2 where "wd2 = snd (log_init (se_file se) (arg_logfile a) (wrap_s 8 (arg_verbose a)) (arg_append_log a) wd1)"
  from g have "fopen_r ?cfg wd1 = fopen_r ?cfg wd \<and> gLogFP wd1 \<noteq> Some ?cfg"
    unfolding wd1_def by (intro log_init_file) (simp_all add: good_launch_def)
  moreover from this g have "fopen_r ?cfg wd2 = fopen_r ?cfg wd1 \<and> gLogFP wd2 \<noteq> Some ?cfg"
    unfolding wd2_def by (intro log_init_file) (simp_all add: good_launch_def)
  ultimately have "returns (start_session x se a \<lparr>mySession = None, closing = False, isRunning = False,
      seenHUP = False, d_web = w, d_world = wd2\<rparr>) (sound_system x ?cfg)"
    using g by (intro start_session_sound) (simp_all add: good_launch_def)
  then have "returns (bindR (start_session x se a \<lparr>mySession = None, closing = False, isRunning = False,
      seenHUP = False, d_web = w, d_world = wd2\<rparr>) (\<lambda>sys. Inr (Some sys)))
      (\<lambda>sys. \<exists>s. sys = Some s \<and> sound_system x ?cfg s)" by (rule returns_bind) simp
  moreover have "\<not> length ?cfg > MAXPATHLEN" using g by (simp add: good_launch_def)
  ultimately show ?thesis
    unfolding main_init_def Let_def a option.case wd1_def wd2_def by (simp only: if_False)
qed

definition launched :: "('w, 'doc) ext \<Rightarrow> string \<Rightarrow> 'w system \<Rightarrow> bool" where
  "launched x cfg sys \<longleftrightarrow> (\<exists>se argv a w wd. readargs argv default_args = Some a \<and> cfg = config_path a \<and>
     good_launch x a w wd \<and> main_init x se argv w wd = Inr (Some sys))"

lemma launchedI:
  "readargs argv default_args = Some a \<Longrightarrow> good_launch x a w wd \<Longrightarrow>
   main_init x se argv w wd = Inr (Some sys) \<Longrightarrow> launched x (config_path a) sys"
  unfolding launched_def by blast

lemma start_daemon_pc: "sys_pc (start_daemon se a d) = Loop \<or> sys_pc (start_daemon se a d) = Done"
  by (simp add: start_daemon_def stopped_def Let_def split: prod.split option.split)

lemma main_init_pc: "main_init x se argv w wd = Inr (Some sys) \<Longrightarrow> sys_pc sys = Loop \<or> sys_pc sys = Done"
  using start_daemon_pc
  by (auto simp: main_init_def start_session_def bindR_Inr_iff stopped_def Let_def split: option.splits if_splits)

lemma launched_sound:
  assumes "launched x cfg sys"
  shows "sound_system x cfg sys"
proof -
  from assms obtain se argv a w wd where l: "readargs argv default_args = Some a" "cfg = config_path a"
    "good_launch x a w wd" "main_init x se argv w wd = Inr (Some sys)" by (auto simp: launched_def)
  from main_init_sound [OF l(1,3), of se] l(2,4) show ?thesis by simp
qed

interpretation sound: machine "launched x cfg" "step x cfg xml" "sound_system x cfg" for x cfg xml
  by unfold_locales (auto intro: launched_sound step_sound)

section \<open>An example\<close>

text \<open>\<open>calm_ext\<close> in an environment with a home folder, and a configuration with a feed and a filter.\<close>

definition calm_machine :: "(unit, unit) ext" where
  "calm_machine = calm_ext\<lparr>ext_env := lab_env\<rparr>"

definition calm_config :: "entry list" where
  "calm_config = take 2 lab_config"

definition calm_disk :: "unit world" where
  "calm_disk = lab_disk\<lparr>files := [''/c'' \<mapsto> config_text calm_config]\<rparr>"

definition calm_args :: arguments where
  "calm_args = default_args\<lparr>arg_c_file := Some ''/c'', arg_nofork := True\<rparr>"

definition calm_handle :: "bool \<Rightarrow> auto_handle" where
  "calm_handle m = lab_handle\<lparr>use_transmission := True, match_only := m\<rparr>"

lemma calm_parse:
  "parse_config_file re e (Some (config_text calm_config))
     ((lab_handle\<lparr>use_transmission := True, feeds := [], filters := []\<rparr>)\<lparr>match_only := m\<rparr>) =
   Inr (0, calm_handle m)"
proof -
  have v: "value_ok ''http://x/rss''" "value_ok ''1''" "value_ok ''a=b''" "value_ok ''linux''"
    by (simp_all add: value_ok_def clean_def isspace_def isquote_def char_defs)
  have ok: "calm_config \<noteq> []" "\<forall>x \<in> set calm_config. entry_ok x"
    using lab_config_ok by (auto simp: calm_config_def dest: in_set_takeD)
  show ?thesis
    unfolding parse_config_file_text [OF ok] unfolding calm_config_def lab_config_def calm_handle_def
    by (simp add: am_set_option_def parseFeed_text parseFilter_text v SUCCESS_def FAILURE_def
        strncmp_eq_def numeral_eq_Suc) (simp add: lab_handle_def lab_session_def)
qed

lemma calm_settings: "good_settings calm_machine ''/c'' (calm_handle m)"
proof -
  have "rpc_host (calm_handle m) = rpc_host lab_session" "rpc_port (calm_handle m) = rpc_port lab_session"
    "use_transmission (calm_handle m)"
    "transmission_version (calm_handle m) = transmission_version lab_session"
    by (simp_all add: calm_handle_def lab_handle_def rpc_host_def)
  moreover have "folder_size (f_folder f) = 0" if "f \<in> set (filters (calm_handle m))" for f
    using that by (simp add: calm_handle_def lab_handle_def folder_size_def)
  ultimately have "good_session (calm_handle m)" by (simp add: good_session_def NUL_def)
  moreover have "good_xml (ext_xml calm_machine) (Some f)" if "f \<in> set (feeds (calm_handle m))" for f
    using that lab_nodes_good [of "Some f"]
    by (simp add: calm_machine_def calm_ext_def calm_handle_def lab_handle_def feed_new_def)
  ultimately show ?thesis
    by (simp add: good_settings_def) (simp add: calm_handle_def lab_handle_def)
qed

lemma calm_launch: "good_launch calm_machine calm_args web0 calm_disk"
proof -
  have "good_machine calm_machine web0"
    using calm_state by (simp add: good_machine_def good_state_def good_ext_def calm_machine_def)
  moreover have "reloadable calm_machine ''/c'' (Some (config_text calm_config))"
    using calm_parse calm_settings lab_init
    by (simp add: reloadable_def calm_machine_def)
  moreover have "fopen_r ''/c'' calm_disk = Some (config_text calm_config)" "gLogFP calm_disk = None"
    by (simp_all add: fopen_r_def calm_disk_def lab_disk_def disk1_def)
  moreover have "config_path calm_args = ''/c''" "arg_logfile calm_args = None" "arg_pidfile calm_args = None"
    by (simp_all add: config_path_def calm_args_def default_args_def)
  ultimately show ?thesis by (simp add: good_launch_def MAXPATHLEN_def)
qed

lemma calm_argv: "readargs lab_argv default_args = Some calm_args"
  by (simp add: lab_argv_def calm_args_def)

lemma setupSession_ok:
  "setupSession x (Some s) d = Inr (ok, d') \<Longrightarrow> \<not> list_empty (feeds s) \<Longrightarrow> \<not> list_empty (filters s) \<Longrightarrow> ok"
  by (auto simp: setupSession_def Let_def bindR_Inr_iff split: prod.splits option.splits)

lemma calm_running: "\<exists>sys. launched calm_machine ''/c'' sys \<and> sys_pc sys = Loop"
proof -
  define d :: "unit daemon" where "d = \<lparr>mySession = None, closing = False, isRunning = False,
    seenHUP = False, d_web = web0, d_world = calm_disk\<rparr>"
  have m: "good_machine calm_machine (d_web d)" using calm_launch by (simp add: good_launch_def d_def)
  have ne: "\<not> list_empty (feeds (calm_handle False))" "\<not> list_empty (filters (calm_handle False))"
    by (simp_all add: calm_handle_def lab_handle_def list_empty_def)
  have none: "mySession d = None" by (simp add: d_def)
  obtain ok d' where d': "setupSession calm_machine (Some (calm_handle False)) d = Inr (ok, d')"
    using setupSession_sound [OF m calm_settings [of False]] none by (auto simp: returns_def)
  with setupSession_ok ne have ok: "ok" by blast
  have cfg: "fopen_r ''/c'' calm_disk = Some (config_text calm_config)"
    by (simp add: fopen_r_def calm_disk_def lab_disk_def disk1_def)
  have a: "config_path calm_args = ''/c''" "\<not> arg_match_only calm_args" "arg_nofork calm_args"
    "arg_logfile calm_args = None" "wrap_s 8 (arg_verbose calm_args) = 1"
    by (simp_all add: config_path_def calm_args_def default_args_def wrap_s_def)
  have "start_session calm_machine se calm_args d = Inr (start_daemon se calm_args (setup_signals d'))" for se
    using calm_parse [of whole_pcre lab_env False] lab_init d' ok cfg a(1,2)
    by (simp add: start_session_def calm_machine_def calm_ext_def d_def)
  then have start: "start_session calm_machine se calm_args d = Inr \<lparr>sys_d = setup_signals d', sys_pc = Loop,
      sys_first_run = True, sys_once = arg_once calm_args\<rparr>" for se
    using a(3) by (simp add: start_daemon_def)
  have "calm_disk\<lparr>gMsglevel := 1\<rparr> = calm_disk" by (simp add: calm_disk_def lab_disk_def disk1_def)
  then have "snd (log_init f None 1 b calm_disk) = calm_disk" for f b by (simp add: log_init_def)
  then have "main_init calm_machine se lab_argv web0 calm_disk = Inr (Some \<lparr>sys_d = setup_signals d',
      sys_pc = Loop, sys_first_run = True, sys_once = arg_once calm_args\<rparr>)" for se
    using start [of se] by (simp add: main_init_def calm_argv a MAXPATHLEN_def d_def)
  with calm_argv calm_launch a(1) show ?thesis unfolding launched_def by fastforce
qed

section \<open>Properties\<close>

text \<open>C5: the start never leaves defined behaviour: whatever the system answers to \<open>fork\<close> and \<open>setsid\<close>,
  \<open>main\<close> arrives at its loop or ends, when the machine keeps the contract, the configuration file is
  one the parser gets through, and the log, the pid file and the history go elsewhere.\<close>

theorem start_is_total:
  assumes "readargs argv default_args = Some a" "good_launch x a w wd"
  shows "\<exists>sys. main_init x se argv w wd = Inr (Some sys) \<and> (sys_pc sys = Loop \<or> sys_pc sys = Done) \<and>
    launched x (config_path a) sys"
proof -
  obtain sys where "main_init x se argv w wd = Inr (Some sys)"
    using main_init_sound [OF assms, of se] by (auto simp: returns_def)
  with main_init_pc launchedI [OF assms] show ?thesis by blast
qed

text \<open>A start whose two calls of \<open>fork\<close> succeed.\<close>

definition lab_start :: start_env where
  "lab_start = \<lparr>se_fork1 = Child, se_setsid = None, se_fork2 = Child, se_pid = 7, se_file = ''automatic.c''\<rparr>"

theorem start_is_total_witness:
  "\<exists>sys. main_init calm_machine lab_start lab_argv web0 calm_disk = Inr (Some sys) \<and>
    (sys_pc sys = Loop \<or> sys_pc sys = Done) \<and> launched calm_machine (config_path calm_args) sys"
  by (rule start_is_total [OF calm_argv calm_launch])

text \<open>C6: the running daemon does not fault under its contract: in every state it reaches after such a
  start, by steps of \<open>main\<close> and signals that arrive between two of these steps in any order, the
  next step of \<open>main\<close> and the handler of every signal are defined.  The steps are those of
  \<open>main_step\<close>: the check of one feed, a deferred reload and the shutdown are one step each.  A SIGHUP
  in the middle of the latter two is not covered, and is a fault of the code
  (\<open>nested_reload_frees_twice\<close>).\<close>

theorem daemon_never_faults:
  assumes "reach (launched x cfg) (step x cfg xml) sys" "sys_pc sys \<noteq> Done"
  shows "(\<exists>sys'. main_step x cfg xml sys = Inr sys') \<and> (\<exists>d. signal_handler x cfg sig (sys_d sys) = Inr d)"
proof -
  note s = sound.reach_inv [OF assms(1)]
  then have "sound_daemon x cfg (sys_d sys)" using assms(2) by (simp add: sound_system_def)
  from signal_handler_sound [OF this, of sig] main_step_sound [OF s, of xml] show ?thesis
    by (auto simp: returns_def)
qed

theorem daemon_never_faults_witness:
  "\<exists>sys. launched calm_machine ''/c'' sys \<and> sys_pc sys = Loop \<and>
    (\<exists>sys'. main_step calm_machine ''/c'' None sys = Inr sys') \<and>
    (\<exists>d. signal_handler calm_machine ''/c'' SIGHUP (sys_d sys) = Inr d)"
proof -
  obtain sys where s: "launched calm_machine ''/c'' sys" "sys_pc sys = Loop" using calm_running by blast
  from daemon_never_faults [OF reach.start [where start = "launched calm_machine ''/c''", OF s(1)]] s
  show ?thesis by auto
qed

text \<open>C7: after SIGTERM or SIGINT the program ends: from every reachable state with \<open>closing\<close> set, \<open>main\<close>
  arrives at its end after at most \<open>steps_left\<close> steps, one for each feed still to be checked and at
  most five more, a pending reload included.\<close>

theorem daemon_terminates:
  assumes "reach (launched x cfg) (step x cfg xml) sys" "closing (sys_d sys)" "steps_left sys \<le> n"
  shows "\<exists>sys'. iterate (main_step x cfg xml) n sys = Inr sys' \<and> sys_pc sys' = Done"
  using sound_end.iterate_reaches [of sys x cfg n xml] sound.reach_inv [OF assms(1)] assms(2,3)
  by (auto simp: returns_def)

theorem daemon_terminates_witness:
  "\<exists>sys sys'. launched calm_machine ''/c'' sys \<and>
    iterate (main_step calm_machine ''/c'' None) 1 (sys\<lparr>sys_d := (sys_d sys)\<lparr>closing := True\<rparr>\<rparr>) = Inr sys' \<and>
    sys_pc sys' = Done"
proof -
  obtain sys where s: "launched calm_machine ''/c'' sys" "sys_pc sys = Loop" using calm_running by blast
  let ?sys = "sys\<lparr>sys_d := (sys_d sys)\<lparr>closing := True\<rparr>\<rparr>"
  have "step calm_machine ''/c'' None sys ?sys"
    using s(2) by (intro step.signal [where sig = SIGTERM]) (simp_all add: signal_handler_def)
  with reach.start [where start = "launched calm_machine ''/c''", OF s(1)]
  have "reach (launched calm_machine ''/c'') (step calm_machine ''/c'' None) ?sys" by (rule reach.more)
  then have "\<exists>sys'. iterate (main_step calm_machine ''/c'' None) 1 ?sys = Inr sys' \<and> sys_pc sys' = Done"
    by (rule daemon_terminates) (simp_all add: s(2) steps_left_def)
  with s(1) show ?thesis by blast
qed

end
