(* ===== verification/Am_Interleaving.thy ===== *)
theory Am_Interleaving
  imports Am_Session_Laws Am_Check_Laws
begin

text \<open>
  A finer machine: signals may arrive inside the check of a feed, after the transfer, after the
  parsing and between any two items.  The check works on the session, the connection state and
  the machine in place; what is local to \<open>processFeed\<close> and \<open>processRSSList\<close> is kept in a
  \<open>phase\<close>.  The finer machine refines the step relation of \<open>Am_Session\<close>.
\<close>

section \<open>The phases of a check\<close>

datatype phase =
    Outside                                        \<comment> \<open>not inside \<open>processFeed\<close>\<close>
  | Fetched "HTTPResponse option" "curl option"    \<comment> \<open>behind \<open>getRSSFeed\<close>\<close>
  | Items nat "rss_feed option" "feed_item list" "curl option" "string option"
      \<comment> \<open>\<open>item_count\<close>, the feed, the items left, \<open>curl_session\<close> and \<open>download_folder\<close>\<close>

record 'w fine =
  fine_sys :: "'w system"
  fine_phase :: phase

text \<open>What is left of \<open>processFeed\<close> in each phase.\<close>

definition fetched_rest ::
  "('w, 'doc) ext \<Rightarrow> nat \<Rightarrow> bool \<Rightarrow> HTTPResponse option \<Rightarrow> curl option \<Rightarrow> auto_handle \<Rightarrow>
   ((nat \<times> rss_feed \<times> feed_item list \<times> auto_handle) option) res" where
  "fetched_rest x k firstrun response c session =
     (let feed = feeds session ! k
      in if c = None \<and> response \<noteq> None then Inl Abort
         else case response of
           None \<Rightarrow> Inr None
         | Some r \<Rightarrow>
             (if hr_code r = 200 \<and> hr_data r \<noteq> None then
                bindR (parse_xmldata (ext_xml x) (hr_data r) (hr_size r mod 2 ^ 32)
                         (Some (feed_ttl feed))) (\<lambda>(items, item_count, ttl).
                  let feed = feed\<lparr>feed_ttl := the ttl\<rparr>;
                      session = session\<lparr>feeds := (feeds session)[k := feed]\<rparr>;
                      session = (if firstrun then grow_bucket item_count session else session)
                  in Inr (Some (item_count, feed, items, session)))
              else Inr None))"

definition with_run :: "'w run \<Rightarrow> 'w daemon \<Rightarrow> 'w daemon" where
  "with_run st d = d\<lparr>mySession := Some (r_session st), d_web := r_web st, d_world := r_world st\<rparr>"

definition end_check :: "nat \<Rightarrow> 'w system \<Rightarrow> 'w fine" where
  "end_check k sys = \<lparr>fine_sys = sys\<lparr>sys_pc := Checking (k + 1)\<rparr>, fine_phase = Outside\<rparr>"

definition fine_check ::
  "('w, 'doc) ext \<Rightarrow> nat \<Rightarrow> auto_handle \<Rightarrow> 'w fine \<Rightarrow> 'w fine res" where
  "fine_check x k s f =
     (let sys = fine_sys f; d = sys_d sys
      in case fine_phase f of
           Outside \<Rightarrow>
             bindR (getRSSFeed x (feeds s ! k) (d_web d) (d_world d)) (\<lambda>((response, c), w, wd).
               Inr \<lparr>fine_sys = sys\<lparr>sys_d := d\<lparr>d_web := w, d_world := wd\<rparr>\<rparr>,
                    fine_phase = Fetched response c\<rparr>)
         | Fetched response c \<Rightarrow>
             bindR (fetched_rest x k (sys_first_run sys) response c s) (\<lambda>r.
               Inr (case r of
                      None \<Rightarrow> end_check k sys
                    | Some (cnt, feed, items, s) \<Rightarrow>
                        \<lparr>fine_sys = sys\<lparr>sys_d := d\<lparr>mySession := Some s\<rparr>\<rparr>,
                         fine_phase = Items cnt (Some feed) items c None\<rparr>))
         | Items cnt feed [] c folder \<Rightarrow> Inr (end_check k sys)
         | Items cnt feed (i # is) c folder \<Rightarrow>
             bindR (process_item x feed i
                      \<lparr>r_session = s, r_curl = c, r_folder = folder, r_web = d_web d, r_world = d_world d\<rparr>)
               (\<lambda>st. Inr \<lparr>fine_sys = sys\<lparr>sys_d := with_run st d\<rparr>,
                          fine_phase = Items cnt feed is (r_curl st) (r_folder st)\<rparr>))"

text \<open>The feed the next step of \<open>main\<close> works on.\<close>

definition current_feed :: "'w system \<Rightarrow> (nat \<times> auto_handle) option" where
  "current_feed sys =
     (case (sys_pc sys, mySession (sys_d sys)) of
        (Checking k, Some s) \<Rightarrow> if k < length (feeds s) then Some (k, s) else None
      | _ \<Rightarrow> None)"

definition fine_main ::
  "('w, 'doc) ext \<Rightarrow> string \<Rightarrow> string option \<Rightarrow> 'w fine \<Rightarrow> 'w fine res" where
  "fine_main x AutoConfigFile xml f =
     (case current_feed (fine_sys f) of
        Some (k, s) \<Rightarrow> fine_check x k s f
      | None \<Rightarrow>
          bindR (main_step x AutoConfigFile xml (fine_sys f))
            (\<lambda>sys. Inr (f\<lparr>fine_sys := sys\<rparr>)))"

inductive fine_step :: "('w, 'doc) ext \<Rightarrow> string \<Rightarrow> string option \<Rightarrow> 'w fine \<Rightarrow> 'w fine \<Rightarrow> bool"
  for x cfg xml where
  main: "sys_pc (fine_sys f) \<noteq> Done \<Longrightarrow> fine_main x cfg xml f = Inr f' \<Longrightarrow> fine_step x cfg xml f f'"
| signal: "sys_pc (fine_sys f) \<noteq> Done \<Longrightarrow>
    signal_handler x cfg sig (sys_d (fine_sys f)) = Inr d \<Longrightarrow>
    fine_step x cfg xml f (f\<lparr>fine_sys := (fine_sys f)\<lparr>sys_d := d\<rparr>\<rparr>)"

definition fine_start :: "('w, 'doc) ext \<Rightarrow> bool \<Rightarrow> 'w fine \<Rightarrow> bool" where
  "fine_start x m f \<longleftrightarrow> started x m (fine_sys f) \<and> fine_phase f = Outside"

section \<open>The refinement\<close>

text \<open>What the rest of a check makes of the session, the connection state and the machine.\<close>

fun rest ::
  "('w, 'doc) ext \<Rightarrow> nat \<Rightarrow> bool \<Rightarrow> phase \<Rightarrow> auto_handle \<Rightarrow> web \<Rightarrow> 'w world \<Rightarrow>
   (auto_handle \<times> web \<times> 'w world) res" where
  "rest x k fr Outside s w wd =
     bindR (processFeed x s k fr w wd) (\<lambda>(n, s, w, wd). Inr (s, w, wd))"
| "rest x k fr (Items cnt feed items c folder) s w wd =
     bindR (process_items x feed items
              \<lparr>r_session = s, r_curl = c, r_folder = folder, r_web = w, r_world = wd\<rparr>)
       (\<lambda>st. Inr (r_session st, r_web st, r_world st))"
| "rest x k fr (Fetched response c) s w wd =
     bindR (fetched_rest x k fr response c s) (\<lambda>r.
       case r of
         None \<Rightarrow> Inr (s, w, wd)
       | Some (cnt, feed, items, s) \<Rightarrow>
           bindR (process_items x (Some feed) items
                    \<lparr>r_session = s, r_curl = c, r_folder = None, r_web = w, r_world = wd\<rparr>)
             (\<lambda>st. Inr (r_session st, r_web st, r_world st)))"

lemma rest_Outside:
  "rest x k fr Outside s w wd =
     bindR (getRSSFeed x (feeds s ! k) w wd) (\<lambda>((response, c), w, wd). rest x k fr (Fetched response c) s w wd)"
proof (cases "getRSSFeed x (feeds s ! k) w wd")
  case (Inr r)
  obtain response c w1 wd1 where r: "r = ((response, c), w1, wd1)" by (metis surj_pair)
  show ?thesis
  proof (cases response)
    case None
    with Inr r show ?thesis by (simp add: processFeed_def fetched_rest_def Let_def)
  next
    case (Some a)
    show ?thesis
    proof (cases "c = None \<or> \<not> (hr_code a = 200 \<and> hr_data a \<noteq> None)")
      case True
      with Inr r Some show ?thesis by (auto simp: processFeed_def fetched_rest_def Let_def)
    next
      case False
      then obtain y where "c = Some y" by (cases c) auto
      with Inr r Some False show ?thesis
        by (simp add: processFeed_def fetched_rest_def processRSSList_def Let_def bindR_assoc case_prod_beta)
    qed
  qed
qed (simp add: processFeed_def)

lemma check_feed_rest:
  assumes "mySession (sys_d c) = Some s" "k < length (feeds s)"
  shows "check_feed x k c =
    bindR (rest x k (sys_first_run c) Outside s (d_web (sys_d c)) (d_world (sys_d c))) (\<lambda>(s, w, wd).
      Inr (c\<lparr>sys_d := (sys_d c)\<lparr>mySession := Some s, d_web := w, d_world := wd\<rparr>, sys_pc := Checking (k + 1)\<rparr>))"
  using assms by (cases "processFeed x s k (sys_first_run c) (d_web (sys_d c)) (d_world (sys_d c))")
    (auto simp: check_feed_def Let_def)

text \<open>
  The state of the coarse machine that stands for a state inside a check: the one before the check,
  with the flags of now, from which the check has the outcome that is still to come.
\<close>

definition fine_rel :: "('w, 'doc) ext \<Rightarrow> bool \<Rightarrow> 'w fine \<Rightarrow> 'w system \<Rightarrow> bool" where
  "fine_rel x m f c \<longleftrightarrow> daemon_inv m c \<and>
     (if fine_phase f = Outside then c = fine_sys f
      else \<exists>k s0 s w wd. sys_pc c = Checking k \<and> mySession (sys_d c) = Some s0 \<and> k < length (feeds s0) \<and>
        fine_sys f = c\<lparr>sys_d := (sys_d c)\<lparr>mySession := Some s, d_web := w, d_world := wd\<rparr>\<rparr> \<and>
        same_job s0 s \<and>
        rest x k (sys_first_run c) (fine_phase f) s w wd =
          rest x k (sys_first_run c) Outside s0 (d_web (sys_d c)) (d_world (sys_d c)))"

lemma fine_relE:
  assumes "fine_rel x m f c" "fine_phase f \<noteq> Outside"
  obtains k s0 s w wd where "daemon_inv m c" "sys_pc c = Checking k" "mySession (sys_d c) = Some s0"
    "k < length (feeds s0)"
    "fine_sys f = c\<lparr>sys_d := (sys_d c)\<lparr>mySession := Some s, d_web := w, d_world := wd\<rparr>\<rparr>" "same_job s0 s"
    "rest x k (sys_first_run c) (fine_phase f) s w wd =
          rest x k (sys_first_run c) Outside s0 (d_web (sys_d c)) (d_world (sys_d c))"
  using assms by (auto simp: fine_rel_def)

lemma same_job_trans: "same_job a b \<Longrightarrow> same_job b c \<Longrightarrow> same_job a c"
  by (simp add: same_job_def)

lemma process_item_job: "process_item x feed i st = Inr st' \<Longrightarrow> same_job (r_session st) (r_session st')"
  by (auto simp: same_job_def dest!: process_item_session)

lemma fetched_rest_job:
  assumes "fetched_rest x k fr response c s = Inr (Some (cnt, feed, items, s'))"
  shows "same_job s s'"
proof -
  obtain r where r: "response = Some r" using assms
    by (cases response) (auto simp: fetched_rest_def Let_def split: if_splits)
  with assms obtain p where "parse_xmldata (ext_xml x) (hr_data r) (hr_size r mod 2 ^ 32)
      (Some (feed_ttl (feeds s ! k))) = Inr p"
    by (cases "parse_xmldata (ext_xml x) (hr_data r) (hr_size r mod 2 ^ 32) (Some (feed_ttl (feeds s ! k)))")
      (auto simp: fetched_rest_def Let_def split: if_splits)
  with assms r have "\<exists>n fs. s' = grow_bucket n (s\<lparr>feeds := (feeds s)[k := fs]\<rparr>) \<or> s' = s\<lparr>feeds := (feeds s)[k := fs]\<rparr>"
    by (cases p) (auto simp: fetched_rest_def Let_def split: if_splits)
  then show ?thesis by (auto simp: same_job_def grow_bucket_def)
qed

text \<open>The end of a check is the step of the coarse machine.\<close>

lemma coarse_check:
  assumes "daemon_inv m c" "sys_pc c = Checking k" "mySession (sys_d c) = Some s0" "k < length (feeds s0)"
    and "rest x k (sys_first_run c) Outside s0 (d_web (sys_d c)) (d_world (sys_d c)) = Inr (s, w, wd)"
    and "c' = c\<lparr>sys_d := (sys_d c)\<lparr>mySession := Some s, d_web := w, d_world := wd\<rparr>, sys_pc := Checking (k + 1)\<rparr>"
  shows "step x cfg xml c c' \<and> daemon_inv m c'"
proof -
  have "main_step x cfg xml c = Inr c'"
    using check_feed_rest [OF assms(3,4), of x] assms(2,5,6) by (simp add: main_step_def Let_def)
  then have "step x cfg xml c c'" using assms(2) by (intro step.main) simp_all
  with step_inv assms(1) show ?thesis by blast
qed

lemma current_feed_SomeD:
  "current_feed sys = Some (k, s) \<Longrightarrow>
   sys_pc sys = Checking k \<and> mySession (sys_d sys) = Some s \<and> k < length (feeds s)"
  by (auto simp: current_feed_def split: pc.splits option.splits if_splits)

lemma same_session: "mySession d = Some s \<Longrightarrow> d\<lparr>mySession := Some s\<rparr> = d"
  by simp

lemma end_check_sim:
  assumes "fine_rel x m f c" "sys_pc c = Checking k" "mySession (sys_d c) = Some s0" "k < length (feeds s0)"
    and sys: "fine_sys f = c\<lparr>sys_d := (sys_d c)\<lparr>mySession := Some s, d_web := w, d_world := wd\<rparr>\<rparr>"
    and "rest x k (sys_first_run c) Outside s0 (d_web (sys_d c)) (d_world (sys_d c)) = Inr (s, w, wd)"
  shows "\<exists>c'. step x cfg xml c c' \<and> fine_rel x m (end_check k (fine_sys f)) c'"
proof -
  let ?c = "c\<lparr>sys_d := (sys_d c)\<lparr>mySession := Some s, d_web := w, d_world := wd\<rparr>, sys_pc := Checking (k + 1)\<rparr>"
  have "daemon_inv m c" using assms(1) by (simp add: fine_rel_def)
  then have "step x cfg xml c ?c \<and> daemon_inv m ?c" using assms(2-4,6) by (rule coarse_check) simp
  moreover have "fine_sys (end_check k (fine_sys f)) = ?c" by (simp add: end_check_def sys)
  ultimately show ?thesis by (intro exI [of _ ?c]) (simp add: fine_rel_def end_check_def)
qed

lemma fine_rel_inside:
  assumes "daemon_inv m c" "sys_pc c = Checking k" "mySession (sys_d c) = Some s0" "k < length (feeds s0)"
    and "fine_sys f = c\<lparr>sys_d := (sys_d c)\<lparr>mySession := Some s, d_web := w, d_world := wd\<rparr>\<rparr>"
    and "fine_phase f \<noteq> Outside" "same_job s0 s"
    and "rest x k (sys_first_run c) (fine_phase f) s w wd =
      rest x k (sys_first_run c) Outside s0 (d_web (sys_d c)) (d_world (sys_d c))"
  shows "fine_rel x m f c"
  using assms unfolding fine_rel_def by auto

lemma fine_check_sim:
  assumes rel: "fine_rel x m f c" and in_check: "fine_phase f \<noteq> Outside"
    and cur: "current_feed (fine_sys f) = Some (k, s)" and f': "fine_check x k s f = Inr f'"
  shows "fine_rel x m f' c \<or> (\<exists>c'. step x cfg xml c c' \<and> fine_rel x m f' c')"
proof -
  obtain k1 s0 s1 w wd where c: "daemon_inv m c" "sys_pc c = Checking k1" "mySession (sys_d c) = Some s0"
    "k1 < length (feeds s0)"
    and sys: "fine_sys f = c\<lparr>sys_d := (sys_d c)\<lparr>mySession := Some s1, d_web := w, d_world := wd\<rparr>\<rparr>"
    and job: "same_job s0 s1"
    and r: "rest x k1 (sys_first_run c) (fine_phase f) s1 w wd =
      rest x k1 (sys_first_run c) Outside s0 (d_web (sys_d c)) (d_world (sys_d c))"
    using rel in_check by (rule fine_relE)
  from current_feed_SomeD [OF cur] have ks: "k1 = k" "s1 = s" by (simp_all add: sys c(2))
  note c = c [unfolded ks] and sys = sys [unfolded ks] and job = job [unfolded ks] and r = r [unfolded ks]
  note finish = end_check_sim [OF rel c(2-4) sys]
  show ?thesis
  proof (cases "fine_phase f")
    case Outside
    with in_check show ?thesis by simp
  next
    case (Fetched response cc)
    have fr: "sys_first_run (fine_sys f) = sys_first_run c" by (simp add: sys)
    from Fetched f' obtain q where q: "fetched_rest x k (sys_first_run c) response cc s = Inr q"
      "f' = (case q of
               None \<Rightarrow> end_check k (fine_sys f)
             | Some (cnt, feed, items, s') \<Rightarrow>
                 \<lparr>fine_sys = (fine_sys f)\<lparr>sys_d := (sys_d (fine_sys f))\<lparr>mySession := Some s'\<rparr>\<rparr>,
                  fine_phase = Items cnt (Some feed) items cc None\<rparr>)"
      by (auto simp: fine_check_def Let_def bindR_Inr_iff fr)
    show ?thesis
    proof (cases q)
      case None
      with q Fetched r finish show ?thesis by auto
    next
      case (Some p)
      obtain cnt feed items s' where p: "p = (cnt, feed, items, s')" by (metis surj_pair)
      have j: "same_job s0 s'"
        using same_job_trans [OF job] fetched_rest_job [of x k _ response cc s cnt feed items s'] q(1) Some p
        by blast
      have "fine_rel x m f' c"
        by (rule fine_rel_inside [OF c, where s = "s'" and w = w and wd = wd])
          (use q Some p Fetched r j in \<open>simp_all add: sys\<close>)
      then show ?thesis by simp
    qed
  next
    case (Items cnt feed items cc folder)
    show ?thesis
    proof (cases items)
      case Nil
      with f' Items have "f' = end_check k (fine_sys f)" by (simp add: fine_check_def Let_def)
      with Items Nil r finish show ?thesis by auto
    next
      case (Cons i more)
      let ?run = "\<lparr>r_session = s, r_curl = cc, r_folder = folder, r_web = w, r_world = wd\<rparr>"
      have at: "d_web (sys_d (fine_sys f)) = w" "d_world (sys_d (fine_sys f)) = wd" by (simp_all add: sys)
      from f' Items Cons obtain st where st: "process_item x feed i ?run = Inr st"
        "f' = \<lparr>fine_sys = (fine_sys f)\<lparr>sys_d := with_run st (sys_d (fine_sys f))\<rparr>,
               fine_phase = Items cnt feed more (r_curl st) (r_folder st)\<rparr>"
        by (auto simp: fine_check_def Let_def bindR_Inr_iff at)
      have j: "same_job s0 (r_session st)"
        using same_job_trans [OF job] process_item_job [OF st(1)] by simp
      have full: "\<lparr>r_session = r_session st, r_curl = r_curl st, r_folder = r_folder st, r_web = r_web st,
          r_world = r_world st\<rparr> = st" by simp
      have "fine_rel x m f' c"
        by (rule fine_rel_inside [OF c, where s = "r_session st" and w = "r_web st" and wd = "r_world st"])
          (use st Items Cons r j in \<open>simp_all add: sys with_run_def full\<close>)
      then show ?thesis by simp
    qed
  qed
qed

lemma current_feed_check:
  "current_feed sys = Some (k, s) \<Longrightarrow> sys_pc sys \<noteq> Done"
  by (auto simp: current_feed_def split: pc.splits)

text \<open>A check begins: the state stands for itself.\<close>

lemma fine_begin_sim:
  assumes rel: "fine_rel x m f c" and out: "fine_phase f = Outside"
    and cur: "current_feed (fine_sys f) = Some (k, s)" and f': "fine_check x k s f = Inr f'"
  shows "fine_rel x m f' c"
proof -
  from rel out have c: "c = fine_sys f" "daemon_inv m c" by (auto simp: fine_rel_def)
  from current_feed_SomeD [OF cur] have k: "sys_pc c = Checking k" "mySession (sys_d c) = Some s"
    "k < length (feeds s)" by (simp_all add: c(1))
  from f' out obtain response cc w wd where
    g: "getRSSFeed x (feeds s ! k) (d_web (sys_d c)) (d_world (sys_d c)) = Inr ((response, cc), w, wd)"
    and f1: "f' = \<lparr>fine_sys = c\<lparr>sys_d := (sys_d c)\<lparr>d_web := w, d_world := wd\<rparr>\<rparr>, fine_phase = Fetched response cc\<rparr>"
    by (auto simp: fine_check_def Let_def bindR_Inr_iff c(1))
  have "(sys_d c)\<lparr>mySession := Some s, d_web := w, d_world := wd\<rparr> = (sys_d c)\<lparr>d_web := w, d_world := wd\<rparr>"
    using k(2) by (cases "sys_d c") simp
  then show ?thesis
    using f1 rest_Outside [of x k "sys_first_run c" s "d_web (sys_d c)" "d_world (sys_d c)"] g
    by (intro fine_rel_inside [OF c(2) k, where s = s and w = w and wd = wd]) (simp_all add: same_job_def)
qed

lemma fine_main_sim:
  assumes rel: "fine_rel x m f c" and f': "fine_main x cfg xml f = Inr f'" and pc: "sys_pc (fine_sys f) \<noteq> Done"
  shows "fine_rel x m f' c \<or> (\<exists>c'. step x cfg xml c c' \<and> fine_rel x m f' c')"
proof (cases "current_feed (fine_sys f)")
  case (Some p)
  obtain k s where p: "p = (k, s)" by (cases p)
  with Some f' have "fine_check x k s f = Inr f'" by (simp add: fine_main_def)
  with Some p rel fine_begin_sim fine_check_sim show ?thesis by (cases "fine_phase f = Outside") blast+
next
  case None
  have out: "fine_phase f = Outside"
  proof (rule ccontr)
    assume "fine_phase f \<noteq> Outside"
    with rel obtain k s0 s w wd where "sys_pc c = Checking k" "k < length (feeds s0)"
      "fine_sys f = c\<lparr>sys_d := (sys_d c)\<lparr>mySession := Some s, d_web := w, d_world := wd\<rparr>\<rparr>" "same_job s0 s"
      by (auto elim: fine_relE)
    with None show False by (simp add: current_feed_def same_job_def)
  qed
  with rel have c: "c = fine_sys f" "daemon_inv m c" by (auto simp: fine_rel_def)
  from None f' obtain c' where c': "main_step x cfg xml c = Inr c'" "f' = f\<lparr>fine_sys := c'\<rparr>"
    by (auto simp: fine_main_def bindR_Inr_iff c(1))
  with pc c have "step x cfg xml c c'" by (intro step.main) simp_all
  moreover have "daemon_inv m c'" using main_step_inv [OF c'(1) c(2)] pc c(1) by simp
  ultimately show ?thesis using out c'(2) by (auto simp: fine_rel_def)
qed

lemma fine_signal_sim:
  assumes rel: "fine_rel x m f c" and d: "signal_handler x cfg sig (sys_d (fine_sys f)) = Inr d"
    and pc: "sys_pc (fine_sys f) \<noteq> Done"
  shows "\<exists>c'. step x cfg xml c c' \<and> fine_rel x m (f\<lparr>fine_sys := (fine_sys f)\<lparr>sys_d := d\<rparr>\<rparr>) c'"
proof (cases "fine_phase f = Outside")
  case True
  with rel have c: "c = fine_sys f" "daemon_inv m c" by (auto simp: fine_rel_def)
  let ?c = "c\<lparr>sys_d := d\<rparr>"
  from d pc c(1) have s: "step x cfg xml c ?c" by (intro step.signal) simp_all
  with c(2) have "daemon_inv m ?c" by (metis step_inv)
  with True s c(1) show ?thesis by (intro exI [of _ ?c]) (simp add: fine_rel_def)
next
  case False
  with rel obtain k s0 s w wd where c: "daemon_inv m c" "sys_pc c = Checking k" "mySession (sys_d c) = Some s0"
    "k < length (feeds s0)"
    and sys: "fine_sys f = c\<lparr>sys_d := (sys_d c)\<lparr>mySession := Some s, d_web := w, d_world := wd\<rparr>\<rparr>"
    and job: "same_job s0 s"
    and r: "rest x k (sys_first_run c) (fine_phase f) s w wd =
      rest x k (sys_first_run c) Outside s0 (d_web (sys_d c)) (d_world (sys_d c))"
    by (rule fine_relE)
  let ?flags = "\<lambda>e. e\<lparr>closing := (closing e \<or> sig \<noteq> SIGHUP), seenHUP := (seenHUP e \<or> sig = SIGHUP)\<rparr>"
  let ?c = "c\<lparr>sys_d := ?flags (sys_d c)\<rparr>"
  have run: "isRunning (sys_d c)" using c(1,2) by (auto simp: daemon_inv_def)
  from signal_during_check [OF run] c(2) have s: "step x cfg xml c ?c" by (intro step.signal) simp_all
  with c(1) have inv: "daemon_inv m ?c" by (metis step_inv)
  have "isRunning (sys_d (fine_sys f))" using run by (simp add: sys)
  from signal_during_check [OF this, of x cfg sig] d have "d = ?flags (sys_d (fine_sys f))" by simp
  then have "fine_rel x m (f\<lparr>fine_sys := (fine_sys f)\<lparr>sys_d := d\<rparr>\<rparr>) ?c"
    by (intro fine_rel_inside [OF inv, where k = k and ?s0.0 = s0 and s = s and w = w and wd = wd])
      (use c False job r in \<open>simp_all add: sys\<close>)
  with s show ?thesis by blast
qed

interpretation fine: simulation "fine_start x m" "fine_step x cfg xml" "started x m" "step x cfg xml"
    "fine_rel x m" for x m cfg xml
proof unfold_locales
  fix f assume "fine_start x m f"
  then show "\<exists>c. started x m c \<and> fine_rel x m f c"
    using started_inv by (auto simp: fine_start_def fine_rel_def)
next
  fix f f' c
  assume "fine_step x cfg xml f f'" "fine_rel x m f c"
  then show "fine_rel x m f' c \<or> (\<exists>c'. step x cfg xml c c' \<and> fine_rel x m f' c')"
    using fine_main_sim fine_signal_sim by (cases rule: fine_step.cases) blast+
qed

lemma fine_inside:
  assumes "reach (fine_start x m) (fine_step x cfg xml) f" "fine_phase f \<noteq> Outside"
  obtains k s where "current_feed (fine_sys f) = Some (k, s)" "filters s \<noteq> []" "match_only s = m"
    "isRunning (sys_d (fine_sys f))"
proof -
  obtain c where "fine_rel x m f c" using fine.simulated [OF assms(1)] by blast
  then obtain k s0 s w wd where "daemon_inv m c" "sys_pc c = Checking k" "mySession (sys_d c) = Some s0"
    "k < length (feeds s0)"
    "fine_sys f = c\<lparr>sys_d := (sys_d c)\<lparr>mySession := Some s, d_web := w, d_world := wd\<rparr>\<rparr>" "same_job s0 s"
    using assms(2) by (auto elim: fine_relE)
  then show thesis
    by (intro that [of k s]) (simp_all add: daemon_inv_def current_feed_def same_job_def usable_def)
qed

section \<open>Properties\<close>

definition lab_fine :: "unit fine" where
  "lab_fine = \<lparr>fine_sys = lab_system, fine_phase = Outside\<rparr>"

lemma lab_fine_reach: "reach (fine_start lab_ext2 False) (fine_step lab_ext2 ''/c'' None) lab_fine"
  by (rule reach.start) (simp add: fine_start_def lab_fine_def lab_started)

text \<open>The check of the one feed of the example, whose text is not XML.\<close>

lemma lab_fine_run:
  "\<exists>f f'. reach (fine_start lab_ext2 False) (fine_step lab_ext2 ''/c'' None) f \<and> fine_phase f \<noteq> Outside \<and>
    reach (fine_start lab_ext2 False) (fine_step lab_ext2 ''/c'' None) f' \<and> fine_phase f' = Outside \<and>
    sys_pc (fine_sys f') = Checking 1"
proof -
  let ?reach = "reach (fine_start lab_ext2 False) (fine_step lab_ext2 ''/c'' None)"
  let ?s = "lab_handle"
  let ?d = "lab_daemon\<lparr>isRunning := True\<rparr>"
  let ?sys = "lab_system\<lparr>sys_d := ?d, sys_pc := Checking 0\<rparr>"
  have more: "?reach f \<Longrightarrow> sys_pc (fine_sys f) \<noteq> Done \<Longrightarrow> fine_main lab_ext2 ''/c'' None f = Inr f' \<Longrightarrow> ?reach f'"
    for f f' by (erule reach.more) (rule fine_step.main)
  have x: "ext_pcre lab_ext2 = lab_pcre" "ext_curl lab_ext2 = lab_curl" "ext_xml lab_ext2 = lab_xml"
    by (simp_all add: lab_ext2_def)
  obtain feed where s: "feeds ?s = [feed]" "feed_url feed = Some ''http://x/rss''"
    by (simp add: lab_handle_def)
  have d: "mySession lab_daemon = Some ?s" "\<not> closing lab_daemon" "d_web lab_daemon = web0"
    "d_world lab_daemon = lab_disk" "net lab_disk = ()" by (simp_all add: lab_daemon_def)
  have y: "sys_d lab_system = lab_daemon" "sys_pc lab_system = Loop" "sys_first_run lab_system"
    by (simp_all add: lab_system_def)
  note run = fine_main_def current_feed_def fine_check_def Let_def s(1) d y
  obtain r c w where "getHTTPData lab_pcre lab_curl (feed_url feed) (feed_cookies feed) None web0 () =
      Inr (Some r, Some c, w, ())" "hr_data r = Some ''d4:infoe''" "hr_code r = 200"
    using lab_get s(2) by metis
  note r = this(2,3)
  have get: "getRSSFeed lab_ext2 feed web0 lab_disk = Inr ((Some r, Some c), w, lab_disk)"
    using \<open>getHTTPData lab_pcre lab_curl _ _ None web0 () = _\<close> by (simp add: getRSSFeed_def on_net_def x)
  let ?f1 = "\<lparr>fine_sys = ?sys, fine_phase = Outside\<rparr>"
  let ?f2 = "\<lparr>fine_sys = ?sys\<lparr>sys_d := ?d\<lparr>d_web := w, d_world := lab_disk\<rparr>\<rparr>,
    fine_phase = Fetched (Some r) (Some c)\<rparr>"
  have "fine_main lab_ext2 ''/c'' None lab_fine = Inr ?f1"
    by (simp add: run lab_fine_def main_step_def enter_check_def has_file_def)
  then have 1: "?reach ?f1" by (rule more [OF lab_fine_reach, rotated]) (simp add: lab_fine_def y)
  have "fine_main lab_ext2 ''/c'' None ?f1 = Inr ?f2" by (simp add: run get)
  then have 2: "?reach ?f2" by (rule more [OF 1, rotated]) simp
  have "parse_xmldata lab_xml (Some t) n ttl = Inr ([], 0, ttl)" for t n ttl
    by (simp add: parse_xmldata_def lab_xml_def)
  then have "fetched_rest lab_ext2 0 True (Some r) (Some c) ?s =
      Inr (Some (0, feed, [], grow_bucket 0 ?s))"
    using r by (simp add: fetched_rest_def Let_def x s(1)) (simp add: grow_bucket_def s(1))
  moreover define s' where "s' = grow_bucket 0 ?s"
  ultimately have "fine_main lab_ext2 ''/c'' None ?f2 = Inr \<lparr>fine_sys = ?sys\<lparr>sys_d :=
      ?d\<lparr>d_web := w, d_world := lab_disk, mySession := Some s'\<rparr>\<rparr>,
      fine_phase = Items 0 (Some feed) [] (Some c) None\<rparr>" (is "_ = Inr ?f3")
    by (simp add: run)
  then have 3: "?reach ?f3" by (rule more [OF 2, rotated]) simp
  have s': "feeds s' = [feed]" by (simp add: s'_def grow_bucket_def s(1))
  have "fine_main lab_ext2 ''/c'' None ?f3 = Inr (end_check 0 (fine_sys ?f3))" by (simp add: run s')
  then have "?reach (end_check 0 (fine_sys ?f3))" by (rule more [OF 3, rotated]) simp
  with 2 show ?thesis by (intro exI [of _ ?f2] exI [of _ "end_check 0 (fine_sys ?f3)"]) (simp add: end_check_def)
qed

text \<open>C8: signals inside a check make no difference: whatever the daemon reaches between two checks when
  they may arrive after the transfer, after the parsing and between any two items, it also reaches
  when a check is one step.\<close>

theorem fine_refines_coarse:
  assumes "reach (fine_start x m) (fine_step x cfg xml) f" "fine_phase f = Outside"
  shows "reach (started x m) (step x cfg xml) (fine_sys f)"
  using fine.simulated [OF assms(1)] assms(2) by (auto simp: fine_rel_def)

theorem fine_refines_coarse_witness:
  "\<exists>f. reach (fine_start lab_ext2 False) (fine_step lab_ext2 ''/c'' None) f \<and>
    sys_pc (fine_sys f) = Checking 1 \<and>
    reach (started lab_ext2 False) (step lab_ext2 ''/c'' None) (fine_sys f)"
proof -
  obtain f where f: "reach (fine_start lab_ext2 False) (fine_step lab_ext2 ''/c'' None) f"
    "fine_phase f = Outside" "sys_pc (fine_sys f) = Checking 1" using lab_fine_run by blast
  from fine_refines_coarse [OF f(1,2)] f show ?thesis by blast
qed

text \<open>C9: also in the middle of a check the daemon has a session with feeds and filters, in the mode of
  the command line, and works on a feed that exists, with \<open>isRunning\<close> set.\<close>

theorem fine_invariant:
  assumes "reach (fine_start x m) (fine_step x cfg xml) f" "fine_phase f \<noteq> Outside"
  shows "\<exists>k s. current_feed (fine_sys f) = Some (k, s) \<and> filters s \<noteq> [] \<and> match_only s = m \<and>
    isRunning (sys_d (fine_sys f))"
  using assms by (rule fine_inside) blast

theorem fine_invariant_witness:
  "\<exists>(f :: unit fine) k s. fine_phase f \<noteq> Outside \<and> current_feed (fine_sys f) = Some (k, s) \<and> filters s \<noteq> [] \<and>
    match_only s = False \<and> isRunning (sys_d (fine_sys f))"
proof -
  obtain f where f: "reach (fine_start lab_ext2 False) (fine_step lab_ext2 ''/c'' None) f"
    "fine_phase f \<noteq> Outside" using lab_fine_run by blast
  from fine_invariant [OF f] f(2) show ?thesis by blast
qed

end
