(* ===== verification/Am_History_Laws.thy ===== *)
theory Am_History_Laws
  imports Am_Interleaving Am_Daemon_Total
begin

text \<open>
  How long the daemon remembers an item: over any number of checks, with signals between any two
  items, until the configuration is reloaded.  The history keeps its newest entries up to the
  bound \<open>max_bucket_items\<close>, so an item is forgotten only when that many others have entered it.
\<close>

section \<open>Entries and their places\<close>

text \<open>An entry among the first \<open>p\<close> is among the first \<open>p + 1\<close> after one more has been made.\<close>

lemma remember_place:
  assumes "e \<in> set (take p b)" "p < m"
  shows "e \<in> set (take (Suc p) (remember k b m))"
proof -
  define b1 where "b1 = (case am_strdup k of None \<Rightarrow> b | Some g \<Rightarrow> g # b)"
  have "set (take p b) \<subseteq> set (take (Suc p) b)" by (rule set_take_subset_set_take) simp
  with assms(1) have e: "e \<in> set (take (Suc p) b1)" by (auto simp: b1_def split: option.split)
  have r: "remember k b m = (if 0 < m \<and> m < length b1 then butlast b1 else b1)"
    by (simp add: remember_def b1_def)
  show ?thesis
  proof (cases "m < length b1")
    case True
    with assms(2) have "take (Suc p) (butlast b1) = take (Suc p) b1" by (intro take_butlast) simp
    with e True assms(2) show ?thesis by (simp add: r)
  qed (use e r in simp)
qed

lemma seen_mono: "seen b i \<Longrightarrow> set b \<subseteq> set c \<Longrightarrow> seen c i"
  by (auto simp: seen_def hasGUID_def split: option.splits)

lemma seen_entry: "seen b i \<longleftrightarrow> (\<exists>e \<in> set b. e \<noteq> [] \<and> (item_guid i = Some e \<or> item_url i = Some e))"
  by (auto simp: seen_def hasGUID_def split: option.splits)

lemma seen_take: "seen (take p b) i \<Longrightarrow> seen b i"
  by (erule seen_mono) (rule set_take_subset)

lemma remembered_place:
  "seen (take p (downloads s)) i \<Longrightarrow> p < max_bucket_items s \<Longrightarrow>
   seen (take (Suc p) (downloads (remembered j s))) i"
  by (auto simp: seen_entry remembered_def dest: remember_place)

section \<open>Executions without a reload\<close>

definition history :: "'w fine \<Rightarrow> string list" where
  "history f = (case mySession (sys_d (fine_sys f)) of None \<Rightarrow> [] | Some s \<Rightarrow> downloads s)"

definition history_bound :: "'w fine \<Rightarrow> nat" where
  "history_bound f = (case mySession (sys_d (fine_sys f)) of None \<Rightarrow> 0 | Some s \<Rightarrow> max_bucket_items s)"

text \<open>
  \<open>between_reloads x cfg xml f n g\<close>: the daemon gets from \<open>f\<close> to \<open>g\<close> without a reload, and \<open>n\<close> of
  the steps change the history.  A SIGHUP may arrive during a check (it is noted and deferred);
  the bound of the history, which the first check of each feed raises, does not wrap around.
\<close>

inductive between_reloads ::
  "('w, 'doc) ext \<Rightarrow> string \<Rightarrow> string option \<Rightarrow> 'w fine \<Rightarrow> nat \<Rightarrow> 'w fine \<Rightarrow> bool"
  for x cfg xml f where
  here: "between_reloads x cfg xml f 0 f"
| main: "between_reloads x cfg xml f n g \<Longrightarrow> sys_pc (fine_sys g) \<noteq> Done \<Longrightarrow>
    \<not> (sys_pc (fine_sys g) = Deferred \<and> seenHUP (sys_d (fine_sys g))) \<Longrightarrow>
    fine_main x cfg xml g = Inr g' \<Longrightarrow> history_bound g \<le> history_bound g' \<Longrightarrow>
    between_reloads x cfg xml f (if history g' = history g then n else Suc n) g'"
| signal: "between_reloads x cfg xml f n g \<Longrightarrow> sys_pc (fine_sys g) \<noteq> Done \<Longrightarrow>
    sig = SIGHUP \<longrightarrow> isRunning (sys_d (fine_sys g)) \<Longrightarrow>
    signal_handler x cfg sig (sys_d (fine_sys g)) = Inr d \<Longrightarrow>
    between_reloads x cfg xml f n (g\<lparr>fine_sys := (fine_sys g)\<lparr>sys_d := d\<rparr>\<rparr>)"

lemma between_reach:
  "between_reloads x cfg xml f n g \<Longrightarrow> reach start (fine_step x cfg xml) f \<Longrightarrow> reach start (fine_step x cfg xml) g"
  by (induction rule: between_reloads.induct) (blast intro: reach.more fine_step.intros)+

text \<open>What one step does to the session: nothing the history depends on, or one entry.\<close>

definition same_history :: "auto_handle \<Rightarrow> auto_handle \<Rightarrow> bool" where
  "same_history s s' \<longleftrightarrow> downloads s' = downloads s \<or> (\<exists>i. s' = remembered i s)"

lemma fetched_rest_history:
  assumes "fetched_rest x k fr response c s = Inr (Some (cnt, feed, items, s'))"
  shows "downloads s' = downloads s"
proof -
  obtain r where r: "response = Some r" using assms
    by (cases response) (auto simp: fetched_rest_def Let_def split: if_splits)
  with assms obtain p where "parse_xmldata (ext_xml x) (hr_data r) (hr_size r mod 2 ^ 32)
      (Some (feed_ttl (feeds s ! k))) = Inr p"
    by (cases "parse_xmldata (ext_xml x) (hr_data r) (hr_size r mod 2 ^ 32) (Some (feed_ttl (feeds s ! k)))")
      (auto simp: fetched_rest_def Let_def split: if_splits)
  with assms r show ?thesis
    by (cases p) (auto simp: fetched_rest_def Let_def grow_bucket_def split: if_splits)
qed

lemma fine_check_history:
  assumes "fine_check x k s f = Inr f'" "mySession (sys_d (fine_sys f)) = Some s"
  shows "\<exists>s'. mySession (sys_d (fine_sys f')) = Some s' \<and> same_history s s'"
proof (cases "fine_phase f")
  case Outside
  with assms show ?thesis by (auto simp: fine_check_def Let_def bindR_Inr_iff same_history_def)
next
  case (Fetched response c)
  with assms(1) obtain r where r: "fetched_rest x k (sys_first_run (fine_sys f)) response c s = Inr r"
    "f' = (case r of None \<Rightarrow> end_check k (fine_sys f)
       | Some (cnt, feed, items, s) \<Rightarrow>
           \<lparr>fine_sys = fine_sys f\<lparr>sys_d := sys_d (fine_sys f)\<lparr>mySession := Some s\<rparr>\<rparr>,
            fine_phase = Items cnt (Some feed) items c None\<rparr>)"
    by (auto simp: fine_check_def Let_def bindR_Inr_iff)
  show ?thesis
  proof (cases r)
    case None
    with r(2) assms(2) show ?thesis by (simp add: end_check_def same_history_def)
  next
    case (Some q)
    obtain cnt feed items s' where "q = (cnt, feed, items, s')" by (cases q)
    with Some r fetched_rest_history [of x k _ response c s cnt feed items s'] show ?thesis
      by (simp add: same_history_def)
  qed
next
  case (Items cnt feed items c folder)
  show ?thesis
  proof (cases items)
    case Nil
    with assms Items show ?thesis by (auto simp: fine_check_def Let_def end_check_def same_history_def)
  next
    case (Cons i js)
    with assms Items obtain st where "process_item x feed i \<lparr>r_session = s, r_curl = c, r_folder = folder,
        r_web = d_web (sys_d (fine_sys f)), r_world = d_world (sys_d (fine_sys f))\<rparr> = Inr st"
      "mySession (sys_d (fine_sys f')) = Some (r_session st)"
      by (auto simp: fine_check_def Let_def bindR_Inr_iff with_run_def)
    with process_item_session [OF this(1)] show ?thesis by (auto simp: same_history_def)
  qed
qed

lemma main_step_session:
  assumes "main_step x cfg xml sys = Inr sys'" "\<not> has_file xml" "current_feed sys = None"
    and "\<not> (sys_pc sys = Deferred \<and> seenHUP (sys_d sys))" "mySession (sys_d sys) = Some s"
  shows "mySession (sys_d sys') = Some s"
  using assms
  by (auto simp: main_step_def Let_def enter_check_def check_feed_def current_feed_def shutdown_daemon_def
      split: pc.splits if_splits)

lemma fine_main_history:
  assumes "fine_main x cfg xml f = Inr f'" "\<not> has_file xml" "mySession (sys_d (fine_sys f)) = Some s"
    and "\<not> (sys_pc (fine_sys f) = Deferred \<and> seenHUP (sys_d (fine_sys f)))"
  shows "\<exists>s'. mySession (sys_d (fine_sys f')) = Some s' \<and> same_history s s'"
proof (cases "current_feed (fine_sys f)")
  case None
  with assms show ?thesis
    by (auto simp: fine_main_def bindR_Inr_iff same_history_def dest: main_step_session)
next
  case (Some p)
  obtain k s1 where p: "p = (k, s1)" by force
  with Some current_feed_SomeD assms(3) have "s1 = s" by fastforce
  with Some p assms(1,3) show ?thesis by (auto simp: fine_main_def intro: fine_check_history)
qed

lemma signal_session:
  assumes "signal_handler x cfg sig d = Inr d'" "sig = SIGHUP \<longrightarrow> isRunning d"
  shows "mySession d' = mySession d"
  using assms by (cases sig) (auto simp: signal_handler_def)

text \<open>The place of an entry moves by one for each change of the history.\<close>

lemma history_kept:
  assumes "between_reloads x cfg xml f n g" "\<not> has_file xml"
    and "mySession (sys_d (fine_sys f)) = Some s" "seen (take p (downloads s)) i" "p + n \<le> max_bucket_items s"
  shows "\<exists>s'. mySession (sys_d (fine_sys g)) = Some s' \<and> seen (take (p + n) (downloads s')) i \<and>
    max_bucket_items s \<le> max_bucket_items s'"
  using assms(1,5)
proof (induction rule: between_reloads.induct)
  case here
  with assms(3,4) show ?case by simp
next
  case (main n g g')
  let ?n = "if history g' = history g then n else Suc n"
  have "p + n \<le> max_bucket_items s" using main.prems by (simp split: if_splits)
  with main.IH obtain s1 where s1: "mySession (sys_d (fine_sys g)) = Some s1"
    "seen (take (p + n) (downloads s1)) i" "max_bucket_items s \<le> max_bucket_items s1" by blast
  from fine_main_history [OF main.hyps(4) assms(2) s1(1) main.hyps(3)] obtain s2 where
    s2: "mySession (sys_d (fine_sys g')) = Some s2" "same_history s1 s2" by blast
  have h: "history g = downloads s1" "history g' = downloads s2" using s1(1) s2(1) by (simp_all add: history_def)
  have "max_bucket_items s1 \<le> max_bucket_items s2"
    using main.hyps(5) s1(1) s2(1) by (simp add: history_bound_def)
  moreover have "seen (take (p + ?n) (downloads s2)) i"
  proof (cases "downloads s2 = downloads s1")
    case True
    with s1(2) h show ?thesis by simp
  next
    case False
    with s2(2) obtain j where "s2 = remembered j s1" by (auto simp: same_history_def)
    moreover have "p + n < max_bucket_items s1" using main.prems False h s1(3) by simp
    ultimately show ?thesis using remembered_place [OF s1(2)] False h by simp
  qed
  ultimately show ?case using s2(1) s1(3) by auto
next
  case (signal n g sig d)
  with signal_session [OF signal.hyps(4,3)] show ?case by simp
qed

text \<open>The check skips a known item, and touches nothing.\<close>

lemma known_item_skipped:
  assumes "current_feed (fine_sys g) = Some (k, s)" "fine_phase g = Items cnt feed (j # js) c folder"
    and "seen (downloads s) j"
  shows "\<exists>folder'. fine_main x cfg xml g = Inr (g\<lparr>fine_phase := Items cnt feed js c folder'\<rparr>)"
proof -
  let ?d = "sys_d (fine_sys g)"
  let ?st = "\<lparr>r_session = s, r_curl = c, r_folder = folder, r_web = d_web ?d, r_world = d_world ?d\<rparr>"
  have "idle x feed s j" using assms(3) by (simp add: idle_def)
  then obtain folder' where "process_item x feed j ?st = Inr (?st\<lparr>r_folder := folder'\<rparr>)"
    using process_item_cases [of x feed j ?st] by auto
  moreover have "mySession ?d = Some s" using current_feed_SomeD [OF assms(1)] by simp
  ultimately show ?thesis
    using assms(1,2)
    by (intro exI [of _ folder'])
      (simp add: fine_main_def fine_check_def Let_def with_run_def same_session)
qed

lemma remembered_skipped:
  assumes "reach (fine_start x m) (fine_step x cfg xml) f" "\<not> has_file xml"
    and "mySession (sys_d (fine_sys f)) = Some s" "seen (take p (downloads s)) j"
    and "between_reloads x cfg xml f n g" "p + n \<le> max_bucket_items s"
    and "fine_phase g = Items cnt feed (j # js) c folder"
  shows "\<exists>folder'. fine_main x cfg xml g = Inr (g\<lparr>fine_phase := Items cnt feed js c folder'\<rparr>)"
proof -
  have "reach (fine_start x m) (fine_step x cfg xml) g" using assms(5,1) by (rule between_reach)
  then obtain k s1 where cur: "current_feed (fine_sys g) = Some (k, s1)"
    using assms(7) by (auto elim: fine_inside)
  then have "mySession (sys_d (fine_sys g)) = Some s1" by (auto dest: current_feed_SomeD)
  with history_kept [OF assms(5,2-4,6)] have "seen (downloads s1) j" by (auto dest: seen_take)
  with cur assms(7) show ?thesis by (rule known_item_skipped)
qed

text \<open>A newly remembered item comes first.\<close>

lemma remembered_first:
  assumes "item_key i = Some e" "e \<noteq> []" "NUL \<notin> set e" "item_guid j = Some e \<or> item_url j = Some e"
  shows "seen (take 1 (downloads (remembered i s))) j"
proof -
  obtain r where "remember (Some e) (downloads s) (max_bucket_items s) = e # r"
    using remember_hd [of e "max_bucket_items s" "downloads s"] assms(2,3) by auto
  then have "take 1 (downloads (remembered i s)) = [e]" using assms(1) by (simp add: remembered_def)
  with assms(2,4) show ?thesis by (simp add: seen_entry)
qed

text \<open>The step that changes the history has remembered its item.\<close>

lemma item_step_remembered:
  assumes "reach (fine_start x m) (fine_step x cfg xml) f" "\<not> has_file xml"
    and "fine_phase f = Items cnt feed (i # is') c folder"
    and "fine_main x cfg xml f = Inr f1" "history f1 \<noteq> history f"
  obtains s where "mySession (sys_d (fine_sys f1)) = Some (remembered i s)"
    "reach (fine_start x m) (fine_step x cfg xml) f1"
proof -
  obtain k s where cur: "current_feed (fine_sys f) = Some (k, s)"
    using assms(1,3) by (auto elim: fine_inside)
  note d = current_feed_SomeD [OF cur]
  from assms(4) cur assms(3) obtain st where
    st: "process_item x feed i \<lparr>r_session = s, r_curl = c, r_folder = folder,
        r_web = d_web (sys_d (fine_sys f)), r_world = d_world (sys_d (fine_sys f))\<rparr> = Inr st"
      "mySession (sys_d (fine_sys f1)) = Some (r_session st)"
    by (auto simp: fine_main_def fine_check_def Let_def bindR_Inr_iff with_run_def)
  have "downloads (r_session st) \<noteq> downloads s"
    using assms(5) st(2) d by (simp add: history_def)
  with process_item_session [OF st(1)] have "r_session st = remembered i s" by auto
  moreover have "reach (fine_start x m) (fine_step x cfg xml) f1"
    using assms(1) by (rule reach.more) (rule fine_step.main, use d assms(4) in auto)
  ultimately show thesis using st(2) by (intro that [of s]) simp_all
qed

section \<open>An example\<close>

text \<open>The machine of the other examples, with a feed of one magnet link.\<close>

definition lab_ext3 :: "(unit, unit) ext" where
  "lab_ext3 = lab_ext2\<lparr>ext_xml := lab_feed_xml\<rparr>"

definition lab_feed :: rss_feed where
  "lab_feed = feed_new\<lparr>feed_url := Some ''http://x/rss'', feed_cookies := Some ''a=b'', feed_id := Some ''1''\<rparr>"

definition lab_magnet_item :: feed_item where
  "lab_magnet_item = lab_item ''magnet:?x''"

definition lab_state :: "auto_handle \<Rightarrow> bool \<Rightarrow> web \<Rightarrow> unit world \<Rightarrow> pc \<Rightarrow> bool \<Rightarrow> unit system" where
  "lab_state s r w wd p fr =
     \<lparr>sys_d = \<lparr>mySession = Some s, closing = False, isRunning = r, seenHUP = False, d_web = w, d_world = wd\<rparr>,
      sys_pc = p, sys_first_run = fr, sys_once = False\<rparr>"

definition lab_good :: "auto_handle \<Rightarrow> bool" where
  "lab_good s \<longleftrightarrow> feeds s = [lab_feed] \<and> filters s = filters lab_handle \<and> \<not> use_transmission s \<and>
     \<not> match_only s \<and> \<not> prowl_key_valid s \<and> pushover_key s = None \<and> max_bucket_items s < 1000"

lemma lab_ext3_fields [simp]:
  "ext_pcre lab_ext3 = lab_pcre" "ext_curl lab_ext3 = lab_curl" "ext_xml lab_ext3 = lab_feed_xml"
  "ext_env lab_ext3 = lab_env"
  by (simp_all add: lab_ext3_def lab_ext2_def)

lemma lab_good_handle: "lab_good (lab_handle\<lparr>downloads := h\<rparr>)" "feeds lab_handle = [lab_feed]"
  by (simp_all add: lab_good_def lab_handle_def lab_feed_def lab_session_def)

lemma lab_main:
  assumes "fopen_r ''/c'' wd = Some (config_text lab_config)" "gMsglevel wd = 1" "sigchld_ignored wd"
  shows "main_init lab_ext3 se lab_argv w wd = Inr (Some (lab_state
    (lab_handle\<lparr>downloads := snd (load_state ''/h/.automatic.state'' [] wd)\<rparr>) False w wd Loop True))"
proof -
  let ?a = "default_args\<lparr>arg_c_file := Some ''/c'', arg_nofork := True\<rparr>"
  let ?d = "\<lparr>mySession = None, closing = False, isRunning = False, seenHUP = False, d_web = w, d_world = wd\<rparr>"
  let ?s = "lab_handle\<lparr>downloads := snd (load_state ''/h/.automatic.state'' [] wd)\<rparr>"
  have pre: "(lab_handle\<lparr>use_transmission := True, feeds := [], filters := []\<rparr>)\<lparr>match_only := False\<rparr> =
      lab_handle\<lparr>use_transmission := True, feeds := [], filters := []\<rparr>"
    by (simp add: lab_handle_def lab_session_def)
  have "setupSession lab_ext3 (Some lab_handle) ?d = Inr (True, ?d\<lparr>mySession := Some ?s\<rparr>)"
    by (simp add: setupSession_def list_empty_def replace_session_def verify_prowl_def
        printSessionSettings_def lab_handle_def lab_session_def)
  moreover have "wd\<lparr>sigchld_ignored := True\<rparr> = wd" using assms(3) by simp
  ultimately have start: "start_session lab_ext3 se ?a ?d = Inr (lab_state ?s False w wd Loop True)"
    using lab_parse [of lab_pcre lab_env] lab_init assms(1) pre
    by (simp add: start_session_def config_path_def default_args_def start_daemon_def setup_signals_def
        lab_state_def)
  have "snd (log_init f None 1 b wd) = wd" for f b using assms(2) by (simp add: log_init_def)
  moreover have "arg_logfile default_args = None" "wrap_s 8 (arg_verbose default_args) = 1"
    by (simp_all add: default_args_def wrap_s_def)
  moreover have "readargs lab_argv default_args = Some ?a" by (simp add: lab_argv_def)
  ultimately show ?thesis
    using start by (simp add: main_init_def config_path_def MAXPATHLEN_def)
qed

lemma lab_magnet_wanted: "lab_good s \<Longrightarrow> wanted lab_ext3 (Some lab_feed) s lab_magnet_item"
  by (simp add: lab_good_def wanted_def wanted_by_def applies_def isRegExMatch_def init_regex_def
      lab_pcre_def lab_handle_def lab_magnet_item_def lab_feed_def am_consts
      strcasecmp_eq_def)

lemma lab_magnet_step:
  assumes "lab_good s" "downloads s = []"
  shows "\<exists>f. process_item lab_ext3 (Some lab_feed) lab_magnet_item
      \<lparr>r_session = s, r_curl = c, r_folder = None, r_web = w, r_world = wd\<rparr> =
    Inr (remember_item lab_magnet_item
      \<lparr>r_session = s, r_curl = c, r_folder = f, r_web = w, r_world = wd\<rparr>)"
proof -
  have "\<exists>f. processRSSList lab_ext3 s c [lab_magnet_item] (Some lab_feed) w wd =
    Inr (remember_item lab_magnet_item \<lparr>r_session = s, r_curl = c, r_folder = f, r_web = w, r_world = wd\<rparr>)"
    using assms lab_magnet_wanted [OF assms(1)]
    by (intro magnet_run) (simp_all add: lab_good_def lab_magnet_item_def isMagnetURI_iff)
  then show ?thesis by (auto simp: processRSSList_def bindR_Inr_iff)
qed

text \<open>One step, of the kind \<open>between_reloads\<close> allows, that leaves the history and its bound alone.\<close>

lemma quiet_step:
  assumes "between_reloads x cfg xml f n g" "fine_main x cfg xml g = Inr g'" "sys_pc (fine_sys g) \<noteq> Done"
    and "\<not> seenHUP (sys_d (fine_sys g))" "history g' = history g" "history_bound g \<le> history_bound g'"
  shows "between_reloads x cfg xml f n g'"
  using between_reloads.main [OF assms(1,3) _ assms(2,6)] assms(4,5) by simp

text \<open>The way into a check, up to its one item, and the way out of it to the next.\<close>

lemma lab_enter:
  assumes "between_reloads lab_ext3 cfg None f n
      \<lparr>fine_sys = lab_state s False w wd Loop fr, fine_phase = Outside\<rparr>" "lab_good s"
  shows "\<exists>c w'. between_reloads lab_ext3 cfg None f n
    \<lparr>fine_sys = lab_state (if fr then grow_bucket 1 s else s) True w' wd (Checking 0) fr,
     fine_phase = Items 1 (Some lab_feed) [lab_magnet_item] c None\<rparr>"
proof -
  let ?s = "if fr then grow_bucket 1 s else s"
  let ?f1 = "\<lparr>fine_sys = lab_state s True w wd (Checking 0) fr, fine_phase = Outside\<rparr>"
  note run = lab_state_def fine_main_def current_feed_def fine_check_def Let_def
  have s: "feeds s = [lab_feed]" using assms(2) by (simp add: lab_good_def)
  have "fine_main lab_ext3 cfg None \<lparr>fine_sys = lab_state s False w wd Loop fr, fine_phase = Outside\<rparr> = Inr ?f1"
    by (simp add: run main_step_def enter_check_def has_file_def)
  with assms(1) have 1: "between_reloads lab_ext3 cfg None f n ?f1"
    by (rule quiet_step) (simp_all add: lab_state_def history_def history_bound_def)
  obtain r c w' where get: "getHTTPData lab_pcre lab_curl (feed_url lab_feed) (feed_cookies lab_feed) None w () =
      Inr (Some r, Some c, w', ())" and r: "hr_data r = Some ''d4:infoe''" "hr_code r = 200"
    using lab_get [where u = "''http://x/rss''" and k = "Some ''a=b''" and web = w]
    by (auto simp: lab_feed_def)
  have "wd\<lparr>net := ()\<rparr> = wd" by (cases wd) simp
  with get have "getRSSFeed lab_ext3 lab_feed w wd = Inr ((Some r, Some c), w', wd)"
    by (simp add: getRSSFeed_def on_net_def)
  then have "fine_main lab_ext3 cfg None ?f1 = Inr
      \<lparr>fine_sys = lab_state s True w' wd (Checking 0) fr, fine_phase = Fetched (Some r) (Some c)\<rparr>" (is "_ = Inr ?f2")
    by (simp add: run s)
  with 1 have 2: "between_reloads lab_ext3 cfg None f n ?f2"
    by (rule quiet_step) (simp_all add: lab_state_def history_def history_bound_def)
  have "grow_bucket k (s\<lparr>feeds := [lab_feed]\<rparr>) = grow_bucket k s" for k
    using s by (cases s) (simp add: grow_bucket_def)
  moreover have "lab_feed\<lparr>feed_ttl := feed_ttl lab_feed\<rparr> = lab_feed" by simp
  ultimately have "fetched_rest lab_ext3 0 fr (Some r) (Some c) s = Inr (Some (1, lab_feed, [lab_magnet_item], ?s))"
    using r lab_feed_items s by (simp add: fetched_rest_def Let_def lab_magnet_item_def)
  then have "fine_main lab_ext3 cfg None ?f2 = Inr
      \<lparr>fine_sys = lab_state ?s True w' wd (Checking 0) fr,
       fine_phase = Items 1 (Some lab_feed) [lab_magnet_item] (Some c) None\<rparr>" (is "_ = Inr ?f3")
    by (simp add: run s)
  with 2 have "between_reloads lab_ext3 cfg None f n ?f3"
    using assms(2)
    by (elim quiet_step) (simp_all add: lab_state_def history_def history_bound_def grow_bucket_def lab_good_def)
  then show ?thesis by blast
qed

lemma lab_entered:
  assumes "between_reloads lab_ext3 cfg None f n
      \<lparr>fine_sys = lab_state s False w wd Loop fr, fine_phase = Outside\<rparr>" "lab_good s"
  shows "\<exists>g c. fine_phase g = Items 1 (Some lab_feed) [lab_magnet_item] c None \<and>
    between_reloads lab_ext3 cfg None f n g"
proof -
  obtain c w' where g: "between_reloads lab_ext3 cfg None f n
    \<lparr>fine_sys = lab_state (if fr then grow_bucket 1 s else s) True w' wd (Checking 0) fr,
     fine_phase = Items 1 (Some lab_feed) [lab_magnet_item] c None\<rparr>" (is "between_reloads _ _ _ _ _ ?g")
    using lab_enter [OF assms] by blast
  have "fine_phase ?g = Items 1 (Some lab_feed) [lab_magnet_item] c None" by simp
  with g show ?thesis by blast
qed

lemma lab_leave:
  assumes "between_reloads lab_ext3 cfg None f n
      \<lparr>fine_sys = lab_state s True w wd (Checking 0) fr, fine_phase = Items cnt feed [] c folder\<rparr>" "lab_good s"
  shows "between_reloads lab_ext3 cfg None f n
    \<lparr>fine_sys = lab_state s False w wd Loop False, fine_phase = Outside\<rparr>"
proof -
  let ?g = "\<lambda>r p b. \<lparr>fine_sys = lab_state s r w wd p b, fine_phase = Outside\<rparr>"
  have s: "feeds s = [lab_feed]" using assms(2) by (simp add: lab_good_def)
  note run = lab_state_def fine_main_def current_feed_def fine_check_def Let_def end_check_def main_step_def
    check_feed_def s history_def history_bound_def
  have "between_reloads lab_ext3 cfg None f n (?g True (Checking 1) fr)"
    using assms(1) by (rule quiet_step) (simp_all add: run)
  then have "between_reloads lab_ext3 cfg None f n (?g True Checked False)"
    by (rule quiet_step) (simp_all add: run)
  then have "between_reloads lab_ext3 cfg None f n (?g False Deferred False)"
    by (rule quiet_step) (simp_all add: run)
  then have "between_reloads lab_ext3 cfg None f n (?g False Sleeping False)"
    by (rule quiet_step) (simp_all add: run)
  then show ?thesis by (rule quiet_step) (simp_all add: run)
qed

definition lab_done :: "unit run" where
  "lab_done = \<lparr>r_session = lab_handle, r_curl = None, r_folder = None, r_web = web0, r_world = lab_disk\<rparr>"

text \<open>The machine the next process starts on: it has the state file of the last one.\<close>

definition lab_restart :: "unit world" where
  "lab_restart = lab_disk\<lparr>files := (files lab_disk)(''/h/.automatic.state'' :=
     files (r_world (remember_item lab_magnet_item lab_done)) ''/h/.automatic.state'')\<rparr>"

lemma lab_handle_facts:
  "statefile lab_handle = Some ''/h/.automatic.state''" "downloads lab_handle = []"
  "max_bucket_items lab_handle = 30"
  by (simp_all add: lab_handle_def lab_session_def)

text \<open>C13: once remembered, not again: let the processing of an item \<open>i\<close> in a reachable state of the
  daemon change the history.  Then however the daemon goes on, whatever the servers answer, over any
  number of checks of any feeds and with signals between any two items, every item that carries the
  identifier of \<open>i\<close> as its GUID or its URL is skipped, and nothing but the folder choice of the
  loop changes: until the configuration is reloaded, or as many other entries have entered the
  history as its bound \<open>max_bucket_items\<close> allows.\<close>

theorem no_second_download:
  assumes "reach (fine_start x m) (fine_step x cfg xml) f" "\<not> has_file xml"
    and "fine_phase f = Items cnt feed (i # is') c folder"
    and "fine_main x cfg xml f = Inr f1" "history f1 \<noteq> history f"
    and "item_key i = Some e" "e \<noteq> []" "NUL \<notin> set e"
    and "between_reloads x cfg xml f1 n f2" "n < history_bound f1"
    and "fine_phase f2 = Items cnt' feed' (j # js) c' folder'"
    and "item_guid j = Some e \<or> item_url j = Some e"
  shows "\<exists>folder''. fine_main x cfg xml f2 =
    Inr (f2\<lparr>fine_phase := Items cnt' feed' js c' folder''\<rparr>)"
proof -
  obtain s where s: "mySession (sys_d (fine_sys f1)) = Some (remembered i s)"
    "reach (fine_start x m) (fine_step x cfg xml) f1"
    using assms(1-5) by (rule item_step_remembered)
  have "seen (take 1 (downloads (remembered i s))) j" using assms(6-8,12) by (rule remembered_first)
  moreover have "1 + n \<le> max_bucket_items (remembered i s)" using assms(10) s(1) by (simp add: history_bound_def)
  ultimately show ?thesis by (intro remembered_skipped [OF s(2) assms(2) s(1) _ assms(9) _ assms(11)])
qed

section \<open>A new process\<close>

text \<open>What \<open>main\<close> has before its loop is the history of the state file it started with.\<close>

lemma main_init_history:
  assumes "main_init x se argv w wd = Inr (Some sys)" "readargs argv default_args = Some a"
    and "mySession (sys_d sys) = Some s" "statefile s = Some sf"
    and "gLogFP wd \<noteq> Some sf" "arg_logfile a \<noteq> Some sf"
  shows "downloads s = snd (load_state sf [] wd)"
proof -
  define wd1 where "wd1 = snd (log_init (se_file se) None (level P_MSG) False wd)"
  define d where "d = \<lparr>mySession = None, closing = False, isRunning = False, seenHUP = False,
    d_web = w, d_world = snd (log_init (se_file se) (arg_logfile a) (wrap_s 8 (arg_verbose a))
      (arg_append_log a) wd1)\<rparr>"
  have "fopen_r sf wd1 = fopen_r sf wd \<and> gLogFP wd1 \<noteq> Some sf"
    unfolding wd1_def using assms(5) by (intro log_init_file) simp_all
  then have fo: "fopen_r sf (d_world d) = fopen_r sf wd"
    using log_init_file [of wd1 sf "arg_logfile a"] assms(6) by (simp add: d_def)
  from assms(1,2) have "start_session x se a d = Inr sys"
    by (auto simp: main_init_def bindR_Inr_iff Let_def d_def wd1_def split: if_splits)
  then obtain s0 r s1 where i: "session_init (ext_env x) = Inr s0"
    and p: "parse_config_file (ext_pcre x) (ext_env x) (fopen_r (config_path a) (d_world d))
          (s0\<lparr>match_only := arg_match_only a\<rparr>) = Inr (r, s1)"
    and st: "(if r \<noteq> 0 then Inr (stopped (Some s1) d (arg_once a))
       else bindR (setupSession x (Some s1) d) (\<lambda>(ok, d).
         if \<not> ok then Inr (stopped (Some s1) d (arg_once a))
         else Inr (start_daemon se a (setup_signals d)))) = Inr sys"
    by (auto simp: start_session_def bindR_Inr_iff)
  have "downloads s0 = []" using i by (auto simp: session_init_def bindR_Inr_iff)
  then have s1: "downloads s1 = []" using parse_config_file_runtime [OF p] by (simp add: runtime_def)
  have none: "mySession (sys_d (stopped (Some s1) d o1)) = None" for o1
    by (simp add: stopped_def shutdown_daemon_def Let_def d_def)
  have "r = 0" using st assms(3) none by (cases "r = 0") auto
  with st obtain ok d1 where ok: "setupSession x (Some s1) d = Inr (ok, d1)"
    "(if \<not> ok then stopped (Some s1) d1 (arg_once a) else start_daemon se a (setup_signals d1)) = sys"
    by (auto simp: bindR_Inr_iff split: if_splits)
  have "d1 = d" if "\<not> ok" using setupSession_cases [OF ok(1)] that by simp
  then have "ok" using ok(2) assms(3) none by (cases ok) auto
  note ok = ok [unfolded simp_thms if_False if_True, simplified this]
  then obtain s2 f where s2: "mySession d1 = Some s2" "statefile s2 = Some f"
    "downloads s2 = snd (load_state f [] (d_world d))"
    using setupSession_history [OF ok(1)] s1 by (auto simp: d_def replace_session_def)
  have "mySession (sys_d sys) = mySession d1"
    by (auto simp: ok(2) [symmetric] start_daemon_def stopped_def shutdown_daemon_def setup_signals_def Let_def
        split: prod.splits option.splits)
  with s2 assms(3,4) fo show ?thesis by (simp add: load_state_def)
qed

theorem no_second_download_witness:
  "\<exists>f f1 f2 c folder'. reach (fine_start lab_ext3 False) (fine_step lab_ext3 ''/c'' None) f \<and>
    fine_main lab_ext3 ''/c'' None f = Inr f1 \<and> history f1 = [''magnet:?x''] \<and>
    between_reloads lab_ext3 ''/c'' None f1 0 f2 \<and>
    fine_phase f2 = Items 1 (Some lab_feed) [lab_magnet_item] c None \<and>
    fine_main lab_ext3 ''/c'' None f2 = Inr (f2\<lparr>fine_phase := Items 1 (Some lab_feed) [] c folder'\<rparr>)"
proof -
  let ?x = lab_ext3 and ?s = "grow_bucket 1 (lab_handle\<lparr>downloads := []\<rparr>)" and ?i = lab_magnet_item
  let ?f0 = "\<lparr>fine_sys = lab_state (lab_handle\<lparr>downloads := []\<rparr>) False web0 lab_disk Loop True,
    fine_phase = Outside\<rparr>"
  have "load_state ''/h/.automatic.state'' [] lab_disk = (-1, [])"
    by (simp add: load_state_def fopen_r_def lab_disk_def)
  with lab_main [of lab_disk _ web0]
  have "main_init ?x se lab_argv web0 lab_disk = Inr (Some (fine_sys ?f0))" for se
    by (simp add: fopen_r_def lab_disk_def disk1_def)
  moreover obtain a where "readargs lab_argv default_args = Some a" "\<not> arg_match_only a"
    by (simp add: lab_argv_def default_args_def)
  ultimately have "started ?x False (fine_sys ?f0)" unfolding started_def by blast
  then have r0: "reach (fine_start ?x False) (fine_step ?x ''/c'' None) ?f0"
    by (intro reach.start) (simp add: fine_start_def)
  obtain c w f where f: "f = \<lparr>fine_sys = lab_state ?s True w lab_disk (Checking 0) True,
      fine_phase = Items 1 (Some lab_feed) [?i] c None\<rparr>" "between_reloads ?x ''/c'' None ?f0 0 f"
    using lab_enter [of "''/c''" ?f0 0 "lab_handle\<lparr>downloads := []\<rparr>" web0 lab_disk True,
        OF between_reloads.here lab_good_handle(1)] by (auto simp only: if_True)
  have r: "reach (fine_start ?x False) (fine_step ?x ''/c'' None) f"
    using f(2) r0 by (rule between_reach)
  have good: "lab_good ?s" "downloads ?s = []"
    by (simp_all add: lab_good_def grow_bucket_def lab_handle_def lab_feed_def lab_session_def)
  obtain fo where p: "process_item ?x (Some lab_feed) ?i
      \<lparr>r_session = ?s, r_curl = c, r_folder = None, r_web = w, r_world = lab_disk\<rparr> =
    Inr (remember_item ?i
      \<lparr>r_session = ?s, r_curl = c, r_folder = fo, r_web = w, r_world = lab_disk\<rparr>)"
    using lab_magnet_step [OF good] by blast
  define s2 where "s2 = remembered ?i ?s"
  define wd2 where "wd2 = r_world (remember_item ?i
      \<lparr>r_session = ?s, r_curl = c, r_folder = fo, r_web = w, r_world = lab_disk\<rparr>)"
  have s2: "lab_good s2" "downloads s2 = [''magnet:?x'']"
    using good by (simp_all add: s2_def remembered_def lab_good_def lab_magnet_item_def remember_def
        Let_def am_strdup_def am_strndup_def NUL_def) auto
  have r_i: "remember_item ?i \<lparr>r_session = ?s, r_curl = c, r_folder = fo, r_web = w, r_world = lab_disk\<rparr> =
      \<lparr>r_session = s2, r_curl = c, r_folder = fo, r_web = w, r_world = wd2\<rparr>"
    by (simp add: wd2_def s2_def remember_item_def remembered_def Let_def)
  define f1 where "f1 = \<lparr>fine_sys = lab_state s2 True w wd2 (Checking 0) True,
      fine_phase = Items 1 (Some lab_feed) [] c fo\<rparr>"
  have f1: "fine_main ?x ''/c'' None f = Inr f1"
    using p good(1) unfolding r_i
    by (simp add: f(1) f1_def fine_main_def fine_check_def current_feed_def lab_state_def Let_def with_run_def
        lab_good_def)
  have h: "history f1 = [''magnet:?x'']" "history f = []" "0 < history_bound f1"
    using s2 good by (simp_all add: f(1) f1_def history_def history_bound_def lab_state_def)
      (simp add: s2_def remembered_def grow_bucket_def lab_handle_def lab_session_def)
  have "between_reloads ?x ''/c'' None f1 0
      \<lparr>fine_sys = lab_state s2 False w wd2 Loop False, fine_phase = Outside\<rparr>"
    using between_reloads.here s2(1) unfolding f1_def by (rule lab_leave)
  from lab_entered [OF this s2(1)] obtain f2 c2 where
    f2: "fine_phase f2 = Items 1 (Some lab_feed) [?i] c2 None" "between_reloads ?x ''/c'' None f1 0 f2"
    by metis
  have key: "item_key ?i = Some ''magnet:?x''" "item_url ?i = Some ''magnet:?x''"
    by (simp_all add: lab_magnet_item_def lab_item_def item_key_def newFeedItem_def)
  have "\<exists>folder'. fine_main ?x ''/c'' None f2 =
      Inr (f2\<lparr>fine_phase := Items 1 (Some lab_feed) [] c2 folder'\<rparr>)"
    by (rule no_second_download [OF r _ _ f1 _ _ _ _ f2(2) h(3) f2(1), where e = "''magnet:?x''"])
      (use f(1) h key in \<open>simp_all add: has_file_def NUL_def\<close>)
  with r f1 h(1) f2 show ?thesis by blast
qed

text \<open>C1: no download after a restart: let an item be remembered and the state file be written, and let
  a new process start later, with any arguments and any configuration that names this state file.
  Then however it goes on, over any number of checks of any feeds and with signals between any two
  items, it skips every item whose GUID or URL is the entry at some place \<open>p\<close> of the history that
  was saved (\<open>p = 0\<close> is the entry of the item just remembered), and nothing but the folder choice of
  the loop changes: until its configuration is reloaded, or so many other entries have entered the
  history that the place is beyond the bound \<open>max_bucket_items\<close>.\<close>

theorem no_download_after_restart:
  fixes st :: "'w run" and i :: feed_item
  defines "saved \<equiv> downloads (remembered i (r_session st))"
  assumes "statefile (r_session st) = Some sf" "\<forall>e \<in> set saved. storable e"
    and "may_write (r_world st) sf" "may_read (r_world st) sf"
    and "length (state_text saved) \<le> room (r_world st)"
    and "main_init x se argv w wd = Inr (Some sys)" "readargs argv default_args = Some a"
    and "files wd sf = files (r_world (remember_item i st)) sf" "may_read wd sf"
    and "gLogFP wd \<noteq> Some sf" "arg_logfile a \<noteq> Some sf"
    and "mySession (sys_d sys) = Some s" "statefile s = Some sf" "\<not> has_file xml"
    and "between_reloads x cfg xml \<lparr>fine_sys = sys, fine_phase = Outside\<rparr> n g"
    and "p < length saved" "saved ! p \<noteq> []" "p + n < max_bucket_items s"
    and "fine_phase g = Items cnt feed (j # js) c folder"
    and "item_guid j = Some (saved ! p) \<or> item_url j = Some (saved ! p)"
  shows "\<exists>folder'. fine_main x cfg xml g = Inr (g\<lparr>fine_phase := Items cnt feed js c folder'\<rparr>)"
proof -
  let ?f = "\<lparr>fine_sys = sys, fine_phase = Outside\<rparr>"
  have "load_state sf [] (r_world (remember_item i st)) = (0, saved)"
    unfolding saved_def using assms(2-6) by (intro remember_item_saved) (simp_all add: saved_def)
  moreover have "may_read (r_world (remember_item i st)) sf"
    using calculation assms(17) by (auto simp: load_state_def fopen_r_def split: if_splits)
  ultimately have "load_state sf [] wd = (0, saved)"
    using assms(9,10) by (simp add: load_state_def fopen_r_def)
  with main_init_history [OF assms(7,8,13,14,11,12)] have s: "downloads s = saved" by simp
  have "saved ! p \<in> set (take (Suc p) saved)" using assms(17) by (simp add: take_Suc_conv_app_nth)
  with s assms(18,21) have "seen (take (Suc p) (downloads s)) j" by (auto simp: seen_entry)
  moreover have "started x (arg_match_only a) sys" unfolding started_def using assms(7,8) by blast
  moreover from this have "reach (fine_start x (arg_match_only a)) (fine_step x cfg xml) ?f"
    by (intro reach.start) (simp add: fine_start_def)
  ultimately show ?thesis
    using assms(13,15,16,19,20) by (intro remembered_skipped [of x _ cfg xml ?f s "Suc p" j n]) simp_all
qed

theorem no_download_after_restart_witness:
  "\<exists>g c folder'. between_reloads lab_ext3 ''/c'' None
      \<lparr>fine_sys = lab_state (lab_handle\<lparr>downloads := [''magnet:?x'']\<rparr>) False web0
         lab_restart Loop True, fine_phase = Outside\<rparr> 0 g \<and>
    fine_phase g = Items 1 (Some lab_feed) [lab_magnet_item] c None \<and>
    fine_main lab_ext3 ''/c'' None g = Inr (g\<lparr>fine_phase := Items 1 (Some lab_feed) [] c folder'\<rparr>)"
proof -
  let ?i = lab_magnet_item and ?sf = "''/h/.automatic.state''"
  let ?s = "lab_handle\<lparr>downloads := [''magnet:?x'']\<rparr>"
  let ?sys = "lab_state ?s False web0 lab_restart Loop True"
  let ?a = "default_args\<lparr>arg_c_file := Some ''/c'', arg_nofork := True\<rparr>"
  have saved: "downloads (remembered ?i (r_session lab_done)) = [''magnet:?x'']"
    by (simp add: lab_done_def remembered_def lab_handle_facts lab_magnet_item_def remember_def
        am_strdup_def am_strndup_def NUL_def)
  have st: "storable ''magnet:?x''" by (simp add: storable_def NL_def NUL_def MAX_LINE_LEN_def)
  have disk: "room lab_disk = 1000" "may_write lab_disk f" "may_read lab_disk f" "gMsglevel lab_disk = 1"
    "gLogFP lab_disk = None" "sigchld_ignored lab_disk" "files lab_disk ''/c'' = Some (config_text lab_config)"
    for f by (simp_all add: lab_disk_def disk1_def)
  have wd: "files lab_restart ?sf = files (r_world (remember_item ?i lab_done)) ?sf"
    "files lab_restart ''/c'' = Some (config_text lab_config)" "may_read lab_restart f" "gMsglevel lab_restart = 1"
    "gLogFP lab_restart = None" "sigchld_ignored lab_restart" for f
    by (simp_all add: lab_restart_def disk)
  have "load_state ?sf [] (r_world (remember_item ?i lab_done)) = (0, [''magnet:?x''])"
    using remember_item_saved [of lab_done ?sf ?i] saved st
    by (simp add: lab_done_def lab_handle_facts disk state_text_def)
  then have load: "load_state ?sf [] lab_restart = (0, [''magnet:?x''])"
    using wd by (auto simp: load_state_def fopen_r_def split: if_splits)
  have main: "main_init lab_ext3 se lab_argv web0 lab_restart = Inr (Some ?sys)" for se
    using lab_main [of lab_restart se web0] load wd by (simp add: fopen_r_def)
  obtain c g where g: "fine_phase g = Items 1 (Some lab_feed) [?i] c None"
    "between_reloads lab_ext3 ''/c'' None \<lparr>fine_sys = ?sys, fine_phase = Outside\<rparr> 0 g"
    using lab_entered [OF between_reloads.here lab_good_handle(1)] by metis
  have "\<exists>folder'. fine_main lab_ext3 ''/c'' None g =
      Inr (g\<lparr>fine_phase := Items 1 (Some lab_feed) [] c folder'\<rparr>)"
    by (rule no_download_after_restart [where st = lab_done and i = ?i and sf = ?sf and p = 0 and
          a = ?a and s = ?s, OF _ _ _ _ _ main _ _ _ _ _ _ _ _ g(2) _ _ _ g(1)])
      (use saved st disk wd in \<open>simp_all add: lab_done_def lab_handle_facts state_text_def lab_argv_def
        lab_state_def has_file_def default_args_def lab_magnet_item_def\<close>)
  with g show ?thesis by blast
qed

end
