(* ===== verification/Am_Tests.thy ===== *)
theory Am_Tests
  imports Am_List Am_Json
begin

text \<open>
  \<^verbatim>\<open>src/tests/\<close>: the repository's own test programs, run on the model.

  A test program returns the number of the first \<open>check\<close> that fails, 0 when all pass; the
  programs that use \<open>assert\<close> instead stop with \<open>AssertFail\<close>.  The messages are left out.  That they
  pass on the model is an evaluation on the fixed inputs of the tests, a guard against mistakes of
  translation; for those that need PCRE it rests on the answers \<open>test_answers\<close> lists.
\<close>

section \<open>The macro\<close>

fun check :: "nat \<Rightarrow> bool list \<Rightarrow> nat" where
  "check test [] = 0"
| "check test (b # bs) = (if b then check (Suc test) bs else Suc test)"

lemma check_passed: "check test bs = 0 \<longleftrightarrow> (\<forall>b \<in> set bs. b)"
  by (induction test bs rule: check.induct) auto

section \<open>\<^verbatim>\<open>base64_test.c\<close>\<close>

definition dec_str :: string where
  "dec_str = ''The quick brown fox jumps over the lazy dog.''"

definition enc_str :: string where
  "enc_str = ''VGhlIHF1aWNrIGJyb3duIGZveCBqdW1wcyBvdmVyIHRoZSBsYXp5IGRvZy4=''"

definition base64_main :: "nat res" where
  "base64_main =
     bindR (base64_encode None 47 True) (\<lambda>(encode, enc_len).
     let c1 = (encode = None \<and> enc_len = Some 0)
     in bindR (base64_encode (Some dec_str) (length dec_str) True) (\<lambda>(encode, enc_len).
        bindR (base64_decode encode (the enc_len) True) (\<lambda>(decode, dec_len).
          Inr (check 0 [c1, enc_len = Some (length enc_str), encode = Some enc_str,
                        dec_len = Some (length dec_str), decode = Some dec_str]))))"

lemma enc_dec: "encode_loop [] dec_str = enc_str"
  by (simp add: dec_str_def enc_str_def to_char_4_def byte_def alpha_def alphabet_def encode_tail_def)

lemma base64_main_passes: "base64_main = Inr 0"
proof -
  have l: "length dec_str = 44" "length enc_str = 60" by (simp_all add: dec_str_def enc_str_def)
  have e: "base64_encode (Some dec_str) 44 True = Inr (Some enc_str, Some 60)"
    using base64_encode_ok [of dec_str] by (simp add: l enc_dec)
  have d: "base64_decode (Some enc_str) 60 True = Inr (Some dec_str, Some 44)"
    using base64_decode_encoded [of dec_str] by (simp add: l enc_dec)
  have "base64_encode None 47 True = Inr (None, Some 0)" by (simp add: base64_encode_def)
  with e d show ?thesis by (simp add: base64_main_def l)
qed

section \<open>\<^verbatim>\<open>json_test.c\<close>\<close>

text \<open>\<^verbatim>\<open>assert(json == NULL && size == 0)\<close> and \<^verbatim>\<open>assert(strlen(json) == size && size == n)\<close>\<close>

definition no_packet :: "string option \<times> nat \<Rightarrow> bool" where
  "no_packet r \<longleftrightarrow> r = (None, 0)"

definition packet_of :: "nat \<Rightarrow> string option \<times> nat \<Rightarrow> bool" where
  "packet_of n r \<longleftrightarrow> (case fst r of None \<Rightarrow> False | Some json \<Rightarrow> length json = snd r \<and> snd r = n)"

definition assert_on :: "('a \<Rightarrow> bool) \<Rightarrow> 'a res \<Rightarrow> unit res" where
  "assert_on P m = bindR m (\<lambda>x. if P x then Inr () else Inl AssertFail)"

definition json_main :: "nat res" where
  "json_main =
     (let str = enc_str; n = length str in
      bindR (assert_on no_packet (makeTorrentAddMetaInfoJSON None 0 False None)) (\<lambda>_.
      bindR (assert_on no_packet (makeTorrentAddMetaInfoJSON None 20 False None)) (\<lambda>_.
      bindR (assert_on no_packet (makeTorrentAddMetaInfoJSON (Some str) 0 False None)) (\<lambda>_.
      bindR (assert_on (packet_of 153) (makeTorrentAddMetaInfoJSON (Some str) n True None)) (\<lambda>_.
      bindR (assert_on (packet_of 153) (makeTorrentAddMetaInfoJSON (Some str) n False None)) (\<lambda>_.
        Inr 0))))))"

lemma json_size:
  assumes "length val = 80"
  shows "length (torrent_add ''metainfo'' val [] start) = 153"
  using assms by (simp add: torrent_add_def)

lemma json_main_passes: "json_main = Inr 0"
proof -
  have l: "length enc_str = 60" by (simp add: enc_str_def)
  then have "0 < length enc_str" "length enc_str + folder_size None < 2 ^ 30"
    by (simp_all add: folder_size_def)
  note ok = makeTorrentAddMetaInfoJSON_ok [OF this]
  have "length (encode_loop [] enc_str) = 80" by (simp add: encode_loop_length l)
  from json_size [OF this] have "packet_of 153 (Some (torrent_add ''metainfo'' (encode_loop [] enc_str)
      (folder_part None) start), length (torrent_add ''metainfo'' (encode_loop [] enc_str)
      (folder_part None) start))" for start
    by (simp add: packet_of_def folder_part_def)
  then show ?thesis
    unfolding json_main_def Let_def ok assert_on_def
    by (simp add: makeTorrentAddMetaInfoJSON_none no_packet_def)
qed

section \<open>\<^verbatim>\<open>utils_test.c\<close>\<close>

definition outer_space :: string where
  "outer_space = ''Planet'' @ [BSL] @ '' 9'' @ [BSL] @ '' From'' @ [BSL] @ '' Outer'' @ [BSL] @ '' Space''"

definition testStringReplace :: "nat res" where
  "testStringReplace =
     (let check_null = (\<lambda>s p t. bindR (am_replace_str s p t) (\<lambda>ret. Inr [ret = None]));
          check_text = (\<lambda>s p t u. bindR (am_replace_str (Some s) (Some p) (Some t))
            (\<lambda>ret. Inr [ret \<noteq> None, ret = Some u]))
      in bindR (check_null None None None) (\<lambda>c1.
         bindR (check_null (Some ''test'') None None) (\<lambda>c2.
         bindR (check_null None (Some ''test'') None) (\<lambda>c3.
         bindR (check_null None None (Some ''test'')) (\<lambda>c4.
         bindR (check_null (Some ''test'') (Some ''test2'') None) (\<lambda>c5.
         bindR (check_null None (Some ''test'') (Some ''test2'')) (\<lambda>c6.
         bindR (check_null (Some ''test'') None (Some ''test2'')) (\<lambda>c7.
         bindR (check_text ''test'' ''test2'' [] ''test'') (\<lambda>c8.
         bindR (check_text ''test'' ''abc'' [] ''test'') (\<lambda>c9.
         bindR (check_text ''test'' ''es'' [] ''tt'') (\<lambda>c10.
         bindR (check_text ''test'' ''e'' ''oa'' ''toast'') (\<lambda>c11.
         bindR (check_text ''tester'' ''e'' ''oa'' ''toastoar'') (\<lambda>c12.
         bindR (check_text outer_space [BSL, CHR '' ''] '' '' ''Planet 9 From Outer Space'') (\<lambda>c13.
           Inr (check 0 (concat [c1, c2, c3, c4, c5, c6, c7, c8, c9, c10, c11, c12, c13]))))))))))))))))"

lemma replace_text:
  assumes "s \<noteq> []" "p \<noteq> []" "length p \<le> length s" "strstr s p \<noteq> None"
    "length (replace_loop p t s) < 1000"
  shows "am_replace_str (Some s) (Some p) (Some t) = Inr (Some (replace_loop p t s))"
  using assms by (subst am_replace_str_total) auto

lemma replace_same:
  assumes "strstr s p = None" "s \<noteq> []" "p \<noteq> []" "NUL \<notin> set s"
  shows "am_replace_str (Some s) (Some p) (Some t) = Inr (Some s)"
  using assms by (simp add: am_replace_str_def am_strdup_Some)

lemma replace_none [simp]:
  "am_replace_str None p t = Inr None" "am_replace_str s None t = Inr None"
  "am_replace_str s p None = Inr None"
  by (simp_all add: am_replace_str_def split: option.split)

lemma testStringReplace_passes: "testStringReplace = Inr 0"
proof -
  have "am_replace_str (Some ''test'') (Some ''test2'') (Some []) = Inr (Some ''test'')"
    "am_replace_str (Some ''test'') (Some ''abc'') (Some []) = Inr (Some ''test'')"
    by (rule replace_same; simp add: starts_with_def NUL_def)+
  moreover have "am_replace_str (Some ''test'') (Some ''es'') (Some []) = Inr (Some ''tt'')"
    "am_replace_str (Some ''test'') (Some ''e'') (Some ''oa'') = Inr (Some ''toast'')"
    "am_replace_str (Some ''tester'') (Some ''e'') (Some ''oa'') = Inr (Some ''toastoar'')"
    by (subst replace_text; simp add: starts_with_def)+
  moreover have "am_replace_str (Some outer_space) (Some [BSL, CHR '' '']) (Some '' '') =
      Inr (Some ''Planet 9 From Outer Space'')"
    by (subst replace_text; simp add: starts_with_def BSL_def outer_space_def)
  ultimately show ?thesis unfolding testStringReplace_def Let_def by simp
qed

section \<open>\<^verbatim>\<open>regex_test.c\<close>\<close>

text \<open>
  The tests of extraction and substitution, for a PCRE that answers the calls they make as PCRE
  does: \<open>captures\<close> is a match with its groups, \<open>misses\<close> none.  The counter of the checks is static,
  and sixteen are behind it when the first of the two starts, in \<open>testIsRegexMatch\<close>.
\<close>

definition captures :: "pcre \<Rightarrow> string \<Rightarrow> string \<Rightarrow> string list \<Rightarrow> bool" where
  "captures re p s l \<longleftrightarrow> pcre_compile re p \<and> pcre_fullinfo re p = (0, int (length l) - 1) \<and>
     pcre_exec re p s (3 * length l) = int (length l) \<and>
     pcre_substrings re p s (int (length l)) = Some l"

definition misses :: "pcre \<Rightarrow> string \<Rightarrow> string \<Rightarrow> bool" where
  "misses re p s \<longleftrightarrow> pcre_compile re p \<and> fst (pcre_fullinfo re p) = 0 \<and> 0 \<le> snd (pcre_fullinfo re p) \<and>
     (\<forall>n. pcre_exec re p s n \<le> 0)"

definition test_pattern1 :: string where
  "test_pattern1 =
     ''Content-Disposition:'' @ [BSL] @ ''s(inline|attachment);'' @ [BSL] @ ''s*filename='' @ [DQ] @
     ''?(.+?)'' @ [DQ] @ ''?;?'' @ [BSL] @ ''r?'' @ [BSL] @ ''n?$''"

definition test_pattern2 :: string where
  "test_pattern2 = quoted ''result'' @ '':'' @ [BSL] @ ''s'' @ quoted ''(.+)'' @ [NL]"

definition test_name :: string where "test_name = ''this.is.a.test-file.torrent''"

definition test_string1 :: string where
  "test_string1 = ''Content-Disposition: inline; filename='' @ quoted test_name"

definition test_string2 :: string where
  "test_string2 = ''Content-Disposition: inline; filename='' @ test_name"

definition result_line :: "string \<Rightarrow> string" where
  "result_line t = quoted ''result'' @ '': '' @ quoted t"

definition testGetMatch :: "pcre \<Rightarrow> nat res" where
  "testGetMatch re =
     (let m = (\<lambda>p s k f. bindR (getRegExMatch re p s k) f); string3 = result_line ''success'' in
      m None None 0 (\<lambda>r1.
      m (Some test_pattern1) None 0 (\<lambda>r2.
      m None (Some test_string1) 0 (\<lambda>r3.
      m (Some test_pattern1) (Some test_string1) 7 (\<lambda>r4.
      m (Some test_pattern1) (Some test_string1) 2 (\<lambda>r5.
      m (Some test_pattern1) (Some test_string2) 2 (\<lambda>r6.
      m (Some test_pattern1) (Some string3) 2 (\<lambda>r7.
      m (Some test_pattern2) (Some string3) 2 (\<lambda>r8.
      m (Some test_pattern2) (Some string3) 1 (\<lambda>r9.
      m (Some test_pattern2) (Some (result_line ''failure'')) 1 (\<lambda>r10.
      m (Some test_pattern2) (Some (result_line ''duplicate torrent'')) 1 (\<lambda>r11.
        Inr (check 16 [r1 = None, r2 = None, r3 = None, r4 = None, r5 = Some test_name,
          r6 = Some test_name, r7 = None, r8 = None, r9 = Some ''success'', r10 = Some ''failure'',
          r11 = Some ''duplicate torrent''])))))))))))))"

definition test_substitute :: "string \<Rightarrow> string" where
  "test_substitute digits = ''abc'' @ [BSL] @ ''a'' @ [BSL] @ digits @ ''xyz''"

definition testRegexReplace :: "pcre \<Rightarrow> nat res" where
  "testRegexReplace re =
     (let m = (\<lambda>s p t f. bindR (performRegexReplace re s p t) f);
          pattern1 = Some test_pattern1; string1 = Some test_string1 in
      m None None None (\<lambda>r1.
      m None pattern1 None (\<lambda>r2.
      m string1 None None (\<lambda>r3.
      m string1 pattern1 None (\<lambda>r4.
      m string1 pattern1 (Some (test_substitute ''100'')) (\<lambda>r5.
      m string1 pattern1 (Some (test_substitute ''1'')) (\<lambda>r6.
      m string1 pattern1 (Some (test_substitute ''2'')) (\<lambda>r7.
      m string1 (Some ''abc'') (Some (test_substitute ''2'')) (\<lambda>r8.
        Inr (check 27 [r1 = None, r2 = None, r3 = None, r4 = None, r5 = None,
          r6 = Some (''abc'' @ [BSL] @ ''ainlinexyz''),
          r7 = Some (''abc'' @ [BSL] @ ''a'' @ test_name @ ''xyz''), r8 = None]))))))))))"

definition test_answers :: "pcre \<Rightarrow> bool" where
  "test_answers re \<longleftrightarrow>
     captures re test_pattern1 test_string1 [test_string1, ''inline'', test_name] \<and>
     captures re test_pattern1 test_string2 [test_string2, ''inline'', test_name] \<and>
     misses re test_pattern1 (result_line ''success'') \<and> misses re ''abc'' test_string1 \<and>
     (\<forall>t \<in> {''success'', ''failure'', ''duplicate torrent''}.
        captures re test_pattern2 (result_line t) [result_line t, t])"

lemma captures_groups:
  "captures re p s l \<Longrightarrow> s \<noteq> [] \<Longrightarrow> 1 < length l \<Longrightarrow>
   getRegExCaptureGroups re (Some p) (Some s) = (int (length l), Some l)"
  by (auto simp: captures_def getRegExCaptureGroups_def init_regex_def getPCRECaptureCount_def Let_def
      nat_mult_distrib mult.commute)

lemma misses_groups:
  assumes "misses re p s" "s \<noteq> []"
  shows "\<exists>n. getRegExCaptureGroups re (Some p) (Some s) = (n, None) \<and> n \<le> 0"
proof -
  obtain b where b: "pcre_fullinfo re p = (0, b)" "0 \<le> b" "pcre_compile re p"
    using assms(1) by (cases "pcre_fullinfo re p") (auto simp: misses_def)
  have le: "pcre_exec re p s n \<le> 0" for n using assms(1) by (simp add: misses_def)
  have "\<not> 1 < pcre_exec re p s n" "pcre_exec re p s n \<le> 0" for n using le [of n] by simp_all
  with assms(2) b show ?thesis
    by (simp add: getRegExCaptureGroups_def init_regex_def getPCRECaptureCount_def Let_def)
qed

lemma captures_match:
  assumes "captures re p s l" "s \<noteq> []" "1 < length l" "1 \<le> k"
  shows "getRegExMatch re (Some p) (Some s) k =
    Inr (if k < length l then am_strstrip (am_strdup (Some (l ! k))) else None)"
  using captures_groups [OF assms(1-3)] assms(2,4) am_strstrip_None by (simp add: getRegExMatch_def)

lemma misses_match:
  assumes "misses re p s" "s \<noteq> []"
  shows "getRegExMatch re (Some p) (Some s) k = Inr None"
  using misses_groups [OF assms] assms(2) by (auto simp: getRegExMatch_def)

lemma test_texts [simp]:
  "test_name \<noteq> []" "test_string1 \<noteq> []" "test_string2 \<noteq> []" "result_line t \<noteq> []" "test_pattern1 \<noteq> []"
  "am_strstrip (am_strdup (Some test_name)) = Some test_name"
  by (simp_all add: test_name_def test_string1_def test_string2_def result_line_def test_pattern1_def
      quoted_def am_strdup_def am_strndup_def NUL_def am_strstrip_eq strip_ref_def isspace_def code_def)

lemma test_words:
  "t \<in> {''success'', ''failure'', ''duplicate torrent''} \<Longrightarrow> am_strstrip (am_strdup (Some t)) = Some t"
  by (auto simp: am_strdup_def am_strndup_def NUL_def am_strstrip_eq strip_ref_def isspace_def code_def)

lemma testGetMatch_passes:
  assumes "test_answers re"
  shows "testGetMatch re = Inr 0"
proof -
  from assms have c1: "captures re test_pattern1 test_string1 [test_string1, ''inline'', test_name]"
    and c2: "captures re test_pattern1 test_string2 [test_string2, ''inline'', test_name]"
    and m: "misses re test_pattern1 (result_line ''success'')"
    and c3: "\<And>t. t \<in> {''success'', ''failure'', ''duplicate torrent''} \<Longrightarrow>
      captures re test_pattern2 (result_line t) [result_line t, t]"
    by (auto simp: test_answers_def)
  have "getRegExMatch re (Some test_pattern1) (Some test_string1) 7 = Inr None"
    "getRegExMatch re (Some test_pattern1) (Some test_string1) 2 = Inr (Some test_name)"
    "getRegExMatch re (Some test_pattern1) (Some test_string2) 2 = Inr (Some test_name)"
    using captures_match [OF c1] captures_match [OF c2] by simp_all
  moreover have "getRegExMatch re (Some test_pattern2) (Some (result_line t)) k =
      Inr (if k = 1 then Some t else None)"
    if "t \<in> {''success'', ''failure'', ''duplicate torrent''}" "1 \<le> k" for t k
    using captures_match [OF c3 [OF that(1)] _ _ that(2)] test_words [OF that(1)] that(2) by simp
  moreover have "getRegExMatch re p None k = Inr None" "getRegExMatch re None (Some test_string1) k = Inr None"
    for p k
    by (simp_all add: getRegExMatch_def getRegExCaptureGroups_def init_regex_def)
  ultimately show ?thesis
    using misses_match [OF m] by (simp add: testGetMatch_def)
qed

lemma replace_result:
  assumes "getRegExCaptureGroups re (Some p) (Some s) = (n, l)" "1 < n" "p \<noteq> []" "s \<noteq> []" "t \<noteq> []"
    and "replace_template n l t [] False = Inr (acc, fail)" "length acc < 1024"
  shows "performRegexReplace re (Some s) (Some p) (Some t) =
    Inr (if fail then None else am_strdup (Some (cstr acc)))"
  using assms by (simp add: performRegexReplace_def MAX_SUBST_LEN_def)

lemma testRegexReplace_passes:
  assumes "test_answers re"
  shows "testRegexReplace re = Inr 0"
proof -
  from assms have c: "captures re test_pattern1 test_string1 [test_string1, ''inline'', test_name]"
    and m: "misses re ''abc'' test_string1" by (simp_all add: test_answers_def)
  have g: "getRegExCaptureGroups re (Some test_pattern1) (Some test_string1) =
      (3, Some [test_string1, ''inline'', test_name])" using captures_groups [OF c] by simp
  have n: "performRegexReplace re None p t = Inr None" "performRegexReplace re s None t = Inr None"
    "performRegexReplace re s p None = Inr None" for s p t
    by (simp_all add: performRegexReplace_def)
  have d: "isdigit CHR ''1''" "isdigit CHR ''0''" "isdigit CHR ''2''" "\<not> isdigit CHR ''x''"
    "\<not> isdigit CHR ''a''" by (simp_all add: isdigit_def code_def)
  have a: "atoi ''100'' = 100" "atoi ''1'' = 1" "atoi ''2'' = 2"
    by (simp_all add: atoi_def strtol_def isspace_def isdigit_def code_def digit_val_def wrap_s_def)
  have l: "length test_name = 27" by (simp add: test_name_def)
  note run = test_substitute_def replace_template.simps put_def MAX_SUBST_LEN_def d a read_index_def
    MAX_IDX_LEN_def
  have t: "test_substitute ds \<noteq> []" for ds by (simp add: test_substitute_def)
  note result = replace_result [OF g _ _ _ t]
  have b: "BSL \<noteq> CHR ''a''" "CHR ''a'' \<noteq> BSL" "CHR ''b'' \<noteq> BSL" "CHR ''c'' \<noteq> BSL" "CHR ''x'' \<noteq> BSL"
    "CHR ''y'' \<noteq> BSL" "CHR ''z'' \<noteq> BSL" by (simp_all add: BSL_def)
  have n0: "NUL \<notin> set (''abc'' @ [BSL] @ ''ainlinexyz'')" "NUL \<notin> set (''abc'' @ [BSL] @ ''a'' @ test_name @ ''xyz'')"
    by (simp_all add: NUL_def BSL_def test_name_def)
  have "replace_template 3 (Some [test_string1, ''inline'', test_name]) (test_substitute ''100'') [] False =
      Inr (''abc'' @ [BSL] @ ''a'', True)" by (simp add: run b)
  from result [OF _ _ _ this]
  have "performRegexReplace re (Some test_string1) (Some test_pattern1) (Some (test_substitute ''100'')) = Inr None"
    by simp
  moreover have "replace_template 3 (Some [test_string1, ''inline'', test_name]) (test_substitute ''1'') [] False =
      Inr (''abc'' @ [BSL] @ ''ainlinexyz'', False)" by (simp add: run b)
  from result [OF _ _ _ this]
  have "performRegexReplace re (Some test_string1) (Some test_pattern1) (Some (test_substitute ''1'')) =
      Inr (Some (''abc'' @ [BSL] @ ''ainlinexyz''))"
    using n0(1) by (simp add: cstr_id am_strdup_Some)
  moreover have "replace_template 3 (Some [test_string1, ''inline'', test_name]) (test_substitute ''2'') [] False =
      Inr (''abc'' @ [BSL] @ ''a'' @ test_name @ ''xyz'', False)" by (simp add: run b l)
  from result [OF _ _ _ this]
  have "performRegexReplace re (Some test_string1) (Some test_pattern1) (Some (test_substitute ''2'')) =
      Inr (Some (''abc'' @ [BSL] @ ''a'' @ test_name @ ''xyz''))"
    using n0(2) by (simp add: cstr_id am_strdup_Some l)
  moreover have "performRegexReplace re (Some test_string1) (Some ''abc'') t = Inr None" for t
    using misses_groups [OF m] by (auto simp: performRegexReplace_def split: option.split)
  ultimately show ?thesis
    by (simp add: testRegexReplace_def n Let_def)
qed

end
