(* ===== verification/Am_List_Test.thy ===== *)
theory Am_List_Test
  imports Am_List
begin

text \<open>
  \<^verbatim>\<open>src/tests/list_test.c\<close>: the test of the list operations, on the store of \<open>Am_List\<close>.

  The data elements are the integers the program stores; \<open>None\<close> is an access to memory that is
  not there, or a failed \<open>assert\<close>.  The test passes for every list size.
\<close>

section \<open>Two lists in one store\<close>

definition two :: "'d heap \<Rightarrow> nat option \<Rightarrow> 'd list \<Rightarrow> nat option \<Rightarrow> 'd list \<Rightarrow> bool" where
  "two h p xs q ys \<longleftrightarrow> heap_ok h \<and> (\<exists>ns ms. chain h p ns \<and> chain h q ms \<and> addrs ns \<inter> addrs ms = {} \<and>
     map snd ns = xs \<and> map snd ms = ys)"

lemma twoI:
  "heap_ok h \<Longrightarrow> chain h p ns \<Longrightarrow> chain h q ms \<Longrightarrow> addrs ns \<inter> addrs ms = {} \<Longrightarrow>
   map snd ns = xs \<Longrightarrow> map snd ms = ys \<Longrightarrow> two h p xs q ys"
  by (auto simp: two_def)

lemma twoE:
  assumes "two h p xs q ys"
  obtains ns ms where "heap_ok h" "chain h p ns" "chain h q ms" "addrs ns \<inter> addrs ms = {}"
    "map snd ns = xs" "map snd ms = ys"
  using assms by (auto simp: two_def)

lemma two_sym: "two h p xs q ys \<longleftrightarrow> two h q ys p xs"
  by (auto simp: two_def)

lemma two_empty: "two empty_heap None [] None []"
  by (rule twoI [of _ _ "[]" _ "[]"]) simp_all

lemma two_count: "two h p xs q ys \<Longrightarrow> listCount h p = Some (length xs mod 2 ^ 32)"
  by (auto simp: two_def dest: listCount_spec)

lemma two_push:
  assumes "two h p xs q ys"
  shows "\<exists>p' h'. addItem (Some d) (Some p) h = Some (0, Some p', h') \<and> two h' p' (d # xs) q ys"
proof -
  obtain ns ms where t: "heap_ok h" "chain h p ns" "chain h q ms" "addrs ns \<inter> addrs ms = {}"
    "map snd ns = xs" "map snd ms = ys" using assms by (rule twoE)
  obtain h' where h: "addToHead (Some d) (Some p) h = Some (0, Some (Some (brk h)), h')"
    "chain h' (Some (brk h)) ((brk h, d) # ns)" "heap_ok h'" "off {brk h} h h'"
    by (rule addToHead_spec [OF t(2,1)])
  have f: "brk h \<notin> addrs ms" using heap_ok_fresh [OF t(1,3)] .
  have "chain h' q ms" by (rule off_lseg [OF h(4) t(3)]) (simp add: f)
  with h t f show ?thesis
    by (auto simp: addItem_def intro!: twoI [of h' _ "(brk h, d) # ns" q ms])
qed

lemma two_append:
  assumes "two h p xs q ys"
  shows "\<exists>q' h'. addToTail (Some d) (Some q) h = Some (0, Some q', h') \<and> two h' p xs q' (ys @ [d])"
proof -
  obtain ns ms where t: "heap_ok h" "chain h p ns" "chain h q ms" "addrs ns \<inter> addrs ms = {}"
    "map snd ns = xs" "map snd ms = ys" using assms by (rule twoE)
  obtain h' q' where h: "addToTail (Some d) (Some q) h = Some (0, Some q', h')"
    "chain h' q' (ms @ [(brk h, d)])" "heap_ok h'" "off (insert (brk h) (addrs ms)) h h'"
    by (rule addToTail_spec [OF t(3,1)])
  have f: "brk h \<notin> addrs ns" using heap_ok_fresh [OF t(1,2)] .
  have "chain h' p ns" by (rule off_lseg [OF h(4) t(2)]) (use f t(4) in auto)
  with h t f show ?thesis
    by (auto intro!: twoI [of h' p ns q' "ms @ [(brk h, d)]"])
qed

lemma two_reverse:
  assumes "two h p xs q ys"
  shows "\<exists>p' h'. reverseList p h = Some (p', h') \<and> two h' p' (rev xs) q ys"
proof -
  obtain ns ms where t: "heap_ok h" "chain h p ns" "chain h q ms" "addrs ns \<inter> addrs ms = {}"
    "map snd ns = xs" "map snd ms = ys" using assms by (rule twoE)
  obtain p' h' where h: "reverseList p h = Some (p', h')" "chain h' p' (rev ns)" "heap_ok h'"
    "off (addrs ns) h h'" by (rule reverseList_spec [OF t(2,1)])
  have "chain h' q ms" by (rule off_lseg [OF h(4) t(3)]) (use t(4) in auto)
  with h t show ?thesis by (auto simp: rev_map intro!: twoI [of h' p' "rev ns" q ms])
qed

lemma two_removeFirst:
  assumes "two h p (x # xs) q ys"
  shows "\<exists>p' h'. removeFirst p h = Some (p', h') \<and> two h' p' xs q ys"
proof -
  obtain ns0 ms where t: "heap_ok h" "chain h p ns0" "chain h q ms" "addrs ns0 \<inter> addrs ms = {}"
    "map snd ns0 = x # xs" "map snd ms = ys" using assms by (rule twoE)
  then obtain a ns where n: "ns0 = (a, x) # ns" "map snd ns = xs" by auto
  obtain p' h' where h: "removeFirst p h = Some (p', h')" "chain h' p' ns" "heap_ok h'" "off {a} h h'"
    by (rule removeFirst_spec [OF t(2) [unfolded n(1)] t(1)])
  have "chain h' q ms" by (rule off_lseg [OF h(4) t(3)]) (use t(4) n(1) in auto)
  with h t n show ?thesis by (auto intro!: twoI [of h' p' ns q ms])
qed

lemma two_removeLast:
  assumes "two h p (xs @ [x]) q ys" "xs \<noteq> []"
  shows "\<exists>h'. removeLast p h = Some h' \<and> two h' p xs q ys"
proof -
  obtain ns0 ms where t: "heap_ok h" "chain h p ns0" "chain h q ms" "addrs ns0 \<inter> addrs ms = {}"
    "map snd ns0 = xs @ [x]" "map snd ms = ys" using assms(1) by (rule twoE)
  from t(5) have "ns0 \<noteq> []" by auto
  then obtain ns b where "ns0 = ns @ [b]" by (metis rev_exhaust)
  with t(5) obtain a where n: "ns0 = ns @ [(a, x)]" "map snd ns = xs" by (cases b) auto
  have "ns \<noteq> []" using n(2) assms(2) by auto
  obtain h' where h: "removeLast p h = Some h'" "chain h' p ns" "heap_ok h'" "off (insert a (addrs ns)) h h'"
    by (rule removeLast_spec [OF t(2) [unfolded n(1)] \<open>ns \<noteq> []\<close> t(1)])
  have "chain h' q ms" by (rule off_lseg [OF h(4) t(3)]) (use t(4) n(1) in auto)
  with h t n show ?thesis by (auto intro!: twoI [of h' p ns q ms])
qed

lemma two_free:
  assumes "two h p xs q ys"
  shows "\<exists>h'. freeList p h = Some (None, h') \<and> two h' None [] q ys"
proof -
  obtain ns ms where t: "heap_ok h" "chain h p ns" "chain h q ms" "addrs ns \<inter> addrs ms = {}"
    "map snd ns = xs" "map snd ms = ys" using assms by (rule twoE)
  obtain h' where h: "freeList p h = Some (None, h')" "\<forall>a \<in> addrs ns. cells h' a = None"
    "off (addrs ns) h h'" "brk h' = brk h" using freeList_spec [OF t(2)] by blast
  have "heap_ok h'" using t(1) h(2-4) by (auto simp: heap_ok_def off_def)
  moreover have "chain h' q ms" by (rule off_lseg [OF h(3) t(3)]) (use t(4) in auto)
  ultimately show ?thesis using h(1) t(6) by (auto intro!: twoI [of h' None "[]" q ms])
qed

section \<open>The test\<close>

definition assert_true :: "bool \<Rightarrow> unit option" where
  "assert_true b = (if b then Some () else None)"

lemma assert_true_simps [simp]: "assert_true True = Some ()" "assert_true False = None"
  by (simp_all add: assert_true_def)

text \<open>\<^verbatim>\<open>list->data\<close>\<close>

definition head_data :: "'d heap \<Rightarrow> nat option \<Rightarrow> 'd option" where
  "head_data h p = (case p of None \<Rightarrow> None | Some a \<Rightarrow> map_option dat (cells h a))"

fun fill_loop :: "nat list \<Rightarrow> nat option \<Rightarrow> nat option \<Rightarrow> nat heap \<Rightarrow>
  (nat option \<times> nat option \<times> nat heap) option" where
  "fill_loop [] list list2 h = Some (list, list2, h)"
| "fill_loop (i # is) list list2 h = do {
     (r, _, h) \<leftarrow> addItem (Some i) None h;
     assert_true (r = - 1);
     (r, p, h) \<leftarrow> addItem (Some i) (Some list) h;
     assert_true (r = 0);
     (r, p2, h) \<leftarrow> addToTail (Some i) (Some list2) h;
     assert_true (r = 0);
     fill_loop is (the p) (the p2) h }"

partial_function (option) compare_loop :: "'d heap \<Rightarrow> nat option \<Rightarrow> nat option \<Rightarrow> unit option" where
  "compare_loop h tmp1 tmp2 =
     (case tmp1 of
        None \<Rightarrow> Some ()
      | Some a \<Rightarrow> do {
          n1 \<leftarrow> cells h a;
          b \<leftarrow> tmp2;
          n2 \<leftarrow> cells h b;
          assert_true (dat n1 = dat n2);
          compare_loop h (nxt n1) (nxt n2) })"

definition testIntegerList :: "nat \<Rightarrow> int option" where
  "testIntegerList LIST_SIZE = do {
     let h = empty_heap;
     c \<leftarrow> listCount h None;
     assert_true (c = 0);
     (r, _, h) \<leftarrow> addItem None None h;
     assert_true (r = - 1);
     (r, list, h) \<leftarrow> addItem None (Some None) h;
     assert_true (r = - 1);
     (list, list2, h) \<leftarrow> fill_loop [0..<LIST_SIZE] (the list) None h;
     c \<leftarrow> listCount h list;
     assert_true (c = LIST_SIZE);
     c \<leftarrow> listCount h list2;
     assert_true (c = LIST_SIZE);
     d \<leftarrow> head_data h list;
     assert_true (d = LIST_SIZE - 1);
     (list, h) \<leftarrow> reverseList list h;
     d \<leftarrow> head_data h list;
     assert_true (d = 0);
     c \<leftarrow> listCount h list;
     assert_true (c = LIST_SIZE);
     compare_loop h list list2;
     (list, h) \<leftarrow> removeFirst list h;
     d \<leftarrow> head_data h list;
     assert_true (d = 1);
     c \<leftarrow> listCount h list;
     assert_true (c = LIST_SIZE - 1);
     h \<leftarrow> removeLast list h;
     d \<leftarrow> head_data h list;
     assert_true (d = 1);
     c \<leftarrow> listCount h list;
     assert_true (c = LIST_SIZE - 2);
     (list, h) \<leftarrow> freeList list h;
     c \<leftarrow> listCount h list;
     assert_true (c = 0 \<and> list = None);
     (list2, h) \<leftarrow> freeList list2 h;
     c \<leftarrow> listCount h list2;
     assert_true (c = 0 \<and> list2 = None);
     Some 0 }"

lemma two_head: "two h p (x # xs) q ys \<Longrightarrow> head_data h p = Some x"
  by (auto simp: two_def head_data_def)

lemma fill_loop_two:
  "two h p xs q ys \<Longrightarrow> \<exists>p' q' h'. fill_loop is p q h = Some (p', q', h') \<and> two h' p' (rev is @ xs) q' (ys @ is)"
proof (induction "is" arbitrary: h p xs q ys)
  case Nil
  then show ?case by simp
next
  case (Cons i "is")
  obtain p1 h1 where 1: "addItem (Some i) (Some p) h = Some (0, Some p1, h1)" "two h1 p1 (i # xs) q ys"
    using two_push [OF Cons.prems] by blast
  obtain q2 h2 where 2: "addToTail (Some i) (Some q) h1 = Some (0, Some q2, h2)"
    "two h2 p1 (i # xs) q2 (ys @ [i])" using two_append [OF 1(2)] by blast
  from Cons.IH [OF 2(2)] 1 2 show ?case by (simp add: addItem_def addToHead_NULL)
qed

lemma compare_loop_chain:
  "chain h p ns \<Longrightarrow> chain h q ms \<Longrightarrow> map snd ns = map snd ms \<Longrightarrow> compare_loop h p q = Some ()"
proof (induction ns arbitrary: p q ms)
  case Nil
  then show ?case by (simp add: compare_loop.simps)
next
  case (Cons n ns)
  obtain a d where n: "n = (a, d)" by force
  with Cons.prems(3) obtain b ms' where m: "ms = (b, d) # ms'" "map snd ns = map snd ms'" by auto
  with Cons.prems(1,2) n Cons.IH show ?case by (auto simp: compare_loop.simps [of h "Some a"])
qed

lemma two_compare: "two h p xs q xs \<Longrightarrow> compare_loop h p q = Some ()"
  by (auto simp: two_def intro: compare_loop_chain)

text \<open>The second test, for any sequence of strings; \<^verbatim>\<open>rand_str\<close> makes them up.\<close>

fun add_loop :: "'d list \<Rightarrow> nat option \<Rightarrow> 'd heap \<Rightarrow> (nat option \<times> 'd heap) option" where
  "add_loop [] list h = Some (list, h)"
| "add_loop (str # strs) list h = do {
     (_, p, h) \<leftarrow> addItem (Some str) (Some list) h;
     add_loop strs (the p) h }"

definition testStringList :: "string list \<Rightarrow> int option" where
  "testStringList strs = do {
     let LIST_SIZE = length strs;
     let h = empty_heap;
     (list, h) \<leftarrow> freeList None h;
     (list, h) \<leftarrow> removeFirst list h;
     h \<leftarrow> removeLast list h;
     (list, h) \<leftarrow> add_loop strs list h;
     c \<leftarrow> listCount h list;
     assert_true (c = LIST_SIZE);
     (list, h) \<leftarrow> reverseList list h;
     c \<leftarrow> listCount h list;
     assert_true (c = LIST_SIZE);
     (list, h) \<leftarrow> removeFirst list h;
     c \<leftarrow> listCount h list;
     assert_true (c = LIST_SIZE - 1);
     (list, h) \<leftarrow> removeFirst list h;
     c \<leftarrow> listCount h list;
     assert_true (c = LIST_SIZE - 2);
     (list, h) \<leftarrow> reverseList list h;
     d \<leftarrow> head_data h list;
     assert_true (d = last strs);
     h \<leftarrow> removeLast list h;
     c \<leftarrow> listCount h list;
     assert_true (c = LIST_SIZE - 3);
     h \<leftarrow> removeLast list h;
     c \<leftarrow> listCount h list;
     assert_true (c = LIST_SIZE - 4);
     (list, h) \<leftarrow> freeList list h;
     c \<leftarrow> listCount h list;
     assert_true (c = 0);
     Some 0 }"

lemma add_loop_two:
  "two h p xs q ys \<Longrightarrow> \<exists>p' h'. add_loop strs p h = Some (p', h') \<and> two h' p' (rev strs @ xs) q ys"
proof (induction strs arbitrary: h p xs)
  case Nil
  then show ?case by simp
next
  case (Cons s strs)
  obtain p1 h1 where 1: "addItem (Some s) (Some p) h = Some (0, Some p1, h1)" "two h1 p1 (s # xs) q ys"
    using two_push [OF Cons.prems] by blast
  from Cons.IH [OF 1(2)] 1 show ?case by simp
qed

text \<open>The lists the test goes through, for strings \<open>a\<close>, \<open>b\<close>, at least three more.\<close>

lemma testStringList_ok:
  assumes "strs = a # b # c # d # es @ [z]" "length strs < 2 ^ 32"
  shows "testStringList strs = Some 0"
proof -
  let ?t = "empty_heap :: string heap"
  have e: "freeList None ?t = Some (None, ?t)" "removeFirst None ?t = Some (None, ?t)"
    "removeLast None ?t = Some ?t"
    by (simp_all add: freeList.simps removeFirst_Nil removeLast_Nil)
  obtain p1 h1 where 1: "add_loop strs None ?t = Some (p1, h1)" "two h1 p1 (rev strs) None []"
    using add_loop_two [OF two_empty, of strs] by auto
  obtain p2 h2 where 2: "reverseList p1 h1 = Some (p2, h2)" "two h2 p2 strs None []"
    using two_reverse [OF 1(2)] by auto
  obtain p3 h3 where 3: "removeFirst p2 h2 = Some (p3, h3)" "two h3 p3 (b # c # d # es @ [z]) None []"
    using two_removeFirst [OF 2(2) [unfolded assms(1)]] by blast
  obtain p4 h4 where 4: "removeFirst p3 h3 = Some (p4, h4)" "two h4 p4 (c # d # es @ [z]) None []"
    using two_removeFirst [OF 3(2)] by blast
  obtain p5 h5 where 5: "reverseList p4 h4 = Some (p5, h5)" "two h5 p5 (z # rev es @ [d] @ [c]) None []"
    using two_reverse [OF 4(2)] by auto
  obtain h6 where 6: "removeLast p5 h5 = Some h6" "two h6 p5 (z # rev es @ [d]) None []"
    using two_removeLast [of h5 p5 "z # rev es @ [d]" c] 5(2) by auto
  obtain h7 where 7: "removeLast p5 h6 = Some h7" "two h7 p5 (z # rev es) None []"
    using two_removeLast [of h6 p5 "z # rev es" d] 6(2) by auto
  obtain h8 where 8: "freeList p5 h7 = Some (None, h8)" using two_free [OF 7(2)] by blast
  have "listCount h1 p1 = Some (length strs)" "listCount h2 p2 = Some (length strs)"
    "listCount h3 p3 = Some (length strs - 1)" "listCount h4 p4 = Some (length strs - 2)"
    "listCount h6 p5 = Some (length strs - 3)" "listCount h7 p5 = Some (length strs - 4)"
    "head_data h5 p5 = Some (last strs)" "listCount h8 None = Some 0"
    using two_count [OF 1(2)] two_count [OF 2(2)] two_count [OF 3(2)] two_count [OF 4(2)]
      two_count [OF 6(2)] two_count [OF 7(2)] two_head [OF 5(2)] listCount_spec [of h8 None "[]"] assms
    by simp_all
  with e 1 2 3 4 5 6 7 8 show ?thesis by (simp add: testStringList_def Let_def)
qed

section \<open>Property\<close>

text \<open>The repository's list test passes on the model of the list functions for every list size
  from 3 on (the test takes 100): filling at the head and at the tail, counting, reversing,
  comparing, removing at both ends and freeing give what the test asserts.\<close>

theorem testIntegerList_passes:
  assumes "3 \<le> n" "n < 2 ^ 32"
  shows "testIntegerList n = Some 0"
proof -
  have n0: "[0..<n] = 0 # [1..<n]" "[1..<n] = 1 # [2..<n]" using assms(1) upt_conv_Cons [of 0 n] upt_conv_Cons [of 1 n] by (simp_all add: numeral_2_eq_2)
  have nl: "[1..<n] = [1..<n - 1] @ [n - 1]" "[0..<n] = [0..<n - 1] @ [n - 1]"
    using assms(1) upt_Suc_append [of 1 "n - 1"] upt_Suc_append [of 0 "n - 1"] by simp_all
  have n1: "[1..<n - 1] = 1 # [2..<n - 1]" using assms(1) upt_conv_Cons [of 1 "n - 1"] by (simp add: numeral_2_eq_2)
  obtain p q h where 1: "fill_loop [0..<n] None None empty_heap = Some (p, q, h)" "two h p (rev [0..<n]) q [0..<n]"
    using fill_loop_two [OF two_empty, of "[0..<n]"] by auto
  have c1: "listCount h p = Some n" "listCount h q = Some n" "head_data h p = Some (n - 1)"
    using two_count [OF 1(2)] two_count [of h q "[0..<n]" p] 1(2) assms(2)
      two_head [OF 1(2) [unfolded nl(2) rev.simps rev_append, simplified]]
    by (simp_all add: two_sym [of h q])
  obtain p2 h2 where 2: "reverseList p h = Some (p2, h2)" "two h2 p2 [0..<n] q [0..<n]"
    using two_reverse [OF 1(2)] by auto
  have c2: "listCount h2 p2 = Some n" "head_data h2 p2 = Some 0" "compare_loop h2 p2 q = Some ()"
    using two_count [OF 2(2)] two_head [OF 2(2) [unfolded n0(1)]] two_compare [OF 2(2)] assms(2) by simp_all
  obtain p3 h3 where 3: "removeFirst p2 h2 = Some (p3, h3)" "two h3 p3 [1..<n] q [0..<n]"
    using two_removeFirst [of h2 p2 0 "[1..<n]" q "[0..<n]"] 2(2) unfolding n0(1) by blast
  have c3: "listCount h3 p3 = Some (n - 1)" "head_data h3 p3 = Some 1"
    using two_count [OF 3(2)] two_head [OF 3(2) [unfolded n0(2)]] assms by simp_all
  have "[1..<n - 1] \<noteq> []" unfolding n1 by (rule list.distinct(2))
  with two_removeLast [of h3 p3 "[1..<n - 1]" "n - 1" q "[0..<n]"] 3(2)
  obtain h4 where 4: "removeLast p3 h3 = Some h4" "two h4 p3 [1..<n - 1] q [0..<n]"
    unfolding nl(1) by blast
  have "length [1..<n - 1] mod 2 ^ 32 = n - 2" using assms by simp
  with two_count [OF 4(2)] have "listCount h4 p3 = Some (n - 2)" by (simp only:)
  moreover have "head_data h4 p3 = Some 1" by (rule two_head [OF 4(2) [unfolded n1]])
  ultimately have c4: "listCount h4 p3 = Some (n - 2)" "head_data h4 p3 = Some 1" by simp_all
  obtain h5 where 5: "freeList p3 h4 = Some (None, h5)" "two h5 None [] q [0..<n]"
    using two_free [OF 4(2)] by blast
  obtain h6 where 6: "freeList q h5 = Some (None, h6)"
    using two_free [of h5 q "[0..<n]" None "[]"] 5(2) by (auto simp: two_sym [of h5 q])
  have c0: "listCount h' None = Some 0" for h' :: "nat heap"
    using listCount_spec [of h' None "[]"] by simp
  have a: "addItem None None empty_heap = Some (- 1, None, empty_heap)"
    "addItem None (Some None) empty_heap = Some (- 1, Some None, empty_heap)"
    by (simp_all add: addItem_def addToHead_NULL)
  show ?thesis
    unfolding testIntegerList_def Let_def
    by (simp add: a c0 1(1) c1 2(1) c2 3(1) c3 4(1) c4 5(1) 6)
qed

theorem testIntegerList_passes_witness: "testIntegerList 100 = Some 0"
  by (rule testIntegerList_passes) simp_all

end
