(* ===== verification/Am_Memory.thy ===== *)
theory Am_Memory
  imports Am_Utils "HOL-Library.Multiset"
begin

text \<open>
  \<^verbatim>\<open>src/utils.c\<close> 45--117, the allocator: \<open>am_malloc\<close>, \<open>am_realloc\<close>, \<open>am_free\<close>, \<open>am_strdup\<close> and
  \<open>am_strndup\<close>, seen as operations on a ledger of the objects that are live.

  An object is an address and what must release it: a block of the heap, a handle of libcurl or a
  header list of libcurl.  A pointer is NULL or an address together with what is stored there, so
  that \<open>val\<close> forgets the address.  Releasing what is not live is the fault \<open>BadFree\<close>; allocation
  succeeds, and no address is ever used twice, so every second release and every release of an
  old pointer is a fault.  The judgement \<open>runs\<close> compares an operation with a computation on plain
  values: same fault, or same result, with every live object accounted for.
\<close>

section \<open>The ledger\<close>

datatype kind = Block | CurlHandle | HeaderList

type_synonym objects = "(nat \<times> kind) multiset"

record ledger =
  live :: objects
  fresh :: nat

type_synonym 'a op = "ledger \<Rightarrow> ('a \<times> ledger) res"
type_synonym 'v ptr = "(nat \<times> 'v) option"

abbreviation val :: "'v ptr \<Rightarrow> 'v option" where
  "val p \<equiv> map_option snd p"

definition returnM :: "'a \<Rightarrow> 'a op" where
  "returnM x = (\<lambda>L. Inr (x, L))"

definition liftM :: "'a res \<Rightarrow> 'a op" where
  "liftM r = (\<lambda>L. bindR r (\<lambda>x. Inr (x, L)))"

definition bindM :: "'a op \<Rightarrow> ('a \<Rightarrow> 'b op) \<Rightarrow> 'b op" where
  "bindM m f = (\<lambda>L. bindR (m L) (\<lambda>(x, L). f x L))"

lemma returnM_bind [simp]: "bindM (returnM x) f = f x"
  by (simp add: bindM_def returnM_def)

lemma bindR_Inr [simp]: "bindR m Inr = m"
  by (cases m) simp_all

lemma bindM_assoc: "bindM (bindM m f) g = bindM m (\<lambda>x. bindM (f x) g)"
  by (auto simp: bindM_def bindR_assoc fun_eq_iff intro!: bindR_cong)

definition acquire :: "kind \<Rightarrow> nat op" where
  "acquire k = (\<lambda>L. Inr (fresh L, L\<lparr>live := add_mset (fresh L, k) (live L), fresh := Suc (fresh L)\<rparr>))"

definition release :: "kind \<Rightarrow> 'v ptr \<Rightarrow> unit op" where
  "release k p = (\<lambda>L. case p of
     None \<Rightarrow> Inr ((), L)
   | Some (a, _) \<Rightarrow>
       if (a, k) \<in># live L then Inr ((), L\<lparr>live := live L - {#(a, k)#}\<rparr>) else Inl BadFree)"

section \<open>The allocator\<close>

definition am_malloc :: "nat \<Rightarrow> nat option op" where
  "am_malloc sz = (if sz > 0 then bindM (acquire Block) (\<lambda>a. returnM (Some a)) else returnM None)"

definition am_free :: "'v ptr \<Rightarrow> unit op" where
  "am_free p = release Block p"

text \<open>\<open>realloc\<close> may move the block; the model always moves it.\<close>

definition am_realloc :: "'v ptr \<Rightarrow> nat \<Rightarrow> nat option op" where
  "am_realloc p sz = (if p = None then am_malloc sz else bindM (am_free p) (\<lambda>_. am_malloc sz))"

text \<open>\<open>am_malloc\<close> of a structure or of the copy of a value that is there.\<close>

definition new_block :: "nat op" where
  "new_block = acquire Block"

definition store :: "'v option \<Rightarrow> 'v ptr op" where
  "store v = (case v of None \<Rightarrow> returnM None | Some t \<Rightarrow> bindM new_block (\<lambda>a. returnM (Some (a, t))))"

definition am_strdup_mem :: "string option \<Rightarrow> string ptr op" where
  "am_strdup_mem str = store (am_strdup str)"

definition am_strndup_mem :: "string option \<Rightarrow> nat \<Rightarrow> string ptr op" where
  "am_strndup_mem str len = store (am_strndup str len)"

section \<open>Ownership\<close>

definition owned :: "kind \<Rightarrow> 'v ptr \<Rightarrow> objects" where
  "owned k p = (case p of None \<Rightarrow> {#} | Some (a, _) \<Rightarrow> {#(a, k)#})"

lemma owned_simps [simp]: "owned k None = {#}" "owned k (Some (a, v)) = {#(a, k)#}"
  by (simp_all add: owned_def)

lemma owned_map [simp]: "owned k (map_option (\<lambda>(a, v). (a, f v)) p) = owned k p"
  by (auto simp: owned_def split: option.splits)

text \<open>Objects that nothing points to any more, by their kinds.\<close>

definition lost :: "kind multiset \<Rightarrow> objects \<Rightarrow> bool" where
  "lost K X \<longleftrightarrow> image_mset snd X = K"

lemma lost_0 [simp]: "lost {#} X \<longleftrightarrow> X = {#}"
  by (simp add: lost_def)

lemma lost_add: "lost K X \<Longrightarrow> lost M Y \<Longrightarrow> lost (K + M) (X + Y)"
  by (simp add: lost_def)

lemma lost_owned: "lost (if p = None then {#} else {#k#}) (owned k p)"
  by (auto simp: lost_def owned_def split: option.splits)

text \<open>
  \<open>runs P m v e own K\<close>: started with the objects \<open>P\<close> and any others, \<open>m\<close> faults where \<open>v\<close> faults,
  in the same way; otherwise its result stands (under \<open>e\<close>) for that of \<open>v\<close>, and of \<open>P\<close> there
  remain the objects of the result and, for each kind in \<open>K\<close>, one that nothing points to.
\<close>

definition accounts ::
  "'b res \<Rightarrow> ('x \<Rightarrow> 'b) \<Rightarrow> ('x \<Rightarrow> objects) \<Rightarrow> kind multiset \<Rightarrow> objects \<Rightarrow> ('x \<times> ledger) res \<Rightarrow> bool" where
  "accounts v e own K F r \<longleftrightarrow>
     (case v of
        Inl f \<Rightarrow> r = Inl f
      | Inr b \<Rightarrow> \<exists>x L X. r = Inr (x, L) \<and> e x = b \<and> lost K X \<and> live L = own x + X + F)"

definition runs ::
  "objects \<Rightarrow> 'x op \<Rightarrow> 'b res \<Rightarrow> ('x \<Rightarrow> 'b) \<Rightarrow> ('x \<Rightarrow> objects) \<Rightarrow> kind multiset \<Rightarrow> bool" where
  "runs P m v e own K \<longleftrightarrow> (\<forall>L F. live L = P + F \<longrightarrow> accounts v e own K F (m L))"

lemma accounts_Inl [simp]: "accounts (Inl f) e own K F r \<longleftrightarrow> r = Inl f"
  by (simp add: accounts_def)

lemma accountsI:
  "e x = b \<Longrightarrow> lost K X \<Longrightarrow> live L = own x + X + F \<Longrightarrow> accounts (Inr b) e own K F (Inr (x, L))"
  by (auto simp: accounts_def)

lemma accountsE:
  assumes "accounts (Inr b) e own K F r"
  obtains x L X where "r = Inr (x, L)" "e x = b" "lost K X" "live L = own x + X + F"
  using assms by (auto simp: accounts_def)

lemma accounts_more:
  assumes "accounts v e own K (Y + F) r" "lost M Y"
  shows "accounts v e own (K + M) F r"
proof (cases v)
  case (Inr b)
  with assms(1) obtain x L X where
    1: "r = Inr (x, L)" "e x = b" "lost K X" "live L = own x + X + (Y + F)" by (auto elim: accountsE)
  then have "live L = own x + (X + Y) + F" by (simp add: ac_simps)
  with 1 lost_add [OF 1(3) assms(2)] Inr show ?thesis by (auto intro: accountsI)
qed (use assms in simp)

lemma runsI: "(\<And>L F. live L = P + F \<Longrightarrow> accounts v e own K F (m L)) \<Longrightarrow> runs P m v e own K"
  by (simp add: runs_def)

lemma runsD: "runs P m v e own K \<Longrightarrow> live L = P + F \<Longrightarrow> accounts v e own K F (m L)"
  by (simp add: runs_def)

lemma runs_return: "e x = b \<Longrightarrow> own x = P \<Longrightarrow> runs P (returnM x) (Inr b) e own 0"
  by (auto simp: runs_def returnM_def intro!: accountsI)

lemma runs_fault: "runs P (liftM (Inl f)) (Inl f) e own K"
  by (simp add: runs_def liftM_def)

lemma runs_lift: "runs {#} (liftM r) r id (\<lambda>_. {#}) 0"
  by (cases r) (auto simp: runs_def liftM_def intro!: accountsI)

text \<open>Sequential composition; the second operation may use objects the first one leaves alone.\<close>

lemma runs_bind:
  assumes "runs P m v e own K" "P' = P + Q"
    and "\<And>x. v = Inr (e x) \<Longrightarrow> runs (own x + Q) (f x) (g (e x)) e' own' K'"
  shows "runs P' (bindM m f) (bindR v g) e' own' (K' + K)"
proof (rule runsI)
  fix L :: ledger and F
  assume "live L = P' + F"
  with assms(2) have "live L = P + (Q + F)" by (simp add: ac_simps)
  from runsD [OF assms(1) this] have a: "accounts v e own K (Q + F) (m L)" .
  show "accounts (bindR v g) e' own' (K' + K) F (bindM m f L)"
  proof (cases v)
    case (Inr b)
    with a obtain x L1 X where
      1: "m L = Inr (x, L1)" "e x = b" "lost K X" "live L1 = own x + X + (Q + F)"
      by (auto elim: accountsE)
    then have "live L1 = own x + Q + (X + F)" by (simp add: ac_simps)
    moreover have "v = Inr (e x)" using 1 Inr by simp
    ultimately have "accounts (g (e x)) e' own' K' (X + F) (f x L1)" using runsD [OF assms(3)] by blast
    from accounts_more [OF this 1(3)] show ?thesis using 1 Inr by (simp add: bindM_def)
  qed (use a in \<open>simp add: bindM_def\<close>)
qed

lemma runs_then:
  assumes "runs P m v e own K" "\<And>x. v = Inr (e x) \<Longrightarrow> runs (own x) (f x) (g (e x)) e' own' 0"
  shows "runs P (bindM m f) (bindR v g) e' own' K"
  using runs_bind [OF assms(1), of P "{#}" f g e' own' 0] assms(2) by simp

text \<open>Steps that the plain computation does not have.\<close>

lemma runs_step:
  assumes "\<And>L F. live L = P + F \<Longrightarrow> \<exists>x L'. m L = Inr (x, L') \<and> live L' = R x + F \<and> ok x"
    and "\<And>x. ok x \<Longrightarrow> runs (R x + Q) (f x) v e own K" "P' = P + Q"
  shows "runs P' (bindM m f) v e own K"
proof (rule runsI)
  fix L :: ledger and F
  assume "live L = P' + F"
  then have "live L = P + (Q + F)" using assms(3) by (simp add: ac_simps)
  from assms(1) [OF this] obtain x L1 where
    1: "m L = Inr (x, L1)" "live L1 = R x + (Q + F)" "ok x" by blast
  then have "live L1 = (R x + Q) + F" by (simp add: ac_simps)
  from runsD [OF assms(2) [OF 1(3)] this] 1(1)
  show "accounts v e own K F (bindM m f L)" by (simp add: bindM_def)
qed

lemma runs_acquire:
  assumes "\<And>a. runs ({#(a, k)#} + P) (f a) v e own K"
  shows "runs P (bindM (acquire k) f) v e own K"
  by (rule runs_step [where P = "{#}" and Q = P and R = "\<lambda>a. {#(a, k)#}" and ok = "\<lambda>_. True"])
    (use assms in \<open>auto simp: acquire_def\<close>)

lemmas runs_new = runs_acquire [of Block, folded new_block_def]

lemma runs_store:
  assumes "\<And>p. val p = t \<Longrightarrow> runs (owned Block p + P) (f p) v e own K"
  shows "runs P (bindM (store t) f) v e own K"
  by (rule runs_step [where P = "{#}" and Q = P and R = "owned Block" and ok = "\<lambda>p. val p = t"])
    (use assms in \<open>auto simp: store_def returnM_def bindM_def new_block_def acquire_def split: option.split\<close>)

lemma runs_malloc:
  assumes "0 < sz" "\<And>a. runs ({#(a, Block)#} + P) (f (Some a)) v e own K"
  shows "runs P (bindM (am_malloc sz) f) v e own K"
  by (rule runs_step [where P = "{#}" and Q = P and R = "\<lambda>p. {#(the p, Block)#}" and ok = "\<lambda>p. p \<noteq> None"])
    (use assms in \<open>auto simp: am_malloc_def bindM_def returnM_def acquire_def\<close>)

lemma runs_realloc:
  assumes "0 < sz" "\<And>a. runs ({#(a, Block)#} + Q) (f (Some a)) v e own K" "P = owned Block p + Q"
  shows "runs P (bindM (am_realloc p sz) f) v e own K"
  by (rule runs_step [where P = "owned Block p" and Q = Q and R = "\<lambda>p. {#(the p, Block)#}" and
        ok = "\<lambda>p. p \<noteq> None"])
    (use assms in \<open>auto simp: am_realloc_def am_malloc_def am_free_def release_def bindM_def returnM_def
       acquire_def split: option.split\<close>)

text \<open>Weakening: objects that are merely kept, and objects that are given up.\<close>

lemma runs_forget:
  assumes "runs P m v e own K" "lost M Y" "P' = P + Y"
  shows "runs P' m v e own (K + M)"
proof (rule runsI)
  fix L :: ledger and F
  assume "live L = P' + F"
  then have "live L = P + (Y + F)" using assms(3) by (simp add: ac_simps)
  from runsD [OF assms(1) this] assms(2) show "accounts v e own (K + M) F (m L)"
    by (rule accounts_more)
qed

section \<open>What a release promises\<close>

text \<open>A kind of object with its release function: the release succeeds when the object is owned, and
  takes away exactly what it owns.\<close>

locale resource =
  fixes own :: "'a \<Rightarrow> objects" and free :: "'a \<Rightarrow> unit op"
  assumes free_owned: "live L = own x + F \<Longrightarrow> \<exists>L'. free x L = Inr ((), L') \<and> live L' = F"
begin

lemma runs_free:
  assumes "runs Q (f ()) v e own' K" "P = own x + Q"
  shows "runs P (bindM (free x) f) v e own' K"
  by (rule runs_step [where P = "own x" and R = "\<lambda>_. {#}" and Q = Q and ok = "\<lambda>_. True"])
    (use assms free_owned in \<open>auto simp: bindM_def\<close>)

lemma frees: "runs (own x) (free x) (Inr ()) (\<lambda>_. ()) (\<lambda>_. {#}) 0"
  using free_owned [where F = F for F] by (fastforce simp: runs_def intro!: accountsI)

end

interpretation block: resource "owned Block" am_free
  by unfold_locales (auto simp: am_free_def release_def owned_def split: option.splits)

text \<open>An address that is not live cannot be released, whatever is left of the pointer.\<close>

lemma free_dead: "(a, Block) \<notin># live L \<Longrightarrow> am_free (Some (a, v)) L = Inl BadFree"
  by (simp add: am_free_def release_def)

lemma free_twice:
  assumes "live L = owned Block p + F" "p = Some (a, v)" "(a, Block) \<notin># F"
  shows "bindM (am_free p) (\<lambda>_. am_free p) L = Inl BadFree"
  using assms by (simp add: bindM_def am_free_def release_def)

end
