(* ===== verification/Am_Web_Memory.thy ===== *)
theory Am_Web_Memory
  imports Am_Memory Am_Web
begin

text \<open>
  \<^verbatim>\<open>src/web.c\<close> again, with its objects on the ledger of \<open>Am_Memory\<close>: every structure, string, buffer,
  handle and header list has an address, and every \<open>am_free\<close>, \<open>am_realloc\<close> and clean-up of the
  source is an operation.  Each function is proved to compute what its counterpart of \<open>Am_Web\<close>
  computes, never to release what is not live, and to leave behind only what its result owns.
\<close>

section \<open>Data\<close>

record mHTTPData =
  mh_self :: nat
  mh_data :: "char option list ptr"
  mh_size :: nat
  mh_pos :: nat

record mWebData =
  mw_self :: nat
  mw_url :: "string ptr"
  mw_length :: int
  mw_name :: "string ptr"   \<comment> \<open>\<open>content_filename\<close>\<close>
  mw_resp :: mHTTPData

record mHTTPResponse =
  mr_self :: nat
  mr_data :: "char list ptr"
  mr_name :: "string ptr"
  mr_size :: nat
  mr_code :: int

record statics =
  ms_session :: "string ptr"   \<comment> \<open>\<open>gSessionID\<close>\<close>
  ms_move :: bool
  ms_init :: bool

text \<open>What remains without the addresses, and what each object owns.\<close>

definition http_of :: "mHTTPData \<Rightarrow> HTTPData" where
  "http_of r = \<lparr>hd_data = val (mh_data r), hd_size = mh_size r, hd_pos = mh_pos r\<rparr>"

definition web_of :: "mWebData \<Rightarrow> WebData" where
  "web_of d = \<lparr>w_url = val (mw_url d), w_length = mw_length d, w_filename = val (mw_name d),
     w_resp = http_of (mw_resp d)\<rparr>"

definition response_of :: "mHTTPResponse \<Rightarrow> HTTPResponse" where
  "response_of r = \<lparr>hr_data = val (mr_data r), hr_filename = val (mr_name r), hr_size = mr_size r,
     hr_code = mr_code r\<rparr>"

definition statics_of :: "statics \<Rightarrow> web" where
  "statics_of w = \<lparr>gSessionID = val (ms_session w), isMoveHeader = ms_move w,
     gbGlobalInitDone = ms_init w\<rparr>"

definition own_http :: "mHTTPData \<Rightarrow> objects" where
  "own_http r = owned Block (mh_data r) + {#(mh_self r, Block)#}"

definition own_web :: "mWebData \<Rightarrow> objects" where
  "own_web d = owned Block (mw_url d) + owned Block (mw_name d) + own_http (mw_resp d) +
     {#(mw_self d, Block)#}"

definition own_response :: "mHTTPResponse option \<Rightarrow> objects" where
  "own_response p =
     (case p of
        None \<Rightarrow> {#}
      | Some r \<Rightarrow> owned Block (mr_data r) + owned Block (mr_name r) + {#(mr_self r, Block)#})"

definition own_statics :: "statics \<Rightarrow> objects" where
  "own_statics w = owned Block (ms_session w)"

section \<open>Constructors and destructors\<close>

definition HTTPData_new_mem :: "mHTTPData op" where
  "HTTPData_new_mem =
     bindM new_block (\<lambda>a. returnM \<lparr>mh_self = a, mh_data = None, mh_size = 0, mh_pos = 0\<rparr>)"

definition HTTPData_free :: "mHTTPData \<Rightarrow> unit op" where
  "HTTPData_free r = bindM (am_free (mh_data r)) (\<lambda>_. am_free (Some (mh_self r, ())))"

definition WebData_free :: "mWebData \<Rightarrow> unit op" where
  "WebData_free d =
     bindM (am_free (mw_url d)) (\<lambda>_.
     bindM (am_free (mw_name d)) (\<lambda>_.
     bindM (HTTPData_free (mw_resp d)) (\<lambda>_. am_free (Some (mw_self d, ())))))"

definition WebData_new_mem :: "string option \<Rightarrow> mWebData op" where
  "WebData_new_mem url =
     bindM new_block (\<lambda>a.
     bindM (am_strdup_mem url) (\<lambda>u.
     bindM HTTPData_new_mem (\<lambda>r.
     returnM \<lparr>mw_self = a, mw_url = u, mw_length = wrap_u 64 (- 1), mw_name = None, mw_resp = r\<rparr>)))"

definition WebData_clear_mem :: "mWebData \<Rightarrow> mWebData op" where
  "WebData_clear_mem d =
     bindM (am_free (mw_name d)) (\<lambda>_.
     bindM (am_free (mh_data (mw_resp d))) (\<lambda>_.
     returnM (d\<lparr>mw_name := None,
       mw_resp := (mw_resp d)\<lparr>mh_data := None, mh_size := 0, mh_pos := 0\<rparr>\<rparr>)))"

definition HTTPResponse_new_mem :: "mHTTPResponse op" where
  "HTTPResponse_new_mem = bindM new_block (\<lambda>a.
     returnM \<lparr>mr_self = a, mr_data = None, mr_name = None, mr_size = 0, mr_code = 0\<rparr>)"

definition HTTPResponse_free :: "mHTTPResponse option \<Rightarrow> unit op" where
  "HTTPResponse_free p =
     (case p of
        None \<Rightarrow> returnM ()
      | Some r \<Rightarrow>
          bindM (am_free (mr_data r)) (\<lambda>_.
          bindM (am_free (mr_name r)) (\<lambda>_. am_free (Some (mr_self r, ())))))"

definition SessionID_free_mem :: "statics \<Rightarrow> statics op" where
  "SessionID_free_mem w = bindM (am_free (ms_session w)) (\<lambda>_. returnM (w\<lparr>ms_session := None\<rparr>))"

definition closeCURLSession :: "curl ptr \<Rightarrow> unit op" where
  "closeCURLSession c = release CurlHandle c"

definition curl_slist_free_all :: "unit ptr \<Rightarrow> unit op" where
  "curl_slist_free_all hs = release HeaderList hs"

definition am_curl_init_mem ::
  "'w curl_lib \<Rightarrow> string option \<Rightarrow> bool \<Rightarrow> 'w \<Rightarrow> curl ptr op" where
  "am_curl_init_mem lib auth isPost wd =
     (case am_curl_init lib auth isPost wd of
        None \<Rightarrow> returnM None
      | Some c \<Rightarrow> bindM (acquire CurlHandle) (\<lambda>a. returnM (Some (a, c))))"

section \<open>Callbacks\<close>

definition announce_length_mem :: "int \<Rightarrow> mWebData \<Rightarrow> mWebData op" where
  "announce_length_mem n d =
     (if n + 1 \<ge> 2 ^ 31 then liftM (Inl IntOverflow)
      else let r = mw_resp d; sz = nat n + 1
           in bindM (am_realloc (mh_data r) sz) (\<lambda>p.
                returnM (d\<lparr>mw_length := n,
                  mw_resp := r\<lparr>mh_size := sz,
                    mh_data := map_option (\<lambda>a. (a, resize sz (val (mh_data r)))) p\<rparr>\<rparr>)))"

definition getRegExMatch_mem ::
  "pcre \<Rightarrow> string option \<Rightarrow> string option \<Rightarrow> nat \<Rightarrow> string ptr op" where
  "getRegExMatch_mem re pattern str which = bindM (liftM (getRegExMatch re pattern str which)) store"

text \<open>The line with the length: the text of the number is freed at the end.\<close>

definition length_header ::
  "pcre \<Rightarrow> string \<Rightarrow> bool \<Rightarrow> mWebData \<times> statics \<Rightarrow> (mWebData \<times> statics) op" where
  "length_header re line wanted st =
     (case st of (d, w) \<Rightarrow>
        bindM (getRegExMatch_mem re (Some length_regex) (Some line) 1) (\<lambda>tmp.
          case tmp of
            None \<Rightarrow> returnM (d, w)
          | Some (_, t) \<Rightarrow>
              bindM (if 0 < atoi t \<and> wanted then announce_length_mem (atoi t) d else returnM d) (\<lambda>d.
              bindM (am_free tmp) (\<lambda>_. returnM (d, w)))))"

definition write_header_callback_mem ::
  "pcre \<Rightarrow> string \<Rightarrow> mWebData \<times> statics \<Rightarrow> (mWebData \<times> statics) op" where
  "write_header_callback_mem re line st =
     (case st of (d, w) \<Rightarrow>
       (if starts_with ''Location:'' line then
          (if mh_data (mw_resp d) \<noteq> None then
             bindM (am_free (mh_data (mw_resp d))) (\<lambda>_.
               returnM (d\<lparr>mw_length := 0, mw_resp := (mw_resp d)\<lparr>mh_data := None, mh_size := 0\<rparr>\<rparr>,
                 w\<lparr>ms_move := True\<rparr>))
           else returnM (d, w\<lparr>ms_move := True\<rparr>))
        else if starts_with ''Content-Length:'' line then length_header re line (\<not> ms_move w) (d, w)
        else if 19 \<le> length line \<and>
             map tolower (take 20 line) = map tolower ''Content-Disposition:'' then
          bindM (getRegExMatch_mem re (Some filename_regex) (Some line) 2) (\<lambda>filename.
            returnM (if filename \<noteq> None then d\<lparr>mw_name := filename\<rparr> else d, w))
        else if starts_with [CR, NL] line then returnM (d, w\<lparr>ms_move := False\<rparr>)
        else returnM (d, w)))"

definition parse_Transmission_response_mem ::
  "pcre \<Rightarrow> string \<Rightarrow> mWebData \<times> statics \<Rightarrow> (mWebData \<times> statics) op" where
  "parse_Transmission_response_mem re line st =
     (case st of (d, w) \<Rightarrow>
       (if starts_with session_key line then
          (let begin = drop (length session_key) line;
               n = length (takeWhile (\<lambda>c. \<not> isspace c) begin)
           in if n = length begin then liftM (Inl OutOfBounds)
              else bindM (am_free (ms_session w)) (\<lambda>_.
                   bindM (am_strndup_mem (Some begin) n) (\<lambda>s. returnM (d, w\<lparr>ms_session := s\<rparr>))))
        else if starts_with ''Content-Length:'' line then length_header re line True (d, w)
        else returnM (d, w)))"

definition ensure_room_mem :: "nat \<Rightarrow> mHTTPData \<Rightarrow> mHTTPData op" where
  "ensure_room_mem need r =
     bindM (if mh_data r = None
            then bindM (am_malloc DATA_BUFFER_SIZE) (\<lambda>p.
                   returnM (r\<lparr>mh_size := DATA_BUFFER_SIZE,
                     mh_data := map_option (\<lambda>a. (a, replicate DATA_BUFFER_SIZE None)) p\<rparr>))
            else returnM r)
       (\<lambda>r. if need > mh_size r then
              (case double_size (mh_size r) need of
                 None \<Rightarrow> liftM (Inl Hang)
               | Some n \<Rightarrow>
                   bindM (am_realloc (mh_data r) n) (\<lambda>p.
                     returnM (r\<lparr>mh_size := n,
                       mh_data := map_option (\<lambda>a. (a, resize n (val (mh_data r)))) p\<rparr>)))
            else returnM r)"

definition write_data_callback_mem :: "char list \<Rightarrow> mWebData \<Rightarrow> mWebData op" where
  "write_data_callback_mem ptr d =
     (let line_len = length ptr; pos = mh_pos (mw_resp d); need = pos + line_len + 1
      in bindM (ensure_room_mem need (mw_resp d)) (\<lambda>r.
           case mh_data r of
             None \<Rightarrow> returnM (d\<lparr>mw_resp := r\<rparr>)
           | Some (a, cells) \<Rightarrow>
               (if need > length cells then liftM (Inl BufferOverflow)
                else returnM (d\<lparr>mw_resp :=
                       r\<lparr>mh_data := Some (a, take pos cells @ map Some ptr @ [Some NUL] @ drop need cells),
                         mh_pos := pos + line_len\<rparr>\<rparr>))))"

fun deliver_mem ::
  "(string \<Rightarrow> mWebData \<times> statics \<Rightarrow> (mWebData \<times> statics) op) \<Rightarrow> event list \<Rightarrow> mWebData \<times> statics \<Rightarrow>
   (mWebData \<times> statics) op" where
  "deliver_mem header_cb [] st = returnM st"
| "deliver_mem header_cb (Header l # es) st = bindM (header_cb l st) (deliver_mem header_cb es)"
| "deliver_mem header_cb (Body b # es) st =
     bindM (write_data_callback_mem b (fst st)) (\<lambda>d. deliver_mem header_cb es (d, snd st))"

section \<open>Requests\<close>

definition make_response_mem :: "mWebData \<Rightarrow> int \<Rightarrow> mHTTPResponse op" where
  "make_response_mem d status =
     bindM HTTPResponse_new_mem (\<lambda>resp.
     bindM (case mh_data (mw_resp d) of
              None \<Rightarrow> returnM (resp\<lparr>mr_code := status\<rparr>)
            | Some (_, cells) \<Rightarrow>
                bindM (liftM (copy_body cells (mh_pos (mw_resp d)))) (\<lambda>b.
                bindM (store b) (\<lambda>p.
                returnM (resp\<lparr>mr_code := status, mr_size := mh_pos (mw_resp d), mr_data := p\<rparr>)))) (\<lambda>resp.
     bindM (am_strdup_mem (val (mw_name d))) (\<lambda>n. returnM (resp\<lparr>mr_name := n\<rparr>))))"

text \<open>\<open>getHTTPData\<close> over an open handle: the transfer, then the response and the clean-up.\<close>

definition get_answer_mem ::
  "transfer \<Rightarrow> nat \<times> curl \<Rightarrow> string ptr \<Rightarrow> 'w \<Rightarrow> mWebData \<times> statics \<Rightarrow>
   (mHTTPResponse option \<times> curl ptr \<times> statics \<times> 'w) op" where
  "get_answer_mem t handle escaped wd st =
     (case st of (data, w) \<Rightarrow>
        bindM (if t_result t \<noteq> 0 then returnM None
               else bindM (make_response_mem data (t_status t)) (\<lambda>r. returnM (Some r))) (\<lambda>resp.
        bindM (am_free escaped) (\<lambda>_.
        bindM (WebData_free data) (\<lambda>_. returnM (resp, Some handle, w, wd)))))"

definition get_transfer_mem ::
  "pcre \<Rightarrow> 'w curl_lib \<Rightarrow> string \<Rightarrow> string option \<Rightarrow> nat \<times> curl \<Rightarrow> 'w \<Rightarrow> mWebData \<times> statics \<Rightarrow>
   (mHTTPResponse option \<times> curl ptr \<times> statics \<times> 'w) op" where
  "get_transfer_mem re lib u cookies handle wd st =
     bindM (store (Some (url_encode_whitespace u))) (\<lambda>escaped.
       let c = get_request u cookies (snd handle); (t, wd) = curl_easy_perform lib c wd
       in bindM (deliver_mem (write_header_callback_mem re) (t_events t) st)
            (get_answer_mem t (fst handle, c) escaped wd))"

definition get_session_mem ::
  "pcre \<Rightarrow> 'w curl_lib \<Rightarrow> string \<Rightarrow> string option \<Rightarrow> 'w \<Rightarrow> mWebData \<Rightarrow> curl ptr \<times> statics \<Rightarrow>
   (mHTTPResponse option \<times> curl ptr \<times> statics \<times> 'w) op" where
  "get_session_mem re lib u cookies wd data = (\<lambda>(session, w).
     case session of
       None \<Rightarrow> bindM (WebData_free data) (\<lambda>_. returnM (None, None, w, wd))
     | Some handle \<Rightarrow> get_transfer_mem re lib u cookies handle wd (data, w))"

definition getHTTPData_mem ::
  "pcre \<Rightarrow> 'w curl_lib \<Rightarrow> string option \<Rightarrow> string option \<Rightarrow> curl ptr \<Rightarrow> statics \<Rightarrow> 'w \<Rightarrow>
   (mHTTPResponse option \<times> curl ptr \<times> statics \<times> 'w) op" where
  "getHTTPData_mem re lib url cookies curl_session w wd =
     (case url of
        None \<Rightarrow> returnM (None, curl_session, w, wd)
      | Some u \<Rightarrow>
          bindM (WebData_new_mem (Some u)) (\<lambda>data.
          bindM (case curl_session of
                   None \<Rightarrow> bindM (am_curl_init_mem lib None False wd) (\<lambda>c. returnM (c, w\<lparr>ms_init := True\<rparr>))
                 | Some c \<Rightarrow> returnM (Some c, w))
            (get_session_mem re lib u cookies wd data)))"

text \<open>The handle of one attempt and its header list.\<close>

definition post_setup_mem ::
  "string option \<Rightarrow> char list \<Rightarrow> statics \<Rightarrow> nat \<times> curl \<Rightarrow> (curl ptr \<times> unit ptr) op" where
  "post_setup_mem url data w = (\<lambda>(a, c).
     case url of
       None \<Rightarrow> liftM (Inl NullDeref)
     | Some u \<Rightarrow>
         (let c = c\<lparr>opt_url := Some u, opt_postfields := Some data\<rparr>
          in if strstr u ''transmission'' = None then returnM (Some (a, c), None)
             else bindM (acquire HeaderList) (\<lambda>l.
                  bindM (liftM (case val (ms_session w) of
                                  None \<Rightarrow> Inr []
                                | Some sid \<Rightarrow> bindR (session_header sid) (\<lambda>h. Inr [h]))) (\<lambda>hs.
                  returnM (Some (a, c\<lparr>opt_transmission := True,
                    opt_headers := ''Content-Type: application/json'' # hs\<rparr>), Some (l, ()))))))"

definition post_request_mem ::
  "'w curl_lib \<Rightarrow> string option \<Rightarrow> string option \<Rightarrow> char list \<Rightarrow> statics \<Rightarrow> 'w \<Rightarrow>
   (curl ptr \<times> unit ptr) op" where
  "post_request_mem lib url auth data w wd =
     bindM (am_curl_init_mem lib auth True wd) (\<lambda>h.
       case h of None \<Rightarrow> returnM (None, None) | Some ac \<Rightarrow> post_setup_mem url data w ac)"

text \<open>What follows the transfer; \<open>again\<close> is the next turn of the loop.\<close>

definition send_answer_mem ::
  "transfer \<Rightarrow> curl ptr \<Rightarrow> unit ptr \<Rightarrow> 'w \<Rightarrow>
   (mWebData \<Rightarrow> statics \<Rightarrow>
     (mHTTPResponse option \<times> curl ptr \<times> unit ptr \<times> mWebData \<times> statics \<times> 'w) op) \<Rightarrow>
   mWebData \<times> statics \<Rightarrow>
   (mHTTPResponse option \<times> curl ptr \<times> unit ptr \<times> mWebData \<times> statics \<times> 'w) op" where
  "send_answer_mem t h headers wd again = (\<lambda>(d, w).
     if t_result t \<noteq> 0 then returnM (None, h, headers, d, w, wd)
     else if t_status t = 409 then
       bindM (closeCURLSession h) (\<lambda>_. bindM (curl_slist_free_all headers) (\<lambda>_. again d w))
     else bindM (make_response_mem d (t_status t))
            (\<lambda>resp. returnM (Some resp, h, headers, d, w, wd)))"

definition send_transfer_mem ::
  "pcre \<Rightarrow> 'w curl_lib \<Rightarrow>
   ('w \<Rightarrow> mWebData \<Rightarrow> statics \<Rightarrow>
     (mHTTPResponse option \<times> curl ptr \<times> unit ptr \<times> mWebData \<times> statics \<times> 'w) op) \<Rightarrow>
   'w \<Rightarrow> mWebData \<times> statics \<Rightarrow> curl ptr \<times> unit ptr \<Rightarrow>
   (mHTTPResponse option \<times> curl ptr \<times> unit ptr \<times> mWebData \<times> statics \<times> 'w) op" where
  "send_transfer_mem re lib again wd st = (\<lambda>(h, headers).
     case h of
       None \<Rightarrow> returnM (None, None, headers, fst st, snd st, wd)
     | Some (a, c) \<Rightarrow>
         (let (t, wd) = curl_easy_perform lib c wd;
              cb = (if opt_transmission c then parse_Transmission_response_mem re
                    else write_header_callback_mem re)
          in bindM (deliver_mem cb (t_events t) st) (send_answer_mem t h headers wd (again wd))))"

text \<open>The loop ends with what the clean-up after it has to release.\<close>

fun send_loop_mem ::
  "pcre \<Rightarrow> 'w curl_lib \<Rightarrow> string option \<Rightarrow> char list \<Rightarrow> nat \<Rightarrow> mWebData \<Rightarrow> statics \<Rightarrow> 'w \<Rightarrow>
   (mHTTPResponse option \<times> curl ptr \<times> unit ptr \<times> mWebData \<times> statics \<times> 'w) op" where
  "send_loop_mem re lib auth data 0 d w wd = returnM (None, None, None, d, w, wd)"
| "send_loop_mem re lib auth data (Suc tries) d w wd =
     bindM (WebData_clear_mem d) (\<lambda>d.
       let w = w\<lparr>ms_init := True\<rparr>
       in bindM (post_request_mem lib (val (mw_url d)) auth data w wd)
            (send_transfer_mem re lib (\<lambda>wd d w. send_loop_mem re lib auth data tries d w wd) wd (d, w)))"

definition sendHTTPData_mem ::
  "pcre \<Rightarrow> 'w curl_lib \<Rightarrow> string option \<Rightarrow> string option \<Rightarrow> char list option \<Rightarrow> nat \<Rightarrow> statics \<Rightarrow> 'w \<Rightarrow>
   (mHTTPResponse option \<times> statics \<times> 'w) op" where
  "sendHTTPData_mem re lib url auth data data_size w wd =
     (case (url, data) of
        (Some u, Some b) \<Rightarrow>
          bindM (WebData_new_mem (Some u)) (\<lambda>d.
          bindM (send_loop_mem re lib auth (take data_size b) 2 d w wd) (\<lambda>(resp, h, headers, d, w, wd).
          bindM (closeCURLSession h) (\<lambda>_.
          bindM (curl_slist_free_all headers) (\<lambda>_.
          bindM (WebData_free d) (\<lambda>_. returnM (resp, w, wd))))))
      | _ \<Rightarrow> returnM (None, w, wd))"

section \<open>Erasure and ownership of the parts\<close>

lemmas of_defs = web_of_def http_of_def response_of_def statics_of_def
lemmas own_defs = own_web_def own_http_def own_statics_def own_response_def

interpretation curl_handle: resource "owned CurlHandle" closeCURLSession
  by unfold_locales (auto simp: closeCURLSession_def release_def owned_def split: option.splits)

interpretation header_list: resource "owned HeaderList" curl_slist_free_all
  by unfold_locales (auto simp: curl_slist_free_all_def release_def owned_def split: option.splits)

lemma released:
  assumes "runs P m (Inr ()) (\<lambda>_. ()) (\<lambda>_. {#}) 0" "live L = P + F"
  shows "\<exists>L'. m L = Inr ((), L') \<and> live L' = F"
  using runsD [OF assms] by (auto elim: accountsE)

interpretation http_data: resource own_http HTTPData_free
proof
  show "\<exists>L'. HTTPData_free r L = Inr ((), L') \<and> live L' = F" if "live L = own_http r + F" for r L F
  proof (rule released [OF _ that])
    show "runs (own_http r) (HTTPData_free r) (Inr ()) (\<lambda>_. ()) (\<lambda>_. {#}) 0"
      unfolding HTTPData_free_def
      by (rule block.runs_free, rule block.frees) (simp add: own_http_def)
  qed
qed

interpretation web_data: resource own_web WebData_free
proof
  show "\<exists>L'. WebData_free d L = Inr ((), L') \<and> live L' = F" if "live L = own_web d + F" for d L F
  proof (rule released [OF _ that])
    show "runs (own_web d) (WebData_free d) (Inr ()) (\<lambda>_. ()) (\<lambda>_. {#}) 0"
      unfolding WebData_free_def
      by (rule block.runs_free, rule block.runs_free, rule http_data.runs_free, rule block.frees)
        (simp_all add: own_web_def ac_simps)
  qed
qed

interpretation response: resource own_response HTTPResponse_free
proof
  show "\<exists>L'. HTTPResponse_free p L = Inr ((), L') \<and> live L' = F" if "live L = own_response p + F" for p L F
  proof (rule released [OF _ that], cases p)
    case None
    then show "runs (own_response p) (HTTPResponse_free p) (Inr ()) (\<lambda>_. ()) (\<lambda>_. {#}) 0"
      by (auto simp: HTTPResponse_free_def own_response_def intro: runs_return)
  next
    case (Some r)
    show "runs (own_response p) (HTTPResponse_free p) (Inr ()) (\<lambda>_. ()) (\<lambda>_. {#}) 0"
      unfolding HTTPResponse_free_def Some option.case
      by (rule block.runs_free, rule block.runs_free, rule block.frees)
        (simp_all add: own_response_def ac_simps)
  qed
qed

lemma runs_WebData_new:
  assumes "\<And>d. web_of d = WebData_new u \<Longrightarrow> runs (own_web d + P) (f d) v e own n"
  shows "runs P (bindM (WebData_new_mem u) f) v e own n"
proof (rule runs_step [where P = "{#}" and Q = P and R = own_web and ok = "\<lambda>d. web_of d = WebData_new u"])
  show "\<exists>d L'. WebData_new_mem u L = Inr (d, L') \<and> live L' = own_web d + F \<and> web_of d = WebData_new u"
    if "live L = {#} + F" for L F
    using that
    by (auto simp: WebData_new_mem_def HTTPData_new_mem_def bindM_def returnM_def new_block_def acquire_def
        am_strdup_mem_def store_def own_defs of_defs WebData_new_def HTTPData_new_def split: option.splits)
qed (use assms in simp_all)

lemma runs_WebData_clear:
  assumes "\<And>d'. web_of d' = WebData_clear (web_of d) \<Longrightarrow> runs (own_web d' + P) (f d') v e own n"
    and "P' = own_web d + P"
  shows "runs P' (bindM (WebData_clear_mem d) f) v e own n"
proof (rule runs_step [where P = "own_web d" and Q = P and R = own_web and
        ok = "\<lambda>d'. web_of d' = WebData_clear (web_of d)"])
  have "runs (own_web d) (WebData_clear_mem d) (Inr (WebData_clear (web_of d))) web_of own_web 0"
    unfolding WebData_clear_mem_def
    by (rule block.runs_free, rule block.runs_free, rule runs_return)
      (simp_all add: of_defs own_defs WebData_clear_def ac_simps)
  from runsD [OF this]
  show "\<exists>d' L'. WebData_clear_mem d L = Inr (d', L') \<and> live L' = own_web d' + F \<and>
      web_of d' = WebData_clear (web_of d)" if "live L = own_web d + F" for L F
    using that by (fastforce elim: accountsE)
qed (use assms in simp_all)

section \<open>The callbacks\<close>

lemma runs_regex:
  assumes "\<And>p. getRegExMatch re pat str k = Inr (val p) \<Longrightarrow>
      runs (owned Block p + P) (f p) (g (val p)) e own n"
  shows "runs P (bindM (getRegExMatch_mem re pat str k) f) (bindR (getRegExMatch re pat str k) g) e own n"
proof (rule runsI)
  fix L :: ledger and F
  assume L: "live L = P + F"
  show "accounts (bindR (getRegExMatch re pat str k) g) e own n F
      (bindM (getRegExMatch_mem re pat str k) f L)"
  proof (cases "getRegExMatch re pat str k")
    case (Inr t)
    have "runs P (bindM (store t) f) (g t) e own n" by (rule runs_store) (use assms Inr in auto)
    from runsD [OF this L] Inr show ?thesis
      by (simp add: getRegExMatch_mem_def bindM_def liftM_def)
  qed (simp add: getRegExMatch_mem_def bindM_def liftM_def)
qed

lemma runs_announce:
  "runs (own_web d) (announce_length_mem n d) (announce_length n (web_of d)) web_of own_web 0"
proof (cases "n + 1 \<ge> 2 ^ 31")
  case True
  then show ?thesis by (simp add: announce_length_mem_def announce_length_def runs_fault)
next
  case False
  show ?thesis
    using False
    by (simp add: announce_length_mem_def announce_length_def Let_def,
        intro runs_realloc [where Q = "owned Block (mw_url d) + owned Block (mw_name d) +
          {#(mh_self (mw_resp d), Block), (mw_self d, Block)#}"] runs_return)
      (simp_all add: of_defs own_defs set_content_length_def Let_def ac_simps)
qed

definition pair_of :: "mWebData \<times> statics \<Rightarrow> WebData \<times> web" where
  "pair_of st = (web_of (fst st), statics_of (snd st))"

definition own_pair :: "mWebData \<times> statics \<Rightarrow> objects" where
  "own_pair st = own_web (fst st) + own_statics (snd st)"

lemma runs_length_header:
  assumes "cb = bindR (getRegExMatch re (Some length_regex) (Some line) 1) (\<lambda>tmp.
      case tmp of
        None \<Rightarrow> Inr (web_of d, statics_of w)
      | Some t \<Rightarrow> if 0 < atoi t \<and> ok then bindR (announce_length (atoi t) (web_of d)) (\<lambda>mem. Inr (mem, statics_of w))
                  else Inr (web_of d, statics_of w))"
  shows "runs (own_pair (d, w)) (length_header re line ok (d, w)) cb pair_of own_pair 0"
  unfolding assms length_header_def prod.case
proof (rule runs_regex)
  fix p :: "string ptr"
  let ?rest = "\<lambda>d. bindM (am_free p) (\<lambda>_. returnM (d, w))"
  have rest: "runs (own_web d' + (owned Block p + own_statics w)) (?rest d')
      (Inr (web_of d', statics_of w)) pair_of own_pair 0" for d'
    by (rule block.runs_free, rule runs_return) (simp_all add: pair_of_def own_pair_def ac_simps)
  show "runs (owned Block p + own_pair (d, w))
     (case p of None \<Rightarrow> returnM (d, w)
      | Some (_, t) \<Rightarrow>
          bindM (if 0 < atoi t \<and> ok then announce_length_mem (atoi t) d else returnM d) ?rest)
     (case val p of None \<Rightarrow> Inr (web_of d, statics_of w)
      | Some t \<Rightarrow> if 0 < atoi t \<and> ok then bindR (announce_length (atoi t) (web_of d)) (\<lambda>mem. Inr (mem, statics_of w))
                  else Inr (web_of d, statics_of w))
     pair_of own_pair 0"
  proof (cases p)
    case None
    then show ?thesis by (auto simp: pair_of_def intro: runs_return)
  next
    case (Some at)
    obtain a t where at: "at = (a, t)" by force
    have own: "owned Block p + own_pair (d, w) = own_web d + (owned Block p + own_statics w)"
      by (simp add: own_pair_def ac_simps)
    have "runs (owned Block p + own_pair (d, w)) (bindM (announce_length_mem (atoi t) d) ?rest)
        (bindR (announce_length (atoi t) (web_of d)) (\<lambda>mem. Inr (mem, statics_of w))) pair_of own_pair (0 + 0)"
      by (rule runs_bind [OF runs_announce own]) (rule rest)
    moreover have "runs (owned Block p + own_pair (d, w)) (bindM (returnM d) ?rest)
        (Inr (web_of d, statics_of w)) pair_of own_pair 0"
      using rest [of d] by (simp add: bindM_def returnM_def own)
    ultimately show ?thesis unfolding Some at by simp
  qed
qed

text \<open>A header line that names a file.\<close>

definition naming :: "pcre \<Rightarrow> string \<Rightarrow> bool" where
  "naming re line \<longleftrightarrow>
     \<not> starts_with ''Location:'' line \<and> \<not> starts_with ''Content-Length:'' line \<and>
     19 \<le> length line \<and> map tolower (take 20 line) = map tolower ''Content-Disposition:'' \<and>
     (case getRegExMatch re (Some filename_regex) (Some line) 2 of Inr (Some _) \<Rightarrow> True | _ \<Rightarrow> False)"

text \<open>The old name is lost when a new one arrives.\<close>

lemma runs_filename_header:
  "runs (own_pair (d, w))
     (bindM (getRegExMatch_mem re (Some filename_regex) (Some line) 2) (\<lambda>filename.
        returnM (if filename \<noteq> None then d\<lparr>mw_name := filename\<rparr> else d, w)))
     (bindR (getRegExMatch re (Some filename_regex) (Some line) 2) (\<lambda>filename.
        Inr (case filename of None \<Rightarrow> web_of d | Some f \<Rightarrow> (web_of d)\<lparr>w_filename := Some f\<rparr>, statics_of w)))
     pair_of own_pair
     (if (\<exists>f. getRegExMatch re (Some filename_regex) (Some line) 2 = Inr (Some f)) \<and> mw_name d \<noteq> None then {#Block#} else {#})" (is "runs _ _ _ _ _ ?n")
proof (rule runs_regex)
  fix p :: "string ptr"
  assume p: "getRegExMatch re (Some filename_regex) (Some line) 2 = Inr (val p)"
  let ?d = "if p \<noteq> None then d\<lparr>mw_name := p\<rparr> else d"
  let ?lost = "if p \<noteq> None then owned Block (mw_name d) else {#}"
  let ?b = "Inr (case val p of None \<Rightarrow> web_of d | Some f \<Rightarrow> (web_of d)\<lparr>w_filename := Some f\<rparr>, statics_of w)"
  have "?n = (if p \<noteq> None \<and> mw_name d \<noteq> None then {#Block#} else {#})" using p by (cases p) auto
  then have "lost ?n ?lost" using lost_owned [of "mw_name d" Block] by (auto split: if_splits)
  moreover have "runs (own_pair (?d, w)) (returnM (?d, w)) ?b pair_of own_pair 0"
    by (rule runs_return; cases p) (auto simp: pair_of_def of_defs)
  ultimately have "runs (own_pair (?d, w) + ?lost) (returnM (?d, w)) ?b pair_of own_pair (0 + ?n)"
    using runs_forget by blast
  then show "runs (owned Block p + own_pair (d, w)) (returnM (?d, w)) ?b pair_of own_pair ?n"
    by (cases p) (simp_all add: own_pair_def own_web_def ac_simps)
qed

lemma runs_write_header:
  "runs (own_pair st) (write_header_callback_mem re line st) (write_header_callback re line (pair_of st))
     pair_of own_pair (if naming re line \<and> mw_name (fst st) \<noteq> None then {#Block#} else {#})"
proof -
  obtain d w where st: "st = (d, w)" by force
  let ?loc = "starts_with ''Location:'' line" and ?len = "starts_with ''Content-Length:'' line"
    and ?disp = "19 \<le> length line \<and> map tolower (take 20 line) = map tolower ''Content-Disposition:''"
  have move: "isMoveHeader (statics_of w) \<longleftrightarrow> ms_move w" by (simp add: statics_of_def)
  consider "?loc" | "\<not> ?loc" "?len" | "\<not> ?loc" "\<not> ?len" "?disp" | "\<not> ?loc" "\<not> ?len" "\<not> ?disp" by blast
  then show ?thesis
  proof cases
    case 1
    then have "\<not> naming re line" by (simp add: naming_def)
    moreover have "runs (own_pair (d, w)) (bindM (am_free (mh_data (mw_resp d))) (\<lambda>_.
        returnM (d\<lparr>mw_length := 0, mw_resp := (mw_resp d)\<lparr>mh_data := None, mh_size := 0\<rparr>\<rparr>, w\<lparr>ms_move := True\<rparr>)))
      (Inr ((web_of d)\<lparr>w_length := 0, w_resp := (w_resp (web_of d))\<lparr>hd_data := None, hd_size := 0\<rparr>\<rparr>,
        (statics_of w)\<lparr>isMoveHeader := True\<rparr>)) pair_of own_pair 0"
      by (rule block.runs_free, rule runs_return)
        (simp_all add: pair_of_def own_pair_def of_defs own_defs ac_simps)
    moreover have "runs (own_pair (d, w)) (returnM (d, w\<lparr>ms_move := True\<rparr>))
        (Inr (web_of d, (statics_of w)\<lparr>isMoveHeader := True\<rparr>)) pair_of own_pair 0"
      by (rule runs_return) (simp_all add: pair_of_def own_pair_def of_defs own_defs)
    ultimately show ?thesis
      using 1 by (auto simp: st write_header_callback_mem_def write_header_callback_def pair_of_def web_of_def http_of_def)
  next
    case 2
    then have "\<not> naming re line" by (simp add: naming_def)
    with 2 runs_length_header [of _ re line d w "\<not> ms_move w", OF refl] show ?thesis
      by (simp add: st write_header_callback_mem_def write_header_callback_def pair_of_def move)
  next
    case 3
    then have "naming re line \<longleftrightarrow> (\<exists>f. getRegExMatch re (Some filename_regex) (Some line) 2 = Inr (Some f))"
      by (simp add: naming_def split: sum.split option.split)
    with runs_filename_header [of d w re line] 3 show ?thesis
      by (simp add: st write_header_callback_mem_def write_header_callback_def pair_of_def)
  next
    case 4
    then have "\<not> naming re line" by (auto simp: naming_def)
    moreover have "runs (own_pair (d, w)) (returnM (d, w\<lparr>ms_move := m\<rparr>))
        (Inr (web_of d, (statics_of w)\<lparr>isMoveHeader := m\<rparr>)) pair_of own_pair 0" for m
      by (rule runs_return) (simp_all add: pair_of_def own_pair_def of_defs own_defs)
    moreover have "runs (own_pair (d, w)) (returnM (d, w)) (Inr (web_of d, statics_of w)) pair_of own_pair 0"
      by (rule runs_return) (simp_all add: pair_of_def)
    ultimately show ?thesis
      using 4 by (cases "19 \<le> length line")
        (simp_all add: st write_header_callback_mem_def write_header_callback_def pair_of_def)
  qed
qed

lemma runs_parse_Transmission:
  "runs (own_pair st) (parse_Transmission_response_mem re line st)
     (parse_Transmission_response re line (pair_of st)) pair_of own_pair 0"
proof -
  obtain d w where st: "st = (d, w)" by force
  let ?tail = "drop (length session_key) line"
  let ?n = "length (takeWhile (\<lambda>c. \<not> isspace c) ?tail)"
  have "runs (own_pair (d, w))
      (bindM (am_free (ms_session w)) (\<lambda>_.
         bindM (am_strndup_mem (Some ?tail) ?n) (\<lambda>s. returnM (d, w\<lparr>ms_session := s\<rparr>))))
      (Inr (web_of d, (statics_of w)\<lparr>gSessionID := am_strndup (Some ?tail) ?n\<rparr>)) pair_of own_pair 0"
    unfolding am_strndup_mem_def
    by (rule block.runs_free, rule runs_store, rule runs_return)
      (simp_all add: pair_of_def own_pair_def statics_of_def own_statics_def ac_simps)
  moreover have "runs (own_pair (d, w)) (returnM (d, w)) (Inr (web_of d, statics_of w)) pair_of own_pair 0"
    by (rule runs_return) (simp_all add: pair_of_def)
  moreover note runs_length_header [of _ re line d w True, OF refl]
  ultimately show ?thesis
    by (cases "starts_with session_key line"; cases "?n = length ?tail";
        cases "starts_with ''Content-Length:'' line")
      (simp_all add: st parse_Transmission_response_mem_def parse_Transmission_response_def pair_of_def
        Let_def runs_fault)
qed

lemma double_size_enough: "double_size sz need = Some n \<Longrightarrow> need \<le> n"
  by (rule double_size.raw_induct [of "\<lambda>sz need n. need \<le> n"]) (auto split: if_splits)

text \<open>The second half of \<open>ensure_room\<close>: a buffer that is too small grows by doubling.\<close>

definition enlarge :: "nat \<Rightarrow> HTTPData \<Rightarrow> HTTPData res" where
  "enlarge need r =
     (if need > hd_size r then
        (case double_size (hd_size r) need of
           None \<Rightarrow> Inl Hang
         | Some n \<Rightarrow> Inr (r\<lparr>hd_size := n, hd_data := Some (resize n (hd_data r))\<rparr>))
      else Inr r)"

definition enlarge_mem :: "nat \<Rightarrow> mHTTPData \<Rightarrow> mHTTPData op" where
  "enlarge_mem need r =
     (if need > mh_size r then
        (case double_size (mh_size r) need of
           None \<Rightarrow> liftM (Inl Hang)
         | Some n \<Rightarrow> bindM (am_realloc (mh_data r) n) (\<lambda>p. returnM (r\<lparr>mh_size := n,
             mh_data := map_option (\<lambda>a. (a, resize n (val (mh_data r)))) p\<rparr>)))
      else returnM r)"

lemma runs_enlarge:
  assumes "0 < need"
  shows "runs (own_http r) (enlarge_mem need r) (enlarge need (http_of r)) http_of own_http 0"
proof (cases "need > mh_size r \<and> double_size (mh_size r) need \<noteq> None")
  case True
  then obtain n where n: "double_size (mh_size r) need = Some n" by auto
  have "0 < n" using double_size_enough [OF n] assms by simp
  then have "runs (own_http r) (bindM (am_realloc (mh_data r) n) (\<lambda>p. returnM (r\<lparr>mh_size := n,
      mh_data := map_option (\<lambda>a. (a, resize n (val (mh_data r)))) p\<rparr>)))
    (Inr ((http_of r)\<lparr>hd_size := n, hd_data := Some (resize n (hd_data (http_of r)))\<rparr>)) http_of own_http 0"
    by (rule runs_realloc [OF _ runs_return]) (simp_all add: http_of_def own_http_def)
  with True n show ?thesis by (simp add: enlarge_mem_def enlarge_def http_of_def)
next
  case False
  then show ?thesis by (auto simp: enlarge_mem_def enlarge_def http_of_def runs_fault intro: runs_return)
qed

lemma runs_ensure_room:
  assumes "0 < need"
  shows "runs (own_http r) (ensure_room_mem need r) (ensure_room need (http_of r)) http_of own_http 0"
proof -
  let ?d = "replicate DATA_BUFFER_SIZE None"
  have "runs (own_http r) (bindM (am_malloc DATA_BUFFER_SIZE) (\<lambda>p. enlarge_mem need
      (r\<lparr>mh_size := DATA_BUFFER_SIZE, mh_data := map_option (\<lambda>a. (a, ?d)) p\<rparr>)))
    (enlarge need ((http_of r)\<lparr>hd_size := DATA_BUFFER_SIZE, hd_data := Some ?d\<rparr>)) http_of own_http 0"
    if "mh_data r = None"
  proof (rule runs_malloc)
    fix a
    let ?r = "r\<lparr>mh_size := DATA_BUFFER_SIZE, mh_data := Some (a, ?d)\<rparr>"
    have "own_http ?r = {#(a, Block)#} + own_http r"
      "http_of ?r = (http_of r)\<lparr>hd_size := DATA_BUFFER_SIZE, hd_data := Some ?d\<rparr>"
      using that by (simp_all add: own_http_def http_of_def)
    then show "runs ({#(a, Block)#} + own_http r) (enlarge_mem need (r\<lparr>mh_size := DATA_BUFFER_SIZE,
          mh_data := map_option (\<lambda>a. (a, ?d)) (Some a)\<rparr>))
        (enlarge need ((http_of r)\<lparr>hd_size := DATA_BUFFER_SIZE, hd_data := Some ?d\<rparr>)) http_of own_http 0"
      using runs_enlarge [OF assms, of ?r] by simp
  qed (simp add: DATA_BUFFER_SIZE_def)
  moreover have "ensure_room_mem need r = bindM (if mh_data r = None
      then bindM (am_malloc DATA_BUFFER_SIZE) (\<lambda>p. returnM (r\<lparr>mh_size := DATA_BUFFER_SIZE,
        mh_data := map_option (\<lambda>a. (a, ?d)) p\<rparr>)) else returnM r) (enlarge_mem need)"
    by (simp only: ensure_room_mem_def enlarge_mem_def [abs_def])
  moreover have "ensure_room need h = enlarge need
      (if hd_data h = None then h\<lparr>hd_size := DATA_BUFFER_SIZE, hd_data := Some ?d\<rparr> else h)" for h
    by (simp only: ensure_room_def enlarge_def Let_def)
  ultimately show ?thesis
    using runs_enlarge [OF assms, of r] by (cases "mh_data r") (simp_all add: bindM_assoc http_of_def)
qed

lemma runs_write_data:
  "runs (own_web d) (write_data_callback_mem ptr d) (write_data_callback ptr (web_of d)) web_of own_web 0"
proof -
  let ?need = "mh_pos (mw_resp d) + length ptr + 1"
  let ?Q = "owned Block (mw_url d) + owned Block (mw_name d) + {#(mw_self d, Block)#}"
  have own: "own_web d = own_http (mw_resp d) + ?Q" by (simp add: own_web_def ac_simps)
  have pos: "hd_pos (http_of (mw_resp d)) = mh_pos (mw_resp d)" "w_resp (web_of d) = http_of (mw_resp d)"
    by (simp_all add: of_defs)
  have "runs (own_web d) (write_data_callback_mem ptr d) (write_data_callback ptr (web_of d)) web_of own_web (0 + 0)"
    unfolding write_data_callback_mem_def write_data_callback_def Let_def pos
  proof (rule runs_bind [OF runs_ensure_room own])
    fix r
    have r: "hd_data (http_of r) = val (mh_data r)" by (simp add: http_of_def)
    show "runs (own_http r + ?Q)
      (case mh_data r of None \<Rightarrow> returnM (d\<lparr>mw_resp := r\<rparr>)
       | Some (a, cells) \<Rightarrow> if ?need > length cells then liftM (Inl BufferOverflow)
           else returnM (d\<lparr>mw_resp := r\<lparr>mh_data := Some (a, take (mh_pos (mw_resp d)) cells @ map Some ptr @
             [Some NUL] @ drop ?need cells), mh_pos := mh_pos (mw_resp d) + length ptr\<rparr>\<rparr>))
      (case hd_data (http_of r) of None \<Rightarrow> Inr ((web_of d)\<lparr>w_resp := http_of r\<rparr>)
       | Some e \<Rightarrow> if ?need > length e then Inl BufferOverflow
           else Inr ((web_of d)\<lparr>w_resp := (http_of r)\<lparr>hd_data := Some (take (mh_pos (mw_resp d)) e @
             map Some ptr @ [Some NUL] @ drop ?need e), hd_pos := mh_pos (mw_resp d) + length ptr\<rparr>\<rparr>))
      web_of own_web 0"
      unfolding r
      by (cases "mh_data r")
        (auto simp: runs_fault of_defs own_defs ac_simps intro!: runs_return)
  qed simp
  then show ?thesis by simp
qed

text \<open>The names that get lost in one transfer: all but the last.\<close>

definition names_in :: "pcre \<Rightarrow> event list \<Rightarrow> nat" where
  "names_in re es = length (filter (\<lambda>e. case e of Header l \<Rightarrow> naming re l | Body _ \<Rightarrow> False) es)"

lemma names_in_simps [simp]:
  "names_in re [] = 0"
  "names_in re (Header l # es) = (if naming re l then Suc (names_in re es) else names_in re es)"
  "names_in re (Body b # es) = names_in re es"
  by (simp_all add: names_in_def)

lemma write_header_name:
  assumes "write_header_callback re line (mem, w) = Inr (mem', w')"
  shows "if naming re line then w_filename mem' \<noteq> None else w_filename mem' = w_filename mem"
proof (cases "starts_with ''Location:'' line \<or> starts_with ''Content-Length:'' line")
  case True
  then show ?thesis using assms
    by (auto simp: write_header_callback_def naming_def bindR_Inr_iff announce_length_def
        set_content_length_def Let_def split: if_splits option.splits)
next
  case other: False
  let ?disp = "19 \<le> length line \<and> map tolower (take 20 line) = map tolower ''Content-Disposition:''"
  show ?thesis
  proof (cases ?disp)
    case True
    with other assms have "bindR (getRegExMatch re (Some filename_regex) (Some line) 2) (\<lambda>filename.
        Inr (case filename of None \<Rightarrow> mem | Some f \<Rightarrow> mem\<lparr>w_filename := Some f\<rparr>, w)) = Inr (mem', w')"
      by (simp add: write_header_callback_def)
    then obtain t where "getRegExMatch re (Some filename_regex) (Some line) 2 = Inr t"
      "mem' = (case t of None \<Rightarrow> mem | Some f \<Rightarrow> mem\<lparr>w_filename := Some f\<rparr>)"
      by (auto simp: bindR_Inr_iff)
    with True other show ?thesis by (cases t) (simp_all add: naming_def)
  next
    case False
    then have "\<not> naming re line" by (auto simp: naming_def)
    moreover have "mem' = mem"
      using False other assms by (cases "19 \<le> length line") (simp_all add: write_header_callback_def split: if_splits)
    ultimately show ?thesis by simp
  qed
qed

lemma write_data_name:
  "write_data_callback b mem = Inr mem' \<Longrightarrow> w_filename mem' = w_filename mem"
  by (auto simp: write_data_callback_def Let_def bindR_Inr_iff split: option.splits if_splits)

lemma name_of [simp]: "w_filename (web_of d) = None \<longleftrightarrow> mw_name d = None"
  by (simp add: web_of_def)

lemma runs_body:
  assumes "\<And>d. write_data_callback b (web_of (fst st)) = Inr (web_of d) \<Longrightarrow>
      runs (own_pair (d, snd st)) (f (d, snd st)) (g (pair_of (d, snd st))) pair_of own_pair n"
  shows "runs (own_pair st) (bindM (write_data_callback_mem b (fst st)) (\<lambda>d. f (d, snd st)))
    (bindR (write_data_callback b (fst (pair_of st))) (\<lambda>mem. g (mem, snd (pair_of st)))) pair_of own_pair n"
proof -
  have "runs (own_pair st) (bindM (write_data_callback_mem b (fst st)) (\<lambda>d. f (d, snd st)))
    (bindR (write_data_callback b (web_of (fst st))) (\<lambda>mem. g (mem, statics_of (snd st)))) pair_of own_pair (n + 0)"
    by (rule runs_bind [OF runs_write_data, where Q = "own_statics (snd st)"])
      (use assms in \<open>simp_all add: own_pair_def pair_of_def\<close>)
  then show ?thesis by (simp add: pair_of_def)
qed

lemma runs_deliver:
  "runs (own_pair st) (deliver_mem (write_header_callback_mem re) es st)
     (deliver (write_header_callback re) es (pair_of st)) pair_of own_pair
     (replicate_mset (names_in re es - (if mw_name (fst st) = None then 1 else 0)) Block)"
proof (induction es arbitrary: st)
  case Nil
  show ?case by (auto intro: runs_return)
next
  case (Cons e es)
  show ?case
  proof (cases e)
    case (Header l)
    let ?k = "\<lambda>st. if mw_name (fst st) = None then 1 else 0 :: nat"
    let ?n = "if naming re l \<and> mw_name (fst st) \<noteq> None then {#Block#} else {#}"
    let ?n' = "replicate_mset (names_in re es - (if naming re l then 0 else ?k st)) Block"
    have "runs (own_pair st) (bindM (write_header_callback_mem re l st) (deliver_mem (write_header_callback_mem re) es))
        (bindR (write_header_callback re l (pair_of st)) (deliver (write_header_callback re) es))
        pair_of own_pair (?n' + ?n)"
    proof (rule runs_bind [OF runs_write_header])
      fix st'
      assume "write_header_callback re l (pair_of st) = Inr (pair_of st')"
      then have "?n' = replicate_mset (names_in re es - ?k st') Block"
        using write_header_name [of re l "web_of (fst st)" "statics_of (snd st)" "web_of (fst st')" "statics_of (snd st')"]
        by (auto simp: pair_of_def web_of_def split: if_splits)
      then show "runs (own_pair st' + {#}) (deliver_mem (write_header_callback_mem re) es st')
          (deliver (write_header_callback re) es (pair_of st')) pair_of own_pair ?n'"
        using Cons.IH [of st'] by simp
    qed simp
    moreover have "?n' + ?n = replicate_mset (names_in re (e # es) - ?k st) Block" by (auto simp: Header)
    ultimately show ?thesis by (simp add: Header)
  next
    case (Body b)
    have "runs (own_pair (d, snd st)) (deliver_mem (write_header_callback_mem re) es (d, snd st))
        (deliver (write_header_callback re) es (pair_of (d, snd st))) pair_of own_pair
        (replicate_mset (names_in re (e # es) - (if mw_name (fst st) = None then 1 else 0)) Block)"
      if "write_data_callback b (web_of (fst st)) = Inr (web_of d)" for d
    proof -
      have "mw_name d = None \<longleftrightarrow> mw_name (fst st) = None" using write_data_name [OF that] by (metis name_of)
      then show ?thesis using Cons.IH [of "(d, snd st)"] by (simp only: Body names_in_simps fst_conv)
    qed
    from runs_body [OF this] show ?thesis by (simp add: Body)
  qed
qed

lemma runs_deliver_Transmission:
  "runs (own_pair st) (deliver_mem (parse_Transmission_response_mem re) es st)
     (deliver (parse_Transmission_response re) es (pair_of st)) pair_of own_pair 0"
proof (induction es arbitrary: st)
  case (Cons e es)
  show ?case
  proof (cases e)
    case (Header l)
    have "runs (own_pair st) (bindM (parse_Transmission_response_mem re l st)
          (deliver_mem (parse_Transmission_response_mem re) es))
        (bindR (parse_Transmission_response re l (pair_of st)) (deliver (parse_Transmission_response re) es))
        pair_of own_pair (0 + 0)"
      by (rule runs_bind [OF runs_parse_Transmission, where Q = "{#}"]) (simp_all add: Cons.IH)
    then show ?thesis by (simp add: Header)
  next
    case (Body b)
    from runs_body [OF Cons.IH] show ?thesis by (simp add: Body)
  qed
qed (auto intro: runs_return)

section \<open>Requests and answers\<close>

lemma runs_make_response:
  "runs {#} (make_response_mem d status) (make_response (web_of d) status) response_of
     (\<lambda>r. own_response (Some r)) 0"
proof (cases "mh_data (mw_resp d)")
  case None
  have "runs {#} (bindM HTTPResponse_new_mem (\<lambda>resp. bindM (am_strdup_mem (val (mw_name d)))
        (\<lambda>n. returnM (resp\<lparr>mr_code := status, mr_name := n\<rparr>))))
      (Inr (HTTPResponse_new\<lparr>hr_code := status, hr_filename := am_strdup (val (mw_name d))\<rparr>)) response_of
      (\<lambda>r. own_response (Some r)) 0"
    unfolding HTTPResponse_new_mem_def am_strdup_mem_def bindM_assoc returnM_bind
    by (rule runs_new, rule runs_store, rule runs_return)
      (simp_all add: own_response_def response_of_def HTTPResponse_new_def)
  with None show ?thesis by (simp add: make_response_mem_def make_response_def of_defs)
next
  case (Some q)
  obtain a cells where q: "q = (a, cells)" by force
  let ?pos = "mh_pos (mw_resp d)"
  have "runs {#} (bindM new_block (\<lambda>s. bindM (liftM (copy_body cells ?pos)) (\<lambda>b. bindM (store b) (\<lambda>p.
        bindM (am_strdup_mem (val (mw_name d))) (\<lambda>n.
        returnM \<lparr>mr_self = s, mr_data = p, mr_name = n, mr_size = ?pos, mr_code = status\<rparr>)))))
      (bindR (copy_body cells ?pos) (\<lambda>b. Inr \<lparr>hr_data = b, hr_filename = am_strdup (val (mw_name d)),
         hr_size = ?pos, hr_code = status\<rparr>)) response_of (\<lambda>r. own_response (Some r)) (0 + 0)"
  proof (rule runs_new, rule runs_bind [OF runs_lift])
    fix s b
    show "runs ({#} + ({#(s, Block)#} + {#})) (bindM (store b) (\<lambda>p. bindM (am_strdup_mem (val (mw_name d))) (\<lambda>n.
          returnM \<lparr>mr_self = s, mr_data = p, mr_name = n, mr_size = ?pos, mr_code = status\<rparr>)))
        (Inr \<lparr>hr_data = id b, hr_filename = am_strdup (val (mw_name d)), hr_size = ?pos, hr_code = status\<rparr>)
        response_of (\<lambda>r. own_response (Some r)) 0"
      unfolding am_strdup_mem_def
      by (rule runs_store, rule runs_store, rule runs_return)
        (simp_all add: own_response_def response_of_def ac_simps)
  qed simp
  with Some q show ?thesis
    by (simp add: make_response_mem_def make_response_def HTTPResponse_new_mem_def HTTPResponse_new_def
        bindM_assoc of_defs Let_def)
qed

lemma statics_init [simp]:
  "statics_of (w\<lparr>ms_init := b\<rparr>) = (statics_of w)\<lparr>gbGlobalInitDone := b\<rparr>"
  "own_statics (w\<lparr>ms_init := b\<rparr>) = own_statics w"
  by (simp_all add: statics_of_def own_statics_def)

definition get_of where
  "get_of = (\<lambda>(r, c, w, wd). (map_option response_of r, val c, statics_of w, wd))"

definition own_get where
  "own_get = (\<lambda>(r, c, w, wd). own_response r + owned CurlHandle c + own_statics w)"

text \<open>The file names that a call of \<open>getHTTPData\<close> loses.\<close>

definition names_lost ::
  "pcre \<Rightarrow> 'w curl_lib \<Rightarrow> string option \<Rightarrow> string option \<Rightarrow> curl option \<Rightarrow> 'w \<Rightarrow> kind multiset" where
  "names_lost re lib url cookies curl_session wd =
     (case (url, if curl_session = None then am_curl_init lib None False wd else curl_session) of
        (Some u, Some c) \<Rightarrow>
          replicate_mset
            (names_in re (t_events (fst (curl_easy_perform lib (get_request u cookies c) wd))) - 1) Block
      | _ \<Rightarrow> {#})"

text \<open>The same parts on plain values.\<close>

definition get_answer ::
  "transfer \<Rightarrow> curl \<Rightarrow> 'w \<Rightarrow> WebData \<times> web \<Rightarrow> 'w get_result res" where
  "get_answer t c wd = (\<lambda>(mem, w).
     if t_result t \<noteq> 0 then Inr (None, Some c, w, wd)
     else bindR (make_response mem (t_status t)) (\<lambda>resp. Inr (Some resp, Some c, w, wd)))"

definition get_transfer ::
  "pcre \<Rightarrow> 'w curl_lib \<Rightarrow> string \<Rightarrow> string option \<Rightarrow> curl \<Rightarrow> 'w \<Rightarrow> WebData \<times> web \<Rightarrow> 'w get_result res" where
  "get_transfer re lib u cookies c wd st =
     (let c = get_request u cookies c; (t, wd) = curl_easy_perform lib c wd
      in bindR (deliver (write_header_callback re) (t_events t) st) (get_answer t c wd))"

definition get_session ::
  "pcre \<Rightarrow> 'w curl_lib \<Rightarrow> string \<Rightarrow> string option \<Rightarrow> 'w \<Rightarrow> curl option \<Rightarrow> web \<Rightarrow> 'w get_result res" where
  "get_session re lib u cookies wd session w =
     (case session of
        None \<Rightarrow> Inr (None, None, w, wd)
      | Some c \<Rightarrow> get_transfer re lib u cookies c wd (WebData_new (Some u), w))"

definition session_lost ::
  "pcre \<Rightarrow> 'w curl_lib \<Rightarrow> string \<Rightarrow> string option \<Rightarrow> 'w \<Rightarrow> curl option \<Rightarrow> kind multiset" where
  "session_lost re lib u cookies wd session =
     (case session of
        None \<Rightarrow> {#}
      | Some c \<Rightarrow> replicate_mset
          (names_in re (t_events (fst (curl_easy_perform lib (get_request u cookies c) wd))) - 1) Block)"

lemma getHTTPData_parts:
  "getHTTPData re lib (Some u) cookies None w wd =
     get_session re lib u cookies wd (am_curl_init lib None False wd) (w\<lparr>gbGlobalInitDone := True\<rparr>)"
  "getHTTPData re lib (Some u) cookies (Some c) w wd = get_session re lib u cookies wd (Some c) w"
  "names_lost re lib (Some u) cookies None wd =
     session_lost re lib u cookies wd (am_curl_init lib None False wd)"
  "names_lost re lib (Some u) cookies (Some c) wd = session_lost re lib u cookies wd (Some c)"
  by (simp_all add: getHTTPData_def get_session_def get_transfer_def get_answer_def names_lost_def
      session_lost_def Let_def split: option.splits prod.splits)

lemma runs_get_answer:
  "runs (own_pair st + (owned Block escaped + {#(a, CurlHandle)#})) (get_answer_mem t (a, c) escaped wd st)
     (get_answer t c wd (pair_of st)) get_of own_get 0"
proof -
  obtain d w where st: "st = (d, w)" by force
  let ?Q = "owned Block escaped + {#(a, CurlHandle)#}"
  let ?rest = "\<lambda>resp. bindM (am_free escaped) (\<lambda>_. bindM (WebData_free d) (\<lambda>_.
      returnM (resp, Some (a, c), w, wd)))"
  have finish: "runs (own_response resp + (own_pair (d, w) + ?Q)) (?rest resp)
      (Inr (map_option response_of resp, Some c, statics_of w, wd)) get_of own_get 0" for resp
    by (rule block.runs_free, rule web_data.runs_free, rule runs_return)
      (simp_all add: get_of_def own_get_def own_pair_def ac_simps)
  have "runs (own_pair (d, w) + ?Q) (bindM (make_response_mem d (t_status t)) (\<lambda>r. ?rest (Some r)))
      (bindR (make_response (web_of d) (t_status t)) (\<lambda>resp. Inr (Some resp, Some c, statics_of w, wd)))
      get_of own_get (0 + 0)"
    by (rule runs_bind [OF runs_make_response, where Q = "own_pair (d, w) + ?Q"])
      (use finish [of "Some r" for r] in simp_all)
  then show ?thesis
    using finish [of None]
    by (simp add: st get_answer_mem_def get_answer_def bindM_assoc pair_of_def own_response_def)
qed

lemma runs_get_transfer:
  assumes "mw_name (fst st) = None"
  shows "runs (own_pair st + {#(a, CurlHandle)#}) (get_transfer_mem re lib u cookies (a, c) wd st)
    (get_transfer re lib u cookies c wd (pair_of st)) get_of own_get
    (replicate_mset (names_in re (t_events (fst (curl_easy_perform lib (get_request u cookies c) wd))) - 1) Block)"
proof -
  let ?c = "get_request u cookies c"
  obtain t wd1 where t: "curl_easy_perform lib ?c wd = (t, wd1)" by force
  have "runs (own_pair st + {#(a, CurlHandle)#})
      (bindM (store (Some (url_encode_whitespace u))) (\<lambda>escaped.
         bindM (deliver_mem (write_header_callback_mem re) (t_events t) st) (get_answer_mem t (a, ?c) escaped wd1)))
      (bindR (deliver (write_header_callback re) (t_events t) (pair_of st)) (get_answer t ?c wd1))
      get_of own_get
      ({#} + replicate_mset (names_in re (t_events t) - (if mw_name (fst st) = None then 1 else 0)) Block)"
    by (rule runs_store, rule runs_bind [OF runs_deliver _ runs_get_answer]) (simp add: ac_simps)
  then show ?thesis using assms by (simp add: get_transfer_mem_def get_transfer_def t)
qed

lemma runs_curl_init:
  assumes "\<And>h. val h = am_curl_init lib auth isPost wd \<Longrightarrow> runs (owned CurlHandle h + P) (f h) v e own n"
  shows "runs P (bindM (am_curl_init_mem lib auth isPost wd) f) v e own n"
proof (cases "am_curl_init lib auth isPost wd")
  case None
  then show ?thesis using assms [of None] by (simp add: am_curl_init_mem_def)
next
  case (Some c)
  then show ?thesis using assms [of "Some (a, c)" for a]
    by (auto simp: am_curl_init_mem_def bindM_assoc intro: runs_acquire)
qed

lemma runs_get_session:
  assumes "web_of d = WebData_new (Some u)"
  shows "runs (owned CurlHandle h + (own_web d + own_statics w)) (get_session_mem re lib u cookies wd d (h, w))
    (get_session re lib u cookies wd (val h) (statics_of w)) get_of own_get
    (session_lost re lib u cookies wd (val h))"
proof (cases h)
  case None
  have "runs (own_web d + own_statics w) (bindM (WebData_free d) (\<lambda>_. returnM (None, None, w, wd)))
      (Inr (None, None, statics_of w, wd)) get_of own_get 0"
    by (rule web_data.runs_free, rule runs_return) (simp_all add: get_of_def own_get_def own_response_def)
  with None show ?thesis by (simp add: get_session_mem_def get_session_def session_lost_def)
next
  case (Some ac)
  have "mw_name d = None" using assms name_of [of d] by simp
  with runs_get_transfer [of "(d, w)" "fst ac" re lib u cookies "snd ac" wd] assms show ?thesis
    by (cases ac)
      (simp add: Some get_session_mem_def get_session_def session_lost_def own_pair_def pair_of_def)
qed

lemma runs_getHTTPData:
  "runs (owned CurlHandle c + own_statics w) (getHTTPData_mem re lib url cookies c w wd)
     (getHTTPData re lib url cookies (val c) (statics_of w) wd) get_of own_get
     (names_lost re lib url cookies (val c) wd)"
proof (cases url)
  case None
  then show ?thesis
    by (auto simp: getHTTPData_mem_def getHTTPData_def names_lost_def get_of_def own_get_def own_response_def
        intro: runs_return)
next
  case (Some u)
  show ?thesis
    unfolding Some getHTTPData_mem_def option.case
  proof (rule runs_WebData_new)
    fix d
    assume d: "web_of d = WebData_new (Some u)"
    let ?use = "get_session_mem re lib u cookies wd d"
    let ?init = "am_curl_init lib None False wd"
    show "runs (own_web d + (owned CurlHandle c + own_statics w))
        (bindM (case c of None \<Rightarrow> bindM (am_curl_init_mem lib None False wd) (\<lambda>h. returnM (h, w\<lparr>ms_init := True\<rparr>))
                | Some c \<Rightarrow> returnM (Some c, w)) ?use)
        (getHTTPData re lib (Some u) cookies (val c) (statics_of w) wd) get_of own_get
        (names_lost re lib (Some u) cookies (val c) wd)"
    proof (cases c)
      case None
      have "runs (own_web d + own_statics w) (bindM (am_curl_init_mem lib None False wd) (\<lambda>h. ?use (h, w\<lparr>ms_init := True\<rparr>)))
          (get_session re lib u cookies wd ?init ((statics_of w)\<lparr>gbGlobalInitDone := True\<rparr>)) get_of own_get
          (session_lost re lib u cookies wd ?init)"
        by (rule runs_curl_init)
          (use runs_get_session [OF d, where w = "w\<lparr>ms_init := True\<rparr>"] in \<open>metis statics_init\<close>)
      with None show ?thesis by (simp add: bindM_assoc getHTTPData_parts)
    next
      case (Some h)
      then show ?thesis using runs_get_session [OF d, of c w]
        by (cases h) (simp add: getHTTPData_parts ac_simps)
    qed
  qed
qed

section \<open>Uploads\<close>

lemma runs_post_setup:
  "runs ({#(a, CurlHandle)#} + own_statics w) (post_setup_mem url data w (a, c))
    (case url of
       None \<Rightarrow> Inl NullDeref
     | Some u \<Rightarrow>
         (let c = c\<lparr>opt_url := Some u, opt_postfields := Some data\<rparr>
          in if strstr u ''transmission'' = None then Inr (Some c)
             else bindR (case gSessionID (statics_of w) of
                           None \<Rightarrow> Inr []
                         | Some sid \<Rightarrow> bindR (session_header sid) (\<lambda>h. Inr [h]))
                    (\<lambda>hs. Inr (Some (c\<lparr>opt_transmission := True,
                          opt_headers := ''Content-Type: application/json'' # hs\<rparr>)))))
    (\<lambda>(h, l). val h) (\<lambda>(h, l). owned CurlHandle h + owned HeaderList l + own_statics w) 0"
proof (cases url)
  case None
  then show ?thesis by (simp add: post_setup_mem_def runs_fault)
next
  case (Some u)
  let ?c = "c\<lparr>opt_url := Some u, opt_postfields := Some data\<rparr>"
  let ?hs = "case val (ms_session w) of None \<Rightarrow> Inr [] | Some sid \<Rightarrow> bindR (session_header sid) (\<lambda>h. Inr [h])"
  have "runs ({#(a, CurlHandle)#} + own_statics w) (bindM (acquire HeaderList) (\<lambda>l. bindM (liftM ?hs) (\<lambda>hs.
      returnM (Some (a, ?c\<lparr>opt_transmission := True,
        opt_headers := ''Content-Type: application/json'' # hs\<rparr>), Some (l, ())))))
    (bindR ?hs (\<lambda>hs. Inr (Some (?c\<lparr>opt_transmission := True,
        opt_headers := ''Content-Type: application/json'' # hs\<rparr>)))) (\<lambda>(h, l). val h)
    (\<lambda>(h, l). owned CurlHandle h + owned HeaderList l + own_statics w) (0 + 0)"
    by (rule runs_acquire, rule runs_bind [OF runs_lift _ runs_return]) (simp_all add: ac_simps)
  then show ?thesis
    using Some by (auto simp: post_setup_mem_def statics_of_def Let_def intro: runs_return)
qed

lemma runs_post_request:
  "runs (own_statics w) (post_request_mem lib url auth data w wd)
     (post_request lib url auth data (statics_of w) wd) (\<lambda>(h, l). val h)
     (\<lambda>(h, l). owned CurlHandle h + owned HeaderList l + own_statics w) 0"
  unfolding post_request_mem_def
proof (rule runs_curl_init)
  fix h :: "curl ptr"
  assume "val h = am_curl_init lib auth True wd"
  then show "runs (owned CurlHandle h + own_statics w)
      (case h of None \<Rightarrow> returnM (None, None) | Some ac \<Rightarrow> post_setup_mem url data w ac)
      (post_request lib url auth data (statics_of w) wd) (\<lambda>(h, l). val h)
      (\<lambda>(h, l). owned CurlHandle h + owned HeaderList l + own_statics w) 0"
    using runs_post_setup [of "fst (the h)" w url data "snd (the h)"]
    by (cases h) (auto simp: post_request_def intro: runs_return split: option.splits)
qed

definition send_of where
  "send_of = (\<lambda>(r, h, headers, d, w, wd). (map_option response_of r, statics_of w, wd))"

definition own_send where
  "own_send = (\<lambda>(r, h, headers, d, w, wd).
     own_response r + owned CurlHandle h + owned HeaderList headers + own_web d + own_statics w)"

text \<open>The same parts on plain values.\<close>

definition send_answer ::
  "transfer \<Rightarrow> 'w \<Rightarrow> (WebData \<Rightarrow> web \<Rightarrow> (HTTPResponse option \<times> web \<times> 'w) res) \<Rightarrow> WebData \<times> web \<Rightarrow>
   (HTTPResponse option \<times> web \<times> 'w) res" where
  "send_answer t wd again = (\<lambda>(mem, w).
     if t_result t \<noteq> 0 then Inr (None, w, wd)
     else if t_status t = 409 then again mem w
     else bindR (make_response mem (t_status t)) (\<lambda>resp. Inr (Some resp, w, wd)))"

definition send_transfer ::
  "pcre \<Rightarrow> 'w curl_lib \<Rightarrow> ('w \<Rightarrow> WebData \<Rightarrow> web \<Rightarrow> (HTTPResponse option \<times> web \<times> 'w) res) \<Rightarrow> 'w \<Rightarrow>
   WebData \<times> web \<Rightarrow> curl option \<Rightarrow> (HTTPResponse option \<times> web \<times> 'w) res" where
  "send_transfer re lib again wd st handle =
     (case handle of
        None \<Rightarrow> Inr (None, snd st, wd)
      | Some c \<Rightarrow>
          (let (t, wd) = curl_easy_perform lib c wd;
               cb = (if opt_transmission c then parse_Transmission_response re
                     else write_header_callback re)
           in bindR (deliver cb (t_events t) st) (send_answer t wd (again wd))))"

lemma send_loop_parts:
  "send_loop re lib auth data (Suc tries) mem w wd =
     bindR (post_request lib (w_url (WebData_clear mem)) auth data (w\<lparr>gbGlobalInitDone := True\<rparr>) wd)
       (send_transfer re lib (\<lambda>wd mem w. send_loop re lib auth data tries mem w wd) wd
         (WebData_clear mem, w\<lparr>gbGlobalInitDone := True\<rparr>))"
  by (simp add: send_transfer_def [abs_def] send_answer_def Let_def)

lemma runs_send_answer:
  assumes "\<And>d w. runs (own_web d + own_statics w) (again d w) (again_v (web_of d) (statics_of w)) send_of own_send 0"
  shows "runs (own_pair st + (owned CurlHandle h + owned HeaderList headers))
    (send_answer_mem t h headers wd again st) (send_answer t wd again_v (pair_of st)) send_of own_send 0"
proof -
  obtain d w where st: "st = (d, w)" by force
  let ?P = "own_pair (d, w) + (owned CurlHandle h + owned HeaderList headers)"
  have fail: "runs ?P (returnM (None, h, headers, d, w, wd)) (Inr (None, statics_of w, wd)) send_of own_send 0"
    by (rule runs_return) (simp_all add: send_of_def own_send_def own_pair_def own_response_def ac_simps)
  have retry: "runs ?P (bindM (closeCURLSession h) (\<lambda>_. bindM (curl_slist_free_all headers) (\<lambda>_. again d w)))
      (again_v (web_of d) (statics_of w)) send_of own_send 0"
    by (rule curl_handle.runs_free, rule header_list.runs_free, rule assms)
      (simp_all add: own_pair_def ac_simps)
  have "runs ?P (bindM (make_response_mem d (t_status t)) (\<lambda>r. returnM (Some r, h, headers, d, w, wd)))
      (bindR (make_response (web_of d) (t_status t)) (\<lambda>r. Inr (Some r, statics_of w, wd))) send_of own_send (0 + 0)"
    by (rule runs_bind [OF runs_make_response _ runs_return, where Q = ?P])
      (simp_all add: send_of_def own_send_def own_pair_def ac_simps)
  with fail retry show ?thesis by (simp add: st send_answer_mem_def send_answer_def pair_of_def)
qed

text \<open>A server that names at most one file in an answer.\<close>

definition one_name :: "pcre \<Rightarrow> 'w curl_lib \<Rightarrow> bool" where
  "one_name re lib \<longleftrightarrow> (\<forall>c wd. names_in re (t_events (fst (curl_easy_perform lib c wd))) \<le> 1)"

lemma runs_send_transfer:
  assumes "one_name re lib" "mw_name (fst st) = None"
    and "\<And>wd d w. runs (own_web d + own_statics w) (again wd d w) (again_v wd (web_of d) (statics_of w))
      send_of own_send 0"
  shows "runs (owned CurlHandle h + owned HeaderList headers + own_pair st)
    (send_transfer_mem re lib again wd st (h, headers))
    (send_transfer re lib again_v wd (pair_of st) (val h)) send_of own_send 0"
proof (cases h)
  case None
  then show ?thesis
    by (auto simp: send_transfer_mem_def send_transfer_def send_of_def own_send_def own_pair_def pair_of_def
        own_response_def ac_simps intro: runs_return)
next
  case (Some ac)
  obtain a c t wd1 where ac: "ac = (a, c)" "curl_easy_perform lib c wd = (t, wd1)" by (metis surj_pair)
  have "names_in re (t_events t) \<le> 1" using assms(1) ac(2) by (metis fst_conv one_name_def)
  then have deliver: "runs (own_pair st)
      (deliver_mem (if opt_transmission c then parse_Transmission_response_mem re else write_header_callback_mem re)
        (t_events t) st)
      (deliver (if opt_transmission c then parse_Transmission_response re else write_header_callback re)
        (t_events t) (pair_of st)) pair_of own_pair 0"
    using runs_deliver [of st re "t_events t"] runs_deliver_Transmission [of st re "t_events t"] assms(2)
    by (simp add: le_Suc_eq)
  have "runs (own_pair st + (owned CurlHandle h + owned HeaderList headers))
      (bindM (deliver_mem (if opt_transmission c then parse_Transmission_response_mem re
          else write_header_callback_mem re) (t_events t) st) (send_answer_mem t h headers wd1 (again wd1)))
      (bindR (deliver (if opt_transmission c then parse_Transmission_response re else write_header_callback re)
          (t_events t) (pair_of st)) (send_answer t wd1 (again_v wd1))) send_of own_send (0 + 0)"
    by (rule runs_bind [OF deliver refl], rule runs_send_answer, rule assms(3))
  then show ?thesis
    by (simp add: send_transfer_mem_def send_transfer_def Some ac ac_simps)
qed

lemma runs_send_loop:
  assumes "one_name re lib"
  shows "runs (own_web d + own_statics w) (send_loop_mem re lib auth data n d w wd)
    (send_loop re lib auth data n (web_of d) (statics_of w) wd) send_of own_send 0"
proof (induction n arbitrary: d w wd)
  case 0
  show ?case by (auto simp: send_of_def own_send_def own_response_def ac_simps intro: runs_return)
next
  case (Suc n)
  let ?w = "w\<lparr>ms_init := True\<rparr>"
  let ?again = "\<lambda>wd d w. send_loop_mem re lib auth data n d w wd"
  let ?again_v = "\<lambda>wd mem w. send_loop re lib auth data n mem w wd"
  show ?case
    unfolding send_loop_mem.simps send_loop_parts Let_def
  proof (rule runs_WebData_clear)
    fix d'
    assume d': "web_of d' = WebData_clear (web_of d)"
    then have name: "mw_name d' = None" using name_of [of d'] by (simp add: WebData_clear_def)
    have "runs (own_web d' + own_statics w)
        (bindM (post_request_mem lib (val (mw_url d')) auth data ?w wd) (send_transfer_mem re lib ?again wd (d', ?w)))
        (bindR (post_request lib (val (mw_url d')) auth data (statics_of ?w) wd)
          (send_transfer re lib ?again_v wd (pair_of (d', ?w)))) send_of own_send (0 + 0)"
      by (rule runs_bind [OF runs_post_request, where Q = "own_web d'"])
        (use runs_send_transfer [OF assms _ Suc.IH, where st = "(d', ?w)"] name in
          \<open>auto simp: own_pair_def ac_simps\<close>)
    moreover have "w_url (web_of d') = val (mw_url d')" by (simp add: web_of_def)
    ultimately show "runs (own_web d' + own_statics w)
        (bindM (post_request_mem lib (val (mw_url d')) auth data ?w wd) (send_transfer_mem re lib ?again wd (d', ?w)))
        (bindR (post_request lib (w_url (WebData_clear (web_of d))) auth data
            ((statics_of w)\<lparr>gbGlobalInitDone := True\<rparr>) wd)
          (send_transfer re lib ?again_v wd
            (WebData_clear (web_of d), (statics_of w)\<lparr>gbGlobalInitDone := True\<rparr>))) send_of own_send 0"
      by (simp add: pair_of_def flip: d')
  qed simp
qed

definition upload_of where
  "upload_of = (\<lambda>(r, w, wd). (map_option response_of r, statics_of w, wd))"

definition own_upload where
  "own_upload = (\<lambda>(r, w, wd). own_response r + own_statics w)"

lemma runs_sendHTTPData:
  assumes "one_name re lib"
  shows "runs (own_statics w) (sendHTTPData_mem re lib url auth data n w wd)
    (sendHTTPData re lib url auth data n (statics_of w) wd) upload_of own_upload 0"
proof (cases "url = None \<or> data = None")
  case True
  then show ?thesis
    by (auto simp: sendHTTPData_mem_def sendHTTPData_def upload_of_def own_upload_def own_response_def
        intro: runs_return split: option.splits)
next
  case False
  then obtain u b where ub: "url = Some u" "data = Some b" by auto
  let ?b = "take n b"
  let ?close = "\<lambda>(resp, h, headers, d, w, wd).
    bindM (closeCURLSession h) (\<lambda>_. bindM (curl_slist_free_all headers) (\<lambda>_.
    bindM (WebData_free d) (\<lambda>_. returnM (resp, w, wd))))"
  have close: "runs (own_send x) (?close x) (Inr (send_of x)) upload_of own_upload 0"
    for x :: "mHTTPResponse option \<times> curl ptr \<times> unit ptr \<times> mWebData \<times> statics \<times> 'a"
    unfolding prod.case_eq_if
    by (rule curl_handle.runs_free, rule header_list.runs_free, rule web_data.runs_free, rule runs_return)
      (auto simp: own_send_def send_of_def upload_of_def own_upload_def ac_simps split: prod.splits)
  have "runs (own_statics w) (bindM (WebData_new_mem (Some u)) (\<lambda>d.
      bindM (send_loop_mem re lib auth ?b 2 d w wd) ?close))
    (bindR (send_loop re lib auth ?b 2 (WebData_new (Some u)) (statics_of w) wd) Inr) upload_of own_upload (0 + 0)"
  proof (rule runs_WebData_new)
    fix d
    assume d: "web_of d = WebData_new (Some u)"
    show "runs (own_web d + own_statics w) (bindM (send_loop_mem re lib auth ?b 2 d w wd) ?close)
        (bindR (send_loop re lib auth ?b 2 (WebData_new (Some u)) (statics_of w) wd) Inr) upload_of own_upload (0 + 0)"
      using runs_bind [OF runs_send_loop [OF assms], of _ d w "{#}" auth ?b 2 wd ?close Inr upload_of own_upload 0]
        close d by simp
  qed
  then show ?thesis by (simp add: sendHTTPData_mem_def sendHTTPData_def ub)
qed

section \<open>Properties\<close>

text \<open>C25: memory of a download: \<open>getHTTPData\<close> on the ledger computes what it computes on plain values,
  with the same faults, so that it never releases anything twice or anything it does not own; of what
  it allocates there remain the response, the handle and, when the server names several files in one
  transfer, all the names but the last, which are lost.\<close>

theorem getHTTPData_memory:
  assumes "live L = owned CurlHandle c + own_statics w + F"
  shows "case getHTTPData re lib url cookies (val c) (statics_of w) wd of
      Inl f \<Rightarrow> getHTTPData_mem re lib url cookies c w wd L = Inl f
    | Inr b \<Rightarrow> \<exists>r c' w' wd' L' X.
        getHTTPData_mem re lib url cookies c w wd L = Inr ((r, c', w', wd'), L') \<and>
        b = (map_option response_of r, val c', statics_of w', wd') \<and>
        live L' = own_response r + owned CurlHandle c' + own_statics w' + X + F \<and>
        lost (names_lost re lib url cookies (val c) wd) X"
  using runsD [OF runs_getHTTPData assms, of re lib url cookies wd]
  by (auto simp: accounts_def get_of_def own_get_def split: sum.split)

definition ledger0 :: ledger where
  "ledger0 = \<lparr>live = {#}, fresh = 0\<rparr>"

definition statics0 :: statics where
  "statics0 = \<lparr>ms_session = None, ms_move = False, ms_init = False\<rparr>"

theorem getHTTPData_memory_witness:
  "case getHTTPData echo_pcre echo_lib (Some ''http://x/y z'') None (val None) (statics_of statics0) () of
      Inl f \<Rightarrow> getHTTPData_mem echo_pcre echo_lib (Some ''http://x/y z'') None None statics0 () ledger0 = Inl f
    | Inr b \<Rightarrow> \<exists>r c' w' wd' L' X.
        getHTTPData_mem echo_pcre echo_lib (Some ''http://x/y z'') None None statics0 () ledger0 =
          Inr ((r, c', w', wd'), L') \<and>
        b = (map_option response_of r, val c', statics_of w', wd') \<and>
        live L' = own_response r + owned CurlHandle c' + own_statics w' + X + {#} \<and>
        lost (names_lost echo_pcre echo_lib (Some ''http://x/y z'') None (val None) ()) X"
  by (rule getHTTPData_memory) (simp add: ledger0_def statics0_def own_statics_def)

text \<open>C24: memory of an upload: \<open>sendHTTPData\<close>, which may open two handles and two header lists, closes and
  frees all of them; it computes what it computes on plain values and leaves only the response and
  the session identifier, as long as no answer names two files.\<close>

theorem sendHTTPData_memory:
  assumes "one_name re lib" "live L = own_statics w + F"
  shows "case sendHTTPData re lib url auth data n (statics_of w) wd of
      Inl f \<Rightarrow> sendHTTPData_mem re lib url auth data n w wd L = Inl f
    | Inr b \<Rightarrow> \<exists>r w' wd' L'. sendHTTPData_mem re lib url auth data n w wd L = Inr ((r, w', wd'), L') \<and>
        b = (map_option response_of r, statics_of w', wd') \<and>
        live L' = own_response r + own_statics w' + F"
  using runsD [OF runs_sendHTTPData [OF assms(1)] assms(2), of url auth data n wd]
  by (auto simp: accounts_def upload_of_def own_upload_def split: sum.split)

lemma one_name_echo: "one_name echo_pcre echo_lib"
  by (simp add: one_name_def echo_lib_def naming_def starts_with_def)

theorem sendHTTPData_memory_witness:
  "case sendHTTPData echo_pcre echo_lib (Some ''http://x/y'') None (Some ''ab'') 2 (statics_of statics0) () of
      Inl f \<Rightarrow> sendHTTPData_mem echo_pcre echo_lib (Some ''http://x/y'') None (Some ''ab'') 2 statics0 () ledger0 = Inl f
    | Inr b \<Rightarrow> \<exists>r w' wd' L'.
        sendHTTPData_mem echo_pcre echo_lib (Some ''http://x/y'') None (Some ''ab'') 2 statics0 () ledger0 =
          Inr ((r, w', wd'), L') \<and>
        b = (map_option response_of r, statics_of w', wd') \<and>
        live L' = own_response r + own_statics w' + {#}"
  by (rule sendHTTPData_memory [OF one_name_echo])
    (simp add: ledger0_def statics0_def own_statics_def)

end
