(* ===== verification/Am_Rpc_Memory.thy ===== *)
theory Am_Rpc_Memory
  imports Am_Web_Memory Am_Torrent Am_Notify
begin

text \<open>
  The callers of \<^verbatim>\<open>web.c\<close> on the ledger: the packets and answers of \<^verbatim>\<open>json.c\<close>, the uploads of
  \<^verbatim>\<open>torrent.c\<close> and \<^verbatim>\<open>transmission.c\<close>, the notifications of \<^verbatim>\<open>prowl.c\<close> and \<^verbatim>\<open>pushover.c\<close>.  All of
  them leave only the session identifier, with two exceptions: \<open>changeUploadSpeed\<close> and
  \<open>getRPCVersion\<close> free a response only when its status is 200.
\<close>

section \<open>Packets and answers\<close>

definition make_folder_str_mem :: "string option \<Rightarrow> (string ptr \<times> int) op" where
  "make_folder_str_mem folder =
     bindM (liftM (make_folder_str folder)) (\<lambda>(s, n). bindM (store s) (\<lambda>p. returnM (p, n)))"

text \<open>The buffer is freed again when the text does not fit.\<close>

definition print_packet_mem :: "int \<Rightarrow> string \<Rightarrow> (string ptr \<times> nat) op" where
  "print_packet_mem buf_size text =
     bindM (liftM (print_packet buf_size text)) (\<lambda>(s, n).
     bindM new_block (\<lambda>a.
       case s of
         None \<Rightarrow> bindM (am_free (Some (a, ()))) (\<lambda>_. returnM (None, n))
       | Some t \<Rightarrow> returnM (Some (a, t), n)))"

definition ptr_text :: "string ptr \<Rightarrow> string" where
  "ptr_text p = (case p of None \<Rightarrow> [] | Some (_, s) \<Rightarrow> s)"

definition makeTorrentAddFilenameJSON_mem ::
  "string \<Rightarrow> bool \<Rightarrow> string option \<Rightarrow> (string ptr \<times> nat) op" where
  "makeTorrentAddFilenameJSON_mem torrent_name start folder =
     bindM (make_folder_str_mem folder) (\<lambda>(folder_str, folderstr_size).
     bindM (print_packet_mem
         (wrap_s 32 (int (length torrent_name) + int (jsonstr_len ''filename'') + folderstr_size + 10))
         (torrent_add ''filename'' torrent_name (ptr_text folder_str) start)) (\<lambda>r.
     bindM (am_free folder_str) (\<lambda>_. returnM r)))"

definition makeTorrentAddMetaInfoJSON_mem ::
  "char list option \<Rightarrow> nat \<Rightarrow> bool \<Rightarrow> string option \<Rightarrow> (string ptr \<times> nat) op" where
  "makeTorrentAddMetaInfoJSON_mem data tsize start folder =
     bindM (liftM (base64_encode data tsize True)) (\<lambda>(enc, enc_size).
     bindM (store enc) (\<lambda>encoded.
       case (enc, enc_size) of
         (Some e, Some n) \<Rightarrow>
           (if 0 < n then
              bindM (make_folder_str_mem folder) (\<lambda>(folder_str, folderstr_size).
              bindM (print_packet_mem
                  (wrap_s 32 (int n + int (jsonstr_len ''metainfo'') + folderstr_size + 10))
                  (torrent_add ''metainfo'' e (ptr_text folder_str) start)) (\<lambda>r.
              bindM (am_free folder_str) (\<lambda>_.
              bindM (am_free encoded) (\<lambda>_. returnM r))))
            else returnM (None, 0))
       | _ \<Rightarrow> returnM (None, 0)))"

definition parseResponse_mem :: "pcre \<Rightarrow> string option \<Rightarrow> string ptr op" where
  "parseResponse_mem re response = getRegExMatch_mem re (Some result_regex) response 1"

definition parseTorrentID_mem :: "pcre \<Rightarrow> string option \<Rightarrow> int op" where
  "parseTorrentID_mem re response =
     bindM (getRegExMatch_mem re (Some id_regex) response 1) (\<lambda>p.
       case p of
         None \<Rightarrow> returnM (- 1)
       | Some (_, s) \<Rightarrow> bindM (am_free p) (\<lambda>_. returnM (atoi s)))"

definition parseRPCVersion_mem :: "pcre \<Rightarrow> string option \<Rightarrow> int op" where
  "parseRPCVersion_mem re response =
     bindM (getRegExMatch_mem re (Some rpc_regex) response 1) (\<lambda>p.
       case p of
         None \<Rightarrow> returnM (- 1)
       | Some (_, s) \<Rightarrow> bindM (am_free p) (\<lambda>_. returnM (wrap_s 8 (atoi s))))"

section \<open>Uploads\<close>

definition answer_text :: "mHTTPResponse \<Rightarrow> string option" where
  "answer_text r = map_option cstr (val (mr_data r))"

text \<open>What \<open>sendTransmissionRPC\<close> reads from a response.\<close>

definition rpc_answer_mem :: "pcre \<Rightarrow> mHTTPResponse \<Rightarrow> int op" where
  "rpc_answer_mem re r =
     (if mr_code r = 200 then
        bindM (parseResponse_mem re (answer_text r)) (\<lambda>response.
          case response of
            None \<Rightarrow> returnM (- 1)
          | Some (_, t) \<Rightarrow>
              bindM (if strncmp_eq 7 t ''success'' then parseTorrentID_mem re (answer_text r)
                     else if strncmp_eq 17 t ''duplicate torrent'' then returnM 0
                     else returnM (- 1)) (\<lambda>i.
              bindM (am_free response) (\<lambda>_. returnM i)))
      else returnM (- 1))"

definition sendTransmissionRPC_mem ::
  "pcre \<Rightarrow> 'w curl_lib \<Rightarrow> string option \<Rightarrow> nat \<Rightarrow> string option \<Rightarrow> string option \<Rightarrow> statics \<Rightarrow> 'w \<Rightarrow>
   (int \<times> statics \<times> 'w) op" where
  "sendTransmissionRPC_mem re lib rpc_packet packet_size url auth w wd =
     (if rpc_packet = None \<or> packet_size = 0 then liftM (Inl AssertFail)
      else bindM (sendHTTPData_mem re lib url auth rpc_packet packet_size w wd) (\<lambda>(res, w, wd).
        case res of
          None \<Rightarrow> returnM (- 1, w, wd)
        | Some r \<Rightarrow>
            bindM (rpc_answer_mem re r) (\<lambda>i.
            bindM (HTTPResponse_free res) (\<lambda>_. returnM (i, w, wd)))))"

definition uploadMagnet_mem ::
  "pcre \<Rightarrow> 'w curl_lib \<Rightarrow> string \<Rightarrow> string option \<Rightarrow> string option \<Rightarrow> bool \<Rightarrow> string option \<Rightarrow> statics \<Rightarrow>
   'w \<Rightarrow> (int \<times> statics \<times> 'w) op" where
  "uploadMagnet_mem re lib magnet_uri url auth start folder w wd =
     bindM (makeTorrentAddFilenameJSON_mem magnet_uri start folder) (\<lambda>(packet, packet_size).
     bindM (sendTransmissionRPC_mem re lib (val packet) packet_size url auth w wd) (\<lambda>ret.
     bindM (am_free packet) (\<lambda>_. returnM ret)))"

definition uploadTorrent_mem ::
  "pcre \<Rightarrow> 'w curl_lib \<Rightarrow> char list option \<Rightarrow> nat \<Rightarrow> string option \<Rightarrow> string option \<Rightarrow> bool \<Rightarrow>
   string option \<Rightarrow> statics \<Rightarrow> 'w \<Rightarrow> (int \<times> statics \<times> 'w) op" where
  "uploadTorrent_mem re lib t_data t_size url auth start folder w wd =
     bindM (makeTorrentAddMetaInfoJSON_mem t_data t_size start folder) (\<lambda>(packet, packet_size).
     bindM (sendTransmissionRPC_mem re lib (val packet) packet_size url auth w wd) (\<lambda>ret.
     bindM (am_free packet) (\<lambda>_. returnM ret)))"

text \<open>
  \<open>changeUploadSpeed\<close> and \<open>getRPCVersion\<close>: everything, the release of the response included, is
  inside \<^verbatim>\<open>if(res != NULL && res->responseCode == 200)\<close>.
\<close>

definition speed_answer_mem ::
  "pcre \<Rightarrow> mHTTPResponse \<Rightarrow> statics \<Rightarrow> 'w \<Rightarrow> (nat \<times> statics \<times> 'w) op" where
  "speed_answer_mem re r w wd =
     bindM (parseResponse_mem re (answer_text r)) (\<lambda>response.
     bindM (am_free response) (\<lambda>_.
     bindM (HTTPResponse_free (Some r)) (\<lambda>_.
     returnM (case response of
                None \<Rightarrow> 0
              | Some (_, t) \<Rightarrow> if strncmp_eq 7 t ''success'' then 1 else 0, w, wd))))"

definition version_answer_mem ::
  "pcre \<Rightarrow> mHTTPResponse \<Rightarrow> statics \<Rightarrow> 'w \<Rightarrow> (int \<times> statics \<times> 'w) op" where
  "version_answer_mem re r w wd =
     bindM (parseResponse_mem re (answer_text r)) (\<lambda>response.
     bindM (case response of
              None \<Rightarrow> returnM 0
            | Some (_, t) \<Rightarrow>
                bindM (if strncmp_eq 7 t ''success'' then parseRPCVersion_mem re (answer_text r)
                       else returnM 0) (\<lambda>v.
                bindM (am_free response) (\<lambda>_. returnM v))) (\<lambda>v.
     bindM (HTTPResponse_free (Some r)) (\<lambda>_. returnM (v, w, wd))))"

definition guarded_request_mem ::
  "(mHTTPResponse \<Rightarrow> statics \<Rightarrow> 'w \<Rightarrow> ('i::zero \<times> statics \<times> 'w) op) \<Rightarrow>
   pcre \<Rightarrow> 'w curl_lib \<Rightarrow> string option \<Rightarrow> string option \<Rightarrow> char list option \<Rightarrow> nat \<Rightarrow> statics \<Rightarrow> 'w \<Rightarrow>
   ('i \<times> statics \<times> 'w) op" where
  "guarded_request_mem answer re lib url auth data n w wd =
     bindM (sendHTTPData_mem re lib url auth data n w wd) (\<lambda>(res, w, wd).
       case res of
         None \<Rightarrow> returnM (0, w, wd)
       | Some r \<Rightarrow> if mr_code r = 200 then answer r w wd else returnM (0, w, wd))"

definition changeUploadSpeed_mem ::
  "pcre \<Rightarrow> 'w curl_lib \<Rightarrow> string option \<Rightarrow> string option \<Rightarrow> int \<Rightarrow> nat \<Rightarrow> nat \<Rightarrow> statics \<Rightarrow> 'w \<Rightarrow>
   (nat \<times> statics \<times> 'w) op" where
  "changeUploadSpeed_mem re lib url auth i upspeed rpcVersion w wd =
     (if i > 0 then
        (let (text, packet_size) = makeChangeUpSpeedJSON i upspeed rpcVersion
         in bindM (store text) (\<lambda>packet.
            bindM (if packet \<noteq> None \<and> packet_size > 0
                   then guarded_request_mem (speed_answer_mem re) re lib url auth (val packet) packet_size w wd
                   else returnM (0, w, wd)) (\<lambda>ret.
            bindM (am_free packet) (\<lambda>_. returnM ret))))
      else returnM (0, w, wd))"

definition getRPCVersion_mem ::
  "pcre \<Rightarrow> 'w curl_lib \<Rightarrow> string option \<Rightarrow> nat \<Rightarrow> string option \<Rightarrow> statics \<Rightarrow> 'w \<Rightarrow>
   (int \<times> statics \<times> 'w) op" where
  "getRPCVersion_mem re lib host port auth w wd =
     (case host of
        None \<Rightarrow> returnM (0, w, wd)
      | Some h \<Rightarrow>
          guarded_request_mem (version_answer_mem re) re lib (Some (rpc_url h port)) auth (Some session_get)
            (length session_get) w wd)"

section \<open>Notifications\<close>

definition notification_result :: "mHTTPResponse option \<Rightarrow> int" where
  "notification_result response =
     (case response of
        None \<Rightarrow> - 1
      | Some r \<Rightarrow> if mr_code r = 200 then 1 else wrap_s 16 (- mr_code r))"

definition sendProwlNotification_mem ::
  "pcre \<Rightarrow> 'w curl_lib \<Rightarrow> string option \<Rightarrow> string option \<Rightarrow> string option \<Rightarrow> statics \<Rightarrow> 'w \<Rightarrow>
   (int \<times> statics \<times> 'w) op" where
  "sendProwlNotification_mem re lib apikey event desc w wd =
     (let (text, data_size) = createProwlMessage apikey event desc
      in bindM (store text) (\<lambda>data.
           if data = None then returnM (- 1, w, wd)
           else bindM (sendHTTPData_mem re lib (Some prowl_add_url) None (val data) (nat data_size) w wd)
                  (\<lambda>(response, w, wd).
                bindM (HTTPResponse_free response) (\<lambda>_.
                bindM (am_free data) (\<lambda>_. returnM (notification_result response, w, wd))))))"

definition sendPushoverNotification_mem ::
  "pcre \<Rightarrow> 'w curl_lib \<Rightarrow> string option \<Rightarrow> string option \<Rightarrow> string option \<Rightarrow> statics \<Rightarrow> 'w \<Rightarrow>
   (int \<times> statics \<times> 'w) op" where
  "sendPushoverNotification_mem re lib apikey event desc w wd =
     (let (text, data_size) = createMessage apikey event desc
      in bindM (store text) (\<lambda>data.
           if data = None then returnM (- 1, w, wd)
           else bindM (sendHTTPData_mem re lib (Some pushover_url) None (val data) (nat data_size) w wd)
                  (\<lambda>(response, w, wd).
                bindM (HTTPResponse_free response) (\<lambda>_.
                bindM (am_free data) (\<lambda>_. returnM (notification_result response, w, wd))))))"

definition prowl_sendNotification_mem ::
  "pcre \<Rightarrow> 'w curl_lib \<Rightarrow> int \<Rightarrow> string option \<Rightarrow> string option \<Rightarrow> statics \<Rightarrow> 'w \<Rightarrow>
   (nat \<times> statics \<times> 'w) op" where
  "prowl_sendNotification_mem re lib event apikey filename w wd =
     (case event_text event of
        None \<Rightarrow> returnM (0, w, wd)
      | Some e \<Rightarrow>
          bindM (sendProwlNotification_mem re lib apikey (Some e)
                   (Some (snprintf_buf 500 (printf_s filename))) w wd)
            (\<lambda>(r, w, wd). returnM (if r = 1 then 1 else 0, w, wd)))"

definition pushover_sendNotification_mem ::
  "pcre \<Rightarrow> 'w curl_lib \<Rightarrow> int \<Rightarrow> string option \<Rightarrow> string option \<Rightarrow> statics \<Rightarrow> 'w \<Rightarrow>
   (nat \<times> statics \<times> 'w) op" where
  "pushover_sendNotification_mem re lib event apikey filename w wd =
     (case event_text event of
        None \<Rightarrow> returnM (0, w, wd)
      | Some e \<Rightarrow>
          bindM (sendPushoverNotification_mem re lib apikey (Some e)
                   (Some (snprintf_buf 500 (printf_s filename))) w wd)
            (\<lambda>(r, w, wd). returnM (if r = 1 then 1 else 0, w, wd)))"

definition verifyProwlAPIKey_mem ::
  "pcre \<Rightarrow> 'w curl_lib \<Rightarrow> string option \<Rightarrow> statics \<Rightarrow> 'w \<Rightarrow> (int \<times> statics \<times> 'w) op" where
  "verifyProwlAPIKey_mem re lib apikey w wd =
     (case apikey of
        None \<Rightarrow> returnM (- 1, w, wd)
      | Some k \<Rightarrow>
          bindM (getHTTPData_mem re lib (Some (prowl_verify_url k)) None None w wd)
            (\<lambda>(response, session, w, wd).
          bindM (HTTPResponse_free response) (\<lambda>_.
          bindM (closeCURLSession session) (\<lambda>_.
          returnM (notification_result response, w, wd)))))"

section \<open>Packets are accounted for\<close>

definition state_of :: "'a \<times> statics \<times> 'w \<Rightarrow> 'a \<times> web \<times> 'w" where
  "state_of = (\<lambda>(i, w, wd). (i, statics_of w, wd))"

definition own_state :: "'a \<times> statics \<times> 'w \<Rightarrow> objects" where
  "own_state = (\<lambda>(i, w, wd). own_statics w)"

lemma state_simps [simp]:
  "state_of (i, w, wd) = (i, statics_of w, wd)" "own_state (i, w, wd) = own_statics w"
  by (simp_all add: state_of_def own_state_def)

abbreviation packet_of :: "string ptr \<times> 'n \<Rightarrow> string option \<times> 'n" where
  "packet_of r \<equiv> (val (fst r), snd r)"

abbreviation own_packet :: "string ptr \<times> 'n \<Rightarrow> objects" where
  "own_packet r \<equiv> owned Block (fst r)"

text \<open>A value computed first and stored in a block.\<close>

lemma runs_lifted:
  assumes "\<And>b. v = Inr b \<Longrightarrow> runs P (f b) (g b) e own n"
  shows "runs P (bindM (liftM v) f) (bindR v g) e own n"
  using assms by (cases v) (auto simp: runs_def bindM_def liftM_def)

lemma runs_folder_str:
  "runs {#} (make_folder_str_mem folder) (make_folder_str folder) packet_of own_packet 0"
proof -
  have "runs {#} (make_folder_str_mem folder) (bindR (make_folder_str folder) Inr) packet_of own_packet 0"
    unfolding make_folder_str_mem_def
  proof (rule runs_lifted)
    fix b :: "string option \<times> int"
    show "runs {#} (case b of (s, n) \<Rightarrow> bindM (store s) (\<lambda>p. returnM (p, n))) (Inr b) packet_of own_packet 0"
      unfolding prod.case_eq_if by (rule runs_store, rule runs_return) simp_all
  qed
  then show ?thesis by simp
qed

lemma runs_print_packet:
  "runs {#} (print_packet_mem n text) (print_packet n text) packet_of own_packet 0"
proof -
  have "runs {#} (print_packet_mem n text) (bindR (print_packet n text) Inr) packet_of own_packet 0"
    unfolding print_packet_mem_def
  proof (rule runs_lifted)
    fix b :: "string option \<times> nat"
    have "runs ({#(a, Block)#} + {#}) (case fst b of
        None \<Rightarrow> bindM (am_free (Some (a, ()))) (\<lambda>_. returnM (None, snd b))
      | Some t \<Rightarrow> returnM (Some (a, t), snd b)) (Inr b) packet_of own_packet 0" for a
    proof (cases "fst b")
      case None
      then show ?thesis
        by simp (rule block.runs_free [where Q = "{#}"], rule runs_return, auto simp: prod_eq_iff)
    qed (auto simp: prod_eq_iff intro: runs_return)
    then show "runs {#} (case b of (s, n) \<Rightarrow> bindM new_block (\<lambda>a. case s of
        None \<Rightarrow> bindM (am_free (Some (a, ()))) (\<lambda>_. returnM (None, n))
      | Some t \<Rightarrow> returnM (Some (a, t), n))) (Inr b) packet_of own_packet 0"
      unfolding prod.case_eq_if by (rule runs_new)
  qed
  then show ?thesis by simp
qed

lemma ptr_text_val: "ptr_text p = (case val p of None \<Rightarrow> [] | Some s \<Rightarrow> s)"
  by (simp add: ptr_text_def split: option.split)

text \<open>Both packets: the folder line, the text, then the folder line is freed.\<close>

lemma runs_packet:
  assumes "\<And>r. runs (own_packet r + Q) (rest r) (g (packet_of r)) e own n"
  shows "runs Q
    (bindM (make_folder_str_mem folder) (\<lambda>(fs, k).
     bindM (print_packet_mem (size_of k) (text (ptr_text fs))) (\<lambda>r.
     bindM (am_free fs) (\<lambda>_. rest r))))
    (bindR (make_folder_str folder) (\<lambda>(fs, k).
     bindR (print_packet (size_of k) (text (case fs of None \<Rightarrow> [] | Some s \<Rightarrow> s))) g)) e own n"
proof -
  have "runs (own_packet x + Q)
      (case x of (fs, k) \<Rightarrow> bindM (print_packet_mem (size_of k) (text (ptr_text fs))) (\<lambda>r.
         bindM (am_free fs) (\<lambda>_. rest r)))
      (case packet_of x of (fs, k) \<Rightarrow> bindR (print_packet (size_of k) (text (case fs of None \<Rightarrow> [] | Some s \<Rightarrow> s))) g)
      e own (n + 0)" for x :: "string ptr \<times> int"
    unfolding prod.case_eq_if ptr_text_val fst_conv snd_conv
  proof (rule runs_bind [OF runs_print_packet, where Q = "own_packet x + Q"])
    show "runs (own_packet r + (own_packet x + Q)) (bindM (am_free (fst x)) (\<lambda>_. rest r)) (g (packet_of r)) e own n"
      for r
      by (rule block.runs_free, rule assms) (simp add: ac_simps)
  qed simp
  from runs_bind [OF runs_folder_str [of folder] _ this, where P' = Q] show ?thesis by simp
qed

lemma runs_FilenameJSON:
  "runs {#} (makeTorrentAddFilenameJSON_mem nm start folder) (makeTorrentAddFilenameJSON nm start folder)
     packet_of own_packet 0"
proof -
  have "runs (own_packet r + {#}) (returnM r) (Inr (packet_of r)) packet_of own_packet 0" for r :: "string ptr \<times> nat"
    by (rule runs_return) simp_all
  from runs_packet [of "{#}" returnM Inr, OF this] show ?thesis
    unfolding makeTorrentAddFilenameJSON_mem_def makeTorrentAddFilenameJSON_def by simp
qed

lemma encode_nonempty: "base64_encode data n True = Inr (Some e, k) \<Longrightarrow> \<exists>m. k = Some m \<and> 0 < m"
  by (auto simp: base64_encode_def encode_loop_length Let_def split: option.splits if_splits)

lemma runs_metainfo:
  fixes s :: string
  shows "runs {#} (bindM (store (Some s)) (\<lambda>p.
      bindM (make_folder_str_mem folder) (\<lambda>(fs, k).
      bindM (print_packet_mem (size_of k) (text (ptr_text fs))) (\<lambda>r.
      bindM (am_free fs) (\<lambda>_. bindM (am_free p) (\<lambda>_. returnM r))))))
    (bindR (make_folder_str folder) (\<lambda>(fs, k).
      print_packet (size_of k) (text (case fs of None \<Rightarrow> [] | Some s \<Rightarrow> s)))) packet_of own_packet 0"
proof -
  have rest: "runs (own_packet r + owned Block p) (bindM (am_free p) (\<lambda>_. returnM r)) (Inr (packet_of r))
      packet_of own_packet 0" for r :: "string ptr \<times> nat" and p :: "string ptr"
    by (rule block.runs_free, rule runs_return) (simp_all add: ac_simps)
  have "runs {#} (bindM (store (Some s)) (\<lambda>p.
      bindM (make_folder_str_mem folder) (\<lambda>(fs, k).
      bindM (print_packet_mem (size_of k) (text (ptr_text fs))) (\<lambda>r.
      bindM (am_free fs) (\<lambda>_. bindM (am_free p) (\<lambda>_. returnM r))))))
    (bindR (make_folder_str folder) (\<lambda>(fs, k).
      bindR (print_packet (size_of k) (text (case fs of None \<Rightarrow> [] | Some s \<Rightarrow> s))) Inr)) packet_of own_packet 0"
    by (rule runs_store, rule runs_packet, unfold add_0_right, rule rest)
  then show ?thesis by simp
qed

lemma runs_MetaInfoJSON:
  "runs {#} (makeTorrentAddMetaInfoJSON_mem data tsize start folder)
     (makeTorrentAddMetaInfoJSON data tsize start folder) packet_of own_packet 0"
  unfolding makeTorrentAddMetaInfoJSON_mem_def makeTorrentAddMetaInfoJSON_def
proof (rule runs_lifted, goal_cases)
  case (1 b)
  show ?case
  proof (cases "fst b")
    case None
    then show ?thesis by (cases b) (auto simp: store_def intro: runs_return)
  next
    case (Some s)
    then obtain m where "b = (Some s, Some m)" "0 < m"
      using 1 encode_nonempty [of data tsize s "snd b"] by (cases b) auto
    then show ?thesis using runs_metainfo [of s folder] by simp
  qed
qed

section \<open>Answers and uploads are accounted for\<close>

lemma runs_parseTorrentID:
  "runs {#} (parseTorrentID_mem re r) (parseTorrentID re r) id (\<lambda>_. {#}) 0"
  unfolding parseTorrentID_mem_def parseTorrentID_def
proof (rule runs_regex)
  fix p :: "string ptr"
  show "runs (owned Block p + {#})
      (case p of None \<Rightarrow> returnM (- 1) | Some (_, s) \<Rightarrow> bindM (am_free p) (\<lambda>_. returnM (atoi s)))
      (Inr (case val p of None \<Rightarrow> - 1 | Some s \<Rightarrow> atoi s)) id (\<lambda>_. {#}) 0"
    by (cases p) (auto intro!: runs_return block.runs_free [where Q = "{#}"])
qed

lemma runs_parseRPCVersion:
  "runs {#} (parseRPCVersion_mem re r) (parseRPCVersion re r) id (\<lambda>_. {#}) 0"
  unfolding parseRPCVersion_mem_def parseRPCVersion_def
proof (rule runs_regex)
  fix p :: "string ptr"
  show "runs (owned Block p + {#})
      (case p of None \<Rightarrow> returnM (- 1) | Some (_, s) \<Rightarrow> bindM (am_free p) (\<lambda>_. returnM (wrap_s 8 (atoi s))))
      (Inr (case val p of None \<Rightarrow> - 1 | Some s \<Rightarrow> wrap_s 8 (atoi s))) id (\<lambda>_. {#}) 0"
    by (cases p) (auto intro!: runs_return block.runs_free [where Q = "{#}"])
qed

lemma answer_text_of: "response_text (response_of r) = answer_text r"
  by (simp add: response_text_def answer_text_def response_of_def)

text \<open>A request and what is done with its response.\<close>

lemma runs_request:
  assumes "one_name re lib"
    and "\<And>r w' wd'. sendHTTPData re lib url auth data n (statics_of w) wd =
        Inr (map_option response_of r, statics_of w', wd') \<Longrightarrow>
      runs (own_response r + own_statics w' + P) (f (r, w', wd'))
        (g (map_option response_of r, statics_of w', wd')) e own k"
  shows "runs (own_statics w + P) (bindM (sendHTTPData_mem re lib url auth data n w wd) f)
    (bindR (sendHTTPData re lib url auth data n (statics_of w) wd) g) e own k"
proof -
  have "runs (own_statics w + P) (bindM (sendHTTPData_mem re lib url auth data n w wd) f)
    (bindR (sendHTTPData re lib url auth data n (statics_of w) wd) g) e own (k + 0)"
  proof (rule runs_bind [OF runs_sendHTTPData [OF assms(1)] refl])
    fix x :: "mHTTPResponse option \<times> statics \<times> 'a"
    assume "sendHTTPData re lib url auth data n (statics_of w) wd = Inr (upload_of x)"
    then show "runs (own_upload x + P) (f x) (g (upload_of x)) e own k"
      using assms(2) by (cases x) (simp add: upload_of_def own_upload_def)
  qed
  then show ?thesis by simp
qed

definition rpc_answer :: "pcre \<Rightarrow> HTTPResponse \<Rightarrow> int res" where
  "rpc_answer re r =
     (if hr_code r = 200 then
        bindR (parseResponse re (response_text r)) (\<lambda>response.
          case response of
            None \<Rightarrow> Inr (- 1)
          | Some t \<Rightarrow>
              (if strncmp_eq 7 t ''success'' then parseTorrentID re (response_text r)
               else if strncmp_eq 17 t ''duplicate torrent'' then Inr 0
               else Inr (- 1)))
      else Inr (- 1))"

lemma sendTransmissionRPC_parts:
  "sendTransmissionRPC re lib rpc_packet packet_size url auth w wd =
     (if rpc_packet = None \<or> packet_size = 0 then Inl AssertFail
      else bindR (sendHTTPData re lib url auth rpc_packet packet_size w wd) (\<lambda>(res, w, wd).
        case res of
          None \<Rightarrow> Inr (- 1, w, wd)
        | Some r \<Rightarrow> bindR (rpc_answer re r) (\<lambda>i. Inr (i, w, wd))))"
  unfolding sendTransmissionRPC_def
  by (intro if_cong bindR_cong refl)
    (auto simp: rpc_answer_def bindR_assoc intro!: bindR_cong split: option.splits)

lemma runs_rpc_answer:
  "runs {#} (rpc_answer_mem re r) (rpc_answer re (response_of r)) id (\<lambda>_. {#}) 0"
proof (cases "mr_code r = 200")
  case True
  have "runs {#}
      (bindM (getRegExMatch_mem re (Some result_regex) (answer_text r) 1) (\<lambda>response. case response of
         None \<Rightarrow> returnM (- 1)
       | Some (_, t) \<Rightarrow>
           bindM (if strncmp_eq 7 t ''success'' then parseTorrentID_mem re (answer_text r)
                  else if strncmp_eq 17 t ''duplicate torrent'' then returnM 0
                  else returnM (- 1)) (\<lambda>i. bindM (am_free response) (\<lambda>_. returnM i))))
      (bindR (getRegExMatch re (Some result_regex) (answer_text r) 1) (\<lambda>response. case response of
         None \<Rightarrow> Inr (- 1)
       | Some t \<Rightarrow>
           (if strncmp_eq 7 t ''success'' then parseTorrentID re (answer_text r)
            else if strncmp_eq 17 t ''duplicate torrent'' then Inr 0
            else Inr (- 1)))) id (\<lambda>_. {#}) 0"
  proof (rule runs_regex)
    fix p :: "string ptr"
    have free: "runs (owned Block p) (bindM (am_free p) (\<lambda>_. returnM i)) (Inr i) id (\<lambda>_. {#}) 0" for i :: int
      by (rule block.runs_free [where Q = "{#}"], rule runs_return) simp_all
    have "runs (owned Block p) (bindM (parseTorrentID_mem re (answer_text r)) (\<lambda>i. bindM (am_free p) (\<lambda>_. returnM i)))
        (bindR (parseTorrentID re (answer_text r)) Inr) id (\<lambda>_. {#}) (0 + 0)"
      by (rule runs_bind [OF runs_parseTorrentID, where Q = "owned Block p"]) (use free in simp_all)
    with free show "runs (owned Block p + {#}) (case p of
         None \<Rightarrow> returnM (- 1)
       | Some (_, t) \<Rightarrow>
           bindM (if strncmp_eq 7 t ''success'' then parseTorrentID_mem re (answer_text r)
                  else if strncmp_eq 17 t ''duplicate torrent'' then returnM 0
                  else returnM (- 1)) (\<lambda>i. bindM (am_free p) (\<lambda>_. returnM i)))
      (case val p of
         None \<Rightarrow> Inr (- 1)
       | Some t \<Rightarrow>
           (if strncmp_eq 7 t ''success'' then parseTorrentID re (answer_text r)
            else if strncmp_eq 17 t ''duplicate torrent'' then Inr 0
            else Inr (- 1))) id (\<lambda>_. {#}) 0"
      by (cases p) (auto intro: runs_return)
  qed
  moreover have "hr_code (response_of r) = mr_code r" by (simp add: response_of_def)
  ultimately show ?thesis
    unfolding rpc_answer_mem_def rpc_answer_def parseResponse_mem_def parseResponse_def answer_text_of
    using True by simp
next
  case False
  then show ?thesis by (auto simp: rpc_answer_mem_def rpc_answer_def response_of_def intro: runs_return)
qed

lemma runs_sendTransmissionRPC:
  assumes "one_name re lib"
  shows "runs (own_statics w) (sendTransmissionRPC_mem re lib packet n url auth w wd)
    (sendTransmissionRPC re lib packet n url auth (statics_of w) wd) state_of own_state 0"
proof (cases "packet = None \<or> n = 0")
  case True
  then show ?thesis by (simp add: sendTransmissionRPC_mem_def sendTransmissionRPC_parts runs_fault)
next
  case False
  have "runs (own_statics w + {#}) (bindM (sendHTTPData_mem re lib url auth packet n w wd) (\<lambda>(res, w, wd).
      case res of None \<Rightarrow> returnM (- 1, w, wd)
      | Some r \<Rightarrow> bindM (rpc_answer_mem re r) (\<lambda>i. bindM (HTTPResponse_free res) (\<lambda>_. returnM (i, w, wd)))))
    (bindR (sendHTTPData re lib url auth packet n (statics_of w) wd) (\<lambda>(res, w, wd).
      case res of None \<Rightarrow> Inr (- 1, w, wd) | Some r \<Rightarrow> bindR (rpc_answer re r) (\<lambda>i. Inr (i, w, wd))))
    state_of own_state 0"
  proof (rule runs_request [OF assms], goal_cases)
    case (1 r w' wd')
    show ?case
    proof (cases r)
      case None
      then show ?thesis by (auto simp: own_response_def intro: runs_return)
    next
      case (Some res)
      have "runs (own_response r + own_statics w')
          (bindM (rpc_answer_mem re res) (\<lambda>i. bindM (HTTPResponse_free r) (\<lambda>_. returnM (i, w', wd'))))
          (bindR (rpc_answer re (response_of res)) (\<lambda>i. Inr (i, statics_of w', wd'))) state_of own_state (0 + 0)"
        by (rule runs_bind [OF runs_rpc_answer, where Q = "own_response r + own_statics w'"], simp,
            rule response.runs_free, rule runs_return) simp_all
      with Some show ?thesis by simp
    qed
  qed
  moreover have "(packet = None \<or> n = 0) \<longleftrightarrow> False" using False by simp
  ultimately show ?thesis
    unfolding sendTransmissionRPC_mem_def sendTransmissionRPC_parts by (simp only: if_False add_0_right)
qed

text \<open>A packet is made, sent and freed.\<close>

lemma runs_packet_sent:
  assumes "one_name re lib" "runs {#} m v packet_of own_packet 0"
  shows "runs (own_statics w)
    (bindM m (\<lambda>(packet, n). bindM (sendTransmissionRPC_mem re lib (val packet) n url auth w wd) (\<lambda>ret.
       bindM (am_free packet) (\<lambda>_. returnM ret))))
    (bindR v (\<lambda>(packet, n). sendTransmissionRPC re lib packet n url auth (statics_of w) wd))
    state_of own_state 0"
proof -
  have "runs (own_packet x + own_statics w)
      (bindM (sendTransmissionRPC_mem re lib (val (fst x)) (snd x) url auth w wd) (\<lambda>ret.
         bindM (am_free (fst x)) (\<lambda>_. returnM ret)))
      (bindR (sendTransmissionRPC re lib (val (fst x)) (snd x) url auth (statics_of w) wd) Inr)
      state_of own_state (0 + 0)" for x :: "string ptr \<times> nat"
    by (rule runs_bind [OF runs_sendTransmissionRPC [OF assms(1)], where Q = "own_packet x"],
        simp add: ac_simps, rule block.runs_free, rule runs_return [OF refl refl]) (simp add: ac_simps)
  then have "runs (own_statics w)
    (bindM m (\<lambda>x. bindM (sendTransmissionRPC_mem re lib (val (fst x)) (snd x) url auth w wd) (\<lambda>ret.
       bindM (am_free (fst x)) (\<lambda>_. returnM ret))))
    (bindR v (\<lambda>y. sendTransmissionRPC re lib (fst y) (snd y) url auth (statics_of w) wd))
    state_of own_state (0 + 0)"
    by (intro runs_bind [OF assms(2), where Q = "own_statics w"]) simp_all
  then show ?thesis by (simp add: split_def)
qed

lemma runs_uploadTorrent:
  "one_name re lib \<Longrightarrow> runs (own_statics w) (uploadTorrent_mem re lib data n url auth start folder w wd)
    (uploadTorrent re lib data n url auth start folder (statics_of w) wd) state_of own_state 0"
  unfolding uploadTorrent_mem_def uploadTorrent_def
  by (rule runs_packet_sent [OF _ runs_MetaInfoJSON])

lemma runs_uploadMagnet:
  "one_name re lib \<Longrightarrow> runs (own_statics w) (uploadMagnet_mem re lib nm url auth start folder w wd)
    (uploadMagnet re lib nm url auth start folder (statics_of w) wd) state_of own_state 0"
  unfolding uploadMagnet_mem_def uploadMagnet_def
  by (rule runs_packet_sent [OF _ runs_FilenameJSON])

text \<open>What the two functions lose that free a response only when its status is 200.\<close>

definition response_lost :: "(HTTPResponse option \<times> web \<times> 'w) res \<Rightarrow> kind multiset" where
  "response_lost v =
     (case v of
        Inr (Some r, _) \<Rightarrow>
          (if hr_code r = 200 then {#}
           else (if hr_data r = None then {#} else {#Block#}) +
             (if hr_filename r = None then {#} else {#Block#}) + {#Block#})
      | _ \<Rightarrow> {#})"

lemma lost_response:
  "hr_code (response_of r) \<noteq> 200 \<Longrightarrow>
     lost (response_lost (Inr (Some (response_of r), z))) (own_response (Some r))"
  by (cases z) (auto simp: response_lost_def response_of_def own_response_def lost_def owned_def split: option.splits)

text \<open>The same parts on plain values.\<close>

definition speed_answer :: "pcre \<Rightarrow> HTTPResponse \<Rightarrow> web \<Rightarrow> 'w \<Rightarrow> (nat \<times> web \<times> 'w) res" where
  "speed_answer re r w wd =
     bindR (parseResponse re (response_text r)) (\<lambda>response. case response of
       None \<Rightarrow> Inr (0, w, wd)
     | Some t \<Rightarrow> Inr (if strncmp_eq 7 t ''success'' then 1 else 0, w, wd))"

definition version_answer :: "pcre \<Rightarrow> HTTPResponse \<Rightarrow> web \<Rightarrow> 'w \<Rightarrow> (int \<times> web \<times> 'w) res" where
  "version_answer re r w wd =
     bindR (parseResponse re (response_text r)) (\<lambda>response. case response of
       None \<Rightarrow> Inr (0, w, wd)
     | Some t \<Rightarrow>
         (if strncmp_eq 7 t ''success''
          then bindR (parseRPCVersion re (response_text r)) (\<lambda>v. Inr (v, w, wd))
          else Inr (0, w, wd)))"

definition guarded_request ::
  "(HTTPResponse \<Rightarrow> web \<Rightarrow> 'w \<Rightarrow> ('i::zero \<times> web \<times> 'w) res) \<Rightarrow>
   pcre \<Rightarrow> 'w curl_lib \<Rightarrow> string option \<Rightarrow> string option \<Rightarrow> char list option \<Rightarrow> nat \<Rightarrow> web \<Rightarrow> 'w \<Rightarrow>
   ('i \<times> web \<times> 'w) res" where
  "guarded_request answer re lib url auth data n w wd =
     bindR (sendHTTPData re lib url auth data n w wd) (\<lambda>(res, w, wd).
       case res of
         None \<Rightarrow> Inr (0, w, wd)
       | Some r \<Rightarrow> if hr_code r = 200 then answer r w wd else Inr (0, w, wd))"

lemma changeUploadSpeed_parts:
  "changeUploadSpeed re lib url auth i upspeed rpcVersion w wd =
     (if i > 0 then
        (let (packet, packet_size) = makeChangeUpSpeedJSON i upspeed rpcVersion
         in if packet \<noteq> None \<and> packet_size > 0
            then guarded_request (speed_answer re) re lib url auth packet packet_size w wd
            else Inr (0, w, wd))
      else Inr (0, w, wd))"
  unfolding changeUploadSpeed_def guarded_request_def speed_answer_def by simp

lemma getRPCVersion_parts:
  "getRPCVersion re lib (Some h) port auth w wd =
     guarded_request (version_answer re) re lib (Some (rpc_url h port)) auth (Some session_get)
       (length session_get) w wd"
  unfolding getRPCVersion_def guarded_request_def version_answer_def by simp

text \<open>A request whose response is leaked unless its status is 200.\<close>

lemma runs_guarded_request:
  assumes "one_name re lib"
    and "\<And>r w' wd'. runs (own_response (Some r) + own_statics w') (use r w' wd')
        (g (response_of r) (statics_of w') wd') state_of own_state 0"
  shows "runs (own_statics w) (guarded_request_mem use re lib url auth data n w wd)
    (guarded_request g re lib url auth data n (statics_of w) wd)
    state_of own_state (response_lost (sendHTTPData re lib url auth data n (statics_of w) wd))"
proof -
  let ?v = "sendHTTPData re lib url auth data n (statics_of w) wd"
  have "runs (own_statics w + {#}) (guarded_request_mem use re lib url auth data n w wd)
    (guarded_request g re lib url auth data n (statics_of w) wd) state_of own_state (response_lost ?v)"
    unfolding guarded_request_mem_def guarded_request_def
  proof (rule runs_request [OF assms(1)], goal_cases)
    case (1 r w' wd')
    show ?case
    proof (cases r)
      case None
      with 1 show ?thesis by (auto simp: own_response_def response_lost_def intro: runs_return)
    next
      case (Some res)
      have code: "hr_code (response_of res) = mr_code res" by (simp add: response_of_def)
      show ?thesis
      proof (cases "mr_code res = 200")
        case True
        with 1 Some assms(2) [of res w' wd'] show ?thesis by (simp add: code response_lost_def)
      next
        case False
        have lost: "lost (response_lost ?v) (own_response r)"
          using lost_response [of res "(statics_of w', wd')"] 1 Some False code by simp
        have "runs (own_statics w') (returnM (0, w', wd')) (Inr (0, statics_of w', wd')) state_of own_state 0"
          by (rule runs_return) simp_all
        from runs_forget [OF this lost refl] show ?thesis using Some False code by (simp add: ac_simps)
      qed
    qed
  qed
  then show ?thesis by simp
qed

lemma runs_speed_answer:
  "runs (own_response (Some r) + own_statics w) (speed_answer_mem re r w wd)
     (speed_answer re (response_of r) (statics_of w) wd) state_of own_state 0"
  unfolding speed_answer_mem_def speed_answer_def parseResponse_mem_def parseResponse_def answer_text_of
proof (rule runs_regex)
  fix p :: "string ptr"
  let ?n = "case p of None \<Rightarrow> 0 | Some (_, t) \<Rightarrow> if strncmp_eq 7 t ''success'' then 1 else (0 :: nat)"
  have free: "runs (owned Block p + (own_response (Some r) + own_statics w))
      (bindM (am_free p) (\<lambda>_. bindM (HTTPResponse_free (Some r)) (\<lambda>_. returnM (?n, w, wd))))
      (Inr (?n, statics_of w, wd)) state_of own_state 0"
    by (rule block.runs_free [OF response.runs_free [OF runs_return refl] refl]) simp_all
  have eq: "(case val p of None \<Rightarrow> Inr (0, statics_of w, wd)
      | Some t \<Rightarrow> Inr (if strncmp_eq 7 t ''success'' then 1 else 0, statics_of w, wd)) = Inr (?n, statics_of w, wd)"
    by (simp split: option.split)
  show "runs (owned Block p + (own_response (Some r) + own_statics w))
      (bindM (am_free p) (\<lambda>_. bindM (HTTPResponse_free (Some r)) (\<lambda>_. returnM (?n, w, wd))))
      (case val p of None \<Rightarrow> Inr (0, statics_of w, wd)
       | Some t \<Rightarrow> Inr (if strncmp_eq 7 t ''success'' then 1 else 0, statics_of w, wd)) state_of own_state 0"
    unfolding eq by (rule free)
qed

lemma runs_version_answer:
  "runs (own_response (Some r) + own_statics w) (version_answer_mem re r w wd)
     (version_answer re (response_of r) (statics_of w) wd) state_of own_state 0"
  unfolding version_answer_mem_def version_answer_def parseResponse_mem_def parseResponse_def answer_text_of
proof (rule runs_regex, goal_cases)
  case (1 p)
  let ?P = "own_response (Some r) + own_statics w"
  let ?rest = "\<lambda>v. bindM (HTTPResponse_free (Some r)) (\<lambda>_. returnM (v, w, wd))"
  have fin: "runs ?P (?rest v) (Inr (v, statics_of w, wd)) state_of own_state 0" for v :: int
    by (rule response.runs_free [OF runs_return refl]) simp_all
  have free: "runs (owned Block p + ?P) (bindM (am_free p) (\<lambda>_. ?rest v)) (Inr (v, statics_of w, wd))
      state_of own_state 0" for v :: int
    by (rule block.runs_free [OF fin refl])
  have parse: "runs (owned Block p + ?P)
      (bindM (parseRPCVersion_mem re (answer_text r)) (\<lambda>v. bindM (am_free p) (\<lambda>_. ?rest v)))
      (bindR (parseRPCVersion re (answer_text r)) (\<lambda>v. Inr (v, statics_of w, wd))) state_of own_state (0 + 0)"
    by (rule runs_bind [OF runs_parseRPCVersion, where Q = "owned Block p + ?P"]) (use free in simp_all)
  show ?case
  proof (cases p)
    case None
    then show ?thesis using fin [of 0] by simp
  next
    case (Some q)
    then show ?thesis using free [of 0] parse
      by (cases "strncmp_eq 7 (snd q) ''success''") (simp_all add: bindM_assoc split_def)
  qed
qed

lemma runs_changeUploadSpeed:
  assumes "one_name re lib"
  shows "runs (own_statics w) (changeUploadSpeed_mem re lib url auth i up v w wd)
    (changeUploadSpeed re lib url auth i up v (statics_of w) wd) state_of own_state
    (if 0 < i then
       (let (packet, n) = makeChangeUpSpeedJSON i up v
        in if packet \<noteq> None \<and> 0 < n
           then response_lost (sendHTTPData re lib url auth packet n (statics_of w) wd) else 0)
     else 0)"
proof (cases "0 < i")
  case False
  then show ?thesis by (auto simp: changeUploadSpeed_mem_def changeUploadSpeed_def intro: runs_return)
next
  case True
  obtain packet n where p: "makeChangeUpSpeedJSON i up v = (packet, n)" by force
  let ?send = "\<lambda>data. guarded_request_mem (speed_answer_mem re) re lib url auth data n w wd"
  let ?sent = "guarded_request (speed_answer re) re lib url auth packet n (statics_of w) wd"
  let ?go = "packet \<noteq> None \<and> 0 < n"
  let ?lost = "response_lost (sendHTTPData re lib url auth packet n (statics_of w) wd)"
  have "runs (own_statics w) (bindM (store packet) (\<lambda>q.
      bindM (if q \<noteq> None \<and> n > 0 then ?send (val q) else returnM (0, w, wd)) (\<lambda>ret.
      bindM (am_free q) (\<lambda>_. returnM ret))))
    (bindR (if ?go then ?sent else Inr (0, statics_of w, wd)) Inr) state_of own_state (0 + (if ?go then ?lost else 0))"
  proof (rule runs_store)
    fix q :: "string ptr"
    assume q: "val q = packet"
    have "runs (own_statics w) (?send packet) ?sent state_of own_state ?lost"
      by (rule runs_guarded_request [OF assms runs_speed_answer])
    moreover have "runs (own_statics w) (returnM (0, w, wd)) (Inr (0, statics_of w, wd)) state_of own_state 0"
      by (rule runs_return) simp_all
    ultimately have "runs (own_statics w) (if q \<noteq> None \<and> n > 0 then ?send (val q) else returnM (0, w, wd))
        (if ?go then ?sent else Inr (0, statics_of w, wd)) state_of own_state (if ?go then ?lost else 0)"
      using q by (cases q) auto
    then show "runs (owned Block q + own_statics w)
        (bindM (if q \<noteq> None \<and> n > 0 then ?send (val q) else returnM (0, w, wd)) (\<lambda>ret.
          bindM (am_free q) (\<lambda>_. returnM ret)))
        (bindR (if ?go then ?sent else Inr (0, statics_of w, wd)) Inr) state_of own_state (0 + (if ?go then ?lost else 0))"
    proof (rule runs_bind [where Q = "owned Block q"])
      show "runs (own_state x + owned Block q) (bindM (am_free q) (\<lambda>_. returnM x)) (Inr (state_of x))
          state_of own_state 0" for x :: "nat \<times> statics \<times> 'a"
        by (rule block.runs_free, rule runs_return) (simp_all add: ac_simps)
    qed (simp add: ac_simps)
  qed
  with True p show ?thesis
    by (simp add: changeUploadSpeed_mem_def changeUploadSpeed_parts)
qed

lemma runs_getRPCVersion:
  assumes "one_name re lib"
  shows "runs (own_statics w) (getRPCVersion_mem re lib host port auth w wd)
    (getRPCVersion re lib host port auth (statics_of w) wd) state_of own_state
    (case host of None \<Rightarrow> 0 | Some h \<Rightarrow>
       response_lost (sendHTTPData re lib (Some (rpc_url h port)) auth (Some session_get)
         (length session_get) (statics_of w) wd))"
proof (cases host)
  case None
  then show ?thesis by (auto simp: getRPCVersion_mem_def getRPCVersion_def intro: runs_return)
next
  case (Some h)
  show ?thesis
    unfolding getRPCVersion_mem_def Some option.case getRPCVersion_parts
    by (rule runs_guarded_request [OF assms runs_version_answer])
qed

section \<open>Notifications are accounted for\<close>

lemma notification_result_of:
  "notification_result r = (case map_option response_of r of
     None \<Rightarrow> - 1 | Some r \<Rightarrow> if hr_code r = 200 then 1 else wrap_s 16 (- hr_code r))"
  by (simp add: notification_result_def response_of_def split: option.split)

text \<open>A message is stored, sent and freed with its answer.\<close>

lemma runs_message:
  assumes "one_name re lib"
  shows "runs (own_statics w) (bindM (store text) (\<lambda>data.
      if data = None then returnM (- 1, w, wd)
      else bindM (sendHTTPData_mem re lib url None (val data) n w wd) (\<lambda>(response, w, wd).
           bindM (HTTPResponse_free response) (\<lambda>_.
           bindM (am_free data) (\<lambda>_. returnM (notification_result response, w, wd))))))
    (if text = None then Inr (- 1, statics_of w, wd)
     else bindR (sendHTTPData re lib url None text n (statics_of w) wd) (\<lambda>(response, w, wd).
       Inr (case response of
              None \<Rightarrow> - 1
            | Some r \<Rightarrow> if hr_code r = 200 then 1 else wrap_s 16 (- hr_code r), w, wd)))
    state_of own_state 0"
proof (rule runs_store)
  fix q :: "string ptr"
  assume q: "val q = text"
  have "runs (own_statics w + owned Block q)
      (bindM (sendHTTPData_mem re lib url None text n w wd) (\<lambda>(response, w, wd).
        bindM (HTTPResponse_free response) (\<lambda>_.
        bindM (am_free q) (\<lambda>_. returnM (notification_result response, w, wd)))))
      (bindR (sendHTTPData re lib url None text n (statics_of w) wd) (\<lambda>(response, w, wd).
       Inr (case response of
              None \<Rightarrow> - 1
            | Some r \<Rightarrow> if hr_code r = 200 then 1 else wrap_s 16 (- hr_code r), w, wd)))
      state_of own_state 0"
  proof (rule runs_request [OF assms])
    show "runs (own_response r + own_statics w' + owned Block q)
      (case (r, w', wd') of (response, w, wd) \<Rightarrow> bindM (HTTPResponse_free response) (\<lambda>_.
        bindM (am_free q) (\<lambda>_. returnM (notification_result response, w, wd))))
      (case (map_option response_of r, statics_of w', wd') of (response, w, wd) \<Rightarrow>
       Inr (case response of
              None \<Rightarrow> - 1
            | Some r \<Rightarrow> if hr_code r = 200 then 1 else wrap_s 16 (- hr_code r), w, wd))
      state_of own_state 0" for r w' and wd' :: 'a
      unfolding prod.case notification_result_of
      by (rule response.runs_free, rule block.runs_free, rule runs_return) (simp_all add: ac_simps)
  qed
  moreover have "runs (own_statics w) (returnM (- 1, w, wd)) (Inr (- 1, statics_of w, wd)) state_of own_state 0"
    by (rule runs_return) simp_all
  ultimately show "runs (owned Block q + own_statics w)
      (if q = None then returnM (- 1, w, wd)
       else bindM (sendHTTPData_mem re lib url None (val q) n w wd) (\<lambda>(response, w, wd).
           bindM (HTTPResponse_free response) (\<lambda>_.
           bindM (am_free q) (\<lambda>_. returnM (notification_result response, w, wd)))))
      (if text = None then Inr (- 1, statics_of w, wd)
       else bindR (sendHTTPData re lib url None text n (statics_of w) wd) (\<lambda>(response, w, wd).
         Inr (case response of
                None \<Rightarrow> - 1
              | Some r \<Rightarrow> if hr_code r = 200 then 1 else wrap_s 16 (- hr_code r), w, wd)))
      state_of own_state 0"
    using q by (cases q) (auto simp: ac_simps)
qed

lemma runs_sendProwl:
  assumes "one_name re lib"
  shows "runs (own_statics w) (sendProwlNotification_mem re lib key event desc w wd)
    (sendProwlNotification re lib key event desc (statics_of w) wd) state_of own_state 0"
proof -
  obtain msg k where "createProwlMessage key event desc = (msg, k)" by force
  then show ?thesis
    using runs_message [OF assms, of w msg wd "Some prowl_add_url" "nat k"]
    by (simp only: sendProwlNotification_mem_def sendProwlNotification_def Let_def prod.case)
qed

lemma runs_sendPushover:
  assumes "one_name re lib"
  shows "runs (own_statics w) (sendPushoverNotification_mem re lib key event desc w wd)
    (sendPushoverNotification re lib key event desc (statics_of w) wd) state_of own_state 0"
proof -
  obtain msg k where "createMessage key event desc = (msg, k)" by force
  then show ?thesis
    using runs_message [OF assms, of w msg wd "Some pushover_url" "nat k"]
    by (simp only: sendPushoverNotification_mem_def sendPushoverNotification_def Let_def prod.case)
qed

text \<open>The result of a notification is only a flag.\<close>

lemma runs_flag:
  fixes f :: "int \<Rightarrow> nat"
  assumes "runs P m v state_of own_state 0"
  shows "runs P (bindM m (\<lambda>(r, w, wd). returnM (f r, w, wd))) (bindR v (\<lambda>(r, w, wd). Inr (f r, w, wd)))
    state_of own_state 0"
proof -
  have "runs (own_state x + {#}) (case x of (r, w, wd) \<Rightarrow> returnM (f r, w, wd))
      (case state_of x of (r, w, wd) \<Rightarrow> Inr (f r, w, wd)) state_of own_state 0" for x :: "int \<times> statics \<times> 'w"
    by (cases x) (auto intro: runs_return)
  from runs_bind [OF assms _ this, of P] show ?thesis by (simp only: add_0_left add_0_right simp_thms)
qed

lemma runs_prowl:
  assumes "one_name re lib"
  shows "runs (own_statics w) (prowl_sendNotification_mem re lib event key file w wd)
    (prowl_sendNotification re lib event key file (statics_of w) wd) state_of own_state 0"
  using runs_flag [OF runs_sendProwl [OF assms], where f = "\<lambda>r. if r = 1 then 1 else 0"]
  by (auto simp: prowl_sendNotification_mem_def prowl_sendNotification_def intro: runs_return split: option.split)

lemma runs_pushover:
  assumes "one_name re lib"
  shows "runs (own_statics w) (pushover_sendNotification_mem re lib event key file w wd)
    (pushover_sendNotification re lib event key file (statics_of w) wd) state_of own_state 0"
  using runs_flag [OF runs_sendPushover [OF assms], where f = "\<lambda>r. if r = 1 then 1 else 0"]
  by (auto simp: pushover_sendNotification_mem_def pushover_sendNotification_def intro: runs_return split: option.split)

text \<open>The verification of the key closes its connection.\<close>

lemma names_lost_one:
  "one_name re lib \<Longrightarrow> names_lost re lib url cookies c wd = 0"
  by (auto simp: names_lost_def one_name_def split: option.split)

lemma runs_verifyProwl:
  assumes "one_name re lib"
  shows "runs (own_statics w) (verifyProwlAPIKey_mem re lib key w wd)
    (verifyProwlAPIKey re lib key (statics_of w) wd) state_of own_state 0"
proof (cases key)
  case None
  then show ?thesis by (auto simp: verifyProwlAPIKey_mem_def verifyProwlAPIKey_def intro: runs_return)
next
  case (Some k)
  have fin: "runs (own_get x + {#})
      (case x of (response, session, w, wd) \<Rightarrow> bindM (HTTPResponse_free response) (\<lambda>_.
        bindM (closeCURLSession session) (\<lambda>_. returnM (notification_result response, w, wd))))
      (case get_of x of (response, session, w, wd) \<Rightarrow>
        Inr (case response of None \<Rightarrow> - 1 | Some r \<Rightarrow> if hr_code r = 200 then 1 else wrap_s 16 (- hr_code r), w, wd))
      state_of own_state 0" for x :: "mHTTPResponse option \<times> curl ptr \<times> statics \<times> 'a"
  proof -
    obtain r c w' wd' where x: "x = (r, c, w', wd')" by (cases x)
    show ?thesis
      unfolding x get_of_def own_get_def prod.case notification_result_of
      by (rule response.runs_free, rule curl_handle.runs_free, rule runs_return) (simp_all add: ac_simps)
  qed
  have "runs (own_statics w) (getHTTPData_mem re lib (Some (prowl_verify_url k)) None None w wd)
      (getHTTPData re lib (Some (prowl_verify_url k)) None None (statics_of w) wd) get_of own_get 0"
    using runs_getHTTPData [of None w re lib "Some (prowl_verify_url k)" None wd] by (simp add: names_lost_one [OF assms])
  from runs_bind [OF this _ fin, of "own_statics w"] show ?thesis
    by (simp only: Some verifyProwlAPIKey_mem_def verifyProwlAPIKey_def option.case add_0_left add_0_right simp_thms)
qed

end
