(* ===== verification/Am_Check_Memory.thy ===== *)
theory Am_Check_Memory
  imports Am_Rpc_Memory Am_Process_Laws
begin

text \<open>
  The check of a feed on the ledger: \<open>downloadTorrent\<close>, the uploads and notifications of an item,
  \<open>processRSSList\<close>, \<open>getRSSFeed\<close> and \<open>processFeed\<close> of \<^verbatim>\<open>src/automatic.c\<close>.  The ledger holds the objects
  of the requests: responses, packets, rewritten addresses, handles, header lists, the session
  identifier.  The session, the items and the history stay plain values.
\<close>

section \<open>The steps of a check\<close>

record 'w mem_run =
  k_session :: auto_handle
  k_curl :: "curl ptr"
  k_folder :: "string option"
  k_web :: statics
  k_world :: "'w world"

definition on_net_mem ::
  "('w \<Rightarrow> ('a \<times> statics \<times> 'w) op) \<Rightarrow> 'w world \<Rightarrow> ('a \<times> statics \<times> 'w world) op" where
  "on_net_mem f wd = bindM (f (net wd)) (\<lambda>(a, w, n). returnM (a, w, wd\<lparr>net := n\<rparr>))"

text \<open>The handle is passed by value: one that \<open>getHTTPData\<close> makes for a NULL session is in no variable
  of the caller.\<close>

definition download_mem ::
  "('w, 'doc) ext \<Rightarrow> curl ptr \<Rightarrow> string option \<Rightarrow> statics \<Rightarrow> 'w \<Rightarrow>
   ((mHTTPResponse option \<times> curl ptr) \<times> statics \<times> 'w) op" where
  "download_mem x curl_session url w n =
     bindM (getHTTPData_mem (ext_pcre x) (ext_curl x) url None curl_session w n) (\<lambda>(torrent, c, w, n).
     let c = (if curl_session = None then None else c)
     in case torrent of
          None \<Rightarrow> returnM ((None, c), w, n)
        | Some r \<Rightarrow>
            (if mr_code r \<noteq> 200 then bindM (HTTPResponse_free torrent) (\<lambda>_. returnM ((None, c), w, n))
             else returnM ((torrent, c), w, n)))"

definition downloadTorrent_mem ::
  "('w, 'doc) ext \<Rightarrow> curl ptr \<Rightarrow> string option \<Rightarrow> statics \<Rightarrow> 'w world \<Rightarrow>
   ((mHTTPResponse option \<times> curl ptr) \<times> statics \<times> 'w world) op" where
  "downloadTorrent_mem x curl_session url w wd = on_net_mem (download_mem x curl_session url w) wd"

definition after_upload_mem ::
  "('w, 'doc) ext \<Rightarrow> auto_handle \<Rightarrow> string \<Rightarrow> int \<times> statics \<times> 'w world \<Rightarrow> (int \<times> statics \<times> 'w world) op"
where
  "after_upload_mem x ah url = (\<lambda>(tid, w, wd).
     if tid > 0 then
       (if upspeed ah > 0
        then bindM (on_net_mem (changeUploadSpeed_mem (ext_pcre x) (ext_curl x) (Some url) (auth ah) tid
                      (nat (upspeed ah)) (nat (wrap_u 8 (rpc_version ah))) w) wd)
               (\<lambda>(_, w, wd). returnM (1, w, wd))
        else returnM (1, w, wd))
     else if tid = 0 then returnM (0, w, wd)
     else returnM (- 1, w, wd))"

definition addTorrentToTM_mem ::
  "('w, 'doc) ext \<Rightarrow> auto_handle \<Rightarrow> char list option \<Rightarrow> nat \<Rightarrow> string \<Rightarrow> string option \<Rightarrow> statics \<Rightarrow>
   'w world \<Rightarrow> (int \<times> statics \<times> 'w world) op" where
  "addTorrentToTM_mem x ah t_data t_size fname folder w wd =
     (if use_transmission ah \<and> transmission_version ah = AM_TRANSMISSION_1_3 then
        (let url = rpc_url (rpc_host ah) (rpc_port ah)
         in bindM (on_net_mem (uploadTorrent_mem (ext_pcre x) (ext_curl x) t_data t_size (Some url)
                     (auth ah) (start_torrent ah) folder w) wd)
              (after_upload_mem x ah url))
      else bindM (liftM (addTorrentToTM x ah t_data t_size fname folder (statics_of w) wd))
             (\<lambda>(r, _, wd). returnM (r, w, wd)))"

definition addMagnetToTM_mem ::
  "('w, 'doc) ext \<Rightarrow> auto_handle \<Rightarrow> string \<Rightarrow> string option \<Rightarrow> statics \<Rightarrow> 'w world \<Rightarrow>
   (int \<times> statics \<times> 'w world) op" where
  "addMagnetToTM_mem x ah magnet_uri folder w wd =
     (if use_transmission ah then
        (if transmission_version ah = AM_TRANSMISSION_1_3 then
           (let url = rpc_url (rpc_host ah) (rpc_port ah)
            in bindM (on_net_mem (uploadMagnet_mem (ext_pcre x) (ext_curl x) magnet_uri (Some url)
                        (auth ah) (start_torrent ah) folder w) wd)
                 (after_upload_mem x ah url))
         else returnM (- 1, w, wd))
      else returnM (1, w, wd))"

definition notify_mem ::
  "('w, 'doc) ext \<Rightarrow> int \<Rightarrow> int \<Rightarrow> string option \<Rightarrow> 'w mem_run \<Rightarrow> 'w mem_run op" where
  "notify_mem x prowl_event pushover_event nm st =
     (let s = k_session st
      in bindM
           (if prowl_key_valid s then
              bindM (on_net_mem (prowl_sendNotification_mem (ext_pcre x) (ext_curl x) prowl_event
                       (prowl_key s) nm (k_web st)) (k_world st))
                (\<lambda>(_, w, wd). returnM (st\<lparr>k_web := w, k_world := wd\<rparr>))
            else returnM st)
           (\<lambda>st.
              if pushover_key s \<noteq> None then
                bindM (on_net_mem (pushover_sendNotification_mem (ext_pcre x) (ext_curl x) pushover_event
                         (pushover_key s) nm (k_web st)) (k_world st))
                  (\<lambda>(_, w, wd). returnM (st\<lparr>k_web := w, k_world := wd\<rparr>))
              else returnM st))"

text \<open>\<open>download_url\<close>: NULL, or the rewritten address in a block.\<close>

definition rewritten :: "('w, 'doc) ext \<Rightarrow> rss_feed option \<Rightarrow> feed_item \<Rightarrow> string option res" where
  "rewritten x feed item =
     (case feed of
        None \<Rightarrow> Inr None
      | Some f \<Rightarrow>
          if feed_url_pattern f \<noteq> None \<and> feed_url_replace f \<noteq> None
          then rewriteURL (ext_pcre x) (item_url item) (feed_url_pattern f) (feed_url_replace f)
          else Inr None)"

text \<open>A torrent that has arrived: named, handed over and freed.\<close>

definition take_torrent_mem ::
  "('w, 'doc) ext \<Rightarrow> feed_item \<Rightarrow> 'w mem_run \<Rightarrow> mHTTPResponse option \<Rightarrow> (int \<times> 'w mem_run) op" where
  "take_torrent_mem x item st torrent =
     (case torrent of
        None \<Rightarrow> returnM (- 1, st)
      | Some t \<Rightarrow>
          bindM (liftM (get_filename (val (mr_name t)) (item_url item) (torrent_folder (k_session st)))) (\<lambda>fname.
          bindM (addTorrentToTM_mem x (k_session st) (val (mr_data t)) (mr_size t mod 2 ^ 32) fname
                   (k_folder st) (k_web st) (k_world st)) (\<lambda>(r, w, wd).
          bindM (HTTPResponse_free torrent) (\<lambda>_. returnM (r, st\<lparr>k_web := w, k_world := wd\<rparr>)))))"

definition add_item_mem ::
  "('w, 'doc) ext \<Rightarrow> rss_feed option \<Rightarrow> feed_item \<Rightarrow> 'w mem_run \<Rightarrow> (int \<times> 'w mem_run) op" where
  "add_item_mem x feed item st =
     (if isMagnetURI (item_url item) then
        bindM (addMagnetToTM_mem x (k_session st) (the (item_url item)) (k_folder st) (k_web st) (k_world st))
          (\<lambda>(r, w, wd). returnM (r, st\<lparr>k_web := w, k_world := wd\<rparr>))
      else
        bindM (liftM (rewritten x feed item)) (\<lambda>u.
        bindM (store u) (\<lambda>download_url.
        bindM (downloadTorrent_mem x (k_curl st) (if download_url \<noteq> None then val download_url else item_url item)
                 (k_web st) (k_world st)) (\<lambda>((torrent, c), w, wd).
        bindM (take_torrent_mem x item (st\<lparr>k_curl := c, k_web := w, k_world := wd\<rparr>) torrent) (\<lambda>r.
        bindM (am_free download_url) (\<lambda>_. returnM r))))))"

definition run_of :: "'w mem_run \<Rightarrow> 'w run" where
  "run_of st = \<lparr>r_session = k_session st, r_curl = val (k_curl st), r_folder = k_folder st,
     r_web = statics_of (k_web st), r_world = k_world st\<rparr>"

definition own_run :: "'w mem_run \<Rightarrow> objects" where
  "own_run st = owned CurlHandle (k_curl st) + own_statics (k_web st)"

text \<open>The history is a plain value, so remembering touches no object.\<close>

definition remember_item_mem :: "feed_item \<Rightarrow> 'w mem_run \<Rightarrow> 'w mem_run" where
  "remember_item_mem item st =
     (let r = remember_item item (run_of st) in st\<lparr>k_session := r_session r, k_world := r_world r\<rparr>)"

definition item_result_mem ::
  "('w, 'doc) ext \<Rightarrow> feed_item \<Rightarrow> int \<times> 'w mem_run \<Rightarrow> 'w mem_run op" where
  "item_result_mem x item = (\<lambda>(r, st).
     if r \<ge> 0 then
       bindM (if r > 0 then notify_mem x PROWL_NEW_DOWNLOAD PUSHOVER_NEW_DOWNLOAD (item_name item) st
              else returnM st)
         (\<lambda>st. returnM (remember_item_mem item st))
     else notify_mem x PROWL_DOWNLOAD_FAILED PUSHOVER_DOWNLOAD_FAILED (item_name item) st)"

definition process_item_mem ::
  "('w, 'doc) ext \<Rightarrow> rss_feed option \<Rightarrow> feed_item \<Rightarrow> 'w mem_run \<Rightarrow> 'w mem_run op" where
  "process_item_mem x feed item st =
     (let s = k_session st;
          feedID = (case feed of None \<Rightarrow> None | Some f \<Rightarrow> feed_id f);
          (m, folder) = isMatch (ext_pcre x) (filters s) (item_name item) feedID (k_folder st);
          st = st\<lparr>k_folder := folder\<rparr>
      in if m = 0 then returnM st
         else if match_only s then returnM st
         else if seen (downloads s) item then returnM st
         else bindM (add_item_mem x feed item st) (item_result_mem x item))"

fun process_items_mem ::
  "('w, 'doc) ext \<Rightarrow> rss_feed option \<Rightarrow> feed_item list \<Rightarrow> 'w mem_run \<Rightarrow> 'w mem_run op" where
  "process_items_mem x feed [] st = returnM st"
| "process_items_mem x feed (i # is) st =
     bindM (process_item_mem x feed i st) (process_items_mem x feed is)"

definition processRSSList_mem ::
  "('w, 'doc) ext \<Rightarrow> auto_handle \<Rightarrow> curl ptr \<Rightarrow> feed_item list \<Rightarrow> rss_feed option \<Rightarrow> statics \<Rightarrow>
   'w world \<Rightarrow> 'w mem_run op" where
  "processRSSList_mem x session curl_session items feed w wd =
     process_items_mem x feed items
       \<lparr>k_session = session, k_curl = curl_session, k_folder = None, k_web = w, k_world = wd\<rparr>"

definition getRSSFeed_mem ::
  "('w, 'doc) ext \<Rightarrow> rss_feed \<Rightarrow> statics \<Rightarrow> 'w world \<Rightarrow>
   ((mHTTPResponse option \<times> curl ptr) \<times> statics \<times> 'w world) op" where
  "getRSSFeed_mem x feed w wd =
     on_net_mem (\<lambda>n. bindM (getHTTPData_mem (ext_pcre x) (ext_curl x) (feed_url feed) (feed_cookies feed) None w n)
       (\<lambda>(r, c, w, n). returnM ((r, c), w, n))) wd"

text \<open>The handle is among the results because the downloads set options on it.\<close>

definition use_feed_mem ::
  "('w, 'doc) ext \<Rightarrow> auto_handle \<Rightarrow> nat \<Rightarrow> bool \<Rightarrow> mHTTPResponse \<Rightarrow> curl ptr \<Rightarrow> statics \<Rightarrow> 'w world \<Rightarrow>
   (nat \<times> auto_handle \<times> curl ptr \<times> statics \<times> 'w world) op" where
  "use_feed_mem x session k firstrun r c w wd =
     (let feed = feeds session ! k
      in if mr_code r = 200 \<and> mr_data r \<noteq> None then
           bindM (liftM (parse_xmldata (ext_xml x) (val (mr_data r)) (mr_size r mod 2 ^ 32)
                    (Some (feed_ttl feed)))) (\<lambda>(items, item_count, ttl).
             let feed = feed\<lparr>feed_ttl := the ttl\<rparr>;
                 session = session\<lparr>feeds := (feeds session)[k := feed]\<rparr>;
                 session = (if firstrun then grow_bucket item_count session else session)
             in bindM (processRSSList_mem x session c items (Some feed) w wd) (\<lambda>st.
                  returnM (item_count mod 2 ^ 16, k_session st, k_curl st, k_web st, k_world st)))
         else returnM (0, session, c, w, wd))"

text \<open>\<open>closeCURLSession\<close> is inside \<^verbatim>\<open>if (response)\<close>.\<close>

definition processFeed_mem ::
  "('w, 'doc) ext \<Rightarrow> auto_handle \<Rightarrow> nat \<Rightarrow> bool \<Rightarrow> statics \<Rightarrow> 'w world \<Rightarrow>
   (nat \<times> auto_handle \<times> statics \<times> 'w world) op" where
  "processFeed_mem x session k firstrun w wd =
     bindM (getRSSFeed_mem x (feeds session ! k) w wd) (\<lambda>((response, c), w, wd).
       if c = None \<and> response \<noteq> None then liftM (Inl Abort)
       else case response of
              None \<Rightarrow> returnM (0, session, w, wd)
            | Some r \<Rightarrow>
                bindM (use_feed_mem x session k firstrun r c w wd) (\<lambda>(n, session, c, w, wd).
                bindM (HTTPResponse_free response) (\<lambda>_.
                bindM (closeCURLSession c) (\<lambda>_. returnM (n, session, w, wd)))))"

section \<open>Requests over the net\<close>

lemma runs_on_net:
  assumes "runs P (f (net wd)) (g (net wd)) state_of own_state K"
  shows "runs P (on_net_mem f wd) (on_net g wd) state_of own_state K"
  unfolding on_net_mem_def on_net_def
  by (rule runs_then [OF assms]) (auto simp: state_of_def own_state_def split: prod.splits intro: runs_return)

definition fetched_of where
  "fetched_of = (\<lambda>((r, c), w, wd). ((map_option response_of r, val c), statics_of w, wd))"

definition own_fetched where
  "own_fetched = (\<lambda>((r, c), w, wd). own_response r + owned CurlHandle c + own_statics w)"

lemma runs_fetch_on_net:
  assumes "runs P (f (net wd)) (g (net wd)) fetched_of own_fetched 0"
  shows "runs P (on_net_mem f wd) (on_net g wd) fetched_of own_fetched 0"
  unfolding on_net_mem_def on_net_def
  by (rule runs_then [OF assms])
    (auto simp: fetched_of_def own_fetched_def split: prod.splits intro: runs_return)

lemma runs_get:
  assumes "one_name re lib"
  shows "runs (owned CurlHandle c + own_statics w) (getHTTPData_mem re lib url cookies c w wd)
    (getHTTPData re lib url cookies (val c) (statics_of w) wd) get_of own_get 0"
  using runs_getHTTPData [of c w re lib url cookies wd] by (simp add: names_lost_one [OF assms])

lemma runs_getRSSFeed:
  assumes "one_name (ext_pcre x) (ext_curl x)"
  shows "runs (own_statics w) (getRSSFeed_mem x feed w wd) (getRSSFeed x feed (statics_of w) wd)
    fetched_of own_fetched 0"
  unfolding getRSSFeed_mem_def getRSSFeed_def
  by (rule runs_fetch_on_net, rule runs_then [OF runs_get [OF assms, of None, simplified]])
    (auto simp: get_of_def own_get_def fetched_of_def own_fetched_def split: prod.splits intro: runs_return)

text \<open>Over an open session the handle stays open; over a NULL session the one that was made is lost.\<close>

lemma runs_downloadTorrent:
  assumes "one_name (ext_pcre x) (ext_curl x)" "c \<noteq> None"
  shows "runs (owned CurlHandle c + own_statics w) (downloadTorrent_mem x c url w wd)
    (downloadTorrent x (val c) url (statics_of w) wd) fetched_of own_fetched 0"
  unfolding downloadTorrent_mem_def downloadTorrent_def download_mem_def
proof (rule runs_fetch_on_net, rule runs_then [OF runs_get [OF assms(1)]], goal_cases)
  case (1 y)
  obtain torrent c' w' n where y: "y = (torrent, c', w', n)" by (cases y)
  have "runs (own_response torrent + (owned CurlHandle c' + own_statics w'))
      (bindM (HTTPResponse_free torrent) (\<lambda>_. returnM ((None, c'), w', n)))
      (Inr ((None, val c'), statics_of w', n)) fetched_of own_fetched 0"
    by (rule response.runs_free [OF runs_return refl])
      (simp_all add: fetched_of_def own_fetched_def own_response_def)
  moreover have "hr_code (response_of r) = mr_code r" for r by (simp add: response_of_def)
  ultimately show ?case
    using assms(2)
    by (auto simp: y get_of_def own_get_def fetched_of_def own_fetched_def ac_simps own_response_def [of None]
        Let_def intro: runs_return split: option.split)
qed

lemma getHTTPData_handle:
  assumes "getHTTPData re lib url cookies c w wd = Inr (r, h, w', wd')" "url \<noteq> None" "curl_easy_init lib wd"
  shows "h \<noteq> None"
  using assms
  by (auto simp: getHTTPData_def am_curl_init_def Let_def bindR_Inr_iff split: prod.splits if_splits option.splits)

text \<open>A NULL session: the handle made for the download outlives every pointer to it.\<close>

lemma downloadTorrent_loses_handle:
  assumes "one_name (ext_pcre x) (ext_curl x)" "live L = own_statics w + F"
    and "downloadTorrent_mem x None url w wd L = Inr (((t, c), w', wd'), L')"
  shows "c = None \<and> (\<exists>h :: curl ptr. live L' = own_response t + own_statics w' + owned CurlHandle h + F \<and>
    (url \<noteq> None \<longrightarrow> curl_easy_init (ext_curl x) (net wd) \<longrightarrow> h \<noteq> None))"
proof -
  let ?get = "getHTTPData (ext_pcre x) (ext_curl x) url None None (statics_of w) (net wd)"
  have L: "live L = owned CurlHandle (None :: curl ptr) + own_statics w + F" using assms(2) by simp
  have a: "accounts ?get get_of own_get 0 F (getHTTPData_mem (ext_pcre x) (ext_curl x) url None None w (net wd) L)"
    using runsD [OF runs_get [OF assms(1)] L, of url None "net wd"] by simp
  then obtain r h w1 n L1 where 1:
    "getHTTPData_mem (ext_pcre x) (ext_curl x) url None None w (net wd) L = Inr ((r, h, w1, n), L1)"
    "?get = Inr (map_option response_of r, val h, statics_of w1, n)"
    "live L1 = own_response r + (own_statics w1 + owned CurlHandle h + F)"
    using assms(3)
    by (cases ?get)
      (auto simp: downloadTorrent_mem_def download_mem_def on_net_mem_def bindM_def get_of_def own_get_def
        ac_simps elim!: accountsE)
  obtain L2 where 2: "HTTPResponse_free r L1 = Inr ((), L2)" "live L2 = own_statics w1 + owned CurlHandle h + F"
    using response.free_owned [OF 1(3)] by blast
  have h: "h \<noteq> None" if "url \<noteq> None" "curl_easy_init (ext_curl x) (net wd)"
    using getHTTPData_handle [OF 1(2) that] by auto
  show ?thesis using 1 2 assms(3) h
    by (auto simp: downloadTorrent_mem_def download_mem_def on_net_mem_def bindM_def returnM_def ac_simps
        own_response_def [of None] split: option.splits if_splits intro!: exI [of _ h])
qed

section \<open>Items\<close>

lemma after_upload_quiet:
  assumes "upspeed ah \<le> 0"
  shows "after_upload x ah url tid w wd = Inr (if tid > 0 then 1 else if tid = 0 then 0 else - 1, w, wd)"
    "after_upload_mem x ah url (tid, w', wd) = returnM (if tid > 0 then 1 else if tid = 0 then 0 else - 1, w', wd)"
  using assms by (simp_all add: after_upload_def after_upload_mem_def)

lemma runs_after_upload:
  assumes "upspeed ah \<le> 0" "runs P m v state_of own_state 0"
  shows "runs P (bindM m (after_upload_mem x ah url)) (bindR v (\<lambda>(tid, w, wd). after_upload x ah url tid w wd))
    state_of own_state 0"
  by (rule runs_then [OF assms(2)])
    (auto simp: state_of_def own_state_def after_upload_quiet [OF assms(1)] split: prod.splits intro: runs_return)

lemma addTorrentToTM_web:
  assumes "\<not> (use_transmission ah \<and> transmission_version ah = AM_TRANSMISSION_1_3)"
    and "addTorrentToTM x ah data n fname folder w wd = Inr (r, w', wd')"
  shows "w' = w"
  using assms by (auto simp: addTorrentToTM_def bindR_Inr_iff split: if_splits prod.splits)

lemma runs_addTorrentToTM:
  assumes "one_name (ext_pcre x) (ext_curl x)" "upspeed ah \<le> 0"
  shows "runs (own_statics w) (addTorrentToTM_mem x ah data n fname folder w wd)
    (addTorrentToTM x ah data n fname folder (statics_of w) wd) state_of own_state 0"
proof (cases "use_transmission ah \<and> transmission_version ah = AM_TRANSMISSION_1_3")
  case True
  let ?url = "rpc_url (rpc_host ah) (rpc_port ah)"
  have "runs (own_statics w)
      (on_net_mem (uploadTorrent_mem (ext_pcre x) (ext_curl x) data n (Some ?url) (auth ah) (start_torrent ah) folder w) wd)
      (on_net (uploadTorrent (ext_pcre x) (ext_curl x) data n (Some ?url) (auth ah) (start_torrent ah) folder
        (statics_of w)) wd) state_of own_state 0"
    by (rule runs_on_net, rule runs_uploadTorrent [OF assms(1)])
  from runs_after_upload [OF assms(2) this, of x ?url] True show ?thesis
    by (simp add: addTorrentToTM_mem_def addTorrentToTM_def am_consts Let_def)
next
  case False
  let ?v = "addTorrentToTM x ah data n fname folder (statics_of w) wd"
  have "runs (own_statics w) (bindM (liftM ?v) (\<lambda>(r, _, wd). returnM (r, w, wd))) (bindR ?v Inr) state_of own_state 0"
  proof (rule runs_lifted)
    fix b
    assume "?v = Inr b"
    then show "runs (own_statics w) (case b of (r, _, wd) \<Rightarrow> returnM (r, w, wd)) (Inr b) state_of own_state 0"
      using addTorrentToTM_web [OF False, of x data n fname folder "statics_of w" wd "fst b" "fst (snd b)" "snd (snd b)"]
      by (auto intro: runs_return simp: split_def prod_eq_iff)
  qed
  with False show ?thesis by (auto simp: addTorrentToTM_mem_def)
qed

lemma runs_addMagnetToTM:
  assumes "one_name (ext_pcre x) (ext_curl x)" "upspeed ah \<le> 0"
  shows "runs (own_statics w) (addMagnetToTM_mem x ah uri folder w wd)
    (addMagnetToTM x ah uri folder (statics_of w) wd) state_of own_state 0"
proof (cases "use_transmission ah \<and> transmission_version ah = AM_TRANSMISSION_1_3")
  case True
  let ?url = "rpc_url (rpc_host ah) (rpc_port ah)"
  have "runs (own_statics w)
      (on_net_mem (uploadMagnet_mem (ext_pcre x) (ext_curl x) uri (Some ?url) (auth ah) (start_torrent ah) folder w) wd)
      (on_net (uploadMagnet (ext_pcre x) (ext_curl x) uri (Some ?url) (auth ah) (start_torrent ah) folder
        (statics_of w)) wd) state_of own_state 0"
    by (rule runs_on_net, rule runs_uploadMagnet [OF assms(1)])
  from runs_after_upload [OF assms(2) this, of x ?url] True show ?thesis
    by (simp add: addMagnetToTM_mem_def addMagnetToTM_def Let_def)
next
  case False
  then show ?thesis by (auto simp: addMagnetToTM_mem_def addMagnetToTM_def intro: runs_return)
qed

text \<open>A request made by a run.\<close>

lemma runs_in_run:
  assumes "runs (own_statics (k_web st)) m v state_of own_state 0"
  shows "runs (own_run st) (bindM m (\<lambda>(_, w, wd). returnM (st\<lparr>k_web := w, k_world := wd\<rparr>)))
    (bindR v (\<lambda>(_, w, wd). Inr ((run_of st)\<lparr>r_web := w, r_world := wd\<rparr>))) run_of own_run 0"
proof -
  have "runs (own_run st) (bindM m (\<lambda>(_, w, wd). returnM (st\<lparr>k_web := w, k_world := wd\<rparr>)))
    (bindR v (\<lambda>(_, w, wd). Inr ((run_of st)\<lparr>r_web := w, r_world := wd\<rparr>))) run_of own_run (0 + 0)"
    by (rule runs_bind [OF assms, where Q = "owned CurlHandle (k_curl st)"])
      (auto simp: own_run_def run_of_def state_of_def own_state_def ac_simps split: prod.splits intro: runs_return)
  then show ?thesis by simp
qed

lemma runs_notify:
  assumes "one_name (ext_pcre x) (ext_curl x)"
  shows "runs (own_run st) (notify_mem x p q nm st) (notify x p q nm (run_of st)) run_of own_run 0"
proof -
  let ?s = "k_session st"
  let ?prowl = "\<lambda>st. on_net_mem (prowl_sendNotification_mem (ext_pcre x) (ext_curl x) p (prowl_key ?s) nm (k_web st)) (k_world st)"
  let ?prowl_v = "\<lambda>st. on_net (prowl_sendNotification (ext_pcre x) (ext_curl x) p (prowl_key ?s) nm (r_web st)) (r_world st)"
  let ?push = "\<lambda>st. on_net_mem (pushover_sendNotification_mem (ext_pcre x) (ext_curl x) q (pushover_key ?s) nm (k_web st)) (k_world st)"
  let ?push_v = "\<lambda>st. on_net (pushover_sendNotification (ext_pcre x) (ext_curl x) q (pushover_key ?s) nm (r_web st)) (r_world st)"
  have w: "r_web (run_of st) = statics_of (k_web st)" "r_world (run_of st) = k_world st" for st :: "'a mem_run"
    by (simp_all add: run_of_def)
  have prowl: "runs (own_run st) (bindM (?prowl st) (\<lambda>(_, w, wd). returnM (st\<lparr>k_web := w, k_world := wd\<rparr>)))
      (bindR (?prowl_v (run_of st)) (\<lambda>(_, w, wd). Inr ((run_of st)\<lparr>r_web := w, r_world := wd\<rparr>))) run_of own_run 0" for st
    unfolding w by (rule runs_in_run, rule runs_on_net, rule runs_prowl [OF assms])
  have push: "runs (own_run st) (bindM (?push st) (\<lambda>(_, w, wd). returnM (st\<lparr>k_web := w, k_world := wd\<rparr>)))
      (bindR (?push_v (run_of st)) (\<lambda>(_, w, wd). Inr ((run_of st)\<lparr>r_web := w, r_world := wd\<rparr>))) run_of own_run 0" for st
    unfolding w by (rule runs_in_run, rule runs_on_net, rule runs_pushover [OF assms])
  have stay: "runs (own_run st) (returnM st) (Inr (run_of st)) run_of own_run 0" for st :: "'a mem_run"
    by (rule runs_return) simp_all
  show ?thesis
    unfolding notify_mem_def notify_def Let_def
  proof (rule runs_then [where e = run_of and own = own_run], goal_cases)
    case 1
    show ?case using prowl [of st] stay [of st] by (simp add: run_of_def [of st])
  next
    case (2 st1)
    show ?case using push [of st1] stay [of st1] by (simp add: run_of_def [of st])
  qed
qed

lemma torrent_address_parts:
  "torrent_address x feed item =
     bindR (rewritten x feed item) (\<lambda>u. Inr (if u \<noteq> None then u else item_url item))"
  by (simp add: torrent_address_def rewritten_def)

definition added_of :: "int \<times> 'w mem_run \<Rightarrow> int \<times> 'w run" where
  "added_of y = (fst y, run_of (snd y))"

definition own_added :: "int \<times> 'w mem_run \<Rightarrow> objects" where
  "own_added y = own_run (snd y)"

text \<open>\<open>take_torrent_mem\<close> on plain values.\<close>

definition take_torrent ::
  "('w, 'doc) ext \<Rightarrow> feed_item \<Rightarrow> 'w run \<Rightarrow> HTTPResponse option \<Rightarrow> (int \<times> 'w run) res" where
  "take_torrent x item st torrent =
     (case torrent of
        None \<Rightarrow> Inr (- 1, st)
      | Some t \<Rightarrow>
          bindR (get_filename (hr_filename t) (item_url item) (torrent_folder (r_session st))) (\<lambda>fname.
          bindR (addTorrentToTM x (r_session st) (hr_data t) (hr_size t mod 2 ^ 32) fname
                   (r_folder st) (r_web st) (r_world st))
            (\<lambda>(r, w, wd). Inr (r, st\<lparr>r_web := w, r_world := wd\<rparr>))))"

lemma add_item_parts:
  "add_item x feed item st =
     (if isMagnetURI (item_url item) then
        bindR (addMagnetToTM x (r_session st) (the (item_url item)) (r_folder st) (r_web st) (r_world st))
          (\<lambda>(r, w, wd). Inr (r, st\<lparr>r_web := w, r_world := wd\<rparr>))
      else
        bindR (rewritten x feed item) (\<lambda>u.
        bindR (downloadTorrent x (r_curl st) (if u \<noteq> None then u else item_url item) (r_web st) (r_world st))
          (\<lambda>((torrent, c), w, wd). take_torrent x item (st\<lparr>r_curl := c, r_web := w, r_world := wd\<rparr>) torrent)))"
  by (simp add: add_item_def torrent_address_parts bindR_assoc take_torrent_def Let_def cong: option.case_cong)

text \<open>Adding with the result of an upload.\<close>

lemma runs_added:
  assumes "runs (own_statics (k_web st)) m v state_of own_state 0"
  shows "runs (own_run st) (bindM m (\<lambda>(r, w, wd). returnM (r, st\<lparr>k_web := w, k_world := wd\<rparr>)))
    (bindR v (\<lambda>(r, w, wd). Inr (r, (run_of st)\<lparr>r_web := w, r_world := wd\<rparr>))) added_of own_added 0"
proof -
  have "runs (own_run st) (bindM m (\<lambda>(r, w, wd). returnM (r, st\<lparr>k_web := w, k_world := wd\<rparr>)))
    (bindR v (\<lambda>(r, w, wd). Inr (r, (run_of st)\<lparr>r_web := w, r_world := wd\<rparr>))) added_of own_added (0 + 0)"
    by (rule runs_bind [OF assms, where Q = "owned CurlHandle (k_curl st)"])
      (auto simp: own_run_def run_of_def state_of_def own_state_def added_of_def own_added_def ac_simps
        split: prod.splits intro: runs_return)
  then show ?thesis by simp
qed

lemma runs_take_torrent:
  assumes "one_name (ext_pcre x) (ext_curl x)" "upspeed (k_session st) \<le> 0"
  shows "runs (own_response t + own_run st) (take_torrent_mem x item st t)
    (take_torrent x item (run_of st) (map_option response_of t)) added_of own_added 0"
proof (cases t)
  case None
  then show ?thesis
    by (auto simp: take_torrent_mem_def take_torrent_def added_of_def own_added_def own_response_def intro: runs_return)
next
  case (Some r)
  let ?f = "get_filename (val (mr_name r)) (item_url item) (torrent_folder (k_session st))"
  let ?add = "\<lambda>fname. addTorrentToTM_mem x (k_session st) (val (mr_data r)) (mr_size r mod 2 ^ 32) fname
      (k_folder st) (k_web st) (k_world st)"
  let ?add_v = "\<lambda>fname. addTorrentToTM x (k_session st) (val (mr_data r)) (mr_size r mod 2 ^ 32) fname
      (k_folder st) (statics_of (k_web st)) (k_world st)"
  have add: "runs (own_response t + own_run st)
      (bindM (?add fname) (\<lambda>(i, w, wd). bindM (HTTPResponse_free t) (\<lambda>_. returnM (i, st\<lparr>k_web := w, k_world := wd\<rparr>))))
      (bindR (?add_v fname) (\<lambda>(i, w, wd). Inr (i, (run_of st)\<lparr>r_web := w, r_world := wd\<rparr>))) added_of own_added (0 + 0)"
    for fname
  proof (rule runs_bind [OF runs_addTorrentToTM [OF assms], where Q = "owned CurlHandle (k_curl st) + own_response t"],
      goal_cases)
    case (2 y)
    obtain i w wd where y: "y = (i, w, wd)" by (cases y)
    show ?case
      unfolding y prod.case state_simps
      by (rule response.runs_free [OF runs_return])
        (simp_all add: added_of_def own_added_def own_run_def run_of_def ac_simps)
  qed (simp add: own_run_def ac_simps)
  have "runs (own_response t + own_run st) (bindM (liftM ?f) (\<lambda>fname.
      bindM (?add fname) (\<lambda>(i, w, wd). bindM (HTTPResponse_free t) (\<lambda>_. returnM (i, st\<lparr>k_web := w, k_world := wd\<rparr>)))))
    (bindR ?f (\<lambda>fname. bindR (?add_v fname) (\<lambda>(i, w, wd). Inr (i, (run_of st)\<lparr>r_web := w, r_world := wd\<rparr>))))
    added_of own_added 0"
    by (rule runs_lifted) (use add in simp)
  then show ?thesis
    by (simp add: Some take_torrent_mem_def take_torrent_def response_of_def run_of_def)
qed

lemma runs_add_item:
  assumes "one_name (ext_pcre x) (ext_curl x)" "upspeed (k_session st) \<le> 0" "k_curl st \<noteq> None"
  shows "runs (own_run st) (add_item_mem x feed item st) (add_item x feed item (run_of st)) added_of own_added 0"
proof (cases "isMagnetURI (item_url item)")
  case True
  from runs_added [OF runs_addMagnetToTM [OF assms(1,2), of "k_web st" "the (item_url item)" "k_folder st"
      "k_world st"]] True
  show ?thesis by (simp add: add_item_mem_def add_item_parts run_of_def)
next
  case False
  let ?u = "\<lambda>u. if u \<noteq> None then u else item_url item"
  let ?get = "\<lambda>u. downloadTorrent_mem x (k_curl st) (?u u) (k_web st) (k_world st)"
  let ?get_v = "\<lambda>u. downloadTorrent x (val (k_curl st)) (?u u) (statics_of (k_web st)) (k_world st)"
  have "runs (own_run st) (bindM (liftM (rewritten x feed item)) (\<lambda>u. bindM (store u) (\<lambda>p.
      bindM (?get (val p)) (\<lambda>((t, c), w, wd).
      bindM (take_torrent_mem x item (st\<lparr>k_curl := c, k_web := w, k_world := wd\<rparr>) t) (\<lambda>r.
      bindM (am_free p) (\<lambda>_. returnM r))))))
    (bindR (rewritten x feed item) (\<lambda>u. bindR (?get_v u) (\<lambda>((t, c), w, wd).
      bindR (take_torrent x item ((run_of st)\<lparr>r_curl := c, r_web := w, r_world := wd\<rparr>) t) Inr)))
    added_of own_added (0 + 0)"
  proof (rule runs_lifted, rule runs_store)
    fix u and p :: "string ptr"
    assume p: "val p = u"
    show "runs (owned Block p + own_run st)
      (bindM (?get (val p)) (\<lambda>((t, c), w, wd).
        bindM (take_torrent_mem x item (st\<lparr>k_curl := c, k_web := w, k_world := wd\<rparr>) t) (\<lambda>r.
        bindM (am_free p) (\<lambda>_. returnM r))))
      (bindR (?get_v u) (\<lambda>((t, c), w, wd).
        bindR (take_torrent x item ((run_of st)\<lparr>r_curl := c, r_web := w, r_world := wd\<rparr>) t) Inr))
      added_of own_added (0 + 0)"
      unfolding p
    proof (rule runs_bind [OF runs_downloadTorrent [OF assms(1,3)], where Q = "owned Block p"], goal_cases)
      case (2 y)
      obtain t c w wd where y: "y = ((t, c), w, wd)" by (metis surj_pair)
      let ?st = "st\<lparr>k_curl := c, k_web := w, k_world := wd\<rparr>"
      have free: "runs (own_added z + owned Block p) (bindM (am_free p) (\<lambda>_. returnM z)) (Inr (added_of z))
          added_of own_added 0" for z :: "int \<times> 'a mem_run"
        by (rule block.runs_free [OF runs_return]) (simp_all add: ac_simps)
      have "runs (own_response t + own_run ?st + owned Block p)
          (bindM (take_torrent_mem x item ?st t) (\<lambda>r. bindM (am_free p) (\<lambda>_. returnM r)))
          (bindR (take_torrent x item (run_of ?st) (map_option response_of t)) Inr) added_of own_added (0 + 0)"
        by (rule runs_bind [OF runs_take_torrent [OF assms(1)] refl free]) (use assms(2) in simp)
      then show ?case
        by (simp add: y fetched_of_def own_fetched_def own_run_def run_of_def ac_simps)
    qed (simp add: own_run_def ac_simps)
  qed
  moreover have "(if p \<noteq> None then val p else item_url item) = ?u (val p)" for p :: "string ptr" by simp
  ultimately show ?thesis
    using False unfolding add_item_mem_def add_item_parts by (simp add: run_of_def)
qed

section \<open>The handle and the limit of a run\<close>

text \<open>What a check keeps as it goes from item to item: an open handle and no upload limit.\<close>

lemma downloadTorrent_keeps:
  assumes "downloadTorrent x c url w wd = Inr ((t, c'), w', wd')" "c \<noteq> None"
  shows "c' \<noteq> None"
  using assms
  by (auto simp: downloadTorrent_def on_net_def getHTTPData_def Let_def bindR_Inr_iff
      split: prod.splits if_splits option.splits)

lemma add_item_keeps:
  assumes "add_item x feed item st = Inr (r, st')" "r_curl st \<noteq> None"
  shows "r_curl st' \<noteq> None \<and> r_session st' = r_session st"
  using assms
  by (auto simp: add_item_parts take_torrent_def bindR_Inr_iff dest!: downloadTorrent_keeps
      split: if_splits option.splits prod.splits)

lemma notify_keeps:
  assumes "notify x p q nm st = Inr st'"
  shows "r_curl st' = r_curl st"
  using assms by (auto simp: notify_def Let_def bindR_Inr_iff split: if_splits)

definition quiet_run :: "'w mem_run \<Rightarrow> bool" where
  "quiet_run st \<longleftrightarrow> k_curl st \<noteq> None \<and> upspeed (k_session st) \<le> 0"

lemma quiet_run_of: "quiet_run st \<longleftrightarrow> r_curl (run_of st) \<noteq> None \<and> upspeed (r_session (run_of st)) \<le> 0"
  by (simp add: quiet_run_def run_of_def)

lemma process_item_keeps:
  assumes "process_item x feed item st = Inr st'" "r_curl st \<noteq> None"
  shows "r_curl st' \<noteq> None \<and> upspeed (r_session st') = upspeed (r_session st)"
proof
  show "upspeed (r_session st') = upspeed (r_session st)"
    using process_item_session [OF assms(1)] by (auto simp: remembered_def)
  show "r_curl st' \<noteq> None"
    using assms
    by (auto simp: process_item_def item_result_def Let_def bindR_Inr_iff remember_item_def
        dest!: add_item_keeps notify_keeps split: if_splits prod.splits)
qed

section \<open>All items\<close>

lemma runs_item_result:
  assumes "one_name (ext_pcre x) (ext_curl x)"
  shows "runs (own_added y) (item_result_mem x item y) (item_result x item (added_of y)) run_of own_run 0"
proof -
  obtain r st where y: "y = (r, st)" by (cases y)
  let ?told = "if r > 0 then notify_mem x PROWL_NEW_DOWNLOAD PUSHOVER_NEW_DOWNLOAD (item_name item) st
    else returnM st"
  let ?told_v = "if r > 0 then notify x PROWL_NEW_DOWNLOAD PUSHOVER_NEW_DOWNLOAD (item_name item) (run_of st)
    else Inr (run_of st)"
  have "runs (own_run st) ?told ?told_v run_of own_run 0"
    using runs_notify [OF assms] by (auto intro: runs_return)
  then have "runs (own_run st) (bindM ?told (\<lambda>st. returnM (remember_item_mem item st)))
      (bindR ?told_v (\<lambda>st. Inr (remember_item item st))) run_of own_run 0"
    by (rule runs_then)
      (auto simp: remember_item_mem_def remember_item_def run_of_def own_run_def Let_def intro!: runs_return)
  then show ?thesis
    using runs_notify [OF assms] by (simp add: y item_result_mem_def item_result_def added_of_def own_added_def)
qed

lemma runs_process_item:
  assumes "one_name (ext_pcre x) (ext_curl x)" "quiet_run st"
  shows "runs (own_run st) (process_item_mem x feed item st) (process_item x feed item (run_of st))
    run_of own_run 0"
proof -
  obtain m folder where m: "isMatch (ext_pcre x) (filters (k_session st)) (item_name item)
      (case feed of None \<Rightarrow> None | Some f \<Rightarrow> feed_id f) (k_folder st) = (m, folder)" by force
  let ?st = "st\<lparr>k_folder := folder\<rparr>"
  have st: "run_of ?st = (run_of st)\<lparr>r_folder := folder\<rparr>" "own_run ?st = own_run st"
    by (simp_all add: run_of_def own_run_def)
  have stay: "runs (own_run st) (returnM ?st) (Inr ((run_of st)\<lparr>r_folder := folder\<rparr>)) run_of own_run 0"
    by (rule runs_return) (simp_all add: st)
  have "runs (own_run ?st) (bindM (add_item_mem x feed item ?st) (item_result_mem x item))
      (bindR (add_item x feed item (run_of ?st)) (item_result x item)) run_of own_run 0"
    by (rule runs_then [OF runs_add_item runs_item_result])
      (use assms in \<open>simp_all add: quiet_run_def\<close>)
  with stay show ?thesis
    unfolding st by (simp add: process_item_mem_def process_item_def m run_of_def Let_def)
qed

lemma runs_process_items:
  assumes "one_name (ext_pcre x) (ext_curl x)" "quiet_run st"
  shows "runs (own_run st) (process_items_mem x feed items st) (process_items x feed items (run_of st))
    run_of own_run 0"
  using assms(2)
proof (induction items arbitrary: st)
  case Nil
  show ?case by (auto intro: runs_return)
next
  case (Cons i items)
  have "quiet_run st1" if "process_item x feed i (run_of st) = Inr (run_of st1)" for st1
    using process_item_keeps [OF that] Cons.prems by (simp add: quiet_run_of)
  then show ?case
    unfolding process_items_mem.simps process_items.simps
    by (intro runs_then [OF runs_process_item [OF assms(1) Cons.prems]] Cons.IH)
qed

lemma runs_processRSSList:
  assumes "one_name (ext_pcre x) (ext_curl x)" "c \<noteq> None" "upspeed s \<le> 0"
  shows "runs (owned CurlHandle c + own_statics w) (processRSSList_mem x s c items feed w wd)
    (processRSSList x s (val c) items feed (statics_of w) wd) run_of own_run 0"
  using runs_process_items [OF assms(1), of "\<lparr>k_session = s, k_curl = c, k_folder = None, k_web = w, k_world = wd\<rparr>"]
    assms(2,3)
  by (simp add: processRSSList_mem_def processRSSList_def quiet_run_def run_of_def own_run_def)

section \<open>A feed\<close>

text \<open>\<open>use_feed_mem\<close> on plain values.\<close>

definition use_feed ::
  "('w, 'doc) ext \<Rightarrow> auto_handle \<Rightarrow> nat \<Rightarrow> bool \<Rightarrow> HTTPResponse \<Rightarrow> curl option \<Rightarrow> web \<Rightarrow> 'w world \<Rightarrow>
   (nat \<times> auto_handle \<times> web \<times> 'w world) res" where
  "use_feed x session k firstrun r c w wd =
     (let feed = feeds session ! k
      in if hr_code r = 200 \<and> hr_data r \<noteq> None then
           bindR (parse_xmldata (ext_xml x) (hr_data r) (hr_size r mod 2 ^ 32) (Some (feed_ttl feed)))
             (\<lambda>(items, item_count, ttl).
                let feed = feed\<lparr>feed_ttl := the ttl\<rparr>;
                    session = session\<lparr>feeds := (feeds session)[k := feed]\<rparr>;
                    session = (if firstrun then grow_bucket item_count session else session)
                in bindR (processRSSList x session c items (Some feed) w wd) (\<lambda>st.
                     Inr (item_count mod 2 ^ 16, r_session st, r_web st, r_world st)))
         else Inr (0, session, w, wd))"

lemma processFeed_parts:
  "processFeed x session k firstrun w wd =
     bindR (getRSSFeed x (feeds session ! k) w wd) (\<lambda>((response, c), w, wd).
       if c = None \<and> response \<noteq> None then Inl Abort
       else case response of
              None \<Rightarrow> Inr (0, session, w, wd)
            | Some r \<Rightarrow> use_feed x session k firstrun r c w wd)"
  unfolding processFeed_def use_feed_def Let_def by (rule refl)

definition used_of ::
  "nat \<times> auto_handle \<times> curl ptr \<times> statics \<times> 'w world \<Rightarrow> nat \<times> auto_handle \<times> web \<times> 'w world" where
  "used_of = (\<lambda>(n, s, c, w, wd). (n, s, statics_of w, wd))"

definition own_used :: "nat \<times> auto_handle \<times> curl ptr \<times> statics \<times> 'w world \<Rightarrow> objects" where
  "own_used = (\<lambda>(n, s, c, w, wd). owned CurlHandle c + own_statics w)"

definition checked_of :: "nat \<times> auto_handle \<times> statics \<times> 'w world \<Rightarrow> nat \<times> auto_handle \<times> web \<times> 'w world" where
  "checked_of = (\<lambda>(n, s, w, wd). (n, s, statics_of w, wd))"

definition own_checked :: "nat \<times> auto_handle \<times> statics \<times> 'w world \<Rightarrow> objects" where
  "own_checked = (\<lambda>(n, s, w, wd). own_statics w)"

lemma runs_use_feed:
  assumes "one_name (ext_pcre x) (ext_curl x)" "upspeed s \<le> 0" "c \<noteq> None"
  shows "runs (owned CurlHandle c + own_statics w) (use_feed_mem x s k firstrun r c w wd)
    (use_feed x s k firstrun (response_of r) (val c) (statics_of w) wd) used_of own_used 0"
proof -
  have finish: "runs (own_run st)
      (returnM (n mod 2 ^ 16, k_session st, k_curl st, k_web st, k_world st))
      (Inr (n mod 2 ^ 16, r_session (run_of st), r_web (run_of st), r_world (run_of st))) used_of own_used 0"
    for n and st :: "'a mem_run"
    by (rule runs_return) (simp_all add: used_of_def own_used_def run_of_def own_run_def)
  have list: "runs (owned CurlHandle c + own_statics w)
      (bindM (processRSSList_mem x s' c items feed w wd) (\<lambda>st.
        returnM (n mod 2 ^ 16, k_session st, k_curl st, k_web st, k_world st)))
      (bindR (processRSSList x s' (val c) items feed (statics_of w) wd) (\<lambda>st.
        Inr (n mod 2 ^ 16, r_session st, r_web st, r_world st))) used_of own_used 0"
    if "upspeed s' \<le> 0" for s' items feed n
    by (rule runs_then [OF runs_processRSSList [OF assms(1,3) that]]) (rule finish)
  let ?feed = "\<lambda>ttl. (feeds s ! k)\<lparr>feed_ttl := the ttl\<rparr>"
  let ?grow = "\<lambda>n s'. if firstrun then grow_bucket n s' else s'"
  let ?s' = "\<lambda>n ttl. ?grow n (s\<lparr>feeds := (feeds s)[k := ?feed ttl]\<rparr>)"
  show ?thesis
  proof (cases "mr_code r = 200 \<and> mr_data r \<noteq> None")
    case True
    have next_session: "runs (owned CurlHandle c + own_statics w)
        (case b of (items, n, ttl) \<Rightarrow>
          bindM (processRSSList_mem x (?s' n ttl) c items (Some (?feed ttl)) w wd) (\<lambda>st.
            returnM (n mod 2 ^ 16, k_session st, k_curl st, k_web st, k_world st)))
        (case b of (items, n, ttl) \<Rightarrow>
          bindR (processRSSList x (?s' n ttl) (val c) items (Some (?feed ttl)) (statics_of w) wd) (\<lambda>st.
            Inr (n mod 2 ^ 16, r_session st, r_web st, r_world st))) used_of own_used 0" for b
      unfolding split_def by (rule list) (simp add: assms(2) grow_bucket_def)
    from True have r: "hr_code (response_of r) = 200" "hr_data (response_of r) = val (mr_data r)"
      "hr_size (response_of r) = mr_size r" "val (mr_data r) \<noteq> None"
      by (auto simp: response_of_def)
    show ?thesis
      unfolding use_feed_mem_def use_feed_def Let_def r(1-3) if_P [OF True] if_P [OF conjI [OF refl r(4)]]
      by (rule runs_lifted [OF next_session])
  next
    case False
    then show ?thesis
      by (auto simp: use_feed_mem_def use_feed_def Let_def response_of_def used_of_def own_used_def
          intro!: runs_return)
  qed
qed

text \<open>A transfer that fails leaves the handle it was made with open.\<close>

definition feed_leak :: "('w, 'doc) ext \<Rightarrow> rss_feed \<Rightarrow> web \<Rightarrow> 'w world \<Rightarrow> kind multiset" where
  "feed_leak x feed w wd =
     (case getRSSFeed x feed w wd of
        Inr ((None, Some _), _) \<Rightarrow> {#CurlHandle#}
      | _ \<Rightarrow> {#})"

lemma runs_checked:
  assumes "one_name (ext_pcre x) (ext_curl x)" "upspeed s \<le> 0" "c \<noteq> None"
  shows "runs (own_response (Some r) + (owned CurlHandle c + own_statics w'))
    (bindM (use_feed_mem x s k firstrun r c w' wd') (\<lambda>(n, session, c, w, wd).
      bindM (HTTPResponse_free (Some r)) (\<lambda>_. bindM (closeCURLSession c) (\<lambda>_. returnM (n, session, w, wd)))))
    (bindR (use_feed x s k firstrun (response_of r) (val c) (statics_of w') wd') Inr)
    checked_of own_checked (0 + 0)"
proof (rule runs_bind [OF runs_use_feed [OF assms], where Q = "own_response (Some r)"], goal_cases)
  case (2 y)
  obtain n session c w wd where y: "y = (n, session, c, w, wd)" by (metis surj_pair)
  show ?case
    unfolding y prod.case
    by (rule response.runs_free [OF curl_handle.runs_free [OF runs_return]])
      (simp_all add: used_of_def own_used_def checked_of_def own_checked_def ac_simps)
qed (simp add: ac_simps)

lemma runs_processFeed:
  assumes "one_name (ext_pcre x) (ext_curl x)" "upspeed s \<le> 0"
  shows "runs (own_statics w) (processFeed_mem x s k firstrun w wd)
    (processFeed x s k firstrun (statics_of w) wd) checked_of own_checked
    (feed_leak x (feeds s ! k) (statics_of w) wd)"
proof -
  let ?leak = "feed_leak x (feeds s ! k) (statics_of w) wd"
  have "runs (own_statics w) (processFeed_mem x s k firstrun w wd)
    (processFeed x s k firstrun (statics_of w) wd) checked_of own_checked (?leak + 0)"
    unfolding processFeed_mem_def processFeed_parts
  proof (rule runs_bind [OF runs_getRSSFeed [OF assms(1)], where Q = "{#}"], goal_cases)
    case (2 y)
    obtain response c w' wd' where y: "y = ((response, c), w', wd')" by (metis surj_pair)
    show ?case
    proof (cases response)
      case None
      with 2 have leak: "?leak = 0 + (if c = None then {#} else {#CurlHandle#})"
        by (auto simp: feed_leak_def y fetched_of_def split: option.splits)
      have "runs (own_statics w' + owned CurlHandle c) (returnM (0, s, w', wd'))
          (Inr (0, s, statics_of w', wd')) checked_of own_checked ?leak"
        unfolding leak
        by (rule runs_forget [OF runs_return lost_owned]) (simp_all add: checked_of_def own_checked_def)
      then show ?thesis by (simp add: y None fetched_of_def own_fetched_def own_response_def ac_simps)
    next
      case (Some r)
      with 2 have leak: "?leak = 0" by (simp add: feed_leak_def y fetched_of_def)
      show ?thesis
      proof (cases "c = None")
        case True
        with Some show ?thesis by (simp add: y fetched_of_def runs_fault)
      next
        case False
        then obtain h where "c = Some h" by blast
        with runs_checked [OF assms False, of r w' k firstrun wd'] Some show ?thesis
          by (simp add: y leak fetched_of_def own_fetched_def ac_simps)
      qed
    qed
  qed simp
  then show ?thesis by simp
qed

text \<open>The loop of \<open>main\<close> over the feeds.\<close>

fun check_feeds_mem ::
  "('w, 'doc) ext \<Rightarrow> auto_handle \<Rightarrow> nat list \<Rightarrow> bool \<Rightarrow> statics \<Rightarrow> 'w world \<Rightarrow>
   (auto_handle \<times> statics \<times> 'w world) op" where
  "check_feeds_mem x session [] firstrun w wd = returnM (session, w, wd)"
| "check_feeds_mem x session (k # ks) firstrun w wd =
     bindM (processFeed_mem x session k firstrun w wd) (\<lambda>(_, session, w, wd).
       check_feeds_mem x session ks firstrun w wd)"

text \<open>A network that is down: handles can be made, no transfer succeeds.\<close>

definition net_down :: "'w curl_lib \<Rightarrow> bool" where
  "net_down lib \<longleftrightarrow> (\<forall>wd. curl_easy_init lib wd) \<and>
     (\<forall>c wd. t_events (fst (curl_easy_perform lib c wd)) = [] \<and> t_result (fst (curl_easy_perform lib c wd)) \<noteq> 0)"

lemma net_down_one_name: "net_down lib \<Longrightarrow> one_name re lib"
  by (simp add: net_down_def one_name_def)

lemma net_downD:
  assumes "net_down lib"
  shows "curl_easy_init lib wd" "curl_easy_perform lib c wd = (t, wd') \<Longrightarrow> t_events t = [] \<and> t_result t \<noteq> 0"
  using assms unfolding net_down_def by (blast, metis fst_conv)

lemma net_down_getRSSFeed:
  assumes "net_down (ext_curl x)" "feed_url feed \<noteq> None"
  shows "\<exists>c w' wd'. getRSSFeed x feed w wd = Inr ((None, Some c), w', wd')"
  using assms(2)
  by (auto simp: getRSSFeed_def on_net_def getHTTPData_def am_curl_init_def net_downD(1) [OF assms(1)] Let_def
      dest!: net_downD(2) [OF assms(1)] split: prod.split)

lemma runs_failed_feed:
  assumes "one_name (ext_pcre x) (ext_curl x)"
    and "getRSSFeed x (feeds s ! k) (statics_of w) wd = Inr ((None, Some c), w', wd')"
  shows "runs (own_statics w) (processFeed_mem x s k firstrun w wd) (Inr (0, s, w', wd'))
    checked_of own_checked {#CurlHandle#}"
proof -
  let ?leak = "\<lambda>y. (case y of ((response, c), w, wd) \<Rightarrow> Inr (0 :: nat, s, w, wd))"
  have "runs (own_statics w) (processFeed_mem x s k firstrun w wd)
      (bindR (getRSSFeed x (feeds s ! k) (statics_of w) wd) ?leak) checked_of own_checked ({#CurlHandle#} + 0)"
    unfolding processFeed_mem_def
  proof (rule runs_bind [OF runs_getRSSFeed [OF assms(1)], where Q = "{#}"], goal_cases)
    case (2 y)
    with assms(2) obtain h w1 wd1 where y: "y = ((None, Some h), w1, wd1)"
      by (cases y) (auto simp: fetched_of_def)
    have "runs (own_statics w1 + owned CurlHandle (Some h)) (returnM (0, s, w1, wd1))
        (Inr (0, s, statics_of w1, wd1)) checked_of own_checked (0 + {#CurlHandle#})"
      by (rule runs_forget [OF runs_return]) (auto simp: checked_of_def own_checked_def lost_def owned_def split: prod.split)
    then show ?case
      by (simp add: y fetched_of_def own_fetched_def own_response_def ac_simps)
  qed simp
  then show ?thesis by (simp add: assms(2))
qed

section \<open>Properties\<close>

text \<open>C10: memory of a check: \<open>processFeed\<close> on the ledger computes what it computes on plain values, with
  the same faults: nothing is released twice, and no response, packet, address, header list or handle
  survives the check, but for the identifier of the session and, when the transfer of the feed has
  failed, the handle of that transfer.\<close>

theorem processFeed_memory:
  assumes "one_name (ext_pcre x) (ext_curl x)" "upspeed s \<le> 0" "live L = own_statics w + F"
  shows "case processFeed x s k firstrun (statics_of w) wd of
      Inl f \<Rightarrow> processFeed_mem x s k firstrun w wd L = Inl f
    | Inr b \<Rightarrow> \<exists>n s' w' wd' L' X.
        processFeed_mem x s k firstrun w wd L = Inr ((n, s', w', wd'), L') \<and>
        b = (n, s', statics_of w', wd') \<and> live L' = own_statics w' + X + F \<and>
        lost (feed_leak x (feeds s ! k) (statics_of w) wd) X"
  using runsD [OF runs_processFeed [OF assms(1,2)] assms(3), of k firstrun wd]
  by (auto simp: accounts_def checked_of_def own_checked_def split: sum.split)

lemma one_name_lab: "one_name (ext_pcre lab_ext) (ext_curl lab_ext)"
  by (simp add: one_name_def lab_ext_def lab_curl_def)

theorem processFeed_memory_witness:
  "case processFeed lab_ext lab_session 0 True (statics_of statics0) disk1 of
      Inl f \<Rightarrow> processFeed_mem lab_ext lab_session 0 True statics0 disk1 ledger0 = Inl f
    | Inr b \<Rightarrow> \<exists>n s' w' wd' L' X.
        processFeed_mem lab_ext lab_session 0 True statics0 disk1 ledger0 = Inr ((n, s', w', wd'), L') \<and>
        b = (n, s', statics_of w', wd') \<and> live L' = own_statics w' + X + {#} \<and>
        lost (feed_leak lab_ext (feeds lab_session ! 0) (statics_of statics0) disk1) X"
  by (rule processFeed_memory [OF one_name_lab])
    (simp_all add: lab_session_def ledger0_def statics0_def own_statics_def)

text \<open>C26: a network that is down costs a handle per feed: going through feeds whose transfers fail, the
  loop of \<open>main\<close> changes no feed, no filter and no history, and for each of them leaves one handle of
  libcurl open that nothing points to any more.\<close>

theorem net_down_leaks:
  assumes "net_down (ext_curl x)" "\<forall>k \<in> set ks. feed_url (feeds s ! k) \<noteq> None"
    and "live L = own_statics w + F"
  shows "\<exists>w' wd' L' X. check_feeds_mem x s ks firstrun w wd L = Inr ((s, w', wd'), L') \<and>
    live L' = own_statics w' + X + F \<and> lost (replicate_mset (length ks) CurlHandle) X"
  using assms(2,3)
proof (induction ks arbitrary: w wd L F)
  case Nil
  then show ?case by (simp add: returnM_def)
next
  case (Cons k ks)
  from Cons.prems(1) obtain c w1 wd1 where
    "getRSSFeed x (feeds s ! k) (statics_of w) wd = Inr ((None, Some c), w1, wd1)"
    using net_down_getRSSFeed [OF assms(1)] by fastforce
  from runsD [OF runs_failed_feed [OF net_down_one_name [OF assms(1)] this] Cons.prems(2), of firstrun]
  obtain w2 wd2 L2 X2 where
    2: "processFeed_mem x s k firstrun w wd L = Inr ((0, s, w2, wd2), L2)"
       "live L2 = own_statics w2 + (X2 + F)" "lost {#CurlHandle#} X2"
    by (auto simp: checked_of_def own_checked_def ac_simps elim!: accountsE)
  from Cons.IH [OF _ 2(2), of wd2] Cons.prems(1) obtain w' wd' L' X where
    "check_feeds_mem x s ks firstrun w2 wd2 L2 = Inr ((s, w', wd'), L')"
    "live L' = own_statics w' + X + (X2 + F)" "lost (replicate_mset (length ks) CurlHandle) X" by auto
  with 2 lost_add [OF this(3) 2(3)] show ?case
    by (auto simp: bindM_def ac_simps intro!: exI [of _ "X + X2"])
qed

definition down_ext :: "(unit, unit) ext" where
  "down_ext = lab_ext\<lparr>ext_curl := \<lparr>curl_easy_init = (\<lambda>_. True),
     curl_easy_perform = (\<lambda>c n. (\<lparr>t_events = [], t_result = 7, t_status = 0\<rparr>, n))\<rparr>\<rparr>"

theorem net_down_leaks_witness:
  "\<exists>w' wd' L' X. check_feeds_mem down_ext lab_session [0, 0, 0] False statics0 disk1 ledger0 =
      Inr ((lab_session, w', wd'), L') \<and>
    live L' = own_statics w' + X + {#} \<and> lost (replicate_mset (length [0::nat, 0, 0]) CurlHandle) X"
  by (rule net_down_leaks)
    (simp_all add: down_ext_def net_down_def lab_session_def ledger0_def statics0_def own_statics_def feed_new_def)

end
