(* ===== verification/Am_Handle_Memory.thy ===== *)
theory Am_Handle_Memory
  imports Am_Rpc_Memory Am_Handle
begin

text \<open>
  The session on the ledger: feeds, filters, the history and the handle itself
  (\<^verbatim>\<open>rss_feed.c\<close>, \<^verbatim>\<open>filters.c\<close>, \<^verbatim>\<open>list.c\<close>, \<^verbatim>\<open>session_init\<close> and \<^verbatim>\<open>session_free\<close> of \<^verbatim>\<open>automatic.c\<close>).  A list is a
  list of nodes, each with an address of its own and its data.
\<close>

section \<open>Lists\<close>

type_synonym 'd nodes = "(nat \<times> 'd) list"

definition own_nodes :: "('d \<Rightarrow> objects) \<Rightarrow> 'd nodes \<Rightarrow> objects" where
  "own_nodes own ns = sum_list (map (\<lambda>(a, d). {#(a, Block)#} + own d) ns)"

lemma own_nodes_simps [simp]:
  "own_nodes own [] = {#}"
  "own_nodes own ((a, d) # ns) = {#(a, Block)#} + own d + own_nodes own ns"
  "own_nodes own (ns @ ms) = own_nodes own ns + own_nodes own ms"
  by (simp_all add: own_nodes_def)

definition addItem_mem :: "'d \<Rightarrow> 'd nodes \<Rightarrow> 'd nodes op" where
  "addItem_mem elem head = bindM new_block (\<lambda>a. returnM ((a, elem) # head))"

definition addToTail_mem :: "'d \<Rightarrow> 'd nodes \<Rightarrow> 'd nodes op" where
  "addToTail_mem elem head = bindM new_block (\<lambda>a. returnM (head @ [(a, elem)]))"

fun freeList_mem :: "('d \<Rightarrow> unit op) \<Rightarrow> 'd nodes \<Rightarrow> unit op" where
  "freeList_mem freeFunc [] = returnM ()"
| "freeList_mem freeFunc ((a, d) # ns) =
     bindM (freeFunc d) (\<lambda>_. bindM (am_free (Some (a, ()))) (\<lambda>_. freeList_mem freeFunc ns))"

context resource
begin

lemma frees_nodes: "runs (own_nodes own ns) (freeList_mem free ns) (Inr ()) (\<lambda>_. ()) (\<lambda>_. {#}) 0"
proof (induction ns)
  case Nil
  show ?case by (auto intro: runs_return)
next
  case (Cons n ns)
  obtain a d where n: "n = (a, d)" by force
  show ?case
    unfolding n freeList_mem.simps
    by (rule runs_free, rule block.runs_free, rule Cons.IH) (simp_all add: ac_simps)
qed

text \<open>The list function turns a release of elements into a release of lists.\<close>

lemma resource_nodes: "resource (own_nodes own) (freeList_mem free)"
  by (intro resource.intro released [OF frees_nodes])

end

section \<open>Feeds and filters\<close>

record mFeed =
  mf_self :: nat
  mf_url :: "string ptr"
  mf_cookies :: "string ptr"
  mf_id :: "string ptr"
  mf_pattern :: "string ptr"
  mf_replace :: "string ptr"
  mf_ttl :: int

record mFilter =
  mt_self :: nat
  mt_pattern :: "string ptr"
  mt_folder :: "string ptr"
  mt_feedID :: "string ptr"

definition feed_of :: "mFeed \<Rightarrow> rss_feed" where
  "feed_of f = \<lparr>feed_url = val (mf_url f), feed_cookies = val (mf_cookies f), feed_id = val (mf_id f),
     feed_url_pattern = val (mf_pattern f), feed_url_replace = val (mf_replace f), feed_ttl = mf_ttl f\<rparr>"

definition own_feed :: "mFeed \<Rightarrow> objects" where
  "own_feed f = {#(mf_self f, Block)#} + owned Block (mf_url f) + owned Block (mf_cookies f) +
     owned Block (mf_id f) + owned Block (mf_pattern f) + owned Block (mf_replace f)"

definition filter_of :: "mFilter \<Rightarrow> am_filter" where
  "filter_of f = \<lparr>f_pattern = val (mt_pattern f), f_folder = val (mt_folder f), f_feedID = val (mt_feedID f)\<rparr>"

definition own_filter :: "mFilter \<Rightarrow> objects" where
  "own_filter f = {#(mt_self f, Block)#} + owned Block (mt_pattern f) + owned Block (mt_folder f) +
     owned Block (mt_feedID f)"

definition feed_new_mem :: "mFeed op" where
  "feed_new_mem = bindM new_block (\<lambda>a. returnM \<lparr>mf_self = a, mf_url = None, mf_cookies = None,
     mf_id = None, mf_pattern = None, mf_replace = None, mf_ttl = wrap_u 32 (- 1)\<rparr>)"

definition feed_free_mem :: "mFeed \<Rightarrow> unit op" where
  "feed_free_mem x =
     bindM (am_free (mf_url x)) (\<lambda>_.
     bindM (am_free (mf_cookies x)) (\<lambda>_.
     bindM (am_free (mf_id x)) (\<lambda>_.
     bindM (am_free (mf_pattern x)) (\<lambda>_.
     bindM (am_free (mf_replace x)) (\<lambda>_. am_free (Some (mf_self x, ())))))))"

definition filter_new_mem :: "mFilter op" where
  "filter_new_mem = bindM new_block (\<lambda>a.
     returnM \<lparr>mt_self = a, mt_pattern = None, mt_folder = None, mt_feedID = None\<rparr>)"

definition filter_free_mem :: "mFilter \<Rightarrow> unit op" where
  "filter_free_mem x =
     bindM (am_free (mt_pattern x)) (\<lambda>_.
     bindM (am_free (mt_folder x)) (\<lambda>_.
     bindM (am_free (mt_feedID x)) (\<lambda>_. am_free (Some (mt_self x, ())))))"

interpretation one_feed: resource own_feed feed_free_mem
proof (intro resource.intro released)
  show "runs (own_feed x) (feed_free_mem x) (Inr ()) (\<lambda>_. ()) (\<lambda>_. {#}) 0" for x
    unfolding feed_free_mem_def
    by ((rule block.runs_free)+, rule block.frees) (simp_all add: own_feed_def ac_simps)
qed

interpretation one_filter: resource own_filter filter_free_mem
proof (intro resource.intro released)
  show "runs (own_filter x) (filter_free_mem x) (Inr ()) (\<lambda>_. ()) (\<lambda>_. {#}) 0" for x
    unfolding filter_free_mem_def
    by ((rule block.runs_free)+, rule block.frees) (simp_all add: own_filter_def ac_simps)
qed

text \<open>An entry of the history is a string that is there.\<close>

definition own_entry :: "nat \<times> string \<Rightarrow> objects" where
  "own_entry d = {#(fst d, Block)#}"

definition entry_free :: "nat \<times> string \<Rightarrow> unit op" where
  "entry_free d = am_free (Some d)"

interpretation entry: resource own_entry entry_free
  using block.free_owned [of _ "Some d" for d]
  by unfold_locales (auto simp: own_entry_def entry_free_def owned_def split: prod.splits)

interpretation feed_list: resource "own_nodes own_feed" "freeList_mem feed_free_mem"
  by (rule one_feed.resource_nodes)

interpretation filter_list: resource "own_nodes own_filter" "freeList_mem filter_free_mem"
  by (rule one_filter.resource_nodes)

interpretation entry_list: resource "own_nodes own_entry" "freeList_mem entry_free"
  by (rule entry.resource_nodes)

section \<open>The handle\<close>

text \<open>The numbers of the handle are those of \<open>mn_plain\<close>, whose other fields are not used.\<close>

record mHandle =
  mn_self :: nat
  mn_transmission_path :: "string ptr"
  mn_statefile :: "string ptr"
  mn_torrent_folder :: "string ptr"
  mn_auth :: "string ptr"
  mn_host :: "string ptr"
  mn_prowl_key :: "string ptr"
  mn_pushover_key :: "string ptr"
  mn_transmission_external :: "string ptr"
  mn_feeds :: "mFeed nodes"
  mn_filters :: "mFilter nodes"
  mn_downloads :: "(nat \<times> string) nodes"
  mn_plain :: auto_handle

definition handle_of :: "mHandle \<Rightarrow> auto_handle" where
  "handle_of s = (mn_plain s)\<lparr>transmission_path := val (mn_transmission_path s),
     statefile := val (mn_statefile s), torrent_folder := val (mn_torrent_folder s),
     auth := val (mn_auth s), host := val (mn_host s), prowl_key := val (mn_prowl_key s),
     pushover_key := val (mn_pushover_key s), transmission_external := val (mn_transmission_external s),
     feeds := map (\<lambda>n. feed_of (snd n)) (mn_feeds s), filters := map (\<lambda>n. filter_of (snd n)) (mn_filters s),
     downloads := map (\<lambda>n. snd (snd n)) (mn_downloads s)\<rparr>"

definition own_handle :: "mHandle \<Rightarrow> objects" where
  "own_handle s = {#(mn_self s, Block)#} + owned Block (mn_transmission_path s) +
     owned Block (mn_torrent_folder s) + owned Block (mn_statefile s) + owned Block (mn_host s) +
     owned Block (mn_auth s) + owned Block (mn_prowl_key s) + owned Block (mn_pushover_key s) +
     owned Block (mn_transmission_external s) + own_nodes own_feed (mn_feeds s) +
     own_nodes own_entry (mn_downloads s) + own_nodes own_filter (mn_filters s)"

definition session_free_mem :: "mHandle \<Rightarrow> unit op" where
  "session_free_mem as =
     bindM (am_free (mn_transmission_path as)) (\<lambda>_.
     bindM (am_free (mn_torrent_folder as)) (\<lambda>_.
     bindM (am_free (mn_statefile as)) (\<lambda>_.
     bindM (am_free (mn_host as)) (\<lambda>_.
     bindM (am_free (mn_auth as)) (\<lambda>_.
     bindM (am_free (mn_prowl_key as)) (\<lambda>_.
     bindM (am_free (mn_pushover_key as)) (\<lambda>_.
     bindM (am_free (mn_transmission_external as)) (\<lambda>_.
     bindM (freeList_mem feed_free_mem (mn_feeds as)) (\<lambda>_.
     bindM (freeList_mem entry_free (mn_downloads as)) (\<lambda>_.
     bindM (freeList_mem filter_free_mem (mn_filters as)) (\<lambda>_.
     am_free (Some (mn_self as, ())))))))))))))"

interpretation session: resource own_handle session_free_mem
proof (intro resource.intro released)
  show "runs (own_handle s) (session_free_mem s) (Inr ()) (\<lambda>_. ()) (\<lambda>_. {#}) 0" for s
    unfolding session_free_mem_def
    by ((rule block.runs_free)+, rule feed_list.runs_free, rule entry_list.runs_free,
        rule filter_list.runs_free, rule block.frees) (simp_all add: own_handle_def ac_simps)
qed

definition own_session :: "mHandle option \<Rightarrow> objects" where
  "own_session p = (case p of None \<Rightarrow> {#} | Some s \<Rightarrow> own_handle s)"

section \<open>The default session\<close>

definition get_tr_folder_mem :: "env \<Rightarrow> string ptr op" where
  "get_tr_folder_mem e =
     bindM (store (get_home_folder e)) (\<lambda>home.
     bindM (liftM (get_tr_folder e)) (\<lambda>path.
     bindM (store path) (\<lambda>p.
     bindM (am_free home) (\<lambda>_. returnM p))))"

definition state_path_mem :: "env \<Rightarrow> string ptr op" where
  "state_path_mem e =
     bindM (store (get_home_folder e)) (\<lambda>home.
     bindM (liftM (state_path e)) (\<lambda>path.
     bindM (am_free home) (\<lambda>_. store path)))"

definition default_numbers :: auto_handle where
  "default_numbers =
     \<lparr>transmission_path = None, statefile = None, torrent_folder = None, auth = None,
        host = None, prowl_key = None, pushover_key = None, transmission_external = None,
        feeds = [], filters = [], downloads = [], rpc_version = AM_DEFAULT_RPC_VERSION,
        max_bucket_items = AM_DEFAULT_MAXBUCKET, bucket_changed = False,
        check_interval = AM_DEFAULT_INTERVAL, use_transmission = True, start_torrent = True,
        rpc_port = AM_DEFAULT_RPCPORT, transmission_version = AM_TRANSMISSION_1_3,
        upspeed = -1, prowl_key_valid = False, match_only = False\<rparr>"

definition session_init_mem :: "env \<Rightarrow> mHandle op" where
  "session_init_mem e =
     bindM new_block (\<lambda>a.
     bindM (get_tr_folder_mem e) (\<lambda>tr.
     bindM (store (get_temp_folder e)) (\<lambda>tmp.
     bindM (state_path_mem e) (\<lambda>st.
     returnM \<lparr>mn_self = a, mn_transmission_path = tr, mn_statefile = st, mn_torrent_folder = tmp,
       mn_auth = None, mn_host = None, mn_prowl_key = None, mn_pushover_key = None,
       mn_transmission_external = None, mn_feeds = [], mn_filters = [], mn_downloads = [],
       mn_plain = default_numbers\<rparr>))))"

text \<open>A step that makes a string and perhaps temporary blocks.\<close>

lemma runs_string:
  assumes "runs {#} m r val (owned Block) 0"
    and "\<And>p. r = Inr (val p) \<Longrightarrow> runs (owned Block p + P) (f p) (g (val p)) e own K"
  shows "runs P (bindM m f) (bindR r g) e own K"
  using runs_bind [OF assms(1), of P P f g e own K] assms(2) by simp

lemma runs_kept: "runs (owned Block p) (returnM p) (Inr (val p)) val (owned Block) 0"
  by (rule runs_return) simp_all

lemma runs_stored: "runs {#} (store t) (Inr t) val (owned Block) 0"
  by (cases t) (auto simp: store_def runs_def returnM_def bindM_def new_block_def acquire_def
      intro!: accountsI)

lemma runs_tr_folder: "runs {#} (get_tr_folder_mem e) (get_tr_folder e) val (owned Block) 0"
proof -
  have "runs (owned Block home + {#}) (bindM (liftM (get_tr_folder e)) (\<lambda>path. bindM (store path) (\<lambda>p.
      bindM (am_free home) (\<lambda>_. returnM p)))) (bindR (get_tr_folder e) Inr) val (owned Block) 0"
    for home :: "string ptr"
  proof (rule runs_lifted, rule runs_store)
    fix path and p :: "string ptr"
    assume "val p = path"
    then show "runs (owned Block p + (owned Block home + {#})) (bindM (am_free home) (\<lambda>_. returnM p)) (Inr path)
        val (owned Block) 0"
      using runs_kept [of p] by (intro block.runs_free [where Q = "owned Block p"]) (simp_all add: ac_simps)
  qed
  then show ?thesis unfolding get_tr_folder_mem_def by (intro runs_store) simp
qed

lemma runs_state_path: "runs {#} (state_path_mem e) (state_path e) val (owned Block) 0"
proof -
  have "runs (owned Block home + {#}) (bindM (liftM (state_path e)) (\<lambda>path. bindM (am_free home) (\<lambda>_. store path)))
      (bindR (state_path e) Inr) val (owned Block) 0" for home :: "string ptr"
    by (rule runs_lifted, rule block.runs_free [OF runs_stored]) simp
  then show ?thesis unfolding state_path_mem_def by (intro runs_store) simp
qed

lemma runs_session_init: "runs {#} (session_init_mem e) (session_init e) handle_of own_handle 0"
  unfolding session_init_mem_def session_init_def
proof (rule runs_new, rule runs_string [OF runs_tr_folder], rule runs_store, goal_cases)
  case (1 a tr tmp)
  show ?case
    by (rule runs_string [OF runs_state_path], rule runs_return)
      (simp_all add: 1 handle_of_def own_handle_def default_numbers_def ac_simps)
qed

end
