(* ===== verification/Am_Config_Memory.thy ===== *)
theory Am_Config_Memory
  imports Am_Handle_Memory Am_Config_Text
begin

text \<open>
  The configuration parser on the ledger.  It owns the buffer of the file, the suboptions of a
  value and the feed or filter it is making, and releases all of them; but a string or suboption
  that is given again overwrites the pointer to its old value, and that block is lost.  The last
  sections count these blocks for a well-formed file.
\<close>

section \<open>Paths and numbers\<close>

definition resolve_path_mem :: "env \<Rightarrow> string option \<Rightarrow> string ptr op" where
  "resolve_path_mem e path =
     (case path of
        None \<Rightarrow> returnM None
      | Some p \<Rightarrow>
          (if 2 < length p then
             (if p ! 0 = CHR ''~'' \<and> p ! 1 = CHR ''/'' then
                bindM (store (get_home_folder e)) (\<lambda>homedir.
                  case homedir of
                    Some (_, h) \<Rightarrow>
                      (if length h + length p < MAXPATHLEN
                       then bindM (am_free homedir) (\<lambda>_. store (am_strdup (Some (h @ tl p))))
                       else liftM (Inl AssertFail))
                  | None \<Rightarrow> store (am_strdup (Some p)))
              else store (am_strdup (Some p)))
           else returnM None))"

definition set_path_mem :: "env \<Rightarrow> string option \<Rightarrow> string ptr \<Rightarrow> string ptr op" where
  "set_path_mem e src dst =
     (case src of
        None \<Rightarrow> returnM dst
      | Some s \<Rightarrow>
          (if length s < MAXPATHLEN then
             bindM (resolve_path_mem e (Some s)) (\<lambda>tmp.
               case tmp of
                 None \<Rightarrow> returnM dst
               | Some (_, t) \<Rightarrow>
                   bindM (am_free dst) (\<lambda>_.
                   bindM (liftM (am_replace_str (Some t) (Some [BSL, CHR '' '']) (Some '' ''))) (\<lambda>r.
                   bindM (store r) (\<lambda>p.
                   bindM (am_free tmp) (\<lambda>_. returnM p)))))
           else returnM dst))"

definition parseUInt_mem :: "string \<Rightarrow> int op" where
  "parseUInt_mem str =
     bindM (store (trim (Some str))) (\<lambda>trimmed.
       case trimmed of
         None \<Rightarrow> liftM (Inl NullDeref)
       | Some (_, t) \<Rightarrow>
           bindM (am_free trimmed)
             (\<lambda>_. returnM (if list_all isdigit t \<and> 0 < atoi t then atoi t else - 1)))"

lemma runs_resolve_path: "runs {#} (resolve_path_mem e path) (resolve_path e path) val (owned Block) 0"
proof -
  have home: "runs {#} (bindM (store (get_home_folder e)) (\<lambda>homedir. case homedir of
        Some (_, h) \<Rightarrow> (if length h + length p < MAXPATHLEN
          then bindM (am_free homedir) (\<lambda>_. store (am_strdup (Some (h @ tl p)))) else liftM (Inl AssertFail))
      | None \<Rightarrow> store (am_strdup (Some p))))
    (case get_home_folder e of
        Some h \<Rightarrow> (if length h + length p < MAXPATHLEN then Inr (am_strdup (Some (h @ tl p))) else Inl AssertFail)
      | None \<Rightarrow> Inr (am_strdup (Some p))) val (owned Block) 0" for p
  proof (rule runs_store)
    fix q :: "string ptr"
    assume q: "val q = get_home_folder e"
    have "runs (owned Block q) (bindM (am_free q) (\<lambda>_. store t)) (Inr t) val (owned Block) 0" for t
      by (rule block.runs_free [OF runs_stored]) simp
    then show "runs (owned Block q + {#}) (case q of
        Some (_, h) \<Rightarrow> (if length h + length p < MAXPATHLEN
          then bindM (am_free q) (\<lambda>_. store (am_strdup (Some (h @ tl p)))) else liftM (Inl AssertFail))
      | None \<Rightarrow> store (am_strdup (Some p)))
    (case get_home_folder e of
        Some h \<Rightarrow> (if length h + length p < MAXPATHLEN then Inr (am_strdup (Some (h @ tl p))) else Inl AssertFail)
      | None \<Rightarrow> Inr (am_strdup (Some p))) val (owned Block) 0"
      unfolding q [symmetric] by (cases q) (auto simp: runs_stored runs_fault)
  qed
  have none: "runs {#} (returnM None) (Inr None) val (owned Block) 0" by (rule runs_return) simp_all
  show ?thesis
    using home none by (auto simp: resolve_path_mem_def resolve_path_def runs_stored split: option.split)
qed

lemma runs_set_path:
  "runs (owned Block dst) (set_path_mem e src dst) (set_path e src (val dst)) val (owned Block) 0"
proof (cases "src = None \<or> MAXPATHLEN \<le> length (the src)")
  case True
  then show ?thesis by (cases src) (auto simp: set_path_mem_def set_path_def runs_kept)
next
  case False
  let ?replace = "\<lambda>t. am_replace_str (Some t) (Some [BSL, CHR '' '']) (Some '' '')"
  have set: "runs (owned Block (Some (a, t)) + owned Block dst)
      (bindM (am_free dst) (\<lambda>_. bindM (liftM (?replace t)) (\<lambda>r. bindM (store r) (\<lambda>p.
        bindM (am_free (Some (a, t))) (\<lambda>_. returnM p))))) (bindR (?replace t) Inr) val (owned Block) 0" for a t
  proof (rule block.runs_free, rule runs_lifted, rule runs_store)
    fix r and p :: "string ptr"
    assume "val p = r"
    then show "runs (owned Block p + {#(a, Block)#}) (bindM (am_free (Some (a, t))) (\<lambda>_. returnM p)) (Inr r)
        val (owned Block) 0"
      using runs_kept [of p] by (intro block.runs_free [where Q = "owned Block p"]) simp_all
  qed simp
  have "runs (owned Block dst) (bindM (resolve_path_mem e src) (\<lambda>tmp. case tmp of
        None \<Rightarrow> returnM dst
      | Some (_, t) \<Rightarrow> bindM (am_free dst) (\<lambda>_. bindM (liftM (?replace t)) (\<lambda>r. bindM (store r) (\<lambda>p.
          bindM (am_free tmp) (\<lambda>_. returnM p))))))
    (bindR (resolve_path e src) (\<lambda>tmp. case tmp of None \<Rightarrow> Inr (val dst) | Some t \<Rightarrow> ?replace t))
    val (owned Block) 0"
  proof (rule runs_string [OF runs_resolve_path], goal_cases)
    case (1 p)
    show ?case using set by (cases p) (auto simp: runs_kept)
  qed
  with False show ?thesis by (auto simp: set_path_mem_def set_path_def)
qed

lemma runs_parseUInt: "runs {#} (parseUInt_mem str) (parseUInt str) id (\<lambda>_. {#}) 0"
  unfolding parseUInt_mem_def parseUInt_def
proof (rule runs_store, goal_cases)
  case (1 p)
  have "runs (owned Block p) (bindM (am_free p) (\<lambda>_. returnM i)) (Inr i) id (\<lambda>_. {#}) 0" for i :: int
    by (rule block.runs_free [where Q = "{#}"], rule runs_return) simp_all
  then show ?case by (cases p) (auto simp: 1 [symmetric] runs_fault)
qed

section \<open>Suboptions\<close>

record mOption =
  mo_self :: nat
  mo_option :: "nat \<times> string"
  mo_value :: "nat \<times> string"

definition option_of :: "mOption \<Rightarrow> suboption" where
  "option_of i = (snd (mo_option i), snd (mo_value i))"

definition own_option :: "mOption \<Rightarrow> objects" where
  "own_option i = {#(mo_self i, Block), (fst (mo_option i), Block), (fst (mo_value i), Block)#}"

definition freeOptionItem :: "mOption \<Rightarrow> unit op" where
  "freeOptionItem item =
     bindM (am_free (Some (mo_option item))) (\<lambda>_.
     bindM (am_free (Some (mo_value item))) (\<lambda>_. am_free (Some (mo_self item, ()))))"

interpretation one_option: resource own_option freeOptionItem
proof (intro resource.intro released)
  show "runs (own_option i) (freeOptionItem i) (Inr ()) (\<lambda>_. ()) (\<lambda>_. {#}) 0" for i
    unfolding freeOptionItem_def
    by ((rule block.runs_free)+, rule block.frees)
      (simp_all add: own_option_def owned_def split_def)
qed

interpretation option_list: resource "own_nodes own_option" "freeList_mem freeOptionItem"
  by (rule one_option.resource_nodes)

definition parseSubOption_mem :: "string \<Rightarrow> mOption option op" where
  "parseSubOption_mem line =
     (if line = [] then liftM (Inl AssertFail)
      else case strstr line ''=>'' of
             None \<Rightarrow> returnM None
           | Some i \<Rightarrow>
               (if 1 < i then
                  bindM (store (am_strndup (Some line) (i - 1))) (\<lambda>opt.
                  bindM (store (trim (Some (drop (i + 2) line)))) (\<lambda>param.
                    case (opt, param) of
                      (Some p, Some q) \<Rightarrow>
                        bindM new_block (\<lambda>a. returnM (Some \<lparr>mo_self = a, mo_option = p, mo_value = q\<rparr>))
                    | _ \<Rightarrow> bindM (am_free opt) (\<lambda>_. bindM (am_free param) (\<lambda>_. returnM None))))
                else returnM None))"

definition own_maybe :: "mOption option \<Rightarrow> objects" where
  "own_maybe i = (case i of None \<Rightarrow> {#} | Some i \<Rightarrow> own_option i)"

lemma runs_parseSubOption:
  "runs {#} (parseSubOption_mem line) (parseSubOption line) (map_option option_of) own_maybe 0"
proof -
  have none: "runs {#} (returnM None) (Inr None) (map_option option_of) own_maybe 0"
    by (rule runs_return) (simp_all add: own_maybe_def)
  have pair: "runs (owned Block param + (owned Block opt + {#})) (case (opt, param) of
        (Some p, Some q) \<Rightarrow>
          bindM new_block (\<lambda>a. returnM (Some \<lparr>mo_self = a, mo_option = p, mo_value = q\<rparr>))
      | _ \<Rightarrow> bindM (am_free opt) (\<lambda>_. bindM (am_free param) (\<lambda>_. returnM None)))
    (Inr (case (u, v) of (Some opt, Some param) \<Rightarrow> Some (opt, param) | _ \<Rightarrow> None))
    (map_option option_of) own_maybe 0" if "val opt = u" "val param = v" for opt param u v
  proof (cases "opt = None \<or> param = None")
    case True
    have "runs (owned Block param + owned Block opt)
        (bindM (am_free opt) (\<lambda>_. bindM (am_free param) (\<lambda>_. returnM None))) (Inr None)
        (map_option option_of) own_maybe 0"
      by (rule block.runs_free [OF block.runs_free [OF none]]) (simp_all add: ac_simps)
    with True that show ?thesis by (cases opt; cases param) auto
  next
    case False
    then obtain a s b t where "opt = Some (a, s)" "param = Some (b, t)" by (cases opt; cases param) auto
    with that show ?thesis
      by (auto intro!: runs_new [OF runs_return] simp: option_of_def own_maybe_def own_option_def owned_def
          split: prod.split)
  qed
  have made: "runs {#} (bindM (store u) (\<lambda>opt. bindM (store v) (\<lambda>param. case (opt, param) of
        (Some p, Some q) \<Rightarrow>
          bindM new_block (\<lambda>a. returnM (Some \<lparr>mo_self = a, mo_option = p, mo_value = q\<rparr>))
      | _ \<Rightarrow> bindM (am_free opt) (\<lambda>_. bindM (am_free param) (\<lambda>_. returnM None)))))
    (Inr (case (u, v) of (Some opt, Some param) \<Rightarrow> Some (opt, param) | _ \<Rightarrow> None))
    (map_option option_of) own_maybe 0" for u v
    by (rule runs_store, rule runs_store) (use pair in blast)
  show ?thesis
  proof (cases "line \<noteq> [] \<and> (\<exists>i. strstr line ''=>'' = Some i \<and> 1 < i)")
    case True
    then obtain i where "strstr line ''=>'' = Some i" "1 < i" by blast
    with True made show ?thesis by (simp only: parseSubOption_mem_def parseSubOption_def option.case if_False if_True)
  next
    case False
    with none show ?thesis
      by (cases "strstr line ''=>''") (auto simp: parseSubOption_mem_def parseSubOption_def runs_fault)
  qed
qed

lemma bindM_cong [fundef_cong]:
  assumes "m = m'" "\<And>x L L'. m' L = Inr (x, L') \<Longrightarrow> f x = g x"
  shows "bindM m f = bindM m' g"
  using assms by (auto simp: bindM_def fun_eq_iff intro!: bindR_cong split: prod.split)

lemma liftM_Inr: "liftM v L = Inr (x, L') \<Longrightarrow> v = Inr x"
  by (cases v) (auto simp: liftM_def)

text \<open>A turn of the outer loop of \<open>parseMultiOption\<close> consumes text.\<close>

lemma collect_progress:
  assumes "rest \<noteq> []" "collect NUL (dropWhile isspace rest) [] None = Inr (Some (tmp, rest'))"
  shows "length rest' < length rest"
proof (cases "dropWhile isspace rest")
  case Nil
  with assms show ?thesis by (auto simp: collect.simps(1) bindR_Inr_iff)
next
  case (Cons d s)
  then have "\<not> isspace d" using hd_dropWhile [of isspace rest] by simp
  then have "d \<noteq> NL" by (auto simp: isspace_def code_def NL_def)
  with assms(2) Cons collect_shorter [of NUL d s "[]" None tmp rest'] have "length rest' < length (d # s)" by simp
  then show ?thesis using length_dropWhile_le [of isspace rest] Cons by simp
qed

definition add_option :: "mOption option \<Rightarrow> mOption nodes \<Rightarrow> mOption nodes op" where
  "add_option i options = (case i of None \<Rightarrow> returnM options | Some i \<Rightarrow> addItem_mem i options)"

function multi_loop_mem :: "string \<Rightarrow> mOption nodes \<Rightarrow> mOption nodes op" where
  "multi_loop_mem rest options =
     (if rest = [] then returnM options
      else bindM (liftM (collect NUL (dropWhile isspace rest) [] None)) (\<lambda>x.
        case x of
          None \<Rightarrow> returnM options
        | Some (tmp, rest') \<Rightarrow>
            bindM (if tmp \<noteq> [] then parseSubOption_mem (cstr tmp) else returnM None) (\<lambda>i.
            bindM (add_option i options) (multi_loop_mem rest'))))"
  by pat_completeness auto
termination
  by (relation "measure (\<lambda>(r, opts). length r)") (auto dest!: liftM_Inr collect_progress)

declare multi_loop_mem.simps [simp del]

definition options_of :: "mOption nodes \<Rightarrow> suboption list" where
  "options_of ns = map (\<lambda>n. option_of (snd n)) ns"

lemma options_of_simps [simp]:
  "options_of [] = []" "options_of (n # ns) = option_of (snd n) # options_of ns"
  by (simp_all add: options_of_def)

lemma runs_multi_loop:
  "runs (own_nodes own_option options) (multi_loop_mem rest options)
     (multi_loop rest (options_of options)) options_of (own_nodes own_option) 0"
proof (induction "length rest" arbitrary: rest options rule: less_induct)
  case less
  have stay: "runs (own_nodes own_option os) (returnM os) (Inr (options_of os)) options_of (own_nodes own_option) 0"
    for os by (rule runs_return) simp_all
  show ?case
  proof (cases "rest = []")
    case True
    with stay show ?thesis by (simp add: multi_loop_mem.simps [of "[]"] multi_loop.simps [of "[]"])
  next
    case False
    have turn: "runs (own_nodes own_option options)
        (bindM (if tmp \<noteq> [] then parseSubOption_mem (cstr tmp) else returnM None) (\<lambda>i.
          bindM (add_option i options) (multi_loop_mem rest')))
        (bindR (if tmp \<noteq> [] then parseSubOption (cstr tmp) else Inr None) (\<lambda>i.
          multi_loop rest' (case i of None \<Rightarrow> options_of options | Some i \<Rightarrow> i # options_of options)))
        options_of (own_nodes own_option) (0 + 0)" if "length rest' < length rest" for tmp rest'
    proof (rule runs_bind [where P = "{#}" and Q = "own_nodes own_option options"])
      show "runs {#} (if tmp \<noteq> [] then parseSubOption_mem (cstr tmp) else returnM None)
          (if tmp \<noteq> [] then parseSubOption (cstr tmp) else Inr None) (map_option option_of) own_maybe 0"
        using runs_parseSubOption by (auto simp: own_maybe_def intro: runs_return)
    next
      fix i
      have "runs (own_maybe i + own_nodes own_option options)
          (bindM (add_option i options) (multi_loop_mem rest'))
          (bindR (Inr (options_of options)) (\<lambda>os. multi_loop rest' (case map_option option_of i of None \<Rightarrow> os
            | Some i \<Rightarrow> i # os))) options_of (own_nodes own_option) 0"
      proof (cases i)
        case None
        then show ?thesis using less [OF that, of options] by (simp add: add_option_def own_maybe_def)
      next
        case (Some o')
        have "runs ({#(a, Block)#} + (own_option o' + own_nodes own_option options))
            (multi_loop_mem rest' ((a, o') # options))
            (multi_loop rest' (option_of o' # options_of options)) options_of (own_nodes own_option) 0" for a
          using less [OF that, of "(a, o') # options"] by (simp add: ac_simps)
        then show ?thesis
          unfolding Some add_option_def option.case addItem_mem_def bindM_assoc returnM_bind
          by (simp add: own_maybe_def runs_new)
      qed
      then show "runs (own_maybe i + own_nodes own_option options)
          (bindM (add_option i options) (multi_loop_mem rest'))
          (multi_loop rest' (case map_option option_of i of None \<Rightarrow> options_of options
            | Some i \<Rightarrow> i # options_of options)) options_of (own_nodes own_option) 0" by simp
    qed simp
    show ?thesis
      unfolding multi_loop_mem.simps [of rest] multi_loop.simps [of rest] if_not_P [OF False]
      by (rule runs_lifted)
        (use turn stay collect_progress [OF False] in \<open>auto split: option.split\<close>)
  qed
qed

section \<open>Filters\<close>

text \<open>How many blocks a step loses is a function of plain values.\<close>

abbreviation blocks :: "nat \<Rightarrow> kind multiset" where
  "blocks n \<equiv> replicate_mset n Block"

definition overwritten :: "string option \<Rightarrow> nat" where
  "overwritten old = (if old = None then 0 else 1)"

lemma lost_overwritten: "lost (blocks (overwritten (val p))) (owned Block p)"
  by (cases p) (auto simp: overwritten_def lost_def owned_def)

lemma blocks_add: "blocks m + blocks n = blocks (m + n)"
  by (induction m) simp_all

text \<open>A pointer to a string is overwritten.\<close>

lemma runs_overwrite:
  assumes "\<And>p. val p = t \<Longrightarrow> e (x p) = b \<and> own (x p) = owned Block p + Q" "P = owned Block old + Q"
  shows "runs P (bindM (store t) (\<lambda>p. returnM (x p))) (Inr b) e own (blocks (overwritten (val old)))"
proof (rule runs_store)
  fix p
  assume "val p = t"
  then have "runs (owned Block p + Q) (returnM (x p)) (Inr b) e own 0" using assms(1) by (intro runs_return) auto
  from runs_forget [OF this lost_overwritten [of old]] assms(2)
  show "runs (owned Block p + P) (returnM (x p)) (Inr b) e own (blocks (overwritten (val old)))"
    by (simp add: ac_simps)
qed

definition filter_option_mem :: "env \<Rightarrow> mOption \<Rightarrow> mFilter \<Rightarrow> mFilter op" where
  "filter_option_mem e i f =
     (let (opt, value) = option_of i
      in if strncmp_eq 7 opt ''pattern'' then
           bindM (store (trim (Some value))) (\<lambda>p. returnM (f\<lparr>mt_pattern := p\<rparr>))
         else if strncmp_eq 6 opt ''folder'' then
           bindM (store (trim (Some value))) (\<lambda>tmpStr.
           bindM (set_path_mem e (val tmpStr) (mt_folder f)) (\<lambda>p.
           bindM (am_free tmpStr) (\<lambda>_. returnM (f\<lparr>mt_folder := p\<rparr>))))
         else if strncmp_eq 6 opt ''feedid'' then
           bindM (store (trim (Some value))) (\<lambda>p. returnM (f\<lparr>mt_feedID := p\<rparr>))
         else returnM f)"

definition filter_loss :: "suboption \<Rightarrow> am_filter \<Rightarrow> nat" where
  "filter_loss i f =
     (if strncmp_eq 7 (fst i) ''pattern'' then overwritten (f_pattern f)
      else if strncmp_eq 6 (fst i) ''folder'' then 0
      else if strncmp_eq 6 (fst i) ''feedid'' then overwritten (f_feedID f)
      else 0)"

fun filter_options_mem :: "env \<Rightarrow> mOption nodes \<Rightarrow> mFilter \<Rightarrow> mFilter op" where
  "filter_options_mem e [] f = returnM f"
| "filter_options_mem e (i # is) f = bindM (filter_option_mem e (snd i) f) (filter_options_mem e is)"

fun filter_losses :: "env \<Rightarrow> suboption list \<Rightarrow> am_filter \<Rightarrow> nat" where
  "filter_losses e [] f = 0"
| "filter_losses e (i # is) f =
     filter_loss i f + (case filter_option e i f of Inl _ \<Rightarrow> 0 | Inr f' \<Rightarrow> filter_losses e is f')"

lemma runs_filter_option:
  "runs (own_filter f) (filter_option_mem e i f) (filter_option e (option_of i) (filter_of f))
     filter_of own_filter (blocks (filter_loss (option_of i) (filter_of f)))"
proof -
  obtain opt v where i: "option_of i = (opt, v)" by force
  note defs = filter_of_def own_filter_def ac_simps
  have pattern: "runs (own_filter f) (bindM (store t) (\<lambda>p. returnM (f\<lparr>mt_pattern := p\<rparr>)))
      (Inr ((filter_of f)\<lparr>f_pattern := t\<rparr>)) filter_of own_filter (blocks (overwritten (f_pattern (filter_of f))))" for t
    using runs_overwrite [where old = "mt_pattern f" and P = "own_filter f" and t = t and e = filter_of and
      own = own_filter and x = "\<lambda>p. f\<lparr>mt_pattern := p\<rparr>" and b = "(filter_of f)\<lparr>f_pattern := t\<rparr>" and
      Q = "{#(mt_self f, Block)#} + owned Block (mt_folder f) + owned Block (mt_feedID f)"]
    by (simp add: defs)
  have feedid: "runs (own_filter f) (bindM (store t) (\<lambda>p. returnM (f\<lparr>mt_feedID := p\<rparr>)))
      (Inr ((filter_of f)\<lparr>f_feedID := t\<rparr>)) filter_of own_filter (blocks (overwritten (f_feedID (filter_of f))))" for t
    using runs_overwrite [where old = "mt_feedID f" and P = "own_filter f" and t = t and e = filter_of and
      own = own_filter and x = "\<lambda>p. f\<lparr>mt_feedID := p\<rparr>" and b = "(filter_of f)\<lparr>f_feedID := t\<rparr>" and
      Q = "{#(mt_self f, Block)#} + owned Block (mt_folder f) + owned Block (mt_pattern f)"]
    by (simp add: defs)
  have folder: "runs (own_filter f) (bindM (store t) (\<lambda>s. bindM (set_path_mem e (val s) (mt_folder f)) (\<lambda>p.
        bindM (am_free s) (\<lambda>_. returnM (f\<lparr>mt_folder := p\<rparr>)))))
      (bindR (set_path e t (f_folder (filter_of f))) (\<lambda>p. Inr ((filter_of f)\<lparr>f_folder := p\<rparr>))) filter_of own_filter
      0" for t
  proof (rule runs_store)
    fix s :: "string ptr"
    assume s: "val s = t"
    let ?Q = "owned Block s + {#(mt_self f, Block)#} + owned Block (mt_pattern f) + owned Block (mt_feedID f)"
    have "runs (owned Block s + own_filter f) (bindM (set_path_mem e (val s) (mt_folder f)) (\<lambda>p.
          bindM (am_free s) (\<lambda>_. returnM (f\<lparr>mt_folder := p\<rparr>))))
        (bindR (set_path e (val s) (val (mt_folder f))) (\<lambda>p. Inr ((filter_of f)\<lparr>f_folder := p\<rparr>)))
        filter_of own_filter (0 + 0)"
    proof (rule runs_bind [OF runs_set_path, where Q = ?Q], goal_cases)
      case (2 p)
      show ?case by (rule block.runs_free [OF runs_return]) (simp_all add: defs)
    qed (simp add: defs)
    then show "runs (owned Block s + own_filter f) (bindM (set_path_mem e (val s) (mt_folder f)) (\<lambda>p.
          bindM (am_free s) (\<lambda>_. returnM (f\<lparr>mt_folder := p\<rparr>))))
        (bindR (set_path e t (f_folder (filter_of f))) (\<lambda>p. Inr ((filter_of f)\<lparr>f_folder := p\<rparr>)))
        filter_of own_filter 0" by (simp add: s filter_of_def)
  qed
  have stay: "runs (own_filter f) (returnM f) (Inr (filter_of f)) filter_of own_filter 0"
    by (rule runs_return) simp_all
  show ?thesis
    using pattern feedid folder stay
    by (simp add: i filter_option_mem_def filter_option_def filter_loss_def)
qed

lemma runs_filter_options:
  "runs (own_filter f) (filter_options_mem e is f) (filter_options e (options_of is) (filter_of f))
     filter_of own_filter (blocks (filter_losses e (options_of is) (filter_of f)))"
proof (induction "is" arbitrary: f)
  case Nil
  show ?case by (auto intro: runs_return)
next
  case (Cons i "is")
  let ?o = "option_of (snd i)"
  let ?rest = "case filter_option e ?o (filter_of f) of Inl _ \<Rightarrow> 0 | Inr f' \<Rightarrow> filter_losses e (options_of is) f'"
  have "runs (own_filter f) (bindM (filter_option_mem e (snd i) f) (filter_options_mem e is))
      (bindR (filter_option e ?o (filter_of f)) (filter_options e (options_of is))) filter_of own_filter
      (blocks ?rest + blocks (filter_loss ?o (filter_of f)))"
    by (rule runs_bind [OF runs_filter_option, where Q = "{#}"]) (use Cons.IH in auto)
  then show ?case by (simp add: blocks_add ac_simps)
qed

definition parseMultiOption_mem :: "string \<Rightarrow> mOption nodes op" where
  "parseMultiOption_mem str = multi_loop_mem str []"

lemma runs_parseMultiOption:
  "runs {#} (parseMultiOption_mem str) (parseMultiOption str) options_of (own_nodes own_option) 0"
  using runs_multi_loop [of "[]" str] by (simp add: parseMultiOption_mem_def parseMultiOption_def)

text \<open>The suboptions are freed at the end, whatever was made of them.\<close>

definition with_options :: "mOption nodes \<Rightarrow> 'a op \<Rightarrow> 'a op" where
  "with_options option_list m =
     bindM m (\<lambda>r. bindM (freeList_mem freeOptionItem option_list) (\<lambda>_. returnM r))"

lemma runs_with_options:
  assumes "runs P m v e own K"
  shows "runs (own_nodes own_option opts + P) (with_options opts m) v e own K"
proof -
  have "runs (own_nodes own_option opts + P) (with_options opts m) (bindR v Inr) e own (0 + K)"
    unfolding with_options_def
  proof (rule runs_bind [OF assms, where Q = "own_nodes own_option opts"], goal_cases)
    case (2 r)
    show ?case by (rule option_list.runs_free [OF runs_return]) (simp_all add: ac_simps)
  qed (simp add: ac_simps)
  then show ?thesis by simp
qed

definition keep_filter_mem :: "mFilter nodes \<Rightarrow> mFilter \<Rightarrow> (int \<times> mFilter nodes) op" where
  "keep_filter_mem head f =
     (if mt_pattern f \<noteq> None then bindM (addItem_mem f head) (\<lambda>fs. returnM (SUCCESS, fs))
      else bindM (filter_free_mem f) (\<lambda>_. returnM (FAILURE, head)))"

definition parseFilter_mem :: "env \<Rightarrow> mFilter nodes \<Rightarrow> string \<Rightarrow> (int \<times> mFilter nodes) op" where
  "parseFilter_mem e head filter_str =
     bindM (parseMultiOption_mem filter_str) (\<lambda>opts.
       if opts = [] then returnM (FAILURE, head)
       else with_options opts
              (bindM filter_new_mem (\<lambda>f. bindM (filter_options_mem e opts f) (keep_filter_mem head))))"

definition filters_of :: "mFilter nodes \<Rightarrow> am_filter list" where
  "filters_of ns = map (\<lambda>n. filter_of (snd n)) ns"

definition parsed_filters :: "int \<times> mFilter nodes \<Rightarrow> int \<times> am_filter list" where
  "parsed_filters y = (fst y, filters_of (snd y))"

definition own_filters :: "int \<times> mFilter nodes \<Rightarrow> objects" where
  "own_filters y = own_nodes own_filter (snd y)"

definition parseFilter_loss :: "env \<Rightarrow> string \<Rightarrow> nat" where
  "parseFilter_loss e str =
     (case parseMultiOption str of Inl _ \<Rightarrow> 0 | Inr opts \<Rightarrow> filter_losses e opts filter_new)"

lemma runs_keep_filter:
  "runs (own_filter f + own_nodes own_filter fs) (keep_filter_mem fs f)
     (if f_pattern (filter_of f) \<noteq> None then Inr (SUCCESS, filter_of f # filters_of fs)
      else Inr (FAILURE, filters_of fs)) parsed_filters own_filters 0"
proof (cases "mt_pattern f = None")
  case True
  have "runs (own_filter f + own_nodes own_filter fs) (bindM (filter_free_mem f) (\<lambda>_. returnM (FAILURE, fs)))
      (Inr (FAILURE, filters_of fs)) parsed_filters own_filters 0"
    by (rule one_filter.runs_free [OF runs_return refl]) (simp_all add: parsed_filters_def own_filters_def)
  with True show ?thesis by (simp add: filter_of_def keep_filter_mem_def)
next
  case False
  have "runs (own_filter f + own_nodes own_filter fs) (bindM (addItem_mem f fs) (\<lambda>fs. returnM (SUCCESS, fs)))
      (Inr (SUCCESS, filter_of f # filters_of fs)) parsed_filters own_filters 0"
    unfolding addItem_mem_def bindM_assoc returnM_bind
    by (rule runs_new, rule runs_return)
      (simp_all add: parsed_filters_def own_filters_def filters_of_def ac_simps)
  with False show ?thesis by (simp add: filter_of_def keep_filter_mem_def)
qed

lemma runs_filter_new:
  assumes "\<And>f. filter_of f = filter_new \<Longrightarrow> runs (own_filter f + P) (g f) v e own K"
  shows "runs P (bindM filter_new_mem g) v e own K"
proof -
  let ?f = "\<lambda>a. \<lparr>mt_self = a, mt_pattern = None, mt_folder = None, mt_feedID = None\<rparr>"
  have "runs ({#(a, Block)#} + P) (g (?f a)) v e own K" for a
    using assms [of "?f a"] by (simp add: filter_of_def own_filter_def filter_new_def)
  then show ?thesis unfolding filter_new_mem_def bindM_assoc returnM_bind by (rule runs_new)
qed

lemma runs_parseFilter:
  "runs (own_nodes own_filter fs) (parseFilter_mem e fs str) (parseFilter e (filters_of fs) str)
     parsed_filters own_filters (blocks (parseFilter_loss e str))"
proof -
  let ?keep = "\<lambda>f. if f_pattern f \<noteq> None then Inr (SUCCESS, f # filters_of fs) else Inr (FAILURE, filters_of fs)"
  have fill: "runs (own_nodes own_filter fs)
      (bindM filter_new_mem (\<lambda>f. bindM (filter_options_mem e opts f) (keep_filter_mem fs)))
      (bindR (filter_options e (options_of opts) filter_new) ?keep) parsed_filters own_filters
      (0 + blocks (filter_losses e (options_of opts) filter_new))" for opts
  proof (rule runs_filter_new, goal_cases)
    case (1 f)
    show ?case unfolding 1 [symmetric] by (rule runs_bind [OF runs_filter_options refl runs_keep_filter])
  qed
  have "runs (own_nodes own_filter fs) (parseFilter_mem e fs str) (bindR (parseMultiOption str) (\<lambda>opts.
      if opts = [] then Inr (FAILURE, filters_of fs) else bindR (filter_options e opts filter_new) ?keep))
    parsed_filters own_filters (blocks (parseFilter_loss e str) + 0)"
    unfolding parseFilter_mem_def
  proof (rule runs_bind [OF runs_parseMultiOption, where Q = "own_nodes own_filter fs"], goal_cases)
    case (2 opts)
    show ?case
    proof (cases "opts = []")
      case True
      with 2 show ?thesis
        by (auto simp: parseFilter_loss_def parsed_filters_def own_filters_def intro: runs_return)
    next
      case False
      then have "options_of opts \<noteq> []" by (cases opts) simp_all
      with runs_with_options [OF fill, of opts opts] 2 False show ?thesis by (simp add: parseFilter_loss_def)
    qed
  qed simp
  then show ?thesis by (simp add: parseFilter_def filter_add_def cong: if_cong)
qed

section \<open>Feeds\<close>

definition feed_option_mem :: "mOption \<Rightarrow> mFeed \<Rightarrow> mFeed op" where
  "feed_option_mem i f =
     (let (opt, value) = option_of i; v = trim (Some value)
      in if strncmp_eq 11 opt ''url_pattern'' then bindM (store v) (\<lambda>p. returnM (f\<lparr>mf_pattern := p\<rparr>))
         else if strncmp_eq 11 opt ''url_replace'' then bindM (store v) (\<lambda>p. returnM (f\<lparr>mf_replace := p\<rparr>))
         else if strncmp_eq 3 opt ''url'' then bindM (store v) (\<lambda>p. returnM (f\<lparr>mf_url := p\<rparr>))
         else if strncmp_eq 6 opt ''cookies'' then bindM (store v) (\<lambda>p. returnM (f\<lparr>mf_cookies := p\<rparr>))
         else if strncmp_eq 2 opt ''id'' then bindM (store v) (\<lambda>p. returnM (f\<lparr>mf_id := p\<rparr>))
         else returnM f)"

definition feed_loss :: "suboption \<Rightarrow> rss_feed \<Rightarrow> nat" where
  "feed_loss i f =
     (if strncmp_eq 11 (fst i) ''url_pattern'' then overwritten (feed_url_pattern f)
      else if strncmp_eq 11 (fst i) ''url_replace'' then overwritten (feed_url_replace f)
      else if strncmp_eq 3 (fst i) ''url'' then overwritten (feed_url f)
      else if strncmp_eq 6 (fst i) ''cookies'' then overwritten (feed_cookies f)
      else if strncmp_eq 2 (fst i) ''id'' then overwritten (feed_id f)
      else 0)"

fun feed_options_mem :: "mOption nodes \<Rightarrow> mFeed \<Rightarrow> mFeed op" where
  "feed_options_mem [] f = returnM f"
| "feed_options_mem (i # is) f = bindM (feed_option_mem (snd i) f) (feed_options_mem is)"

fun feed_losses :: "suboption list \<Rightarrow> rss_feed \<Rightarrow> nat" where
  "feed_losses [] f = 0"
| "feed_losses (i # is) f = feed_loss i f + feed_losses is (feed_option i f)"

lemma runs_feed_option:
  "runs (own_feed f) (feed_option_mem i f) (Inr (feed_option (option_of i) (feed_of f)))
     feed_of own_feed (blocks (feed_loss (option_of i) (feed_of f)))"
proof -
  obtain opt v where i: "option_of i = (opt, v)" by force
  let ?self = "{#(mf_self f, Block)#}" and ?u = "owned Block (mf_url f)" and ?c = "owned Block (mf_cookies f)"
    and ?i = "owned Block (mf_id f)" and ?p = "owned Block (mf_pattern f)" and ?r = "owned Block (mf_replace f)"
  note set = runs_overwrite [where P = "own_feed f" and e = feed_of and own = own_feed]
  note defs = feed_of_def own_feed_def ac_simps
  have "runs (own_feed f) (bindM (store t) (\<lambda>p. returnM (f\<lparr>mf_pattern := p\<rparr>)))
      (Inr ((feed_of f)\<lparr>feed_url_pattern := t\<rparr>)) feed_of own_feed (blocks (overwritten (feed_url_pattern (feed_of f))))" for t
    using set [where old = "mf_pattern f" and t = t and x = "\<lambda>p. f\<lparr>mf_pattern := p\<rparr>" and
      b = "(feed_of f)\<lparr>feed_url_pattern := t\<rparr>" and Q = "?self + ?u + ?c + ?i + ?r"] by (simp add: defs)
  moreover have "runs (own_feed f) (bindM (store t) (\<lambda>p. returnM (f\<lparr>mf_replace := p\<rparr>)))
      (Inr ((feed_of f)\<lparr>feed_url_replace := t\<rparr>)) feed_of own_feed (blocks (overwritten (feed_url_replace (feed_of f))))" for t
    using set [where old = "mf_replace f" and t = t and x = "\<lambda>p. f\<lparr>mf_replace := p\<rparr>" and
      b = "(feed_of f)\<lparr>feed_url_replace := t\<rparr>" and Q = "?self + ?u + ?c + ?i + ?p"] by (simp add: defs)
  moreover have "runs (own_feed f) (bindM (store t) (\<lambda>p. returnM (f\<lparr>mf_url := p\<rparr>)))
      (Inr ((feed_of f)\<lparr>feed_url := t\<rparr>)) feed_of own_feed (blocks (overwritten (feed_url (feed_of f))))" for t
    using set [where old = "mf_url f" and t = t and x = "\<lambda>p. f\<lparr>mf_url := p\<rparr>" and
      b = "(feed_of f)\<lparr>feed_url := t\<rparr>" and Q = "?self + ?c + ?i + ?p + ?r"] by (simp add: defs)
  moreover have "runs (own_feed f) (bindM (store t) (\<lambda>p. returnM (f\<lparr>mf_cookies := p\<rparr>)))
      (Inr ((feed_of f)\<lparr>feed_cookies := t\<rparr>)) feed_of own_feed (blocks (overwritten (feed_cookies (feed_of f))))" for t
    using set [where old = "mf_cookies f" and t = t and x = "\<lambda>p. f\<lparr>mf_cookies := p\<rparr>" and
      b = "(feed_of f)\<lparr>feed_cookies := t\<rparr>" and Q = "?self + ?u + ?i + ?p + ?r"] by (simp add: defs)
  moreover have "runs (own_feed f) (bindM (store t) (\<lambda>p. returnM (f\<lparr>mf_id := p\<rparr>)))
      (Inr ((feed_of f)\<lparr>feed_id := t\<rparr>)) feed_of own_feed (blocks (overwritten (feed_id (feed_of f))))" for t
    using set [where old = "mf_id f" and t = t and x = "\<lambda>p. f\<lparr>mf_id := p\<rparr>" and
      b = "(feed_of f)\<lparr>feed_id := t\<rparr>" and Q = "?self + ?u + ?c + ?p + ?r"] by (simp add: defs)
  moreover have "runs (own_feed f) (returnM f) (Inr (feed_of f)) feed_of own_feed 0"
    by (rule runs_return) simp_all
  ultimately show ?thesis
    by (simp add: i feed_option_mem_def feed_option_def feed_loss_def Let_def)
qed

lemma runs_feed_options:
  "runs (own_feed f) (feed_options_mem is f) (Inr (fold feed_option (options_of is) (feed_of f)))
     feed_of own_feed (blocks (feed_losses (options_of is) (feed_of f)))"
proof (induction "is" arbitrary: f)
  case Nil
  show ?case by (auto intro: runs_return)
next
  case (Cons i "is")
  let ?o = "option_of (snd i)"
  have "runs (own_feed f) (bindM (feed_option_mem (snd i) f) (feed_options_mem is))
      (bindR (Inr (feed_option ?o (feed_of f))) (\<lambda>g. Inr (fold feed_option (options_of is) g))) feed_of own_feed
      (blocks (feed_losses (options_of is) (feed_option ?o (feed_of f))) + blocks (feed_loss ?o (feed_of f)))"
  proof (rule runs_bind [OF runs_feed_option, where Q = "{#}"], goal_cases)
    case (2 g)
    then show ?case using Cons.IH [of g] by simp
  qed simp
  then show ?case by (simp add: blocks_add ac_simps)
qed

definition parseCookiesFromURL_mem :: "pcre \<Rightarrow> mFeed \<Rightarrow> mFeed op" where
  "parseCookiesFromURL_mem re feed =
     (case mf_url feed of
        None \<Rightarrow> liftM (Inl AssertFail)
      | Some (_, u) \<Rightarrow>
          (if u = [] then liftM (Inl AssertFail)
           else bindM (getRegExMatch_mem re (Some '':COOKIE:(.+)'') (Some u) 1)
                  (\<lambda>c. returnM (feed\<lparr>mf_cookies := c\<rparr>))))"

definition keep_feed_mem :: "pcre \<Rightarrow> mFeed nodes \<Rightarrow> mFeed \<Rightarrow> (int \<times> mFeed nodes) op" where
  "keep_feed_mem re head f =
     (if mf_url f \<noteq> None then
        bindM (if mf_cookies f = None then parseCookiesFromURL_mem re f else returnM f) (\<lambda>f.
        bindM (addItem_mem f head) (\<lambda>fs. returnM (SUCCESS, fs)))
      else bindM (feed_free_mem f) (\<lambda>_. returnM (FAILURE, head)))"

definition parseFeed_mem :: "pcre \<Rightarrow> mFeed nodes \<Rightarrow> string \<Rightarrow> (int \<times> mFeed nodes) op" where
  "parseFeed_mem re head feedstr =
     bindM (parseMultiOption_mem feedstr) (\<lambda>opts.
       if opts = [] then returnM (FAILURE, head)
       else with_options opts
              (bindM feed_new_mem (\<lambda>f. bindM (feed_options_mem opts f) (keep_feed_mem re head))))"

definition feeds_of :: "mFeed nodes \<Rightarrow> rss_feed list" where
  "feeds_of ns = map (\<lambda>n. feed_of (snd n)) ns"

definition parsed_feeds :: "int \<times> mFeed nodes \<Rightarrow> int \<times> rss_feed list" where
  "parsed_feeds y = (fst y, feeds_of (snd y))"

definition own_feeds :: "int \<times> mFeed nodes \<Rightarrow> objects" where
  "own_feeds y = own_nodes own_feed (snd y)"

definition parseFeed_loss :: "string \<Rightarrow> nat" where
  "parseFeed_loss str =
     (case parseMultiOption str of Inl _ \<Rightarrow> 0 | Inr opts \<Rightarrow> feed_losses opts feed_new)"

lemma runs_cookies:
  assumes "mf_cookies f = None"
  shows "runs (own_feed f) (parseCookiesFromURL_mem re f) (parseCookiesFromURL re (feed_of f)) feed_of own_feed 0"
proof -
  have "runs (own_feed f) (bindM (getRegExMatch_mem re (Some '':COOKIE:(.+)'') (Some u) 1)
        (\<lambda>c. returnM (f\<lparr>mf_cookies := c\<rparr>)))
      (bindR (getRegExMatch re (Some '':COOKIE:(.+)'') (Some u) 1) (\<lambda>c. Inr ((feed_of f)\<lparr>feed_cookies := c\<rparr>)))
      feed_of own_feed 0" for u
    by (rule runs_regex, rule runs_return) (simp_all add: feed_of_def own_feed_def assms ac_simps)
  then show ?thesis
    by (cases "mf_url f")
      (auto simp: parseCookiesFromURL_mem_def parseCookiesFromURL_def feed_of_def runs_fault)
qed

lemma runs_keep_feed:
  "runs (own_feed f + own_nodes own_feed fs) (keep_feed_mem re fs f)
     (if feed_url (feed_of f) = None then Inr (FAILURE, feeds_of fs)
      else bindR (if feed_cookies (feed_of f) = None then parseCookiesFromURL re (feed_of f) else Inr (feed_of f))
             (\<lambda>f. Inr (SUCCESS, f # feeds_of fs))) parsed_feeds own_feeds 0"
proof (cases "mf_url f = None")
  case True
  have "runs (own_feed f + own_nodes own_feed fs) (bindM (feed_free_mem f) (\<lambda>_. returnM (FAILURE, fs)))
      (Inr (FAILURE, feeds_of fs)) parsed_feeds own_feeds 0"
    by (rule one_feed.runs_free [OF runs_return refl]) (simp_all add: parsed_feeds_def own_feeds_def)
  with True show ?thesis by (simp add: feed_of_def keep_feed_mem_def)
next
  case False
  have c: "feed_cookies (feed_of f) = None \<longleftrightarrow> mf_cookies f = None"
    "feed_url (feed_of f) \<noteq> None" using False by (simp_all add: feed_of_def)
  have "runs (own_feed f) (if mf_cookies f = None then parseCookiesFromURL_mem re f else returnM f)
      (if mf_cookies f = None then parseCookiesFromURL re (feed_of f) else Inr (feed_of f)) feed_of own_feed 0"
    using runs_cookies by (auto intro: runs_return)
  then have "runs (own_feed f + own_nodes own_feed fs)
      (bindM (if mf_cookies f = None then parseCookiesFromURL_mem re f else returnM f) (\<lambda>f.
        bindM (addItem_mem f fs) (\<lambda>fs. returnM (SUCCESS, fs))))
      (bindR (if mf_cookies f = None then parseCookiesFromURL re (feed_of f) else Inr (feed_of f))
        (\<lambda>f. Inr (SUCCESS, f # feeds_of fs))) parsed_feeds own_feeds (0 + 0)"
  proof (rule runs_bind [OF _ refl], goal_cases)
    case (1 g)
    show ?case
      unfolding addItem_mem_def bindM_assoc returnM_bind
      by (rule runs_new, rule runs_return)
        (simp_all add: parsed_feeds_def own_feeds_def feeds_of_def ac_simps)
  qed
  with False show ?thesis by (simp add: c keep_feed_mem_def)
qed

lemma runs_feed_new:
  assumes "\<And>f. feed_of f = feed_new \<Longrightarrow> runs (own_feed f + P) (g f) v e own K"
  shows "runs P (bindM feed_new_mem g) v e own K"
proof -
  let ?f = "\<lambda>a. \<lparr>mf_self = a, mf_url = None, mf_cookies = None, mf_id = None, mf_pattern = None,
    mf_replace = None, mf_ttl = wrap_u 32 (- 1)\<rparr>"
  have "runs ({#(a, Block)#} + P) (g (?f a)) v e own K" for a
    using assms [of "?f a"] by (simp add: feed_of_def own_feed_def feed_new_def)
  then show ?thesis unfolding feed_new_mem_def bindM_assoc returnM_bind by (rule runs_new)
qed

lemma runs_parseFeed:
  "runs (own_nodes own_feed fs) (parseFeed_mem re fs str) (parseFeed re (feeds_of fs) str)
     parsed_feeds own_feeds (blocks (parseFeed_loss str))"
proof -
  let ?keep = "\<lambda>f. if feed_url f = None then Inr (FAILURE, feeds_of fs)
      else bindR (if feed_cookies f = None then parseCookiesFromURL re f else Inr f)
             (\<lambda>f. Inr (SUCCESS, f # feeds_of fs))"
  have fill: "runs (own_nodes own_feed fs)
      (bindM feed_new_mem (\<lambda>f. bindM (feed_options_mem opts f) (keep_feed_mem re fs)))
      (bindR (Inr (fold feed_option (options_of opts) feed_new)) ?keep) parsed_feeds own_feeds
      (0 + blocks (feed_losses (options_of opts) feed_new))" for opts
  proof (rule runs_feed_new, goal_cases)
    case (1 f)
    show ?case unfolding 1 [symmetric] by (rule runs_bind [OF runs_feed_options refl runs_keep_feed])
  qed
  have "runs (own_nodes own_feed fs) (parseFeed_mem re fs str) (bindR (parseMultiOption str) (\<lambda>opts.
      if opts = [] then Inr (FAILURE, feeds_of fs) else ?keep (fold feed_option opts feed_new)))
    parsed_feeds own_feeds (blocks (parseFeed_loss str) + 0)"
    unfolding parseFeed_mem_def
  proof (rule runs_bind [OF runs_parseMultiOption, where Q = "own_nodes own_feed fs"], goal_cases)
    case (2 opts)
    show ?case
    proof (cases "opts = []")
      case True
      with 2 show ?thesis
        by (auto simp: parseFeed_loss_def parsed_feeds_def own_feeds_def intro: runs_return)
    next
      case False
      then have "options_of opts \<noteq> []" by (cases opts) simp_all
      with runs_with_options [OF fill, of opts opts] 2 False show ?thesis
        by (simp add: parseFeed_loss_def cong: if_cong)
    qed
  qed simp
  moreover have "parseFeed re (feeds_of fs) str = bindR (parseMultiOption str) (\<lambda>opts.
      if opts = [] then Inr (FAILURE, feeds_of fs) else ?keep (fold feed_option opts feed_new))"
    unfolding parseFeed_def Let_def feed_add_def by (intro bindR_cong refl) simp
  ultimately show ?thesis by simp
qed

section \<open>Options\<close>

text \<open>The strings of a handle, the option that sets each, and what is overwritten by it.\<close>

definition am_set_option_mem ::
  "pcre \<Rightarrow> env \<Rightarrow> mHandle \<Rightarrow> string \<Rightarrow> string \<Rightarrow> (int \<times> mHandle) op" where
  "am_set_option_mem re e as opt param =
     (if opt = ''url'' then returnM (FAILURE, as)
      else if opt = ''feed'' then
        bindM (parseFeed_mem re (mn_feeds as) param) (\<lambda>(r, fs). returnM (r, as\<lparr>mn_feeds := fs\<rparr>))
      else if opt = ''transmission-home'' then
        bindM (set_path_mem e (Some param) (mn_transmission_path as))
          (\<lambda>p. returnM (SUCCESS, as\<lparr>mn_transmission_path := p\<rparr>))
      else if opt = ''prowl-apikey'' then
        bindM (am_strdup_mem (Some param)) (\<lambda>p. returnM (SUCCESS, as\<lparr>mn_prowl_key := p\<rparr>))
      else if opt = ''pushover-apikey'' then
        bindM (am_strdup_mem (Some param)) (\<lambda>p. returnM (SUCCESS, as\<lparr>mn_pushover_key := p\<rparr>))
      else if opt = ''transmission-version'' then
        returnM (SUCCESS, as\<lparr>mn_plain := set_version param (mn_plain as)\<rparr>)
      else if opt = ''transmission-external'' then
        bindM (set_path_mem e (Some param) (mn_transmission_external as))
          (\<lambda>p. returnM (SUCCESS, as\<lparr>mn_transmission_external := p,
                 mn_plain := (mn_plain as)\<lparr>transmission_version := AM_TRANSMISSION_EXTERNAL\<rparr>\<rparr>))
      else if opt = ''torrent-folder'' then
        bindM (set_path_mem e (Some param) (mn_torrent_folder as))
          (\<lambda>p. returnM (SUCCESS, as\<lparr>mn_torrent_folder := p\<rparr>))
      else if opt = ''statefile'' then
        bindM (set_path_mem e (Some param) (mn_statefile as))
          (\<lambda>p. returnM (SUCCESS, as\<lparr>mn_statefile := p\<rparr>))
      else if opt = ''rpc-host'' then
        bindM (am_strdup_mem (Some param)) (\<lambda>p. returnM (SUCCESS, as\<lparr>mn_host := p\<rparr>))
      else if opt = ''rpc-auth'' then
        bindM (am_strdup_mem (Some param)) (\<lambda>p. returnM (SUCCESS, as\<lparr>mn_auth := p\<rparr>))
      else if opt = ''upload-limit'' \<or> opt = ''rpc-port'' \<or> opt = ''interval'' then
        bindM (parseUInt_mem param)
          (\<lambda>numval. returnM (SUCCESS, as\<lparr>mn_plain := set_number opt numval (mn_plain as)\<rparr>))
      else if opt = ''use-transmission'' then
        returnM (SUCCESS, as\<lparr>mn_plain := (mn_plain as)\<lparr>use_transmission :=
          yes_no param (use_transmission (mn_plain as))\<rparr>\<rparr>)
      else if opt = ''start-torrents'' then
        returnM (SUCCESS, as\<lparr>mn_plain := (mn_plain as)\<lparr>start_torrent :=
          yes_no param (start_torrent (mn_plain as))\<rparr>\<rparr>)
      else if opt = ''patterns'' then returnM (FAILURE, as)
      else if opt = ''filter'' then
        bindM (parseFilter_mem e (mn_filters as) param) (\<lambda>(r, fs). returnM (r, as\<lparr>mn_filters := fs\<rparr>))
      else returnM (SUCCESS, as))"

definition option_loss :: "env \<Rightarrow> auto_handle \<Rightarrow> string \<Rightarrow> string \<Rightarrow> nat" where
  "option_loss e as opt param =
     (if opt = ''feed'' then parseFeed_loss param
      else if opt = ''prowl-apikey'' then overwritten (prowl_key as)
      else if opt = ''pushover-apikey'' then overwritten (pushover_key as)
      else if opt = ''rpc-host'' then overwritten (host as)
      else if opt = ''rpc-auth'' then overwritten (auth as)
      else if opt = ''filter'' then parseFilter_loss e param
      else 0)"

definition set_of :: "int \<times> mHandle \<Rightarrow> int \<times> auto_handle" where
  "set_of y = (fst y, handle_of (snd y))"

definition own_set :: "int \<times> mHandle \<Rightarrow> objects" where
  "own_set y = own_handle (snd y)"

text \<open>The numbers of a handle are not affected by its pointers.\<close>

lemma set_number_parts:
  "set_number opt n (handle_of s) = handle_of (s\<lparr>mn_plain := set_number opt n (mn_plain s)\<rparr>)"
  by (simp add: set_number_def handle_of_def)

lemma set_version_parts:
  "set_version param (handle_of s) = handle_of (s\<lparr>mn_plain := set_version param (mn_plain s)\<rparr>)"
  by (simp add: set_version_def handle_of_def)

lemma own_handle_plain [simp]: "own_handle (s\<lparr>mn_plain := p\<rparr>) = own_handle s"
  by (simp add: own_handle_def)

lemma handle_lists: "feeds (handle_of s) = feeds_of (mn_feeds s)" "filters (handle_of s) = filters_of (mn_filters s)"
  by (simp_all add: handle_of_def feeds_of_def filters_of_def)

text \<open>A string option: the old block is lost.\<close>

lemma runs_set_string:
  assumes "\<And>p. handle_of (fld p) = upd (val p) (handle_of s)"
    and "\<And>p. own_handle (fld p) = owned Block p + Q" "own_handle s = owned Block old + Q" "get = val old"
  shows "runs (own_handle s) (bindM (am_strdup_mem t) (\<lambda>p. returnM (SUCCESS, fld p)))
    (Inr (SUCCESS, upd (am_strdup t) (handle_of s))) set_of own_set (blocks (overwritten get))"
  unfolding am_strdup_mem_def assms(4)
  by (rule runs_overwrite [where Q = Q]) (use assms(1-3) in \<open>auto simp: set_of_def own_set_def\<close>)

text \<open>A path option: the old block is freed.\<close>

lemma runs_set_path_option:
  assumes "\<And>p. handle_of (fld p) = upd (val p) (handle_of s)"
    and "\<And>p. own_handle (fld p) = owned Block p + Q" "own_handle s = owned Block old + Q" "get = val old"
  shows "runs (own_handle s) (bindM (set_path_mem e t old) (\<lambda>p. returnM (SUCCESS, fld p)))
    (bindR (set_path e t get) (\<lambda>p. Inr (SUCCESS, upd p (handle_of s)))) set_of own_set 0"
proof -
  have "runs (own_handle s) (bindM (set_path_mem e t old) (\<lambda>p. returnM (SUCCESS, fld p)))
    (bindR (set_path e t (val old)) (\<lambda>p. Inr (SUCCESS, upd p (handle_of s)))) set_of own_set (0 + 0)"
    by (rule runs_bind [OF runs_set_path assms(3)], rule runs_return)
      (use assms(1,2) in \<open>simp_all add: set_of_def own_set_def\<close>)
  then show ?thesis by (simp add: assms(4))
qed

lemmas field_defs = handle_of_def own_handle_def

lemma runs_set_strings:
  "runs (own_handle s) (bindM (am_strdup_mem t) (\<lambda>p. returnM (SUCCESS, s\<lparr>mn_prowl_key := p\<rparr>)))
     (Inr (SUCCESS, (handle_of s)\<lparr>prowl_key := am_strdup t\<rparr>)) set_of own_set
     (blocks (overwritten (prowl_key (handle_of s))))"
  "runs (own_handle s) (bindM (am_strdup_mem t) (\<lambda>p. returnM (SUCCESS, s\<lparr>mn_pushover_key := p\<rparr>)))
     (Inr (SUCCESS, (handle_of s)\<lparr>pushover_key := am_strdup t\<rparr>)) set_of own_set
     (blocks (overwritten (pushover_key (handle_of s))))"
  "runs (own_handle s) (bindM (am_strdup_mem t) (\<lambda>p. returnM (SUCCESS, s\<lparr>mn_host := p\<rparr>)))
     (Inr (SUCCESS, (handle_of s)\<lparr>host := am_strdup t\<rparr>)) set_of own_set
     (blocks (overwritten (host (handle_of s))))"
  "runs (own_handle s) (bindM (am_strdup_mem t) (\<lambda>p. returnM (SUCCESS, s\<lparr>mn_auth := p\<rparr>)))
     (Inr (SUCCESS, (handle_of s)\<lparr>auth := am_strdup t\<rparr>)) set_of own_set
     (blocks (overwritten (auth (handle_of s))))"
proof -
  show "runs (own_handle s) (bindM (am_strdup_mem t) (\<lambda>p. returnM (SUCCESS, s\<lparr>mn_prowl_key := p\<rparr>)))
     (Inr (SUCCESS, (handle_of s)\<lparr>prowl_key := am_strdup t\<rparr>)) set_of own_set
     (blocks (overwritten (prowl_key (handle_of s))))"
    by (rule runs_set_string [where upd = "\<lambda>v h. h\<lparr>prowl_key := v\<rparr>" and old = "mn_prowl_key s" and
          Q = "own_handle (s\<lparr>mn_prowl_key := None\<rparr>)"]) (simp_all add: field_defs ac_simps)
  show "runs (own_handle s) (bindM (am_strdup_mem t) (\<lambda>p. returnM (SUCCESS, s\<lparr>mn_pushover_key := p\<rparr>)))
     (Inr (SUCCESS, (handle_of s)\<lparr>pushover_key := am_strdup t\<rparr>)) set_of own_set
     (blocks (overwritten (pushover_key (handle_of s))))"
    by (rule runs_set_string [where upd = "\<lambda>v h. h\<lparr>pushover_key := v\<rparr>" and old = "mn_pushover_key s" and
          Q = "own_handle (s\<lparr>mn_pushover_key := None\<rparr>)"]) (simp_all add: field_defs ac_simps)
  show "runs (own_handle s) (bindM (am_strdup_mem t) (\<lambda>p. returnM (SUCCESS, s\<lparr>mn_host := p\<rparr>)))
     (Inr (SUCCESS, (handle_of s)\<lparr>host := am_strdup t\<rparr>)) set_of own_set
     (blocks (overwritten (host (handle_of s))))"
    by (rule runs_set_string [where upd = "\<lambda>v h. h\<lparr>host := v\<rparr>" and old = "mn_host s" and
          Q = "own_handle (s\<lparr>mn_host := None\<rparr>)"]) (simp_all add: field_defs ac_simps)
  show "runs (own_handle s) (bindM (am_strdup_mem t) (\<lambda>p. returnM (SUCCESS, s\<lparr>mn_auth := p\<rparr>)))
     (Inr (SUCCESS, (handle_of s)\<lparr>auth := am_strdup t\<rparr>)) set_of own_set
     (blocks (overwritten (auth (handle_of s))))"
    by (rule runs_set_string [where upd = "\<lambda>v h. h\<lparr>auth := v\<rparr>" and old = "mn_auth s" and
          Q = "own_handle (s\<lparr>mn_auth := None\<rparr>)"]) (simp_all add: field_defs ac_simps)
qed

lemma runs_set_paths:
  "runs (own_handle s) (bindM (set_path_mem e t (mn_transmission_path s)) (\<lambda>p. returnM (SUCCESS, s\<lparr>mn_transmission_path := p\<rparr>)))
     (bindR (set_path e t (transmission_path (handle_of s))) (\<lambda>p. Inr (SUCCESS, (handle_of s)\<lparr>transmission_path := p\<rparr>)))
     set_of own_set 0"
  "runs (own_handle s) (bindM (set_path_mem e t (mn_torrent_folder s)) (\<lambda>p. returnM (SUCCESS, s\<lparr>mn_torrent_folder := p\<rparr>)))
     (bindR (set_path e t (torrent_folder (handle_of s))) (\<lambda>p. Inr (SUCCESS, (handle_of s)\<lparr>torrent_folder := p\<rparr>)))
     set_of own_set 0"
  "runs (own_handle s) (bindM (set_path_mem e t (mn_statefile s)) (\<lambda>p. returnM (SUCCESS, s\<lparr>mn_statefile := p\<rparr>)))
     (bindR (set_path e t (statefile (handle_of s))) (\<lambda>p. Inr (SUCCESS, (handle_of s)\<lparr>statefile := p\<rparr>)))
     set_of own_set 0"
  "runs (own_handle s) (bindM (set_path_mem e t (mn_transmission_external s)) (\<lambda>p. returnM (SUCCESS, s\<lparr>mn_transmission_external := p, mn_plain := (mn_plain s)\<lparr>transmission_version := AM_TRANSMISSION_EXTERNAL\<rparr>\<rparr>)))
     (bindR (set_path e t (transmission_external (handle_of s))) (\<lambda>p. Inr (SUCCESS, (handle_of s)\<lparr>transmission_external := p, transmission_version := AM_TRANSMISSION_EXTERNAL\<rparr>)))
     set_of own_set 0"
proof -
  show "runs (own_handle s) (bindM (set_path_mem e t (mn_transmission_path s)) (\<lambda>p. returnM (SUCCESS, s\<lparr>mn_transmission_path := p\<rparr>)))
     (bindR (set_path e t (transmission_path (handle_of s))) (\<lambda>p. Inr (SUCCESS, (handle_of s)\<lparr>transmission_path := p\<rparr>)))
     set_of own_set 0"
    by (rule runs_set_path_option [where upd = "\<lambda>v h. h\<lparr>transmission_path := v\<rparr>" and
          Q = "own_handle (s\<lparr>mn_transmission_path := None\<rparr>)"]) (simp_all add: field_defs ac_simps)
  show "runs (own_handle s) (bindM (set_path_mem e t (mn_torrent_folder s)) (\<lambda>p. returnM (SUCCESS, s\<lparr>mn_torrent_folder := p\<rparr>)))
     (bindR (set_path e t (torrent_folder (handle_of s))) (\<lambda>p. Inr (SUCCESS, (handle_of s)\<lparr>torrent_folder := p\<rparr>)))
     set_of own_set 0"
    by (rule runs_set_path_option [where upd = "\<lambda>v h. h\<lparr>torrent_folder := v\<rparr>" and
          Q = "own_handle (s\<lparr>mn_torrent_folder := None\<rparr>)"]) (simp_all add: field_defs ac_simps)
  show "runs (own_handle s) (bindM (set_path_mem e t (mn_statefile s)) (\<lambda>p. returnM (SUCCESS, s\<lparr>mn_statefile := p\<rparr>)))
     (bindR (set_path e t (statefile (handle_of s))) (\<lambda>p. Inr (SUCCESS, (handle_of s)\<lparr>statefile := p\<rparr>)))
     set_of own_set 0"
    by (rule runs_set_path_option [where upd = "\<lambda>v h. h\<lparr>statefile := v\<rparr>" and
          Q = "own_handle (s\<lparr>mn_statefile := None\<rparr>)"]) (simp_all add: field_defs ac_simps)
  show "runs (own_handle s) (bindM (set_path_mem e t (mn_transmission_external s)) (\<lambda>p. returnM (SUCCESS, s\<lparr>mn_transmission_external := p, mn_plain := (mn_plain s)\<lparr>transmission_version := AM_TRANSMISSION_EXTERNAL\<rparr>\<rparr>)))
     (bindR (set_path e t (transmission_external (handle_of s))) (\<lambda>p. Inr (SUCCESS, (handle_of s)\<lparr>transmission_external := p, transmission_version := AM_TRANSMISSION_EXTERNAL\<rparr>)))
     set_of own_set 0"
    by (rule runs_set_path_option [where upd = "\<lambda>v h. h\<lparr>transmission_external := v, transmission_version := AM_TRANSMISSION_EXTERNAL\<rparr>" and
          Q = "own_handle (s\<lparr>mn_transmission_external := None\<rparr>)"]) (simp_all add: field_defs ac_simps)
qed

lemma runs_set_feeds:
  "runs (own_handle s) (bindM (parseFeed_mem re (mn_feeds s) t) (\<lambda>(r, fs). returnM (r, s\<lparr>mn_feeds := fs\<rparr>)))
     (bindR (parseFeed re (feeds (handle_of s)) t) (\<lambda>(r, fs). Inr (r, (handle_of s)\<lparr>feeds := fs\<rparr>)))
     set_of own_set (blocks (parseFeed_loss t))"
proof -
  have "runs (own_handle s) (bindM (parseFeed_mem re (mn_feeds s) t) (\<lambda>(r, fs). returnM (r, s\<lparr>mn_feeds := fs\<rparr>)))
     (bindR (parseFeed re (feeds_of (mn_feeds s)) t) (\<lambda>(r, fs). Inr (r, (handle_of s)\<lparr>feeds := fs\<rparr>)))
     set_of own_set (0 + blocks (parseFeed_loss t))"
  proof (rule runs_bind [OF runs_parseFeed, where Q = "own_handle (s\<lparr>mn_feeds := []\<rparr>)"], goal_cases)
    case (2 y)
    obtain r ns where y: "y = (r, ns)" by force
    show ?case
      unfolding y parsed_feeds_def fst_conv snd_conv prod.case
      by (rule runs_return) (simp_all add: own_feeds_def set_of_def own_set_def field_defs feeds_of_def ac_simps)
  qed (simp add: field_defs ac_simps)
  then show ?thesis by (simp add: handle_lists)
qed

lemma runs_set_filters:
  "runs (own_handle s) (bindM (parseFilter_mem e (mn_filters s) t) (\<lambda>(r, fs). returnM (r, s\<lparr>mn_filters := fs\<rparr>)))
     (bindR (parseFilter e (filters (handle_of s)) t) (\<lambda>(r, fs). Inr (r, (handle_of s)\<lparr>filters := fs\<rparr>)))
     set_of own_set (blocks (parseFilter_loss e t))"
proof -
  have "runs (own_handle s) (bindM (parseFilter_mem e (mn_filters s) t) (\<lambda>(r, fs). returnM (r, s\<lparr>mn_filters := fs\<rparr>)))
     (bindR (parseFilter e (filters_of (mn_filters s)) t) (\<lambda>(r, fs). Inr (r, (handle_of s)\<lparr>filters := fs\<rparr>)))
     set_of own_set (0 + blocks (parseFilter_loss e t))"
  proof (rule runs_bind [OF runs_parseFilter, where Q = "own_handle (s\<lparr>mn_filters := []\<rparr>)"], goal_cases)
    case (2 y)
    obtain r ns where y: "y = (r, ns)" by force
    show ?case
      unfolding y parsed_filters_def fst_conv snd_conv prod.case
      by (rule runs_return) (simp_all add: own_filters_def set_of_def own_set_def field_defs filters_of_def ac_simps)
  qed (simp add: field_defs ac_simps)
  then show ?thesis by (simp add: handle_lists)
qed

lemma runs_set_number:
  "runs (own_handle s) (bindM (parseUInt_mem t) (\<lambda>n. returnM (SUCCESS, s\<lparr>mn_plain := set_number opt n (mn_plain s)\<rparr>)))
     (bindR (parseUInt t) (\<lambda>n. Inr (SUCCESS, set_number opt n (handle_of s)))) set_of own_set 0"
proof -
  have "runs (own_handle s) (bindM (parseUInt_mem t) (\<lambda>n. returnM (SUCCESS, s\<lparr>mn_plain := set_number opt n (mn_plain s)\<rparr>)))
     (bindR (parseUInt t) (\<lambda>n. Inr (SUCCESS, set_number opt n (handle_of s)))) set_of own_set (0 + 0)"
    by (rule runs_bind [OF runs_parseUInt, where Q = "own_handle s"], simp, rule runs_return)
      (simp_all add: set_of_def own_set_def set_number_parts)
  then show ?thesis by simp
qed

lemma runs_keep_handle:
  "handle_of s' = h \<Longrightarrow> own_handle s' = P \<Longrightarrow> runs P (returnM (r, s')) (Inr (r, h)) set_of own_set 0"
  by (rule runs_return) (simp_all add: set_of_def own_set_def)

lemma runs_set_option:
  "runs (own_handle s) (am_set_option_mem re e s opt param) (am_set_option re e (handle_of s) opt param)
     set_of own_set (blocks (option_loss e (handle_of s) opt param))"
proof -
  have keep: "runs (own_handle s) (returnM (r, s)) (Inr (r, handle_of s)) set_of own_set 0" for r
    by (rule runs_keep_handle) simp_all
  have flag: "runs (own_handle s) (returnM (SUCCESS, s\<lparr>mn_plain := (mn_plain s)\<lparr>use_transmission :=
        yes_no param (use_transmission (mn_plain s))\<rparr>\<rparr>))
      (Inr (SUCCESS, (handle_of s)\<lparr>use_transmission := yes_no param (use_transmission (handle_of s))\<rparr>)) set_of own_set 0"
    "runs (own_handle s) (returnM (SUCCESS, s\<lparr>mn_plain := (mn_plain s)\<lparr>start_torrent :=
        yes_no param (start_torrent (mn_plain s))\<rparr>\<rparr>))
      (Inr (SUCCESS, (handle_of s)\<lparr>start_torrent := yes_no param (start_torrent (handle_of s))\<rparr>)) set_of own_set 0"
    by (rule runs_keep_handle; simp add: field_defs)+
  have version: "runs (own_handle s) (returnM (SUCCESS, s\<lparr>mn_plain := set_version param (mn_plain s)\<rparr>))
      (Inr (SUCCESS, set_version param (handle_of s))) set_of own_set 0"
    by (rule runs_keep_handle) (simp_all add: set_version_parts)
  show ?thesis
    unfolding am_set_option_mem_def am_set_option_def option_loss_def
    by (simp add: keep flag version runs_set_number runs_set_strings runs_set_paths runs_set_feeds runs_set_filters)
qed

section \<open>The file\<close>

text \<open>A turn that goes on has moved on.\<close>

lemma skip_toE:
  assumes "skip_to line pos k = Inr t" "\<And>b. t \<noteq> End b"
  obtains p where "pos \<le> p" "p < length line" "k p = Inr t"
proof (cases "resume line pos")
  case (Inr p)
  then have "pos \<le> p" "p < length line"
    by (auto simp: resume_def dest: SkipWhitespace_le split: option.splits if_splits)
  moreover have "k p = Inr t" using assms(1) Inr by (simp add: skip_to_def)
  ultimately show ?thesis by (rule that)
qed (use assms in \<open>auto simp: skip_to_def\<close>)

lemma next_option_moves:
  "next_option line pos = Inr (Skip p) \<Longrightarrow> pos < p \<and> p \<le> length line"
  "next_option line pos = Inr (Set opt param q) \<Longrightarrow> pos < q"
proof -
  assume "next_option line pos = Inr (Skip p)"
  then obtain p1 where "pos \<le> p1" "p1 < length line" "skip_comment line p1 = Inr p"
    unfolding next_option_def
    by (elim skip_toE) (auto simp: bindR_Inr_iff elim!: skip_toE split: if_splits option.splits)
  then show "pos < p \<and> p \<le> length line" by (auto simp: skip_comment_def Let_def split: if_splits)
next
  assume "next_option line pos = Inr (Set opt param q)"
  then obtain p1 p2 p3 p4 where "pos \<le> p1" "read_option line p1 = Inr (Some (opt, p2))" "p2 \<le> p3"
    "p3 + 1 \<le> p4" "read_param line p4 = Some (param, q)"
    unfolding next_option_def
    by (elim skip_toE) (auto simp: bindR_Inr_iff elim!: skip_toE split: if_splits option.splits)
  then show "pos < q" using read_option_le [of line p1 opt p2] read_param_le [of line p4 param q] by simp
qed

lemma turn_smaller:
  "next_option line pos = Inr (Skip p) \<Longrightarrow> length line - p < length line - pos"
  "next_option line pos = Inr (Set opt param q) \<Longrightarrow> resume line q = Inr p \<Longrightarrow>
     length line - p < length line - pos"
proof -
  show "length line - p < length line - pos" if "next_option line pos = Inr (Skip p)"
    using next_option_moves(1) [OF that] by linarith
  assume "next_option line pos = Inr (Set opt param q)" "resume line q = Inr p"
  then have "pos < q" "q \<le> p" "p < length line"
    using next_option_moves(2)
    by (auto simp: resume_def dest: SkipWhitespace_le split: option.splits if_splits)
  then show "length line - p < length line - pos" by simp
qed

function parse_loop_mem ::
  "pcre \<Rightarrow> env \<Rightarrow> string \<Rightarrow> nat \<Rightarrow> mHandle \<Rightarrow> (bool \<times> mHandle) op" where
  "parse_loop_mem re e line pos as =
     (if pos = length line then returnM (False, as)
      else bindM (liftM (next_option line pos)) (\<lambda>t.
        case t of
          End b \<Rightarrow> returnM (b, as)
        | Skip p \<Rightarrow> parse_loop_mem re e line p as
        | Set opt param q \<Rightarrow>
            bindM (am_set_option_mem re e as opt param) (\<lambda>(r, as).
              if r = FAILURE then returnM (True, as)
              else (case resume line q of
                      Inl b \<Rightarrow> returnM (b, as)
                    | Inr p \<Rightarrow> parse_loop_mem re e line p as))))"
  by pat_completeness auto
termination
  by (relation "measure (\<lambda>(re, e, line, pos, as). length line - pos)") (auto dest!: liftM_Inr dest: turn_smaller)

declare parse_loop_mem.simps [simp del]

text \<open>The blocks that the options of a file lose, those before an error included.\<close>

function parse_losses :: "pcre \<Rightarrow> env \<Rightarrow> string \<Rightarrow> nat \<Rightarrow> auto_handle \<Rightarrow> nat" where
  "parse_losses re e line pos as =
     (if pos = length line then 0
      else (case next_option line pos of
          Inr (Skip p) \<Rightarrow> parse_losses re e line p as
        | Inr (Set opt param q) \<Rightarrow>
            option_loss e as opt param +
            (case am_set_option re e as opt param of
               Inr (r, as) \<Rightarrow>
                 if r = FAILURE then 0
                 else (case resume line q of Inl _ \<Rightarrow> 0 | Inr p \<Rightarrow> parse_losses re e line p as)
             | Inl _ \<Rightarrow> 0)
        | _ \<Rightarrow> 0))"
  by pat_completeness auto
termination
  by (relation "measure (\<lambda>(re, e, line, pos, as). length line - pos)") (auto dest: turn_smaller)

declare parse_losses.simps [simp del]

lemma liftM_bind [simp]: "bindM (liftM (Inr x)) f = f x" "bindM (liftM (Inl b)) f = liftM (Inl b)"
  by (simp_all add: bindM_def liftM_def)

lemma parse_loop_turn:
  "parse_loop re e line pos as =
     (if pos = length line then Inr (False, as)
      else bindR (next_option line pos) (\<lambda>t.
        case t of
          End b \<Rightarrow> Inr (b, as)
        | Skip p \<Rightarrow> parse_loop re e line p as
        | Set opt param q \<Rightarrow>
            bindR (am_set_option re e as opt param) (\<lambda>(r, as).
              if r = FAILURE then Inr (True, as)
              else (case resume line q of
                      Inl b \<Rightarrow> Inr (b, as)
                    | Inr p \<Rightarrow> parse_loop re e line p as))))"
  by (subst parse_loop.simps)
    (auto simp: config_turn_parts bindR_assoc turn_of_def at_skip_resume intro!: bindR_cong
      split: token.split sum.split)

lemma runs_parse_loop:
  "runs (own_handle s) (parse_loop_mem re e line pos s) (parse_loop re e line pos (handle_of s))
     (map_prod id handle_of) (\<lambda>x. own_handle (snd x)) (blocks (parse_losses re e line pos (handle_of s)))"
proof (induction "length line - pos" arbitrary: pos s rule: less_induct)
  case less
  let ?runs = "\<lambda>s m v n. runs (own_handle s) m v (map_prod id handle_of) (\<lambda>x. own_handle (snd x)) (blocks n)"
  have stop: "?runs s (returnM (b, s)) (Inr (b, handle_of s)) 0" for b :: bool and s
    using runs_return [of "map_prod id handle_of" "(b, s)"] by simp
  note stop = stop [simplified]
  note unfold = parse_loop_mem.simps [of re e line pos s] parse_loop_turn [of re e line pos]
    parse_losses.simps [of re e line pos]
  show ?case
  proof (cases "pos = length line \<or> (\<forall>opt param q. next_option line pos \<noteq> Inr (Set opt param q))")
    case True
    with less turn_smaller(1) [of line pos] show ?thesis
      unfolding unfold by (auto simp: stop runs_fault split: sum.split token.split)
  next
    case False
    then obtain opt param q where t: "next_option line pos = Inr (Set opt param q)" "pos \<noteq> length line" by blast
    have rest: "?runs s' (case resume line q of Inl b \<Rightarrow> returnM (b, s') | Inr p \<Rightarrow> parse_loop_mem re e line p s')
        (case resume line q of Inl b \<Rightarrow> Inr (b, handle_of s') | Inr p \<Rightarrow> parse_loop re e line p (handle_of s'))
        (case resume line q of Inl _ \<Rightarrow> 0 | Inr p \<Rightarrow> parse_losses re e line p (handle_of s'))" for s'
      using less turn_smaller(2) [OF t(1)] by (auto simp: stop split: sum.split)
    let ?n = "case am_set_option re e (handle_of s) opt param of
        Inr (r, a) \<Rightarrow> if r = FAILURE then 0
          else (case resume line q of Inl _ \<Rightarrow> 0 | Inr p \<Rightarrow> parse_losses re e line p a)
      | Inl _ \<Rightarrow> 0"
    have "runs (own_handle s)
        (bindM (am_set_option_mem re e s opt param) (\<lambda>(r, s). if r = FAILURE then returnM (True, s)
          else (case resume line q of Inl b \<Rightarrow> returnM (b, s) | Inr p \<Rightarrow> parse_loop_mem re e line p s)))
        (bindR (am_set_option re e (handle_of s) opt param) (\<lambda>(r, a). if r = FAILURE then Inr (True, a)
          else (case resume line q of Inl b \<Rightarrow> Inr (b, a) | Inr p \<Rightarrow> parse_loop re e line p a)))
        (map_prod id handle_of) (\<lambda>x. own_handle (snd x)) (blocks ?n + blocks (option_loss e (handle_of s) opt param))"
    proof (rule runs_bind [OF runs_set_option, where Q = "{#}"], goal_cases)
      case (2 x)
      obtain r s' where x: "x = (r, s')" by force
      with 2 have v: "am_set_option re e (handle_of s) opt param = Inr (r, handle_of s')" by (simp add: set_of_def)
      show ?case using rest [of s'] stop [of s' True] by (simp add: x v set_of_def own_set_def cong: if_cong)
    qed simp
    then show ?thesis unfolding unfold by (simp add: t blocks_add ac_simps)
  qed
qed

section \<open>Reading a file into a handle\<close>

definition parse_config_file_mem ::
  "pcre \<Rightarrow> env \<Rightarrow> string option \<Rightarrow> mHandle \<Rightarrow> (int \<times> mHandle) op" where
  "parse_config_file_mem re e contents as =
     (case contents of
        None \<Rightarrow> returnM (- 1, as)
      | Some line \<Rightarrow>
          bindM (am_malloc (length line + 1)) (\<lambda>buf.
            case buf of
              None \<Rightarrow> returnM (- 1, as)
            | Some _ \<Rightarrow>
                (let line_buf = map_option (\<lambda>a. (a, line)) buf
                 in if line = [] then bindM (am_free line_buf) (\<lambda>_. returnM (- 1, as))
                    else bindM (parse_loop_mem re e line 0 as) (\<lambda>(parse_error, as).
                           bindM (am_free line_buf) (\<lambda>_.
                             returnM (if parse_error then - 1 else 0, as))))))"

text \<open>The blocks that nothing points to any more when the file has been read.\<close>

definition config_loss :: "pcre \<Rightarrow> env \<Rightarrow> string option \<Rightarrow> auto_handle \<Rightarrow> nat" where
  "config_loss re e contents as = (case contents of None \<Rightarrow> 0 | Some line \<Rightarrow>
     if line = [] then 0 else parse_losses re e line 0 as)"

lemma runs_parse_config_file:
  "runs (own_handle s) (parse_config_file_mem re e contents s) (parse_config_file re e contents (handle_of s))
     set_of own_set (blocks (config_loss re e contents (handle_of s)))"
proof (cases contents)
  case None
  then show ?thesis
    using runs_keep_handle [of s "handle_of s" "own_handle s" "- 1"]
    by (simp add: parse_config_file_mem_def parse_config_file_def config_loss_def)
next
  case (Some line)
  have keep: "runs (own_handle s) (returnM (r, s)) (Inr (r, handle_of s)) set_of own_set 0" for r s
    by (rule runs_keep_handle) simp_all
  have free: "runs ({#(a, Block)#} + own_handle s) (bindM (am_free (Some (a, line))) (\<lambda>_. returnM (r, s)))
      (Inr (r, handle_of s)) set_of own_set 0" for a r s
    by (rule block.runs_free [OF keep]) simp
  have rest: "runs ({#(a, Block)#} + own_handle s)
      (bindM (parse_loop_mem re e line 0 s) (\<lambda>(parse_error, s).
         bindM (am_free (Some (a, line))) (\<lambda>_. returnM (if parse_error then - 1 else 0, s))))
      (bindR (parse_loop re e line 0 (handle_of s)) (\<lambda>(parse_error, s). Inr (if parse_error then - 1 else 0, s)))
      set_of own_set (0 + blocks (parse_losses re e line 0 (handle_of s)))" for a
  proof (rule runs_bind [OF runs_parse_loop, where Q = "{#(a, Block)#}"], goal_cases)
    case (2 x)
    obtain b s' where x: "x = (b, s')" by force
    show ?case using free [of a s' "if b then - 1 else 0"] by (simp add: x ac_simps)
  qed (simp add: ac_simps)
  show ?thesis
    using free [of _ s "- 1"] rest
    by (auto simp: Some parse_config_file_mem_def parse_config_file_def config_loss_def intro!: runs_malloc)
qed

section \<open>Well-formed files\<close>

text \<open>What is lost is what the entries of the file overwrite, up to the first one that is refused.\<close>

fun entries_loss :: "pcre \<Rightarrow> env \<Rightarrow> entry list \<Rightarrow> auto_handle \<Rightarrow> nat" where
  "entries_loss re e [] as = 0"
| "entries_loss re e ((opt, q, p) # es) as =
     option_loss e as opt p +
     (case am_set_option re e as opt p of
        Inl _ \<Rightarrow> 0
      | Inr (r, as) \<Rightarrow> if r = FAILURE then 0 else entries_loss re e es as)"

lemma parse_losses_text:
  "\<forall>x \<in> set es. entry_ok x \<Longrightarrow> NUL \<notin> set pre \<Longrightarrow> es \<noteq> [] \<Longrightarrow>
   parse_losses re e (pre @ config_text es) (length pre) as = entries_loss re e es as"
proof (induction es arbitrary: pre as)
  case (Cons x es)
  obtain opt q p where x: "x = (opt, q, p)" by (cases x)
  let ?line = "pre @ config_text (x # es)" and ?pre = "pre @ entry_text x"
  have l: "?line = pre @ entry_text (opt, q, p) @ config_text es" "?line = ?pre @ config_text es"
    by (simp_all add: config_text_def x)
  have ok: "entry_ok x" "\<forall>x \<in> set es. entry_ok x" using Cons.prems by simp_all
  have nn: "NUL \<notin> set ?line"
    using Cons.prems(2) config_text_facts(3) [OF Cons.prems(1)] by simp
  obtain pos where token: "next_option ?line (length pre) = Inr (Set opt p pos)"
    "resume ?line pos = (if config_text es = [] then Inl False else Inr (length ?pre))"
    using next_option_text [OF l(1) _ nn] ok config_text_facts [OF ok(2)] x by metis
  have ne: "length pre \<noteq> length ?line"
    using entry_text_facts(1) [OF ok(1)] by (simp add: config_text_def)
  have IH: "parse_losses re e ?line (length ?pre) a = entries_loss re e es a" if "es \<noteq> []" for a
    unfolding l(2) using Cons.IH [OF ok(2) _ that, of ?pre a] Cons.prems(2) entry_text_facts(3) [OF ok(1)]
    by simp
  show ?case
    using IH ne token config_text_facts(1) [OF ok(2)]
    by (subst parse_losses.simps) (auto simp: x split: sum.split)
qed simp

lemma config_loss_text:
  assumes "\<forall>x \<in> set es. entry_ok x"
  shows "config_loss re e (Some (config_text es)) as = entries_loss re e es as"
  using parse_losses_text [OF assms, of "[]" re e as] config_text_facts(1) [OF assms]
  by (cases "es = []") (simp_all add: config_loss_def)

text \<open>
  The options that keep one string each.  When every entry is accepted and the feeds and filters
  repeat no suboption, what is lost is one block for each time a string is given again.
\<close>

definition string_option :: "string \<Rightarrow> bool" where
  "string_option opt \<longleftrightarrow> opt \<in> {''prowl-apikey'', ''pushover-apikey'', ''rpc-host'', ''rpc-auth''}"

definition string_field :: "auto_handle \<Rightarrow> string \<Rightarrow> string option" where
  "string_field as opt =
     (if opt = ''prowl-apikey'' then prowl_key as
      else if opt = ''pushover-apikey'' then pushover_key as
      else if opt = ''rpc-host'' then host as
      else if opt = ''rpc-auth'' then auth as else None)"

definition given :: "auto_handle \<Rightarrow> string set" where
  "given as = {opt. string_option opt \<and> string_field as opt \<noteq> None}"

definition string_names :: "entry list \<Rightarrow> string list" where
  "string_names es = [opt \<leftarrow> map fst es. string_option opt]"

fun single :: "env \<Rightarrow> entry \<Rightarrow> bool" where
  "single e (opt, q, p) \<longleftrightarrow> (string_option opt \<longrightarrow> p \<noteq> [] \<and> NUL \<notin> set p) \<and>
     (opt = ''feed'' \<longrightarrow> parseFeed_loss p = 0) \<and> (opt = ''filter'' \<longrightarrow> parseFilter_loss e p = 0)"

lemma string_names_simps [simp]:
  "string_names [] = []"
  "string_names ((opt, q, p) # es) = (if string_option opt then opt # string_names es else string_names es)"
  by (simp_all add: string_names_def)

lemma given_finite [simp]: "finite (given as)"
proof -
  have "given as \<subseteq> {''prowl-apikey'', ''pushover-apikey'', ''rpc-host'', ''rpc-auth''}"
    by (auto simp: given_def string_option_def)
  then show ?thesis by (rule finite_subset) simp
qed

definition same_strings :: "auto_handle \<Rightarrow> (int \<times> auto_handle) res \<Rightarrow> bool" where
  "same_strings as m \<longleftrightarrow> (\<forall>r as'. m = Inr (r, as') \<longrightarrow> string_field as' = string_field as)"

lemma same_strings_rules:
  "(c \<Longrightarrow> same_strings s a) \<Longrightarrow> (\<not> c \<Longrightarrow> same_strings s b) \<Longrightarrow> same_strings s (if c then a else b)"
  "(\<And>y. same_strings s (f y)) \<Longrightarrow> same_strings s (bindR m f)"
  "(\<And>u v. same_strings s (g u v)) \<Longrightarrow> same_strings s (case z of (u, v) \<Rightarrow> g u v)"
  "string_field s' = string_field s \<Longrightarrow> same_strings s (Inr (r, s'))"
  by (auto simp: same_strings_def bindR_Inr_iff split: prod.splits)

lemma set_other_option:
  assumes "\<not> string_option opt"
  shows "same_strings as (am_set_option re e as opt p)"
proof -
  have no: "opt \<noteq> ''prowl-apikey''" "opt \<noteq> ''pushover-apikey''" "opt \<noteq> ''rpc-host''" "opt \<noteq> ''rpc-auth''"
    using assms by (auto simp: string_option_def)
  have plain: "string_field (set_number o' n as) = string_field as" "string_field (set_version v as) = string_field as"
    for o' n v by (simp_all add: set_number_def set_version_def string_field_def fun_eq_iff)
  show ?thesis
    unfolding am_set_option_def if_not_P [OF no(1)] if_not_P [OF no(2)] if_not_P [OF no(3)] if_not_P [OF no(4)]
    by (intro same_strings_rules) (simp_all add: plain, simp_all add: string_field_def fun_eq_iff)
qed

lemma set_strings:
  "am_set_option re e as ''prowl-apikey'' p = Inr (SUCCESS, as\<lparr>prowl_key := am_strdup (Some p)\<rparr>)"
  "am_set_option re e as ''pushover-apikey'' p = Inr (SUCCESS, as\<lparr>pushover_key := am_strdup (Some p)\<rparr>)"
  "am_set_option re e as ''rpc-host'' p = Inr (SUCCESS, as\<lparr>host := am_strdup (Some p)\<rparr>)"
  "am_set_option re e as ''rpc-auth'' p = Inr (SUCCESS, as\<lparr>auth := am_strdup (Some p)\<rparr>)"
  by (simp_all add: am_set_option_def)

lemma string_field_update:
  "string_field (as\<lparr>prowl_key := v\<rparr>) = (string_field as)(''prowl-apikey'' := v)"
  "string_field (as\<lparr>pushover_key := v\<rparr>) = (string_field as)(''pushover-apikey'' := v)"
  "string_field (as\<lparr>host := v\<rparr>) = (string_field as)(''rpc-host'' := v)"
  "string_field (as\<lparr>auth := v\<rparr>) = (string_field as)(''rpc-auth'' := v)"
  by (rule ext, simp add: string_field_def)+

lemma set_string_option:
  assumes "string_option opt" "am_set_option re e as opt p = Inr (r, as')"
  shows "string_field as' = (string_field as)(opt := am_strdup (Some p))"
proof -
  consider "opt = ''prowl-apikey''" | "opt = ''pushover-apikey''" | "opt = ''rpc-host''" | "opt = ''rpc-auth''"
    using assms(1) by (auto simp: string_option_def)
  then show ?thesis using assms(2) by cases (simp_all only: set_strings sum.inject prod.inject, simp_all only: string_field_update [symmetric])
qed

lemma set_string_loss:
  assumes "single e (opt, q, p)"
  shows "option_loss e as opt p = (if opt \<in> given as then 1 else 0)"
  using assms
  by (auto simp: option_loss_def given_def string_option_def string_field_def overwritten_def)

lemma set_given:
  assumes "single e (opt, q, p)" "am_set_option re e as opt p = Inr (r, as')"
  shows "given as' = (if string_option opt then insert opt (given as) else given as)"
proof -
  have "string_option opt \<Longrightarrow> am_strdup (Some p) \<noteq> None"
    using assms(1) by (cases p) (auto simp: am_strdup_def am_strndup_def)
  with set_string_option [OF _ assms(2)] set_other_option [of opt as re e p] assms(2)
  show ?thesis by (auto simp: given_def same_strings_def)
qed

lemma entries_loss_count:
  "\<forall>x \<in> set es. single e x \<Longrightarrow> apply_entries re e es as = Inr (0, h) \<Longrightarrow>
   entries_loss re e es as + card (given as \<union> set (string_names es)) =
     length (string_names es) + card (given as)"
proof (induction es arbitrary: as)
  case (Cons x es)
  obtain opt q p where x: "x = (opt, q, p)" by (cases x)
  with Cons.prems have s: "single e (opt, q, p)" "\<forall>x \<in> set es. single e x" by auto
  from Cons.prems(2) x obtain r a where set: "am_set_option re e as opt p = Inr (r, a)" "r \<noteq> FAILURE"
    "apply_entries re e es a = Inr (0, h)"
    by (auto simp: bindR_Inr_iff split: if_splits)
  have "entries_loss re e (x # es) as = (if opt \<in> given as then 1 else 0) + entries_loss re e es a"
    using set_string_loss [OF s(1)] set by (simp add: x)
  moreover have "opt \<in> given as \<Longrightarrow> string_option opt" by (simp add: given_def)
  ultimately show ?case
    using Cons.IH [OF s(2) set(3)] set_given [OF s(1) set(1)]
    by (auto simp: x card_insert_if insert_absorb split: if_splits)
qed simp

section \<open>Properties\<close>

text \<open>C15: memory of the configuration: reading a well-formed file into a handle whose strings are not
  set yet gives back the buffer of the file, the suboptions and every value that is not kept, and
  the handle owns what it points to; what nothing points to any more is exactly one block for each
  time that the host, the login or one of the keys is given again, and so none when no option is
  repeated.\<close>

theorem config_file_memory:
  assumes "es \<noteq> []" "\<forall>x \<in> set es. entry_ok x" "\<forall>x \<in> set es. single e x"
    and "given (handle_of s) = {}" "apply_entries re e es (handle_of s) = Inr (0, h)"
    and "live L = own_handle s + F"
  shows "\<exists>s' L' X. parse_config_file_mem re e (Some (config_text es)) s L = Inr ((0, s'), L') \<and>
    handle_of s' = h \<and> live L' = own_handle s' + X + F \<and>
    lost (replicate_mset (length (string_names es) - card (set (string_names es))) Block) X"
proof -
  have v: "parse_config_file re e (Some (config_text es)) (handle_of s) = Inr (0, h)"
    using parse_config_file_text [OF assms(1,2), of re e "handle_of s"] assms(5) by simp
  have n: "config_loss re e (Some (config_text es)) (handle_of s) =
      length (string_names es) - card (set (string_names es))"
    using entries_loss_count [OF assms(3,5)] by (simp add: config_loss_text [OF assms(2)] assms(4))
  show ?thesis
    using runsD [OF runs_parse_config_file assms(6), of re e "Some (config_text es)"]
    by (auto simp: v n accounts_def set_of_def own_set_def)
qed

definition blank_handle :: mHandle where
  "blank_handle = \<lparr>mn_self = 0, mn_transmission_path = None, mn_statefile = None, mn_torrent_folder = None,
     mn_auth = None, mn_host = None, mn_prowl_key = None, mn_pushover_key = None,
     mn_transmission_external = None, mn_feeds = [], mn_filters = [], mn_downloads = [], mn_plain = lab_session\<rparr>"

theorem config_file_memory_witness:
  "\<exists>s' L' X. parse_config_file_mem demo_pcre demo_env (Some (config_text
        [(''rpc-host'', Quoted, ''box''), (''rpc-auth'', Braced, ''me:pw''), (''rpc-host'', Quoted, ''cat'')]))
      blank_handle (ledger0\<lparr>live := {#(0, Block)#}, fresh := 1\<rparr>) = Inr ((0, s'), L') \<and>
    handle_of s' = (handle_of blank_handle)\<lparr>host := Some ''cat'', auth := Some ''me:pw''\<rparr> \<and>
    live L' = own_handle s' + X + {#} \<and> lost (replicate_mset (length (string_names
        [(''rpc-host'', Quoted, ''box''), (''rpc-auth'', Braced, ''me:pw''), (''rpc-host'', Quoted, ''cat'')]) -
      card (set (string_names
        [(''rpc-host'', Quoted, ''box''), (''rpc-auth'', Braced, ''me:pw''), (''rpc-host'', Quoted, ''cat'')])))
      Block) X"
proof (rule config_file_memory)
  let ?es = "[(''rpc-host'', Quoted, ''box''), (''rpc-auth'', Braced, ''me:pw''), (''rpc-host'', Quoted, ''cat'')]"
  show "\<forall>x \<in> set ?es. entry_ok x"
    by (simp add: name_ok_def opt_char_def isprint_def code_def MAX_OPT_LEN_def MAX_PARAM_LEN_def NUL_def
        DQ_def NL_def)
  show "\<forall>x \<in> set ?es. single demo_env x" by (simp add: NUL_def)
  show "given (handle_of blank_handle) = {}"
    by (auto simp: given_def string_option_def string_field_def blank_handle_def handle_of_def)
  show "apply_entries demo_pcre demo_env ?es (handle_of blank_handle) =
      Inr (0, (handle_of blank_handle)\<lparr>host := Some ''cat'', auth := Some ''me:pw''\<rparr>)"
    by (simp add: set_strings am_strdup_def am_strndup_def NUL_def SUCCESS_def FAILURE_def)
  show "live (ledger0\<lparr>live := {#(0, Block)#}, fresh := 1\<rparr>) = own_handle blank_handle + {#}"
    by (simp add: own_handle_def blank_handle_def)
qed simp

end
