(* ===== verification/Am_Session_Memory.thy ===== *)
theory Am_Session_Memory
  imports Am_Check_Memory Am_Config_Memory Am_Session_Laws
begin

text \<open>
  The session of \<^verbatim>\<open>src/automatic.c\<close> on the ledger: \<open>load_state\<close>, \<open>setupSession\<close>, the reload of
  the configuration on SIGHUP and \<open>shutdown_daemon\<close>.  The daemon owns its session and the session
  identifier; a reload frees either the handle it has made or the session that handle replaces.
\<close>

section \<open>The history\<close>

function load_loop_mem :: "string \<Rightarrow> (nat \<times> string) nodes \<Rightarrow> (nat \<times> string) nodes op" where
  "load_loop_mem s head =
     (if s = [] then returnM head
      else let (line, r) = fgets_line (MAX_LINE_LEN - 1) s;
               len = length (cstr line)
           in bindM (am_strndup_mem (Some line) (len - 1)) (\<lambda>data.
                case data of
                  None \<Rightarrow> load_loop_mem r head
                | Some d \<Rightarrow> bindM (addToTail_mem d head) (load_loop_mem r)))"
  by pat_completeness auto
termination
proof (relation "measure (\<lambda>(s, h). length s)", goal_cases)
  case (2 s head x l r len data)
  then have "length r < length s"
    by (intro fgets_line_shorter [of "MAX_LINE_LEN - 1" s l r]) (simp_all add: MAX_LINE_LEN_def)
  then show ?case by simp
next
  case (3 s head x l r len data d head')
  then have "length r < length s"
    by (intro fgets_line_shorter [of "MAX_LINE_LEN - 1" s l r]) (simp_all add: MAX_LINE_LEN_def)
  then show ?case by simp
qed simp

declare load_loop_mem.simps [simp del]

definition load_state_mem ::
  "string \<Rightarrow> (nat \<times> string) nodes \<Rightarrow> 'w world \<Rightarrow> (int \<times> (nat \<times> string) nodes) op" where
  "load_state_mem state_file head wd =
     (case fopen_r state_file wd of
        None \<Rightarrow> returnM (- 1, head)
      | Some c \<Rightarrow> bindM (load_loop_mem c head) (\<lambda>head. returnM (0, head)))"

definition entries_of :: "(nat \<times> string) nodes \<Rightarrow> string list" where
  "entries_of ns = map (\<lambda>n. snd (snd n)) ns"

lemma entries_of_simps [simp]:
  "entries_of [] = []" "entries_of (ns @ [(a, d)]) = entries_of ns @ [snd d]"
  by (simp_all add: entries_of_def)

lemma owned_entry: "owned Block (Some d) = {#(fst d, Block)#}"
  by (cases d) simp

lemma runs_load_loop:
  "runs (own_nodes own_entry ns) (load_loop_mem s ns) (Inr (load_loop s (entries_of ns))) entries_of
     (own_nodes own_entry) 0"
proof (induction "length s" arbitrary: s ns rule: less_induct)
  case less
  show ?case
  proof (cases "s = []")
    case True
    then show ?thesis by (auto simp: load_loop_mem.simps load_loop.simps intro: runs_return)
  next
    case False
    obtain l r where lr: "fgets_line (MAX_LINE_LEN - 1) s = (l, r)" by force
    with False have shorter: "length r < length s"
      by (intro fgets_line_shorter [of "MAX_LINE_LEN - 1" s l r]) (simp_all add: MAX_LINE_LEN_def)
    have tail: "runs (owned Block (Some d) + own_nodes own_entry ns) (bindM (addToTail_mem d ns) (load_loop_mem r))
        (Inr (load_loop r (entries_of ns @ [snd d]))) entries_of (own_nodes own_entry) 0" for d
      unfolding addToTail_mem_def bindM_assoc returnM_bind
      by (rule runs_new)
        (use less [OF shorter, of "ns @ [(_, d)]"] in \<open>simp add: own_entry_def owned_entry ac_simps\<close>)
    have skip: "runs (own_nodes own_entry ns) (load_loop_mem r ns) (Inr (load_loop r (entries_of ns)))
        entries_of (own_nodes own_entry) 0"
      by (rule less [OF shorter])
    show ?thesis
      using False skip tail
      by (subst load_loop_mem.simps, subst load_loop.simps)
        (auto simp: lr [simplified] Let_def am_strndup_mem_def split: option.split intro!: runs_store)
  qed
qed

definition loaded_of :: "int \<times> (nat \<times> string) nodes \<Rightarrow> int \<times> string list" where
  "loaded_of y = (fst y, entries_of (snd y))"

definition own_loaded :: "int \<times> (nat \<times> string) nodes \<Rightarrow> objects" where
  "own_loaded y = own_nodes own_entry (snd y)"

lemma runs_load_state:
  "runs (own_nodes own_entry ns) (load_state_mem f ns wd) (Inr (load_state f (entries_of ns) wd))
     loaded_of own_loaded 0"
proof (cases "fopen_r f wd")
  case None
  then show ?thesis
    by (auto simp: load_state_mem_def load_state_def loaded_of_def own_loaded_def intro: runs_return)
next
  case (Some c)
  have "runs (own_nodes own_entry ns) (bindM (load_loop_mem c ns) (\<lambda>ns. returnM (0, ns)))
      (bindR (Inr (load_loop c (entries_of ns))) (\<lambda>es. Inr (0, es))) loaded_of own_loaded 0"
    by (rule runs_then [OF runs_load_loop]) (auto simp: loaded_of_def own_loaded_def intro: runs_return)
  with Some show ?thesis by (simp add: load_state_mem_def load_state_def)
qed

section \<open>Setting up a session\<close>

definition verify_prowl_mem ::
  "('w, 'doc) ext \<Rightarrow> mHandle \<Rightarrow> statics \<Rightarrow> 'w world \<Rightarrow> (mHandle \<times> statics \<times> 'w world) op" where
  "verify_prowl_mem x s w wd =
     (if mn_prowl_key s \<noteq> None then
        bindM (on_net_mem (verifyProwlAPIKey_mem (ext_pcre x) (ext_curl x) (val (mn_prowl_key s)) w) wd)
          (\<lambda>(r, w, wd). returnM (if r = 1 then s\<lparr>mn_plain := (mn_plain s)\<lparr>prowl_key_valid := True\<rparr>\<rparr>
                                 else s, w, wd))
      else returnM (s, w, wd))"

definition printSessionSettings_mem ::
  "('w, 'doc) ext \<Rightarrow> mHandle \<Rightarrow> statics \<Rightarrow> 'w world \<Rightarrow> (mHandle \<times> statics \<times> 'w world) op" where
  "printSessionSettings_mem x s w wd =
     (if use_transmission (mn_plain s) \<and> transmission_version (mn_plain s) = AM_TRANSMISSION_1_3 then
        bindM (on_net_mem (getRPCVersion_mem (ext_pcre x) (ext_curl x) (Some (rpc_host (handle_of s)))
                 (rpc_port (mn_plain s)) (val (mn_auth s)) w) wd)
          (\<lambda>(v, w, wd). returnM (s\<lparr>mn_plain := (mn_plain s)\<lparr>rpc_version := v\<rparr>\<rparr>, w, wd))
      else returnM (s, w, wd))"

definition kept_of :: "mHandle \<times> statics \<times> 'w world \<Rightarrow> auto_handle \<times> web \<times> 'w world" where
  "kept_of = (\<lambda>(s, w, wd). (handle_of s, statics_of w, wd))"

definition own_kept :: "mHandle \<times> statics \<times> 'w world \<Rightarrow> objects" where
  "own_kept = (\<lambda>(s, w, wd). own_handle s + own_statics w)"

lemma runs_kept_session:
  "handle_of s = h \<Longrightarrow> own_handle s = P \<Longrightarrow>
   runs (P + own_statics w) (returnM (s, w, wd)) (Inr (h, statics_of w, wd)) kept_of own_kept 0"
  by (rule runs_return) (simp_all add: kept_of_def own_kept_def)

lemma handle_plain:
  "use_transmission (handle_of s) = use_transmission (mn_plain s)"
  "transmission_version (handle_of s) = transmission_version (mn_plain s)"
  "rpc_port (handle_of s) = rpc_port (mn_plain s)" "auth (handle_of s) = val (mn_auth s)"
  "match_only (handle_of s) = match_only (mn_plain s)" "bucket_changed (handle_of s) = bucket_changed (mn_plain s)"
  "prowl_key (handle_of s) = val (mn_prowl_key s)" "statefile (handle_of s) = val (mn_statefile s)" "downloads (handle_of s) = entries_of (mn_downloads s)"
  by (simp_all add: handle_of_def entries_of_def)

lemma runs_verify_prowl:
  assumes "one_name (ext_pcre x) (ext_curl x)"
  shows "runs (own_handle s + own_statics w) (verify_prowl_mem x s w wd)
    (verify_prowl x (handle_of s) (statics_of w) wd) kept_of own_kept 0"
proof -
  let ?f = "\<lambda>(r :: int, w, wd). returnM (if r = 1 then s\<lparr>mn_plain := (mn_plain s)\<lparr>prowl_key_valid := True\<rparr>\<rparr> else s, w, wd)"
  let ?g = "\<lambda>(r :: int, w, wd). Inr (if r = 1 then (handle_of s)\<lparr>prowl_key_valid := True\<rparr> else handle_of s, w, wd)"
  have "runs (own_handle s + own_statics w)
      (bindM (on_net_mem (verifyProwlAPIKey_mem (ext_pcre x) (ext_curl x) (val (mn_prowl_key s)) w) wd) ?f)
      (bindR (on_net (verifyProwlAPIKey (ext_pcre x) (ext_curl x) (val (mn_prowl_key s)) (statics_of w)) wd) ?g)
      kept_of own_kept (0 + 0)"
  proof (rule runs_bind [OF runs_on_net [OF runs_verifyProwl [OF assms]], where Q = "own_handle s"], goal_cases)
    case (2 y)
    obtain r w' wd' where y: "y = (r, w', wd')" by (metis surj_pair)
    let ?s = "if r = 1 then s\<lparr>mn_plain := (mn_plain s)\<lparr>prowl_key_valid := True\<rparr>\<rparr> else s"
    have "handle_of ?s = (if r = 1 then (handle_of s)\<lparr>prowl_key_valid := True\<rparr> else handle_of s)"
      "own_handle ?s = own_handle s" by (simp_all add: handle_of_def)
    from runs_kept_session [OF this, of w' wd'] show ?case by (simp add: y ac_simps)
  qed (simp add: ac_simps)
  then show ?thesis
    using runs_kept_session [of s "handle_of s" "own_handle s" w wd, OF refl refl]
    by (simp add: verify_prowl_mem_def verify_prowl_def handle_plain)
qed

text \<open>The answer to the request for the RPC version, when it is not freed.\<close>

definition settings_loss :: "('w, 'doc) ext \<Rightarrow> auto_handle \<Rightarrow> web \<Rightarrow> 'w world \<Rightarrow> kind multiset" where
  "settings_loss x s w wd =
     (if use_transmission s \<and> transmission_version s = AM_TRANSMISSION_1_3 then
        response_lost (sendHTTPData (ext_pcre x) (ext_curl x) (Some (rpc_url (rpc_host s) (rpc_port s)))
          (auth s) (Some session_get) (length session_get) w (net wd))
      else {#})"

lemma runs_printSessionSettings:
  assumes "one_name (ext_pcre x) (ext_curl x)"
  shows "runs (own_handle s + own_statics w) (printSessionSettings_mem x s w wd)
    (printSessionSettings x (handle_of s) (statics_of w) wd) kept_of own_kept
    (settings_loss x (handle_of s) (statics_of w) wd)"
proof -
  let ?version = "\<lambda>v s. s\<lparr>mn_plain := (mn_plain s)\<lparr>rpc_version := v\<rparr>\<rparr>"
  note version = runs_getRPCVersion [OF assms, of w "Some (rpc_host (handle_of s))" "rpc_port (mn_plain s)"
      "val (mn_auth s)" "net wd", unfolded option.case]
  let ?f = "getRPCVersion_mem (ext_pcre x) (ext_curl x) (Some (rpc_host (handle_of s))) (rpc_port (mn_plain s))
      (val (mn_auth s)) w"
  let ?g = "getRPCVersion (ext_pcre x) (ext_curl x) (Some (rpc_host (handle_of s))) (rpc_port (mn_plain s))
      (val (mn_auth s)) (statics_of w)"
  let ?lost = "response_lost (sendHTTPData (ext_pcre x) (ext_curl x)
      (Some (rpc_url (rpc_host (handle_of s)) (rpc_port (mn_plain s)))) (val (mn_auth s)) (Some session_get)
      (length session_get) (statics_of w) (net wd))"
  have net: "runs (own_statics w) (on_net_mem ?f wd) (on_net ?g wd) state_of own_state ?lost"
    by (rule runs_on_net, rule version)
  have "runs (own_handle s + own_statics w)
      (bindM (on_net_mem ?f wd) (\<lambda>(v, w, wd). returnM (?version v s, w, wd)))
      (bindR (on_net ?g wd) (\<lambda>(v, w, wd). Inr ((handle_of s)\<lparr>rpc_version := v\<rparr>, w, wd)))
      kept_of own_kept (0 + ?lost)"
  proof (rule runs_bind [OF net, where Q = "own_handle s"], goal_cases)
    case (2 y)
    obtain v w' wd' where y: "y = (v, w', wd')" by (metis surj_pair)
    have "handle_of (?version v s) = (handle_of s)\<lparr>rpc_version := v\<rparr>" "own_handle (?version v s) = own_handle s"
      by (simp_all add: handle_of_def)
    from runs_kept_session [OF this, of w' wd'] show ?case by (simp add: y ac_simps)
  qed (simp add: ac_simps)
  then show ?thesis
    using runs_kept_session [of s "handle_of s" "own_handle s" w wd, OF refl refl]
    by (simp add: printSessionSettings_mem_def printSessionSettings_def settings_loss_def handle_plain)
qed

text \<open>The previous session is freed when it has been replaced.\<close>

definition free_session :: "mHandle option \<Rightarrow> unit op" where
  "free_session p = (case p of None \<Rightarrow> returnM () | Some s \<Rightarrow> session_free_mem s)"

definition replace_session_mem ::
  "mHandle option \<Rightarrow> mHandle \<Rightarrow> 'w world \<Rightarrow> (mHandle \<times> 'w world) op" where
  "replace_session_mem old s wd =
     (case old of
        None \<Rightarrow> returnM (s, wd)
      | Some p \<Rightarrow>
          let s = s\<lparr>mn_plain := (mn_plain s)\<lparr>match_only := match_only (mn_plain p)\<rparr>\<rparr>;
              wd = (if bucket_changed (mn_plain p)
                    then snd (save_state (val (mn_statefile p)) (map Some (entries_of (mn_downloads p))) wd)
                    else wd)
          in bindM (session_free_mem p) (\<lambda>_. returnM (s, wd)))"

interpretation old_session: resource own_session free_session
proof (intro resource.intro released)
  show "runs (own_session p) (free_session p) (Inr ()) (\<lambda>_. ()) (\<lambda>_. {#}) 0" for p
    by (cases p) (auto simp: own_session_def free_session_def session.frees intro: runs_return)
qed

definition replaced_of :: "mHandle \<times> 'w world \<Rightarrow> auto_handle \<times> 'w world" where
  "replaced_of y = (handle_of (fst y), snd y)"

lemma runs_replace_session:
  "runs (own_session old + own_handle s) (replace_session_mem old s wd)
     (Inr (replace_session (map_option handle_of old) (handle_of s) wd)) replaced_of (\<lambda>y. own_handle (fst y)) 0"
proof (cases old)
  case None
  then show ?thesis
    by (auto simp: replace_session_mem_def replace_session_def own_session_def replaced_of_def intro: runs_return)
next
  case (Some p)
  show ?thesis
    unfolding Some replace_session_mem_def option.case Let_def
    by (rule session.runs_free, rule runs_return)
      (simp_all add: replace_session_def own_session_def replaced_of_def handle_plain, simp add: handle_of_def)
qed

section \<open>The daemon\<close>

record 'w mDaemon =
  md_session :: "mHandle option"
  md_closing :: bool
  md_running :: bool
  md_hup :: bool
  md_web :: statics
  md_world :: "'w world"

definition daemon_of :: "'w mDaemon \<Rightarrow> 'w daemon" where
  "daemon_of d = \<lparr>mySession = map_option handle_of (md_session d), closing = md_closing d,
     isRunning = md_running d, seenHUP = md_hup d, d_web = statics_of (md_web d), d_world = md_world d\<rparr>"

definition own_daemon :: "'w mDaemon \<Rightarrow> objects" where
  "own_daemon d = own_session (md_session d) + own_statics (md_web d)"

text \<open>\<open>setupSession\<close> behind the verification of the key, and all of it.\<close>

definition finish_setup_mem ::
  "('w, 'doc) ext \<Rightarrow> mHandle \<times> statics \<times> 'w world \<Rightarrow> 'w mDaemon \<Rightarrow> (bool \<times> 'w mDaemon) op" where
  "finish_setup_mem x y d = (case y of (s, w, wd) \<Rightarrow>
     (case mn_statefile s of
        None \<Rightarrow> liftM (Inl NullDeref)
      | Some (_, f) \<Rightarrow>
          bindM (load_state_mem f (mn_downloads s) wd) (\<lambda>(_, ds).
          bindM (printSessionSettings_mem x (s\<lparr>mn_downloads := ds\<rparr>) w wd) (\<lambda>(s, w, wd).
          returnM (True, d\<lparr>md_session := Some s, md_web := w, md_world := wd\<rparr>)))))"

definition setupSession_mem ::
  "('w, 'doc) ext \<Rightarrow> mHandle option \<Rightarrow> 'w mDaemon \<Rightarrow> (bool \<times> 'w mDaemon) op" where
  "setupSession_mem x session d =
     (case session of
        None \<Rightarrow> returnM (False, d)
      | Some s \<Rightarrow>
          (if list_empty (mn_feeds s) \<or> list_empty (mn_filters s) then returnM (False, d)
           else
             bindM (replace_session_mem (md_session d) s (md_world d)) (\<lambda>(s, wd).
             bindM (verify_prowl_mem x s (md_web d) wd) (\<lambda>y. finish_setup_mem x y d))))"

text \<open>\<open>signal_handler(SIGHUP)\<close> while no check is running.\<close>

definition reload_mem :: "('w, 'doc) ext \<Rightarrow> string \<Rightarrow> 'w mDaemon \<Rightarrow> 'w mDaemon op" where
  "reload_mem x AutoConfigFile d =
     bindM (session_init_mem (ext_env x)) (\<lambda>s.
     bindM (parse_config_file_mem (ext_pcre x) (ext_env x) (fopen_r AutoConfigFile (md_world d)) s) (\<lambda>(r, s).
       if r \<noteq> 0 then bindM (session_free_mem s) (\<lambda>_. returnM d)
       else bindM (setupSession_mem x (Some s) d) (\<lambda>(ok, d).
              if ok then returnM d else bindM (session_free_mem s) (\<lambda>_. returnM d))))"

definition signal_handler_mem ::
  "('w, 'doc) ext \<Rightarrow> string \<Rightarrow> signal \<Rightarrow> 'w mDaemon \<Rightarrow> 'w mDaemon op" where
  "signal_handler_mem x AutoConfigFile sig d =
     (case sig of
        SIGINT \<Rightarrow> returnM (d\<lparr>md_closing := True\<rparr>)
      | SIGTERM \<Rightarrow> returnM (d\<lparr>md_closing := True\<rparr>)
      | SIGHUP \<Rightarrow>
          (if md_running d \<or> md_session d = None then returnM (d\<lparr>md_hup := True\<rparr>)
           else bindM (reload_mem x AutoConfigFile d) (\<lambda>d. returnM (d\<lparr>md_hup := False\<rparr>))))"

text \<open>The process is about to end: what the pointers of the daemon still hold is not used again.\<close>

definition shutdown_daemon_mem :: "mHandle option \<Rightarrow> 'w mDaemon \<Rightarrow> 'w mDaemon op" where
  "shutdown_daemon_mem as d =
     (let wd = (case as of
                  None \<Rightarrow> md_world d
                | Some s \<Rightarrow>
                    if bucket_changed (mn_plain s)
                    then snd (save_state (val (mn_statefile s)) (map Some (entries_of (mn_downloads s)))
                                (md_world d))
                    else md_world d)
      in bindM (free_session as) (\<lambda>_.
         bindM (SessionID_free_mem (md_web d)) (\<lambda>w.
         returnM (d\<lparr>md_web := w, md_world := log_close (pid_close wd)\<rparr>))))"

lemma runs_shutdown:
  "runs (own_session as + own_statics (md_web d)) (shutdown_daemon_mem as d)
     (Inr (shutdown_daemon (map_option handle_of as) (daemon_of d))) daemon_of (\<lambda>_. {#}) 0"
  unfolding shutdown_daemon_mem_def Let_def SessionID_free_mem_def bindM_assoc returnM_bind
  by (rule old_session.runs_free, rule block.runs_free, rule runs_return)
    (simp_all add: own_statics_def daemon_of_def shutdown_daemon_def handle_plain SessionID_free_def
      statics_of_def split: option.split)

text \<open>A session that is refused still belongs to the caller.\<close>

definition own_setup :: "mHandle \<Rightarrow> bool \<times> 'w mDaemon \<Rightarrow> objects" where
  "own_setup s y = own_daemon (snd y) + (if fst y then {#} else own_handle s)"

definition finish_setup ::
  "('w, 'doc) ext \<Rightarrow> auto_handle \<times> web \<times> 'w world \<Rightarrow> 'w daemon \<Rightarrow> (bool \<times> 'w daemon) res" where
  "finish_setup x y d = (case y of (s, w, wd) \<Rightarrow>
     (case statefile s of
        None \<Rightarrow> Inl NullDeref
      | Some f \<Rightarrow>
          bindR (printSessionSettings x (s\<lparr>downloads := snd (load_state f (downloads s) wd)\<rparr>) w wd)
            (\<lambda>(s, w, wd). Inr (True, d\<lparr>mySession := Some s, d_web := w, d_world := wd\<rparr>))))"

lemma settings_loss_downloads [simp]:
  "settings_loss x (s\<lparr>downloads := ds\<rparr>) w wd = settings_loss x s w wd"
  by (simp add: settings_loss_def rpc_host_def)

lemma runs_finish_setup:
  assumes "one_name (ext_pcre x) (ext_curl x)"
  shows "runs (own_kept y) (finish_setup_mem x y d) (finish_setup x (kept_of y) (daemon_of d))
    (map_prod id daemon_of) (own_setup s0) (case kept_of y of (s, w, wd) \<Rightarrow> settings_loss x s w wd)"
proof -
  obtain s w wd where y: "y = (s, w, wd)" by (metis surj_pair)
  show ?thesis
  proof (cases "mn_statefile s")
    case None
    then show ?thesis by (simp add: y kept_of_def finish_setup_def finish_setup_mem_def handle_plain runs_fault)
  next
    case (Some p)
    obtain a f where p: "p = (a, f)" by force
    have store: "runs (own_kept z) (case z of (s, w, wd) \<Rightarrow> returnM (True, d\<lparr>md_session := Some s, md_web := w, md_world := wd\<rparr>))
        (case kept_of z of (s, w, wd) \<Rightarrow> Inr (True, (daemon_of d)\<lparr>mySession := Some s, d_web := w, d_world := wd\<rparr>))
        (map_prod id daemon_of) (own_setup s0) 0" for z
      by (cases z) (auto simp: own_setup_def own_daemon_def own_session_def own_kept_def kept_of_def daemon_of_def
          intro!: runs_return)
    let ?s = "\<lambda>ds. s\<lparr>mn_downloads := ds\<rparr>"
    have s: "handle_of (?s ds) = (handle_of s)\<lparr>downloads := entries_of ds\<rparr>" for ds
      by (simp add: handle_of_def entries_of_def)
    have "runs (own_kept y) (finish_setup_mem x y d)
      (bindR (Inr (load_state f (entries_of (mn_downloads s)) wd)) (\<lambda>(_, es).
         bindR (printSessionSettings x ((handle_of s)\<lparr>downloads := es\<rparr>) (statics_of w) wd)
           (\<lambda>(s, w, wd). Inr (True, (daemon_of d)\<lparr>mySession := Some s, d_web := w, d_world := wd\<rparr>))))
      (map_prod id daemon_of) (own_setup s0) (settings_loss x (handle_of s) (statics_of w) wd + 0)"
      unfolding y finish_setup_mem_def prod.case Some option.case p
    proof (rule runs_bind [OF runs_load_state, where Q = "own_handle (?s []) + own_statics w"], goal_cases)
      case 1
      show ?case by (simp add: own_kept_def own_handle_def ac_simps)
    next
      case (2 r)
      obtain k ds where r: "r = (k, ds)" by force
      have "runs (own_handle (?s ds) + own_statics w)
          (bindM (printSessionSettings_mem x (?s ds) w wd) (\<lambda>(s, w, wd). returnM (True, d\<lparr>md_session := Some s, md_web := w, md_world := wd\<rparr>)))
          (bindR (printSessionSettings x (handle_of (?s ds)) (statics_of w) wd)
            (\<lambda>(s, w, wd). Inr (True, (daemon_of d)\<lparr>mySession := Some s, d_web := w, d_world := wd\<rparr>)))
          (map_prod id daemon_of) (own_setup s0) (settings_loss x (handle_of (?s ds)) (statics_of w) wd)"
        by (rule runs_then [OF runs_printSessionSettings [OF assms] store])
      then show ?case by (simp add: r s loaded_of_def own_loaded_def own_handle_def ac_simps)
    qed
    then show ?thesis by (simp add: y kept_of_def finish_setup_def handle_plain Some p split_beta)
  qed
qed

definition setup_loss :: "('w, 'doc) ext \<Rightarrow> auto_handle \<Rightarrow> 'w daemon \<Rightarrow> kind multiset" where
  "setup_loss x s d =
     (if list_empty (feeds s) \<or> list_empty (filters s) then {#}
      else case replace_session (mySession d) s (d_world d) of (s, wd) \<Rightarrow>
        (case verify_prowl x s (d_web d) wd of
           Inl _ \<Rightarrow> {#}
         | Inr (s, w, wd) \<Rightarrow> settings_loss x s w wd))"

lemma setupSession_parts:
  "setupSession x (Some s) d =
     (if list_empty (feeds s) \<or> list_empty (filters s) then Inr (False, d)
      else bindR (Inr (replace_session (mySession d) s (d_world d))) (\<lambda>(s, wd).
        bindR (verify_prowl x s (d_web d) wd) (\<lambda>y. finish_setup x y d)))"
  by (auto simp: setupSession_def finish_setup_def Let_def intro!: bindR_cong split: prod.split)

lemma handle_empty:
  "list_empty (feeds (handle_of s)) = list_empty (mn_feeds s)"
  "list_empty (filters (handle_of s)) = list_empty (mn_filters s)"
  by (simp_all add: list_empty_def handle_of_def)

lemma runs_setupSession:
  assumes "one_name (ext_pcre x) (ext_curl x)"
  shows "runs (own_daemon d + own_handle s) (setupSession_mem x (Some s) d)
    (setupSession x (Some (handle_of s)) (daemon_of d)) (map_prod id daemon_of) (own_setup s)
    (setup_loss x (handle_of s) (daemon_of d))"
proof (cases "list_empty (mn_feeds s) \<or> list_empty (mn_filters s)")
  case True
  moreover have "runs (own_daemon d + own_handle s) (returnM (False, d)) (Inr (False, daemon_of d))
      (map_prod id daemon_of) (own_setup s) 0"
    by (rule runs_return) (simp_all add: own_setup_def)
  ultimately show ?thesis
    by (auto simp: setupSession_parts setupSession_mem_def setup_loss_def handle_empty)
next
  case False
  let ?d = "daemon_of d" and ?h = "handle_of s"
  obtain h wd where hw: "replace_session (mySession ?d) ?h (d_world ?d) = (h, wd)" by force
  let ?n = "case verify_prowl x h (d_web ?d) wd of Inl _ \<Rightarrow> {#} | Inr (s, w, wd) \<Rightarrow> settings_loss x s w wd"
  have d: "d_web ?d = statics_of (md_web d)" "d_world ?d = md_world d"
    "mySession ?d = map_option handle_of (md_session d)" by (simp_all add: daemon_of_def)
  have "runs (own_daemon d + own_handle s)
      (bindM (replace_session_mem (md_session d) s (md_world d)) (\<lambda>(s, wd).
         bindM (verify_prowl_mem x s (md_web d) wd) (\<lambda>y. finish_setup_mem x y d)))
      (bindR (Inr (replace_session (mySession ?d) ?h (md_world d))) (\<lambda>(s, wd).
         bindR (verify_prowl x s (d_web ?d) wd) (\<lambda>y. finish_setup x y ?d)))
      (map_prod id daemon_of) (own_setup s) (?n + 0)"
    unfolding d(3)
  proof (rule runs_bind [OF runs_replace_session, where Q = "own_statics (md_web d)"], goal_cases)
    case 1
    show ?case by (simp add: own_daemon_def ac_simps)
  next
    case (2 y)
    obtain s1 wd1 where y: "y = (s1, wd1)" by force
    with 2 hw d have h: "handle_of s1 = h" "wd1 = wd" by (simp_all add: replaced_of_def)
    have "runs (own_handle s1 + own_statics (md_web d))
        (bindM (verify_prowl_mem x s1 (md_web d) wd) (\<lambda>y. finish_setup_mem x y d))
        (bindR (verify_prowl x (handle_of s1) (statics_of (md_web d)) wd) (\<lambda>y. finish_setup x y ?d))
        (map_prod id daemon_of) (own_setup s) (?n + 0)"
    proof (rule runs_bind [OF runs_verify_prowl [OF assms], where Q = "{#}"], goal_cases)
      case (2 z)
      then show ?case using runs_finish_setup [OF assms, of z d s] by (simp add: h d split: prod.splits)
    qed simp
    then show ?case by (simp add: y h d replaced_of_def)
  qed
  with False show ?thesis
    by (simp add: setupSession_parts setupSession_mem_def setup_loss_def handle_empty hw [unfolded d] d)
qed

text \<open>What a reload loses: options given twice in the file, and an answer that is not freed.\<close>

definition reload_loss :: "('w, 'doc) ext \<Rightarrow> string \<Rightarrow> 'w daemon \<Rightarrow> kind multiset" where
  "reload_loss x AutoConfigFile d =
     (case session_init (ext_env x) of
        Inl _ \<Rightarrow> {#}
      | Inr s \<Rightarrow>
          (let file = fopen_r AutoConfigFile (d_world d)
           in blocks (config_loss (ext_pcre x) (ext_env x) file s) +
              (case parse_config_file (ext_pcre x) (ext_env x) file s of
                 Inl _ \<Rightarrow> {#}
               | Inr (r, s) \<Rightarrow> if r \<noteq> 0 then {#} else setup_loss x s d)))"

lemma runs_refused:
  "runs (own_daemon d + own_handle s) (bindM (session_free_mem s) (\<lambda>_. returnM d)) (Inr (daemon_of d))
     daemon_of own_daemon 0"
  by (rule session.runs_free, rule runs_return) (simp_all add: ac_simps)

lemma runs_use_session:
  assumes "one_name (ext_pcre x) (ext_curl x)"
  shows "runs (own_daemon d + own_handle s)
    (bindM (setupSession_mem x (Some s) d) (\<lambda>(ok, d).
       if ok then returnM d else bindM (session_free_mem s) (\<lambda>_. returnM d)))
    (bindR (setupSession x (Some (handle_of s)) (daemon_of d)) (\<lambda>(ok, d). Inr d))
    daemon_of own_daemon (setup_loss x (handle_of s) (daemon_of d))"
proof (rule runs_then [OF runs_setupSession [OF assms]], goal_cases)
  case (1 y)
  obtain ok d' where y: "y = (ok, d')" by force
  have "runs (own_daemon d') (returnM d') (Inr (daemon_of d')) daemon_of own_daemon 0"
    by (rule runs_return) simp_all
  with runs_refused [of d' s] show ?case by (simp add: y own_setup_def)
qed

lemma runs_reload:
  assumes "one_name (ext_pcre x) (ext_curl x)"
  shows "runs (own_daemon d) (reload_mem x cfg d) (reload x cfg (daemon_of d)) daemon_of own_daemon
    (reload_loss x cfg (daemon_of d))"
proof -
  let ?file = "fopen_r cfg (md_world d)" and ?e = "ext_env x" and ?re = "ext_pcre x"
  have contents: "fopen_r cfg (d_world (daemon_of d)) = ?file" by (simp add: daemon_of_def)
  let ?used = "\<lambda>s. bindM (setupSession_mem x (Some s) d) (\<lambda>(ok, d).
       if ok then returnM d else bindM (session_free_mem s) (\<lambda>_. returnM d))"
  have parsed: "runs (own_handle s + own_daemon d)
      (bindM (parse_config_file_mem ?re ?e ?file s) (\<lambda>(r, s).
         if r \<noteq> 0 then bindM (session_free_mem s) (\<lambda>_. returnM d) else ?used s))
      (bindR (parse_config_file ?re ?e ?file (handle_of s)) (\<lambda>(r, s).
         if r \<noteq> 0 then Inr (daemon_of d)
         else bindR (setupSession x (Some s) (daemon_of d)) (\<lambda>(ok, d). Inr d)))
      daemon_of own_daemon
      ((case parse_config_file ?re ?e ?file (handle_of s) of
          Inl _ \<Rightarrow> {#} | Inr (r, s) \<Rightarrow> if r \<noteq> 0 then {#} else setup_loss x s (daemon_of d)) +
       blocks (config_loss ?re ?e ?file (handle_of s)))" for s
  proof (rule runs_bind [OF runs_parse_config_file, where Q = "own_daemon d"], goal_cases)
    case (2 y)
    obtain r s1 where y: "y = (r, s1)" by force
    with 2 have v: "parse_config_file ?re ?e ?file (handle_of s) = Inr (r, handle_of s1)" by (simp add: set_of_def)
    show ?case
      using runs_refused [of d s1] runs_use_session [OF assms, of d s1]
      by (simp add: y v set_of_def own_set_def ac_simps)
  qed simp
  have "runs (own_daemon d) (reload_mem x cfg d) (reload x cfg (daemon_of d)) daemon_of own_daemon
      (reload_loss x cfg (daemon_of d) + 0)"
    unfolding reload_mem_def reload_def contents
  proof (rule runs_bind [OF runs_session_init, where Q = "own_daemon d"], goal_cases)
    case (2 s)
    with parsed [of s] show ?case by (simp add: reload_loss_def contents Let_def ac_simps)
  qed simp
  then show ?thesis by simp
qed

section \<open>Properties\<close>

text \<open>What a signal loses: nothing, unless it is a reload.\<close>

definition signal_loss :: "('w, 'doc) ext \<Rightarrow> string \<Rightarrow> signal \<Rightarrow> 'w daemon \<Rightarrow> kind multiset" where
  "signal_loss x cfg sig d =
     (if sig = SIGHUP \<and> \<not> isRunning d \<and> mySession d \<noteq> None then reload_loss x cfg d else {#})"

lemma runs_flagged:
  assumes "daemon_of d' = c" "own_daemon d' = P"
  shows "runs P (returnM d') (Inr c) daemon_of own_daemon 0"
  by (rule runs_return) (use assms in simp_all)

lemma runs_signal:
  assumes "one_name (ext_pcre x) (ext_curl x)"
  shows "runs (own_daemon d) (signal_handler_mem x cfg sig d) (signal_handler x cfg sig (daemon_of d))
    daemon_of own_daemon (signal_loss x cfg sig (daemon_of d))"
proof -
  have flag: "runs (own_daemon d) (returnM (d\<lparr>md_closing := True\<rparr>)) (Inr ((daemon_of d)\<lparr>closing := True\<rparr>))
      daemon_of own_daemon 0"
    "runs (own_daemon d) (returnM (d\<lparr>md_hup := True\<rparr>)) (Inr ((daemon_of d)\<lparr>seenHUP := True\<rparr>)) daemon_of own_daemon 0"
    by (rule runs_flagged; simp add: daemon_of_def own_daemon_def)+
  have "runs (own_daemon d) (bindM (reload_mem x cfg d) (\<lambda>d. returnM (d\<lparr>md_hup := False\<rparr>)))
      (bindR (reload x cfg (daemon_of d)) (\<lambda>d. Inr (d\<lparr>seenHUP := False\<rparr>))) daemon_of own_daemon
      (reload_loss x cfg (daemon_of d))"
    by (rule runs_then [OF runs_reload [OF assms]], rule runs_flagged) (simp_all add: daemon_of_def own_daemon_def)
  moreover have "isRunning (daemon_of d) = md_running d" "mySession (daemon_of d) = None \<longleftrightarrow> md_session d = None"
    by (simp_all add: daemon_of_def)
  ultimately show ?thesis
    using flag by (cases sig) (auto simp: signal_handler_mem_def signal_handler_def signal_loss_def)
qed

text \<open>C11: memory of a reload: every signal handler on the ledger computes what it computes on plain values,
  with the same faults; after it the daemon owns one session again, the new one or the old one,
  and whichever of the two was dropped has been freed to its last node, exactly once.  What
  nothing points to is what the new file gives twice and an answer of Transmission that is not
  freed.\<close>

theorem signal_memory:
  assumes "one_name (ext_pcre x) (ext_curl x)" "live L = own_daemon d + F"
  shows "case signal_handler x cfg sig (daemon_of d) of
      Inl f \<Rightarrow> signal_handler_mem x cfg sig d L = Inl f
    | Inr c \<Rightarrow> \<exists>d' L' X. signal_handler_mem x cfg sig d L = Inr (d', L') \<and> daemon_of d' = c \<and>
        live L' = own_daemon d' + X + F \<and> lost (signal_loss x cfg sig (daemon_of d)) X"
  using runsD [OF runs_signal [OF assms(1)] assms(2), of cfg sig]
  by (auto simp: accounts_def split: sum.split)

definition lab_mem_daemon :: "unit mDaemon" where
  "lab_mem_daemon = \<lparr>md_session = Some blank_handle, md_closing = False, md_running = False, md_hup = True,
     md_web = statics0, md_world = lab_disk\<rparr>"

theorem signal_memory_witness:
  "case signal_handler lab_ext2 ''/c'' SIGHUP (daemon_of lab_mem_daemon) of
      Inl f \<Rightarrow> signal_handler_mem lab_ext2 ''/c'' SIGHUP lab_mem_daemon
        (ledger0\<lparr>live := {#(0, Block)#}, fresh := 1\<rparr>) = Inl f
    | Inr c \<Rightarrow> \<exists>d' L' X. signal_handler_mem lab_ext2 ''/c'' SIGHUP lab_mem_daemon
        (ledger0\<lparr>live := {#(0, Block)#}, fresh := 1\<rparr>) = Inr (d', L') \<and> daemon_of d' = c \<and>
        live L' = own_daemon d' + X + {#} \<and> lost (signal_loss lab_ext2 ''/c'' SIGHUP (daemon_of lab_mem_daemon)) X"
proof (rule signal_memory)
  show "one_name (ext_pcre lab_ext2) (ext_curl lab_ext2)" using one_name_lab by (simp add: lab_ext2_def)
  show "live (ledger0\<lparr>live := {#(0, Block)#}, fresh := 1\<rparr>) = own_daemon lab_mem_daemon + {#}"
    by (simp add: lab_mem_daemon_def own_daemon_def own_session_def own_handle_def blank_handle_def
        own_statics_def statics0_def)
qed

text \<open>Memory at the end: \<open>shutdown_daemon\<close> frees the session and the session identifier, so that of
  all that the daemon owned nothing is left, and writes the history first.\<close>

theorem shutdown_memory:
  assumes "live L = own_daemon d + F"
  shows "\<exists>d' L'. shutdown_daemon_mem (md_session d) d L = Inr (d', L') \<and> live L' = F \<and>
    daemon_of d' = shutdown_daemon (mySession (daemon_of d)) (daemon_of d)"
  using runsD [OF runs_shutdown, of L "md_session d" d F] assms
  by (auto simp: accounts_def own_daemon_def daemon_of_def)

end
