(* ===== verification/Am_Reload_Laws.thy ===== *)
theory Am_Reload_Laws
  imports Am_Session_Memory
begin

text \<open>
  What becomes of the session of \<^verbatim>\<open>src/automatic.c\<close> when a SIGHUP arrives while it is being freed:
  inside the deferred reload, and inside the shutdown, where SIGHUP is not blocked and
  \<open>mySession\<close> still points to the handle.
\<close>

section \<open>Addresses are not used again\<close>

text \<open>Whatever is live after an operation was live before or is new.\<close>

definition only_new :: "'a op \<Rightarrow> bool" where
  "only_new m \<longleftrightarrow> (\<forall>L x L'. m L = Inr (x, L') \<longrightarrow> fresh L \<le> fresh L' \<and>
     (\<forall>o1. o1 \<in># live L' \<longrightarrow> o1 \<in># live L \<or> fresh L \<le> fst o1))"

lemma only_newD:
  assumes "only_new m" "m L = Inr (x, L')" "(a, k) \<notin># live L" "a < fresh L"
  shows "(a, k) \<notin># live L' \<and> a < fresh L'"
  using assms unfolding only_new_def by (metis fst_conv leD order_less_le_trans)

lemma only_new_bind: "only_new m \<Longrightarrow> (\<And>x. only_new (f x)) \<Longrightarrow> only_new (bindM m f)"
  unfolding only_new_def bindM_def
  by (clarsimp simp: bindR_Inr_iff) (meson order_trans)

lemma only_new_basic:
  "only_new (returnM x)" "only_new (liftM r)" "only_new (acquire k)" "only_new (Am_Memory.release k p)"
  by (auto simp: only_new_def returnM_def liftM_def acquire_def Am_Memory.release_def bindR_Inr_iff
      dest: in_diffD split: option.splits prod.splits if_splits)

lemma only_new_lift: "(\<And>x. r = Inr x \<Longrightarrow> only_new (f x)) \<Longrightarrow> only_new (bindM (liftM r) f)"
  by (cases r) (auto simp: only_new_def bindM_def liftM_def)

lemma only_new_cases:
  "only_new a \<Longrightarrow> only_new b \<Longrightarrow> only_new (if c then a else b)"
  "only_new n \<Longrightarrow> (\<And>z. only_new (s z)) \<Longrightarrow> only_new (case p of None \<Rightarrow> n | Some z \<Rightarrow> s z)"
  "(\<And>u v. only_new (g u v)) \<Longrightarrow> only_new (case y of (u, v) \<Rightarrow> g u v)"
  by (auto split: option.split prod.split)

lemma only_new_blocks:
  "only_new (am_free p)" "only_new new_block" "only_new (store v)" "only_new (am_malloc n)"
  "only_new (am_strdup_mem s)"
  unfolding am_free_def new_block_def store_def am_malloc_def am_strdup_mem_def
  by (intro only_new_bind only_new_basic only_new_cases)+

lemmas only_new_rules = only_new_bind only_new_basic only_new_cases only_new_blocks

lemma only_new_freeList: "(\<And>d. only_new (free d)) \<Longrightarrow> only_new (freeList_mem free ns)"
  by (induction free ns rule: freeList_mem.induct) (auto intro!: only_new_rules)

section \<open>The session that reading a file makes\<close>

lemma only_new_session_free: "only_new (session_free_mem s)"
  unfolding session_free_mem_def feed_free_mem_def entry_free_def filter_free_mem_def
  by (intro only_new_rules only_new_freeList)

lemma only_new_session_init: "only_new (session_init_mem e)"
  unfolding session_init_mem_def get_tr_folder_mem_def state_path_mem_def
  by (intro only_new_rules)

lemma only_new_set_path: "only_new (set_path_mem e src dst)"
  unfolding set_path_mem_def resolve_path_mem_def by (intro only_new_rules)

lemma only_new_parseUInt: "only_new (parseUInt_mem str)"
  unfolding parseUInt_mem_def by (intro only_new_rules)

lemma only_new_add: "only_new (addItem_mem i ns)"
  unfolding addItem_mem_def by (intro only_new_rules)

lemma only_new_subOption: "only_new (parseSubOption_mem line)"
  unfolding parseSubOption_mem_def by (intro only_new_rules)

lemma only_new_multi_loop: "only_new (multi_loop_mem rest opts)"
proof (induction "length rest" arbitrary: rest opts rule: less_induct)
  case less
  have "only_new (case x of None \<Rightarrow> returnM opts
      | Some (tmp, rest') \<Rightarrow> bindM (if tmp \<noteq> [] then parseSubOption_mem (cstr tmp) else returnM None)
          (\<lambda>i. bindM (add_option i opts) (multi_loop_mem rest')))"
    if "rest \<noteq> []" "collect NUL (dropWhile isspace rest) [] None = Inr x" for x
  proof (cases x)
    case (Some y)
    obtain tmp rest' where y: "y = (tmp, rest')" by force
    with that Some have "length rest' < length rest" using collect_progress by blast
    with less show ?thesis
      unfolding Some y option.case prod.case add_option_def
      by (intro only_new_rules only_new_subOption only_new_add) auto
  qed (simp add: only_new_basic)
  then show ?case by (subst multi_loop_mem.simps) (auto intro: only_new_basic only_new_lift)
qed

lemma only_new_with_options: "only_new m \<Longrightarrow> only_new (with_options opts m)"
  unfolding with_options_def freeOptionItem_def
  by (intro only_new_rules only_new_freeList)

lemma only_new_filter_options: "only_new (filter_options_mem e opts f)"
  by (induction opts arbitrary: f)
    (auto simp: filter_option_mem_def Let_def split_beta intro!: only_new_rules only_new_set_path)

lemma only_new_feed_options: "only_new (feed_options_mem opts f)"
  by (induction opts arbitrary: f)
    (auto simp: feed_option_mem_def Let_def split_beta intro!: only_new_rules)

lemma only_new_parseFilter: "only_new (parseFilter_mem e head str)"
  unfolding parseFilter_mem_def parseMultiOption_mem_def filter_new_mem_def keep_filter_mem_def
    filter_free_mem_def
  by (intro only_new_rules only_new_multi_loop only_new_with_options only_new_filter_options only_new_add)

lemma only_new_parseFeed: "only_new (parseFeed_mem re head str)"
  unfolding parseFeed_mem_def parseMultiOption_mem_def feed_new_mem_def keep_feed_mem_def
    feed_free_mem_def parseCookiesFromURL_mem_def getRegExMatch_mem_def
  by (intro only_new_rules only_new_multi_loop only_new_with_options only_new_feed_options only_new_add)

lemma only_new_set_option: "only_new (am_set_option_mem re e as opt param)"
  unfolding am_set_option_mem_def
  by (intro only_new_rules only_new_parseFeed only_new_parseFilter only_new_set_path only_new_parseUInt)

lemma only_new_parse_loop: "only_new (parse_loop_mem re e line pos as)"
proof (induction "length line - pos" arbitrary: pos as rule: less_induct)
  case less
  have rest: "only_new (case resume line q of Inl b \<Rightarrow> returnM (b, as')
      | Inr p \<Rightarrow> parse_loop_mem re e line p as')"
    if "next_option line pos = Inr (Set opt param q)" for opt param q as'
    using less turn_smaller(2) [OF that] by (auto intro: only_new_basic split: sum.split)
  have "only_new (case t of End b \<Rightarrow> returnM (b, as) | Skip p \<Rightarrow> parse_loop_mem re e line p as
      | Set opt param q \<Rightarrow> bindM (am_set_option_mem re e as opt param) (\<lambda>(r, as).
          if r = FAILURE then returnM (True, as)
          else (case resume line q of Inl b \<Rightarrow> returnM (b, as) | Inr p \<Rightarrow> parse_loop_mem re e line p as)))"
    if t: "next_option line pos = Inr t" for t
  proof (cases t)
    case (Skip p)
    with less turn_smaller(1) t show ?thesis by auto
  next
    case (Set opt param q)
    with rest t show ?thesis by (auto intro!: only_new_rules only_new_set_option)
  qed (simp add: only_new_basic)
  then show ?case by (subst parse_loop_mem.simps) (auto intro: only_new_basic only_new_lift)
qed

lemma only_new_parse_config_file: "only_new (parse_config_file_mem re e contents as)"
  unfolding parse_config_file_mem_def Let_def
  by (intro only_new_rules only_new_parse_loop)

section \<open>Freeing what is dead\<close>

text \<open>A release either fails because something is not live any more, or takes away.\<close>

definition only_frees :: "unit op \<Rightarrow> bool" where
  "only_frees m \<longleftrightarrow> (\<forall>L. m L = Inl BadFree \<or> (\<exists>L'. m L = Inr ((), L') \<and> live L' \<subseteq># live L))"

lemma only_frees_am_free: "only_frees (am_free p)"
  by (auto simp: only_frees_def am_free_def Am_Memory.release_def split: option.split)

lemma only_frees_skip: "only_frees (returnM ())"
  by (simp add: only_frees_def returnM_def)

lemma only_frees_bind: "only_frees m \<Longrightarrow> only_frees n \<Longrightarrow> only_frees (bindM m (\<lambda>_. n))"
  unfolding only_frees_def bindM_def
  by (metis (no_types, lifting) bindR_simps case_prod_conv subset_mset.order_trans)

lemma only_frees_list: "(\<And>d. only_frees (free d)) \<Longrightarrow> only_frees (freeList_mem free ns)"
  by (induction free ns rule: freeList_mem.induct)
    (auto intro!: only_frees_skip only_frees_bind only_frees_am_free)

definition fails_dead :: "nat \<times> kind \<Rightarrow> unit op \<Rightarrow> bool" where
  "fails_dead o1 m \<longleftrightarrow> (\<forall>L. o1 \<notin># live L \<longrightarrow> m L = Inl BadFree)"

lemma fails_dead_free: "fails_dead (a, Block) (am_free (Some (a, v)))"
  by (simp add: fails_dead_def free_dead)

lemma fails_dead_bind:
  assumes "only_frees m" "fails_dead o1 n"
  shows "fails_dead o1 (bindM m (\<lambda>_. n))"
  unfolding fails_dead_def
proof (intro allI impI)
  fix L :: ledger
  assume o1: "o1 \<notin># live L"
  consider "m L = Inl BadFree" | L' where "m L = Inr ((), L')" "live L' \<subseteq># live L"
    using assms(1) unfolding only_frees_def by blast
  then show "bindM m (\<lambda>_. n) L = Inl BadFree"
  proof cases
    case 2
    with o1 have "o1 \<notin># live L'" by (auto dest: mset_subset_eqD)
    with 2 assms(2) show ?thesis by (simp add: bindM_def fails_dead_def)
  qed (simp add: bindM_def)
qed

lemma session_free_dead: "fails_dead (mn_self s, Block) (session_free_mem s)"
  unfolding session_free_mem_def feed_free_mem_def entry_free_def filter_free_mem_def
  by (intro fails_dead_bind fails_dead_free only_frees_am_free only_frees_list only_frees_bind)

text \<open>A reload whose configuration is accepted frees the session it replaces.\<close>

lemma reload_frees_dead:
  assumes "session_init (ext_env x) = Inr s0"
    and "parse_config_file (ext_pcre x) (ext_env x) (fopen_r cfg (md_world d)) s0 = Inr (0, s)"
    and "\<not> list_empty (feeds s)" "\<not> list_empty (filters s)"
    and "md_session d = Some p" "(mn_self p, Block) \<notin># live L" "mn_self p < fresh L"
  shows "reload_mem x cfg d L = Inl BadFree"
proof -
  let ?dead = "\<lambda>L. (mn_self p, Block) \<notin># live L \<and> mn_self p < fresh L"
  let ?file = "fopen_r cfg (md_world d)"
  obtain h L1 X where 1: "session_init_mem (ext_env x) L = Inr (h, L1)" "handle_of h = s0"
    "live L1 = own_handle h + X + live L"
    using runsD [OF runs_session_init, of L "live L" "ext_env x"] assms(1) by (auto elim!: accountsE)
  have d1: "?dead L1" using only_newD [OF only_new_session_init 1(1)] assms(6,7) by blast
  have "live L1 = own_handle h + (X + live L)" by (simp add: 1(3) ac_simps)
  from runsD [OF runs_parse_config_file this, of "ext_pcre x" "ext_env x" ?file] 1(2) assms(2)
  obtain y L2 where 2: "parse_config_file_mem (ext_pcre x) (ext_env x) ?file h L1 = Inr (y, L2)"
    "set_of y = (0, s)" by (auto elim!: accountsE)
  obtain h' where y: "y = (0, h')" "handle_of h' = s" using 2(2) by (cases y) (auto simp: set_of_def)
  have "?dead L2" using only_newD [OF only_new_parse_config_file 2(1)] d1 by blast
  then have "session_free_mem p L2 = Inl BadFree" using session_free_dead by (simp add: fails_dead_def)
  moreover have "\<not> list_empty (mn_feeds h')" "\<not> list_empty (mn_filters h')"
    using assms(3,4) y(2) handle_empty [of h'] by simp_all
  ultimately show ?thesis
    using 1(1) 2(1) y(1) assms(5)
    by (simp add: reload_mem_def bindM_def setupSession_mem_def replace_session_mem_def Let_def)
qed

section \<open>Property\<close>

text \<open>C40: a SIGHUP while the session is being freed frees it twice: \<open>session_free(mySession)\<close> leaves \<open>mySession\<close>
  pointing to the freed handle, in \<open>setupSession\<close> until the new session is stored, in
  \<open>shutdown_daemon\<close> until the process ends.  When the handler runs behind that call, outside a
  check, and the configuration it reads is accepted, it frees the dead handle: the fault
  \<open>BadFree\<close>.  The ledger is one on which no object is live twice and every address has been
  handed out.\<close>

theorem nested_reload_frees_twice:
  assumes "md_session d = Some p" "\<not> md_running d" "live L = own_daemon d + F"
    and "\<forall>o1. count (live L) o1 \<le> 1" "\<forall>o1 \<in># live L. fst o1 < fresh L"
    and "session_init (ext_env x) = Inr s0"
    and "parse_config_file (ext_pcre x) (ext_env x) (fopen_r cfg (md_world d)) s0 = Inr (0, s)"
    and "\<not> list_empty (feeds s)" "\<not> list_empty (filters s)"
  shows "(\<exists>L1. session_free_mem p L = Inr ((), L1)) \<and>
    bindM (session_free_mem p) (\<lambda>_. signal_handler_mem x cfg SIGHUP d) L = Inl BadFree"
proof -
  have "live L = own_handle p + (own_statics (md_web d) + F)"
    using assms(1,3) by (simp add: own_daemon_def own_session_def ac_simps)
  from session.free_owned [OF this] obtain L1 where
    1: "session_free_mem p L = Inr ((), L1)" "live L1 = own_statics (md_web d) + F" by blast
  have self: "(mn_self p, Block) \<in># own_handle p" by (simp add: own_handle_def)
  then have "1 \<le> count (own_handle p) (mn_self p, Block)" by (simp add: count_greater_eq_one_iff)
  moreover have "count (own_handle p) (mn_self p, Block) + count (live L1) (mn_self p, Block) \<le> 1"
    using assms(4) \<open>live L = own_handle p + _\<close> 1(2) by (metis count_union)
  ultimately have "count (live L1) (mn_self p, Block) = 0" by linarith
  then have dead: "(mn_self p, Block) \<notin># live L1" by (simp add: not_in_iff)
  have "(mn_self p, Block) \<in># live L" using self \<open>live L = own_handle p + _\<close> by simp
  then have "mn_self p < fresh L" using assms(5) by (metis fst_conv)
  moreover have "fresh L \<le> fresh L1" using only_new_session_free [of p] 1(1) unfolding only_new_def by blast
  ultimately have "reload_mem x cfg d L1 = Inl BadFree"
    using assms(8,9) by (intro reload_frees_dead [OF assms(6,7) _ _ assms(1) dead]) simp_all
  then show ?thesis
    using 1(1) assms(1,2) by (simp add: bindM_def signal_handler_mem_def)
qed

text \<open>The daemon of the other examples, with a session of one block.\<close>

theorem nested_reload_frees_twice_witness:
  "(\<exists>L1. session_free_mem blank_handle (ledger0\<lparr>live := {#(0, Block)#}, fresh := 1\<rparr>) = Inr ((), L1)) \<and>
    bindM (session_free_mem blank_handle) (\<lambda>_. signal_handler_mem lab_ext2 ''/c'' SIGHUP lab_mem_daemon)
      (ledger0\<lparr>live := {#(0, Block)#}, fresh := 1\<rparr>) = Inl BadFree"
proof -
  let ?L = "ledger0\<lparr>live := {#(0, Block)#}, fresh := 1\<rparr>"
  have e: "ext_env lab_ext2 = lab_env" "fopen_r ''/c'' lab_disk = Some (config_text lab_config)"
    by (simp_all add: lab_ext2_def fopen_r_def lab_disk_def disk1_def)
  have live: "live ?L = own_daemon lab_mem_daemon + {#}"
    by (simp add: lab_mem_daemon_def own_daemon_def own_session_def own_handle_def blank_handle_def
        own_statics_def statics0_def)
  show ?thesis
    by (rule nested_reload_frees_twice [OF _ _ live, where s = lab_handle])
      (use e lab_init lab_parse in \<open>simp_all add: lab_mem_daemon_def lab_handle_def list_empty_def\<close>)
qed

end
