(* ===== verification/Spec2Isabelle.thy ===== *)
theory Spec2Isabelle
  imports Am_List Am_Utils Am_Base64 Am_Urlcode Am_Regex Am_File Am_Output Am_State Am_Feed
    Am_Downloads Am_Xml Am_Json Am_Web Am_Torrent Am_Notify Am_Handle Am_Config Am_Config_Text
    Am_Config_Inv
    Am_Process Am_Process_Laws Am_Check_Laws Am_Session Am_Session_Laws Am_Width_Laws
    Am_Web_Total Am_Rpc_Total Am_Check_Total Am_Daemon_Total Am_Interleaving Am_History_Laws
    Am_Tests Am_List_Test
    Am_Memory Am_Web_Memory Am_Rpc_Memory Am_Check_Memory Am_Handle_Memory Am_Config_Memory
    Am_Session_Memory Am_Reload_Laws
begin

text \<open>
  Automatic, a daemon that downloads torrents announced in RSS feeds: a model of its C sources
  (\<^verbatim>\<open>src/src\<close>, \<^verbatim>\<open>src/include\<close>) and theorems about it.

  \<^bold>\<open>The program.\<close>  \<open>main\<close> reads the command line and the configuration file, which gives it feeds
  and filters, restores the history of downloads from the state file, and then checks the feeds
  in a loop: it fetches a feed over HTTP, turns the XML into items, and takes each item a filter
  wants and the history does not contain.  A torrent is fetched and handed to Transmission (by
  RPC, by a program, or as a file), a magnet link by RPC only; the result is announced through
  Prowl or Pushover; a success enters the history, which is saved at once.  SIGHUP reloads the
  configuration, SIGTERM and SIGINT end the loop.

  \<^bold>\<open>The theories\<close>, in the order of their imports; each opens with what it models.

  \<^item> \<^verbatim>\<open>Am_Prelude\<close>: faults (\<open>fault\<close>, \<open>'a res\<close>: what C code does when it leaves defined behaviour),
    integer conversions, the parts of the C library in use, the predicate \<open>returns\<close> (a computation
    does not fault, and what its result satisfies), and contracts as locales: \<open>codec\<close> (decode inverts
    encode), \<open>machine\<close> (an invariant of a step relation), \<open>terminating\<close> and \<open>total_machine\<close> (a machine
    that runs down a measure, and one that moreover never faults), \<open>simulation\<close>.
  \<^item> \<^verbatim>\<open>Am_List\<close> (\<^verbatim>\<open>list.c\<close>): every list operation on an explicit store; the locale \<open>list_store\<close> is
    the interface of the list, interpreted on the store.
  \<^item> \<^verbatim>\<open>Am_Utils\<close>, \<^verbatim>\<open>Am_Base64\<close>, \<^verbatim>\<open>Am_Urlcode\<close>, \<^verbatim>\<open>Am_Regex\<close> (\<^verbatim>\<open>utils.c\<close>, \<^verbatim>\<open>base64.c\<close>, \<^verbatim>\<open>urlcode.c\<close>,
    \<^verbatim>\<open>regex.c\<close>): strings, encodings, matching and template substitution.
  \<^item> \<^verbatim>\<open>Am_File\<close>, \<^verbatim>\<open>Am_Output\<close>, \<^verbatim>\<open>Am_State\<close> (\<^verbatim>\<open>file.c\<close>, \<^verbatim>\<open>output.c\<close>, \<^verbatim>\<open>state.c\<close>): the file system
    (record \<open>world\<close>), log and pid file, the state file.
  \<^item> \<^verbatim>\<open>Am_Feed\<close>, \<^verbatim>\<open>Am_Downloads\<close>, \<^verbatim>\<open>Am_Xml\<close> (\<^verbatim>\<open>feed_item.c\<close>, \<^verbatim>\<open>filters.c\<close>, \<^verbatim>\<open>rss_feed.c\<close>, \<^verbatim>\<open>downloads.c\<close>,
    \<^verbatim>\<open>xml_parser.c\<close>): the data, the history on the store and as a list, the extraction of items.
  \<^item> \<^verbatim>\<open>Am_Json\<close>, \<^verbatim>\<open>Am_Web\<close>, \<^verbatim>\<open>Am_Torrent\<close>, \<^verbatim>\<open>Am_Notify\<close> (\<^verbatim>\<open>json.c\<close>, \<^verbatim>\<open>web.c\<close>, \<^verbatim>\<open>torrent.c\<close>,
    \<^verbatim>\<open>transmission.c\<close>, \<^verbatim>\<open>prowl.c\<close>, \<^verbatim>\<open>pushover.c\<close>): RPC packets, HTTP with its callbacks and
    buffers, uploads, external programs, notifications.
  \<^item> \<^verbatim>\<open>Am_Handle\<close>, \<^verbatim>\<open>Am_Config\<close> (\<^verbatim>\<open>automatic.h\<close>, \<^verbatim>\<open>config_parser.c\<close>): the session handle and the parser
    of the configuration; \<^verbatim>\<open>Am_Config_Inv\<close> is the rule for what it preserves (locale
    \<open>option_invariant\<close>), \<^verbatim>\<open>Am_Config_Text\<close> says what it makes of well-formed text.
  \<^item> \<^verbatim>\<open>Am_Process\<close> (\<^verbatim>\<open>automatic.c\<close> 424--695): the check of a feed; \<^verbatim>\<open>Am_Process_Laws\<close>: which items are
    taken, what becomes of the history, when nothing is requested; \<^verbatim>\<open>Am_Check_Laws\<close>: the first check
    of a feed evicts nothing.
  \<^item> \<^verbatim>\<open>Am_Session\<close> (\<^verbatim>\<open>automatic.c\<close>, the rest): command line, start, signals, reload, main loop as the
    step relation \<open>step\<close>; \<^verbatim>\<open>Am_Session_Laws\<close>: invariant of the reachable states, end of the loop,
    what a reload keeps; \<^verbatim>\<open>Am_Width_Laws\<close>: the type invariant of the session.
  \<^item> \<^verbatim>\<open>Am_Web_Total\<close>, \<^verbatim>\<open>Am_Rpc_Total\<close>, \<^verbatim>\<open>Am_Check_Total\<close>, \<^verbatim>\<open>Am_Daemon_Total\<close>: total correctness.  Under a
    contract on the libraries, the server and the configuration, every function from \<open>getHTTPData\<close>
    up to \<open>main_init\<close>, \<open>main_step\<close> and \<open>signal_handler\<close> returns.
  \<^item> \<^verbatim>\<open>Am_Interleaving\<close>: a finer machine, in which signals arrive inside the check of a feed, and the
    proof that it refines \<open>step\<close>; \<^verbatim>\<open>Am_History_Laws\<close>: how long the finer machine remembers an item, over
    any number of checks and across a restart.
  \<^item> \<^verbatim>\<open>Am_Memory\<close>, \<^verbatim>\<open>Am_Web_Memory\<close>, \<^verbatim>\<open>Am_Rpc_Memory\<close>, \<^verbatim>\<open>Am_Check_Memory\<close>: the allocator of
    \<^verbatim>\<open>utils.c\<close>, and \<^verbatim>\<open>web.c\<close>, its callers and the check of a feed once more, with the objects they
    allocate on a ledger; what each of them releases and what it leaves behind.
  \<^item> \<^verbatim>\<open>Am_Handle_Memory\<close>, \<^verbatim>\<open>Am_Config_Memory\<close>, \<^verbatim>\<open>Am_Session_Memory\<close>: the session with its lists, the
    parser of the configuration file, and the setup, reload and end of a session, on the ledger;
    \<^verbatim>\<open>Am_Reload_Laws\<close>: what a SIGHUP does while the session is being freed.
  \<^item> \<^verbatim>\<open>Am_Tests\<close>, \<^verbatim>\<open>Am_List_Test\<close> (\<^verbatim>\<open>src/tests\<close>): the repository's test programs, run on the model.

  \<^bold>\<open>Correspondence.\<close>  A definition has the name of the C function (\<open>am_set_option\<close> for \<open>set_option\<close>,
  \<open>from_hex\<close> and others unchanged); parts of a long function are separate definitions
  (\<open>process_item\<close>, \<open>add_item\<close>, \<open>item_result\<close> of \<open>processRSSList\<close>; \<open>config_turn\<close> of
  \<open>parse_config_file\<close>).  Static variables are fields of \<open>web\<close>, \<open>world\<close> and \<open>daemon\<close>.  A pointer that
  may be NULL is an \<open>option\<close>; an assertion, an overrun or a NULL dereference is a value
  \<open>Inl fault\<close>.  PCRE, libcurl, libxml2, the shell, the environment and what the kernel answers to
  \<open>fork\<close> are parameters; libcurl is a function from a handle and the state of the net to a
  sequence of callbacks, so that a server may answer anything.

  \<^bold>\<open>Lists.\<close>  From \<^verbatim>\<open>Am_Feed\<close> on the C lists are HOL lists.  \<^verbatim>\<open>Am_List\<close> and \<^verbatim>\<open>Am_Downloads\<close> prove that
  the operations on the store implement them, and the theorem \<open>history_refines_store\<close> below
  closes the gap for the history.

  \<^bold>\<open>Termination.\<close>  All loops are recursive functions with a measure, except the growth of a
  buffer by doubling (\<open>double_size\<close>, total for a non-empty buffer) and the walks over the store,
  which are partial functions proved to return on well-formed lists.  There is no fuel, except in
  \<open>send_loop\<close>, whose counter is the code's own \<open>tries\<close>.

  \<^bold>\<open>Total correctness.\<close>  The other theorems speak of computations that return; \<open>check_is_total\<close>,
  \<open>start_is_total\<close>, \<open>daemon_never_faults\<close> and \<open>daemon_terminates\<close> show that they do.  The contract: PCRE fills in as
  many strings as it reports (\<open>good_pcre\<close>); a header line is shorter than 4096 characters, and one
  with a session identifier ends it with white space before 173; an announced body arrives, and
  a status of 200 comes with a text of fewer than \<open>MAX_BODY\<close> = 2^30 - 2^20 bytes (\<open>good_server\<close>);
  an announced length is below 2^31 - 1 (\<open>modest\<close>);
  item addresses fit the path buffer and what a rewrite may make of them fits 1024 bytes
  (\<open>good_item\<close>); Transmission is addressed by RPC under a host name of fewer than 900 characters and
  with folders of fewer than 2^20 (\<open>good_session\<close>).  Each clause excludes a fault the code really
  has or a size its buffers do not reserve.  For the daemon the configuration file must be one the
  parser gets through to such a session or to an error (\<open>reloadable\<close>; a well-formed text is, by
  \<open>parse_config_file_text\<close>), and the log, the pid file and the history must be other files
  (\<open>good_launch\<close>): a check then writes no file but the history (\<open>same_file\<close>), so the file keeps
  its text and every reload installs a session that keeps the contract.  \<open>processFile\<close> is one step
  of the machines.

  \<^bold>\<open>Interleaving.\<close>  In \<open>step\<close> a signal handler runs between two steps of \<open>main\<close>; a step is the check of
  one feed, or one of the small steps around it.  In \<open>fine_step\<close> the handlers also run inside a
  check: after the transfer, after the parsing and between any two items.  During a check they only
  set \<open>closing\<close> and \<open>seenHUP\<close> (\<open>signal_during_check\<close>), which a check does not read, and
  \<open>fine_refines_coarse\<close> concludes that the finer machine reaches nothing new between checks.  In both
  machines the deferred reload (\<^verbatim>\<open>automatic.c\<close> 794--796) and the shutdown are one step each: in C main
  calls the handler itself there, SIGHUP is not blocked, and a SIGHUP that arrives between
  \<open>session_free(mySession)\<close> and the assignment of the new session runs the handler on the freed one.
  The theorems on the machines (\<open>daemon_invariant\<close>, \<open>daemon_never_faults\<close> and their like) say nothing
  of such a signal; \<open>nested_reload_frees_twice\<close> shows on the ledger that it frees the session twice.

  \<^bold>\<open>Memory of items.\<close>  The history keeps its newest entries, as many as \<open>max_bucket_items\<close>, so an item
  is not skipped for ever.  \<open>between_reloads x cfg xml f n g\<close> is an execution of the finer machine from \<open>f\<close> to
  \<open>g\<close> without a reload in which \<open>n\<close> steps change the history and its bound does not wrap around;
  \<open>no_second_download\<close> and \<open>no_download_after_restart\<close> show that an entry is effective until as many
  others as the bound allows have been made behind it.  They leave out the test run on a local
  file (\<open>xml\<close>); what a reload keeps is \<open>reload_keeps_history\<close>.

  \<^bold>\<open>Memory.\<close>  In the memory theories an object (a block of the heap, a handle or a header list of
  libcurl) has an address, and the ledger (record \<open>ledger\<close>) holds the live ones.  The structures of
  \<^verbatim>\<open>web.c\<close>, their strings and buffers, packets, texts of answers and rewritten addresses are such
  objects; releasing what is not live is the fault \<open>BadFree\<close>, and addresses are never used again.  A
  definition \<open>f_mem\<close> is the function \<open>f\<close> on the ledger.  The judgement \<open>runs P m v e own K\<close> compares it
  with the model on plain values: started with the objects \<open>P\<close> and any others, the operation \<open>m\<close>
  has the fault or the result of \<open>v\<close>, and of \<open>P\<close> remain the objects the result owns and one lost
  object for each kind in \<open>K\<close>.  Its rules follow the program text (\<open>runs_bind\<close>, \<open>runs_store\<close>,
  \<open>runs_realloc\<close>, and \<open>runs_free\<close> of the locale \<open>resource\<close>, interpreted for every kind of object).  What
  is lost: the handle of a failed transfer (\<open>net_down_leaks\<close>), a response whose status is not 200 in
  \<open>changeUploadSpeed\<close> and \<open>getRPCVersion\<close>, all but the last of several file names in one transfer,
  the handle of a download without a session, and the old value of an option or suboption that a
  configuration file repeats (\<open>config_file_memory\<close> counts them; the paths, which \<open>set_path\<close> frees, are
  not among them).  A reload frees exactly one of the two sessions (\<open>signal_memory\<close>), the end of the
  daemon the last one (\<open>shutdown_memory\<close>).  A pointer carries the value of what it points to, so the
  ledger finds every second release, but not the use of what has been released.  \<open>processFeed_memory\<close> therefore assumes a server that
  names at most one file in a transfer (\<open>one_name\<close>) and no upload limit (\<open>upspeed\<close> at most 0).

  \<^bold>\<open>Not modelled.\<close>  What lies behind a header line: libcurl does not terminate the text it hands to a
  header callback, and \<open>getRegExMatch\<close> takes its length with \<open>strlen\<close>; in the model the text ends with
  the line (the one scan of a line that needs no regular expression, that for the session
  identifier, is \<open>OutOfBounds\<close> there).  Signals inside a reload or the shutdown (above).  The wording of log messages inside \<^verbatim>\<open>automatic.c\<close> and the parser (the logger itself
  is); standard streams, \<open>umask\<close> and the terminal signals; failing memory allocation; the
  release of feed items, and of the buffers that \<^verbatim>\<open>regex.c\<close>, \<^verbatim>\<open>xml_parser.c\<close> and \<^verbatim>\<open>file.c\<close> make
  and free themselves, which are not on the ledger; \<^verbatim>\<open>memwatch.c\<close>, a third-party
  allocation checker; of the test programs \<open>testIsRegexMatch\<close>, whose answers are PCRE's alone, and
  those that need a server or files (HTTP, Prowl, Pushover, parser); printing functions for
  debugging; \<open>usage\<close>.
\<close>

section \<open>Properties that span components\<close>

text \<open>C17: the lists of the session model stand for the C lists on the store: on any store that holds the
  history, \<open>has_been_downloaded\<close> answers what the check tests, and \<open>addToBucket\<close> leaves a store
  that holds the history after the item has been remembered.\<close>

theorem history_refines_store:
  assumes "repr_ref (p, h) (downloads s)" "Suc (length (downloads s)) < 2 ^ 32"
    and "item_key i = Some g" "g \<noteq> []" "NUL \<notin> set g"
  shows "has_been_downloaded h p i = Some (seen (downloads s) i) \<and>
    (\<exists>p' h'. addToBucket (item_key i) p (max_bucket_items s) h = Some (0, p', h') \<and>
       repr_ref (p', h') (downloads (remembered i s)))"
proof -
  have "am_strdup (item_key i) \<noteq> None" using assms(3-5) by (simp add: am_strdup_Some)
  then have "\<exists>p' h'. addToBucket (item_key i) p (max_bucket_items s) h = Some (0, p', h') \<and>
      repr_ref (p', h') (remember (item_key i) (downloads s) (max_bucket_items s))"
    by (intro addToBucket_refines [OF assms(1,2)]) simp
  then show ?thesis
    using has_been_downloaded_refines [OF assms(1), of i] by (simp add: remembered_def)
qed

theorem history_refines_store_witness:
  "has_been_downloaded (snd bucket1) (fst bucket1) (lab_item ''t42'') =
      Some (seen (downloads (lab_session\<lparr>downloads := [''u1'', ''u0'']\<rparr>)) (lab_item ''t42'')) \<and>
    (\<exists>p' h'. addToBucket (item_key (lab_item ''t42'')) (fst bucket1)
         (max_bucket_items (lab_session\<lparr>downloads := [''u1'', ''u0'']\<rparr>)) (snd bucket1) = Some (0, p', h') \<and>
       repr_ref (p', h') (downloads (remembered (lab_item ''t42'')
         (lab_session\<lparr>downloads := [''u1'', ''u0'']\<rparr>))))"
  by (rule history_refines_store [where g = "''t42''"]) (simp_all add: bucket1_repr NUL_def item_key_def)

end
